(* ===== verification/Kavo_Prelude.thy ===== *)
theory Kavo_Prelude
  imports "HOL-Library.Word" "HOL-Library.Char_ord" "HOL-Library.List_Lexorder"
    "HOL-Library.Sublist"
begin

unbundle bit_operations_syntax

text \<open>
  Shared vocabulary of the development: the machine types of the Go source, results that are
  either an error or a value, Go strings as byte strings with the few \<^verbatim>\<open>strings\<close> functions the
  sources call, and the generic lemmas about lists, words and sorted keys that the component
  theories use.

  A Go \<^verbatim>\<open>string\<close> is a sequence of bytes compared bytewise; Isabelle's \<open>string\<close> is a list of
  8-bit characters and \<open>HOL-Library.List_Lexorder\<close> with \<open>HOL-Library.Char_ord\<close> orders it
  the same way.  Object data is a list of bytes (\<open>8 word\<close>).
\<close>

type_synonym byte = "8 word"
type_synonym bytes = "8 word list"
type_synonym uint32 = "32 word"
type_synonym uint64 = "64 word"

named_theorems go_simps "what the Go library functions of the prelude compute"
named_theorems inv_intros "invariant preservation, one rule per operation"

subsection \<open>Signed 64-bit integers\<close>

text \<open>
  Go's \<^verbatim>\<open>int64\<close> arithmetic wraps.  Sizes and offsets are modelled as \<open>int\<close>, and wherever the
  source adds or subtracts values a client controls the result is passed through \<open>i64\<close>.
\<close>

definition max_int64 :: int where
  "max_int64 = 9223372036854775807"

definition i64 :: "int \<Rightarrow> int" where
  "i64 x = (x + 2 ^ 63) mod 2 ^ 64 - 2 ^ 63"

definition in_i64 :: "int \<Rightarrow> bool" where
  "in_i64 x \<longleftrightarrow> - (2 ^ 63) \<le> x \<and> x < 2 ^ 63"

lemma i64_id [simp]: "in_i64 x \<Longrightarrow> i64 x = x"
  by (simp add: i64_def in_i64_def)

lemma i64_range [simp]: "in_i64 (i64 x)"
proof -
  have "(x + 2 ^ 63) mod 2 ^ 64 < (2 ^ 64 :: int)" by (rule pos_mod_bound) simp
  moreover have "0 \<le> (x + 2 ^ 63) mod (2 ^ 64 :: int)" by (rule pos_mod_sign) simp
  ultimately show ?thesis by (simp add: i64_def in_i64_def)
qed

lemma in_i64_between: "in_i64 b \<Longrightarrow> 0 \<le> a \<Longrightarrow> a \<le> b \<Longrightarrow> in_i64 a"
  by (simp add: in_i64_def)

subsection \<open>Errors and results\<close>

text \<open>
  The sentinel errors of the sources.  A Go error wraps others, and callers ask \<^verbatim>\<open>errors.Is\<close> for
  one of them, so an error is the list of sentinels it wraps; what only formats a message is
  \<open>Other\<close>.
\<close>

datatype sentinel =
    EOF | ErrUnexpectedEOF
  | store_ErrNotFound | ErrChecksumMismatch | ErrInvalidID | ErrVerificationFailed
  | peer_ErrNotFound
  | ErrTooFewShards
  | meta_ErrNotFound | ErrChanged | ErrNotWriting
  | ErrQuorum | ErrBadDigest | ErrNoSuchPart | ErrPartMismatch | ErrPartOrder
  | ErrUnrepairable | ErrRotUnrecovered
  | ErrMissingSignature | ErrMalformed | ErrMissingDate | ErrUnknownKey | ErrMismatch | ErrSkew
  | ErrPayload
  | errRangeSyntax
  | Other string

type_synonym error = "sentinel list"

definition errors_Is :: "error \<Rightarrow> sentinel \<Rightarrow> bool" where
  "errors_Is e s \<longleftrightarrow> s \<in> set e"

text \<open>An \<^verbatim>\<open>io.Reader\<close>: the bytes it yields, and the error it ends with (none is a clean EOF).\<close>

record reader =
  rdata :: bytes
  rerr :: "error option"

definition bytes_NewReader :: "bytes \<Rightarrow> reader" where
  "bytes_NewReader data = \<lparr>rdata = data, rerr = None\<rparr>"

lemma bytes_NewReader_simps [simp]:
  "rdata (bytes_NewReader data) = data" "rerr (bytes_NewReader data) = None"
  by (simp_all add: bytes_NewReader_def)

subsection \<open>Strings\<close>

definition HasPrefix :: "string \<Rightarrow> string \<Rightarrow> bool" where
  "HasPrefix s p \<longleftrightarrow> take (length p) s = p"

definition HasSuffix :: "string \<Rightarrow> string \<Rightarrow> bool" where
  "HasSuffix s p \<longleftrightarrow> length p \<le> length s \<and> drop (length s - length p) s = p"

definition TrimPrefix :: "string \<Rightarrow> string \<Rightarrow> string" where
  "TrimPrefix s p = (if HasPrefix s p then drop (length p) s else s)"

definition CutPrefix :: "string \<Rightarrow> string \<Rightarrow> string option" where
  "CutPrefix s p = (if HasPrefix s p then Some (drop (length p) s) else None)"

text \<open>\<^verbatim>\<open>strings.Index\<close>: the first position at which the separator occurs.\<close>

fun Index :: "string \<Rightarrow> string \<Rightarrow> nat option" where
  "Index [] sep = (if sep = [] then Some 0 else None)"
| "Index (c # s) sep =
     (if HasPrefix (c # s) sep then Some 0 else map_option Suc (Index s sep))"

definition Contains :: "string \<Rightarrow> string \<Rightarrow> bool" where
  "Contains s sep \<longleftrightarrow> Index s sep \<noteq> None"

text \<open>\<^verbatim>\<open>strings.Cut\<close>: the parts before and after the first separator, if there is one.\<close>

definition Cut :: "string \<Rightarrow> string \<Rightarrow> (string \<times> string) option" where
  "Cut s sep = (case Index s sep of
      None \<Rightarrow> None
    | Some i \<Rightarrow> Some (take i s, drop (i + length sep) s))"

lemma HasPrefix_prefix [go_simps]: "HasPrefix s p \<longleftrightarrow> prefix p s"
  unfolding HasPrefix_def
  by (metis append_eq_conv_conj append_take_drop_id prefix_def)

lemma HasPrefix_append [simp]: "HasPrefix (p @ s) p"
  by (simp add: HasPrefix_def)

lemma HasPrefix_Nil [simp]: "HasPrefix s []"
  by (simp add: HasPrefix_def)

lemma TrimPrefix_append [simp]: "TrimPrefix (p @ s) p = s"
  by (simp add: TrimPrefix_def)

lemma Index_Some:
  "Index s sep = Some i \<Longrightarrow> i + length sep \<le> length s \<and> take (length sep) (drop i s) = sep"
proof (induction s sep arbitrary: i rule: Index.induct)
  case (1 sep)
  then show ?case by (auto split: if_splits)
next
  case (2 c s sep)
  show ?case
  proof (cases "HasPrefix (c # s) sep")
    case True
    then have "i = 0" using "2.prems" by simp
    moreover have "prefix sep (c # s)" using True by (simp only: HasPrefix_prefix)
    then have "length sep \<le> length (c # s)" by (rule prefix_length_le)
    moreover have "take (length sep) (c # s) = sep" using True by (simp add: HasPrefix_def)
    ultimately show ?thesis by simp
  next
    case False
    then obtain j where "Index s sep = Some j" "i = Suc j" using "2.prems" by auto
    then show ?thesis using "2.IH"[OF False] by auto
  qed
qed

subsection \<open>Ordered keys\<close>

text \<open>The byte order on keys: a proper prefix sorts first, and a common prefix cancels.\<close>

lemma less_append [simp]: "(s :: string) < s @ c # t"
  by (induction s) auto

lemma less_eq_append [simp]: "(s :: string) \<le> s @ t"
  by (cases t) (auto intro: less_imp_le)

lemma append_less_append [simp]: "(p @ s < p @ t) \<longleftrightarrow> (s < (t :: string))"
  by (induction p) auto

lemma append_le_append [simp]: "(p @ s \<le> p @ t) \<longleftrightarrow> (s \<le> (t :: string))"
  by (induction p) auto

lemma sorted_wrt_less_set_eq:
  fixes xs ys :: "'a :: linorder list"
  assumes "sorted_wrt (<) xs" "sorted_wrt (<) ys" "set xs = set ys"
  shows "xs = ys"
  using assms by (simp add: strict_sorted_equal)

subsection \<open>Lists\<close>

lemma filter_nth_split:
  "i < length xs \<Longrightarrow> xs = take i xs @ xs ! i # drop (Suc i) xs"
  by (simp add: id_take_nth_drop)

lemma sum_list_map_pos:
  "(\<And>x. x \<in> set xs \<Longrightarrow> 0 \<le> f x) \<Longrightarrow> 0 \<le> sum_list (map (f :: 'a \<Rightarrow> int) xs)"
  by (induction xs) auto

lemma length_filter_card:
  "distinct xs \<Longrightarrow> length (filter P xs) = card {x \<in> set xs. P x}"
  by (metis distinct_card distinct_filter set_filter)

lemma map_of_filter_key:
  "map_of (filter (\<lambda>(k, v). P k) xs) k = (if P k then map_of xs k else None)"
  by (induction xs) auto

lemma sorted_le_last: "sorted xs \<Longrightarrow> x \<in> set xs \<Longrightarrow> x \<le> last xs"
  by (induction xs) (auto dest: last_in_set)

lemma sorted_fst_unique:
  fixes xs ys :: "('a :: linorder \<times> 'b) list"
  assumes "sorted_wrt (<) (map fst xs)" "sorted_wrt (<) (map fst ys)" "set xs = set ys"
  shows "xs = ys"
proof (rule map_sorted_distinct_set_unique[where f = fst])
  show "inj_on fst (set xs \<union> set ys)"
    using assms by (simp add: strict_sorted_iff distinct_map)
qed (use assms in \<open>simp_all add: strict_sorted_iff\<close>)

end
