(* ===== verification/Crc.thy ===== *)
theory Crc
  imports Kavo_Prelude
begin

unbundle bit_operations_syntax

text \<open>
  The checksums of \<^verbatim>\<open>internal/object/crc.go\<close>.  The reflected cyclic redundancy checks of Go's
  \<^verbatim>\<open>hash/crc32\<close> and \<^verbatim>\<open>hash/crc64\<close> are given bit by bit; the combination of two checksums is
  the matrix routine of the source.  The main result is that combining agrees with hashing the
  concatenation, for CRC-32C, CRC-32 and CRC-64/NVME.
\<close>

section \<open>Definitions\<close>

text \<open>One bit of a reflected CRC: shift right, and fold the polynomial in when a one leaves.\<close>

definition crc_bit :: "'a::len word \<Rightarrow> 'a word \<Rightarrow> 'a word" where
  "crc_bit poly c = (if bit c 0 then drop_bit 1 c XOR poly else drop_bit 1 c)"

fun crc_update :: "'a::len word \<Rightarrow> 'a word \<Rightarrow> bytes \<Rightarrow> 'a word" where
  "crc_update poly c [] = c"
| "crc_update poly c (b # bs) = crc_update poly ((crc_bit poly ^^ 8) (c XOR ucast b)) bs"

text \<open>\<^verbatim>\<open>crc32.Update\<close> and \<^verbatim>\<open>crc64.Update\<close> complement the register on the way in and out.\<close>

definition crc_Update :: "'a::len word \<Rightarrow> 'a word \<Rightarrow> bytes \<Rightarrow> 'a word" where
  "crc_Update poly crc p = NOT (crc_update poly (NOT crc) p)"

definition crc_Checksum :: "'a::len word \<Rightarrow> bytes \<Rightarrow> 'a word" where
  "crc_Checksum poly p = crc_Update poly 0 p"

definition Castagnoli :: uint32 where
  "Castagnoli = 0x82f63b78"

definition IEEE :: uint32 where
  "IEEE = 0xedb88320"

definition crc64NVMEPoly :: uint64 where
  "crc64NVMEPoly = 0xad93d23594c93659"

text \<open>\<^verbatim>\<open>bits.Reverse64\<close>.\<close>

definition Reverse64 :: "uint64 \<Rightarrow> uint64" where
  "Reverse64 w = fold (\<lambda>i acc. if bit w i then set_bit (63 - i) acc else acc) [0..<64] 0"

definition CRC32C :: "bytes \<Rightarrow> uint32" where
  "CRC32C data = crc_Checksum Castagnoli data"

definition CRC32 :: "bytes \<Rightarrow> uint32" where
  "CRC32 data = crc_Checksum IEEE data"

definition CRC64NVME :: "bytes \<Rightarrow> uint64" where
  "CRC64NVME data = crc_Checksum (Reverse64 crc64NVMEPoly) data"

text \<open>
  \<open>gf2_times\<close> is the loop of \<^verbatim>\<open>gf2Times\<close> and \<^verbatim>\<open>gf2Times64\<close>, which differ in the width only;
  \<open>gf2_square\<close> likewise.
\<close>

function gf2_times_loop :: "'a::len word list \<Rightarrow> nat \<Rightarrow> 'a word \<Rightarrow> 'a word \<Rightarrow> 'a word" where
  "gf2_times_loop mat i vec acc =
     (if vec = 0 then acc
      else gf2_times_loop mat (Suc i) (drop_bit 1 vec)
             (if bit vec 0 then acc XOR mat ! i else acc))"
  by pat_completeness auto
termination
proof (relation "measure (\<lambda>(mat, i, vec, acc). unat vec)", goal_cases)
  case (2 mat i vec acc)
  then have "0 < unat vec" by (simp add: unat_gt_0)
  then have "unat vec div 2 < unat vec" by simp
  moreover have "unat (drop_bit 1 vec) = unat vec div 2"
    using unat_drop_bit_eq[of 1 vec] by (simp only: drop_bit_eq_div power_one_right)
  ultimately show ?case by simp
qed simp

declare gf2_times_loop.simps [simp del]

definition gf2_times :: "'a::len word list \<Rightarrow> 'a word \<Rightarrow> 'a word" where
  "gf2_times mat vec = gf2_times_loop mat 0 vec 0"

definition gf2_square :: "'a::len word list \<Rightarrow> 'a word list" where
  "gf2_square mat = map (\<lambda>i. gf2_times mat (mat ! i)) [0..<LENGTH('a)]"

definition gf2Times :: "uint32 list \<Rightarrow> uint32 \<Rightarrow> uint32" where
  "gf2Times = gf2_times"

definition gf2Square :: "uint32 list \<Rightarrow> uint32 list" where
  "gf2Square = gf2_square"

definition gf2Times64 :: "uint64 list \<Rightarrow> uint64 \<Rightarrow> uint64" where
  "gf2Times64 = gf2_times"

definition gf2Square64 :: "uint64 list \<Rightarrow> uint64 list" where
  "gf2Square64 = gf2_square"

text \<open>The initial matrix: row 0 is the polynomial, row \<open>i\<close> the single bit \<open>i - 1\<close>.\<close>

fun crc_rows :: "'a::len word \<Rightarrow> nat \<Rightarrow> 'a word list" where
  "crc_rows row 0 = []"
| "crc_rows row (Suc k) = row # crc_rows (push_bit 1 row) k"

definition crc_odd :: "'a::len word \<Rightarrow> 'a word list" where
  "crc_odd poly = poly # crc_rows 1 (LENGTH('a) - 1)"

function combine_loop :: "'a::len word list \<Rightarrow> nat \<Rightarrow> 'a word \<Rightarrow> 'a word" where
  "combine_loop oddm n a =
     (let evenm = gf2_square oddm;
          a1 = (if n AND 1 \<noteq> 0 then gf2_times evenm a else a);
          n1 = drop_bit 1 n
      in if n1 = 0 then a1
         else let oddm2 = gf2_square evenm;
                  a2 = (if n1 AND 1 \<noteq> 0 then gf2_times oddm2 a1 else a1);
                  n2 = drop_bit 1 n1
              in if n2 = 0 then a2 else combine_loop oddm2 n2 a2)"
  by pat_completeness auto
termination
  by (relation "measure (\<lambda>(oddm, n, a). n)") (auto simp: drop_bit_eq_div)

declare combine_loop.simps [simp del]

definition crc_combine :: "'a::len word \<Rightarrow> 'a word \<Rightarrow> 'a word \<Rightarrow> int \<Rightarrow> 'a word" where
  "crc_combine poly a b n =
     (if n \<le> 0 then a
      else let oddm = crc_odd poly; evenm = gf2_square oddm; oddm2 = gf2_square evenm
           in combine_loop oddm2 (nat n) a XOR b)"

definition CombineCRC32C :: "uint32 \<Rightarrow> uint32 \<Rightarrow> int \<Rightarrow> uint32" where
  "CombineCRC32C a b n = crc_combine Castagnoli a b n"

definition CombineCRC32 :: "uint32 \<Rightarrow> uint32 \<Rightarrow> int \<Rightarrow> uint32" where
  "CombineCRC32 a b n = crc_combine IEEE a b n"

definition CombineCRC64NVME :: "uint64 \<Rightarrow> uint64 \<Rightarrow> int \<Rightarrow> uint64" where
  "CombineCRC64NVME a b n = crc_combine (Reverse64 crc64NVMEPoly) a b n"

section \<open>Linear operators on words over GF(2)\<close>

text \<open>\<open>lincomb mat v n\<close> is the sum of the rows of \<open>mat\<close> selected by the low \<open>n\<close> bits of \<open>v\<close>.\<close>

fun lincomb :: "'a::len word list \<Rightarrow> 'a word \<Rightarrow> nat \<Rightarrow> 'a word" where
  "lincomb mat v 0 = 0"
| "lincomb mat v (Suc k) = lincomb mat v k XOR (if bit v k then mat ! k else 0)"

lemma lincomb_xor: "lincomb mat (x XOR y) n = lincomb mat x n XOR lincomb mat y n"
  by (induction n) (auto simp: bit_xor_iff ac_simps)

lemma lincomb_zero_bits:
  "i \<le> n \<Longrightarrow> drop_bit i v = 0 \<Longrightarrow> lincomb mat v n = lincomb mat v i"
proof (induction n)
  case (Suc n)
  show ?case
  proof (cases "i = Suc n")
    case False
    then have "i \<le> n" using Suc.prems by simp
    moreover have "\<not> bit v n"
    proof -
      have "bit v n = bit (drop_bit i v) (n - i)" using \<open>i \<le> n\<close> by (simp add: bit_drop_bit_eq)
      then show ?thesis using Suc.prems by simp
    qed
    ultimately show ?thesis using Suc by simp
  qed simp
qed simp

lemma gf2_times_loop_lincomb:
  fixes v :: "'a::len word"
  shows "i \<le> LENGTH('a) \<Longrightarrow>
    gf2_times_loop mat i (drop_bit i v) (lincomb mat v i) = lincomb mat v LENGTH('a)"
proof (induction "LENGTH('a) - i" arbitrary: i)
  case 0
  then have "i = LENGTH('a)" by simp
  then have "drop_bit i v = 0"
    by (auto intro!: bit_word_eqI simp: bit_drop_bit_eq bit_imp_le_length dest: bit_imp_le_length)
  then show ?case using \<open>i = LENGTH('a)\<close> by (simp add: gf2_times_loop.simps)
next
  case (Suc k)
  show ?case
  proof (cases "drop_bit i v = 0")
    case True
    then show ?thesis using lincomb_zero_bits[of i "LENGTH('a)" v mat] Suc.prems
      by (simp add: gf2_times_loop.simps)
  next
    case False
    have step: "(if bit (drop_bit i v) 0 then lincomb mat v i XOR mat ! i else lincomb mat v i)
        = lincomb mat v (Suc i)"
      by (simp add: bit_drop_bit_eq)
    have "drop_bit 1 (drop_bit i v) = drop_bit (Suc i) v" by simp
    then have "gf2_times_loop mat i (drop_bit i v) (lincomb mat v i) =
        gf2_times_loop mat (Suc i) (drop_bit (Suc i) v) (lincomb mat v (Suc i))"
      using False step by (subst gf2_times_loop.simps) simp
    also have "\<dots> = lincomb mat v LENGTH('a)"
      using Suc.hyps(2) Suc.prems by (intro Suc.hyps(1)) auto
    finally show ?thesis .
  qed
qed

lemma gf2_times_lincomb: "gf2_times mat (v :: 'a::len word) = lincomb mat v LENGTH('a)"
  using gf2_times_loop_lincomb[of 0 mat v] by (simp add: gf2_times_def)

text \<open>A GF(2)-linear map is the linear combination of its images of the single bits.\<close>

definition gf2_linear :: "('a::len word \<Rightarrow> 'a word) \<Rightarrow> bool" where
  "gf2_linear f \<longleftrightarrow> (\<forall>x y. f (x XOR y) = f x XOR f y)"

lemma gf2_linearD: "gf2_linear f \<Longrightarrow> f (x XOR y) = f x XOR f y"
  by (simp add: gf2_linear_def)

lemma gf2_linear_zero: "gf2_linear f \<Longrightarrow> f 0 = 0"
  using gf2_linearD[of f 0 0] by simp

lemma gf2_linear_times: "gf2_linear (gf2_times mat)"
  by (simp add: gf2_linear_def gf2_times_lincomb lincomb_xor)

lemma gf2_linear_funpow: "gf2_linear f \<Longrightarrow> gf2_linear (f ^^ n)"
  by (induction n) (auto simp: gf2_linear_def)

lemma gf2_linear_crc_bit: "gf2_linear (crc_bit poly)"
  by (auto simp: gf2_linear_def crc_bit_def bit_xor_iff drop_bit_xor ac_simps)

lemma gf2_linear_lincomb:
  assumes "gf2_linear f" and "\<And>i. i < n \<Longrightarrow> rows ! i = f (mat ! i)"
  shows "f (lincomb mat v n) = lincomb rows v n"
  using assms(2)
proof (induction n)
  case 0
  show ?case by (simp add: gf2_linear_zero[OF assms(1)])
next
  case (Suc n)
  then show ?case
    by (simp add: gf2_linearD[OF assms(1)] gf2_linear_zero[OF assms(1)])
qed

lemma gf2_times_square:
  "gf2_times (gf2_square mat) (v :: 'a::len word) = gf2_times mat (gf2_times mat v)"
proof -
  have "gf2_times mat (lincomb mat v LENGTH('a)) = lincomb (gf2_square mat) v LENGTH('a)"
    by (rule gf2_linear_lincomb[OF gf2_linear_times]) (simp add: gf2_square_def)
  then show ?thesis by (simp add: gf2_times_lincomb)
qed

lemma lincomb_unit_bits:
  fixes v :: "'a::len word"
  assumes "n \<le> LENGTH('a)"
  shows "lincomb (map ((^) 2) [0..<LENGTH('a)]) v n = take_bit n v"
  using assms
proof (induction n)
  case (Suc n)
  then have "lincomb (map ((^) 2) [0..<LENGTH('a)]) v (Suc n) =
      take_bit n v XOR (if bit v n then 2 ^ n else 0)"
    by simp
  also have "\<dots> = take_bit (Suc n) v"
    by (rule bit_word_eqI)
      (use Suc.prems in \<open>auto simp: bit_take_bit_iff bit_xor_iff bit_exp_iff less_Suc_eq\<close>)
  finally show ?case .
qed simp

lemma gf2_linear_by_rows:
  fixes f :: "'a::len word \<Rightarrow> 'a word"
  assumes "gf2_linear f" and "\<And>i. i < LENGTH('a) \<Longrightarrow> rows ! i = f (2 ^ i)"
  shows "gf2_times rows v = f v"
proof -
  have "f (lincomb (map ((^) 2) [0..<LENGTH('a)]) v LENGTH('a)) =
      lincomb rows v LENGTH('a)"
    by (rule gf2_linear_lincomb[OF assms(1)]) (simp add: assms(2))
  then show ?thesis by (simp add: gf2_times_lincomb lincomb_unit_bits)
qed

lemma crc_rows_nth: "i < k \<Longrightarrow> crc_rows row k ! i = push_bit i row"
proof (induction k arbitrary: row i)
  case (Suc k)
  then show ?case by (cases i) (auto simp: push_bit_push_bit)
qed simp

lemma gf2_times_crc_odd: "gf2_times (crc_odd poly) v = crc_bit poly (v :: 'a::len word)"
proof (rule gf2_linear_by_rows[OF gf2_linear_crc_bit])
  fix i assume i: "i < LENGTH('a)"
  show "crc_odd poly ! i = crc_bit poly (2 ^ i)"
  proof (cases i)
    case 0
    have "drop_bit 1 (1 :: 'a word) = 0"
      by (rule bit_word_eqI) (simp add: bit_drop_bit_eq bit_1_iff)
    with 0 show ?thesis by (simp add: crc_odd_def crc_bit_def)
  next
    case (Suc j)
    have "drop_bit 1 (2 ^ Suc j :: 'a word) = 2 ^ j"
      using i Suc by (intro bit_word_eqI) (auto simp: bit_drop_bit_eq bit_exp_iff simp del: power_Suc)
    moreover have "\<not> bit (2 ^ Suc j :: 'a word) 0" by (simp add: bit_exp_iff del: power_Suc)
    ultimately show ?thesis using i Suc by (simp add: crc_odd_def crc_bit_def crc_rows_nth del: power_Suc)
  qed
qed

section \<open>Combining is hashing the concatenation\<close>

lemma funpow_funpow_apply: "(f ^^ m) ((f ^^ n) x) = (f ^^ (m + n)) x"
  by (simp add: funpow_add)

lemma combine_loop_funpow:
  assumes "0 < n" and "\<And>v. gf2_times oddm v = (f ^^ k) v"
  shows "combine_loop oddm n a = (f ^^ (2 * k * n)) (a :: 'a::len word)"
  using assms
proof (induction oddm n a arbitrary: k rule: combine_loop.induct)
  case (1 oddm n a)
  define evenm where "evenm = gf2_square oddm"
  define oddm2 where "oddm2 = gf2_square evenm"
  define n1 where "n1 = n div 2"
  define a1 where "a1 = (if odd n then gf2_times evenm a else a)"
  define a2 where "a2 = (if odd n1 then gf2_times oddm2 a1 else a1)"
  have even_pow: "gf2_times evenm v = (f ^^ (2 * k)) v" for v
    by (simp add: evenm_def gf2_times_square "1.prems"(2) funpow_funpow_apply mult_2)
  have odd_pow: "gf2_times oddm2 v = (f ^^ (4 * k)) v" for v
    by (simp add: oddm2_def gf2_times_square even_pow funpow_funpow_apply)
  have a1: "a1 = (f ^^ (2 * k * (n mod 2))) a"
    by (simp add: a1_def even_pow odd_iff_mod_2_eq_one)
  have a2: "a2 = (f ^^ (4 * k * (n1 mod 2))) a1"
    by (simp add: a2_def odd_pow odd_iff_mod_2_eq_one)
  have unfold: "combine_loop oddm n a =
      (if n1 = 0 then a1 else if n1 div 2 = 0 then a2 else combine_loop oddm2 (n1 div 2) a2)"
    by (subst combine_loop.simps)
      (simp add: Let_def n1_def a1_def a2_def evenm_def oddm2_def drop_bit_eq_div and_one_eq
        odd_iff_mod_2_eq_one)
  show ?case
  proof (cases "n1 div 2 = 0")
    case True
    have "n1 = n1 mod 2" using True by presburger
    moreover have "n = n mod 2 + 2 * n1" by (simp add: n1_def)
    ultimately have n: "n = n mod 2 + 2 * (n1 mod 2)" by presburger
    have "n1 = 0 \<Longrightarrow> a1 = a2" by (simp add: a2_def)
    then have "combine_loop oddm n a = a2" using unfold True by auto
    also have "\<dots> = (f ^^ (2 * k * (n mod 2 + 2 * (n1 mod 2)))) a"
      by (simp add: a1 a2 funpow_funpow_apply algebra_simps)
    finally show ?thesis using n by simp
  next
    case False
    then have "n1 \<noteq> 0" by auto
    have "combine_loop oddm2 (n1 div 2) a2 = (f ^^ (2 * (4 * k) * (n1 div 2))) a2"
    proof (rule "1.IH"[of evenm a1 n1 oddm2 a2 "n1 div 2"], goal_cases)
      case 8
      then show ?case using False by simp
    qed (use False \<open>n1 \<noteq> 0\<close> odd_pow in
        \<open>simp_all add: n1_def a1_def a2_def evenm_def oddm2_def drop_bit_eq_div and_one_eq
          odd_iff_mod_2_eq_one\<close>)
    also have "\<dots> = (f ^^ (2 * (4 * k) * (n1 div 2) + (4 * k * (n1 mod 2) + 2 * k * (n mod 2)))) a"
      by (simp only: a1 a2 funpow_funpow_apply)
    also have "2 * (4 * k) * (n1 div 2) + (4 * k * (n1 mod 2) + 2 * k * (n mod 2)) =
        2 * k * (n mod 2 + 2 * (n1 mod 2 + 2 * (n1 div 2)))"
      by (simp only: algebra_simps)
    also have "n mod 2 + 2 * (n1 mod 2 + 2 * (n1 div 2)) = n"
      by (simp add: n1_def)
    finally show ?thesis using unfold False \<open>n1 \<noteq> 0\<close> by simp
  qed
qed

lemma crc_update_append: "crc_update poly c (xs @ ys) = crc_update poly (crc_update poly c xs) ys"
  by (induction xs arbitrary: c) auto

lemma crc_update_xor:
  "crc_update poly (c XOR d) bs = crc_update poly c bs XOR (crc_bit poly ^^ (8 * length bs)) d"
proof (induction bs arbitrary: c d)
  case (Cons b bs)
  let ?Z = "crc_bit poly ^^ 8"
  have "?Z ((c XOR d) XOR ucast b) = ?Z (c XOR ucast b) XOR ?Z d"
    using gf2_linearD[OF gf2_linear_funpow[OF gf2_linear_crc_bit, of 8], of poly "c XOR ucast b" d]
    by (simp add: ac_simps)
  then show ?case
    using Cons.IH by (simp add: funpow_funpow_apply algebra_simps)
qed simp

lemma crc_Checksum_append:
  "crc_Checksum poly (xs @ ys) =
    (crc_bit poly ^^ (8 * length ys)) (crc_Checksum poly xs) XOR crc_Checksum poly ys"
proof -
  have flip: "NOT (c :: 'a word) XOR NOT 0 = c" for c
    by (rule bit_word_eqI) (simp add: bit_xor_iff bit_not_iff)
  define raw where "raw = crc_update poly (NOT 0) xs"
  have "raw = NOT 0 XOR NOT raw" using flip[of raw] by (simp add: ac_simps)
  then have "crc_update poly raw ys =
      crc_update poly (NOT 0) ys XOR (crc_bit poly ^^ (8 * length ys)) (NOT raw)"
    using crc_update_xor[of poly "NOT 0" "NOT raw" ys] by simp
  then have "NOT (crc_update poly raw ys) =
      (crc_bit poly ^^ (8 * length ys)) (NOT raw) XOR NOT (crc_update poly (NOT 0) ys)"
    by (simp add: bit_eq_iff bit_xor_iff bit_not_iff) blast
  then show ?thesis
    by (simp add: crc_Checksum_def crc_Update_def crc_update_append raw_def)
qed

lemma crc_combine_append:
  fixes poly :: "'a::len word"
  shows "crc_combine poly (crc_Checksum poly xs) (crc_Checksum poly ys) (int (length ys)) =
    crc_Checksum poly (xs @ ys)"
proof (cases "ys = []")
  case True
  then show ?thesis by (simp add: crc_combine_def)
next
  case False
  let ?odd = "gf2_square (gf2_square (crc_odd poly))"
  have "gf2_times ?odd v = (crc_bit poly ^^ 4) v" for v
    by (simp add: gf2_times_square gf2_times_crc_odd numeral_eq_Suc)
  then have "combine_loop ?odd (length ys) (crc_Checksum poly xs) =
      (crc_bit poly ^^ (2 * 4 * length ys)) (crc_Checksum poly xs)"
    using False by (intro combine_loop_funpow) auto
  then show ?thesis
    using False by (simp add: crc_combine_def Let_def crc_Checksum_append)
qed

section \<open>The interface a multipart completion uses\<close>

text \<open>
  Completion folds the parts' checksums together without reading the bytes again.  What it needs
  of a checksum is one law, and what it gets is the checksum of the whole object.
\<close>

locale crc_combiner =
  fixes checksum :: "bytes \<Rightarrow> 'w"
    and combine :: "'w \<Rightarrow> 'w \<Rightarrow> int \<Rightarrow> 'w"
  assumes combine_checksums:
    "combine (checksum xs) (checksum ys) (int (length ys)) = checksum (xs @ ys)"
begin

lemma combine_parts:
  "foldl (\<lambda>acc p. combine acc (checksum p) (int (length p))) (checksum p0) ps =
    checksum (concat (p0 # ps))"
proof (induction ps arbitrary: p0)
  case (Cons p ps)
  then show ?case by (simp add: combine_checksums)
qed simp

end

interpretation crc32c: crc_combiner CRC32C CombineCRC32C
  by unfold_locales (simp add: CRC32C_def CombineCRC32C_def crc_combine_append)

interpretation crc32: crc_combiner CRC32 CombineCRC32
  by unfold_locales (simp add: CRC32_def CombineCRC32_def crc_combine_append)

interpretation crc64nvme: crc_combiner CRC64NVME CombineCRC64NVME
  by unfold_locales (simp add: CRC64NVME_def CombineCRC64NVME_def crc_combine_append)

text \<open>The check values CRC catalogues list for the nine ASCII digits.\<close>

definition check_input :: bytes where
  "check_input = [0x31, 0x32, 0x33, 0x34, 0x35, 0x36, 0x37, 0x38, 0x39]"

lemma funpow_8: "(f ^^ 8) x = f (f (f (f (f (f (f (f x)))))))"
  by (simp add: numeral_eq_Suc)

lemmas crc_eval = crc_Checksum_def crc_Update_def crc_bit_def funpow_8 bit_0 drop_bit_eq_div

lemma CRC32C_check: "CRC32C check_input = 0xe3069283"
  by (simp add: CRC32C_def Castagnoli_def check_input_def crc_eval)

lemma CRC32_check: "CRC32 check_input = 0xcbf43926"
  by (simp add: CRC32_def IEEE_def check_input_def crc_eval)

end
