(* ===== verification/Store.thy ===== *)
theory Store
  imports Crc "HOL-Library.AList"
begin

text \<open>
  The local chunk store of \<^verbatim>\<open>internal/store/store.go\<close>.

  The state is what the process sees (temporary files, chunk files by id, the two-character
  directories) together with what the disk would keep: the directory entries that have been
  fsynced.  An operation is run as the sequence of states its system calls pass through, so that a
  crash can be placed between any two of them.  Every system call may fail; which ones do is the
  argument \<open>F\<close>, so a statement for all \<open>F\<close> is a statement for every pattern of failures.
\<close>

section \<open>State\<close>

record cfile =
  f_data :: bytes
  f_synced :: bool
  f_mtime :: int

record store =
  st_tmp :: "(string \<times> cfile) list"
  st_chunks :: "(string \<times> cfile) list"
  st_disk :: "(string \<times> cfile) list"
  st_dirs :: "string list"
  st_ddirs :: "string list"

record faults =
  fl_create :: bool
  fl_write :: bool
  fl_sync :: bool
  fl_close :: bool
  fl_mkdir :: bool
  fl_rename :: bool
  fl_syncdir :: bool
  fl_open :: bool
  fl_stat :: bool
  fl_remove :: bool
  fl_readdir :: bool
  fl_readsub :: bool
  fl_info :: bool

definition no_faults :: faults where
  "no_faults = \<lparr>fl_create = False, fl_write = False, fl_sync = False, fl_close = False,
     fl_mkdir = False, fl_rename = False, fl_syncdir = False, fl_open = False, fl_stat = False,
     fl_remove = False, fl_readdir = False, fl_readsub = False, fl_info = False\<rparr>"

definition chunk_file :: "store \<Rightarrow> string \<Rightarrow> cfile option" where
  "chunk_file s cid = map_of (st_chunks s) cid"

definition chunk_data :: "store \<Rightarrow> string \<Rightarrow> bytes option" where
  "chunk_data s cid = map_option f_data (chunk_file s cid)"

section \<open>Operations as sequences of states\<close>

type_synonym 'a fsop = "store \<Rightarrow> store list \<times> (error + 'a)"

definition fs_return :: "'a \<Rightarrow> 'a fsop" where
  "fs_return x s = ([], Inr x)"

definition fs_fail :: "error \<Rightarrow> 'a fsop" where
  "fs_fail e s = ([], Inl e)"

definition fs_bind :: "'a fsop \<Rightarrow> ('a \<Rightarrow> 'b fsop) \<Rightarrow> 'b fsop" where
  "fs_bind m f s = (case m s of
      (ss, Inl e) \<Rightarrow> (ss, Inl e)
    | (ss, Inr x) \<Rightarrow> (case f x (last (s # ss)) of (ts, r) \<Rightarrow> (ss @ ts, r)))"

text \<open>A system call: fail leaving the state as it is, or move to the next state.\<close>

definition fs_call :: "bool \<Rightarrow> string \<Rightarrow> (store \<Rightarrow> store) \<Rightarrow> unit fsop" where
  "fs_call fault msg f s = (if fault then ([], Inl [Other msg]) else ([f s], Inr ()))"

definition fs_run :: "'a fsop \<Rightarrow> store \<Rightarrow> store \<times> (error + 'a)" where
  "fs_run m s = (case m s of (ss, r) \<Rightarrow> (last (s # ss), r))"

section \<open>The commit discipline\<close>

definition validateID :: "string \<Rightarrow> error option" where
  "validateID cid =
     (if length cid < 2 \<or> (\<exists>c \<in> set cid. c = CHR ''/'' \<or> c = CHR 0x5C \<or> c = CHR ''.'')
      then Some [ErrInvalidID] else None)"

text \<open>\<^verbatim>\<open>chunks/<id[:2]>/<id>\<close>: the directory is the first two characters.\<close>

definition chunk_dir :: "string \<Rightarrow> string" where
  "chunk_dir cid = take 2 cid"

definition create_temp :: "string \<Rightarrow> int \<Rightarrow> store \<Rightarrow> store" where
  "create_temp t now s =
     s\<lparr>st_tmp := AList.update t \<lparr>f_data = [], f_synced = False, f_mtime = now\<rparr> (st_tmp s)\<rparr>"

definition write_temp :: "string \<Rightarrow> int \<Rightarrow> bytes \<Rightarrow> store \<Rightarrow> store" where
  "write_temp t now data s =
     s\<lparr>st_tmp := AList.update t \<lparr>f_data = data, f_synced = False, f_mtime = now\<rparr> (st_tmp s)\<rparr>"

definition sync_temp :: "string \<Rightarrow> store \<Rightarrow> store" where
  "sync_temp t s = (case map_of (st_tmp s) t of
      None \<Rightarrow> s
    | Some f \<Rightarrow> s\<lparr>st_tmp := AList.update t (f\<lparr>f_synced := True\<rparr>) (st_tmp s)\<rparr>)"

definition mkdir_all :: "string \<Rightarrow> store \<Rightarrow> store" where
  "mkdir_all d s = s\<lparr>st_dirs := List.insert d (st_dirs s)\<rparr>"

definition rename_temp :: "string \<Rightarrow> string \<Rightarrow> store \<Rightarrow> store" where
  "rename_temp t cid s = (case map_of (st_tmp s) t of
      None \<Rightarrow> s
    | Some f \<Rightarrow> s\<lparr>st_tmp := AList.delete t (st_tmp s),
                  st_chunks := AList.update cid f (st_chunks s)\<rparr>)"

definition remove_temp :: "string \<Rightarrow> store \<Rightarrow> store" where
  "remove_temp t s = s\<lparr>st_tmp := AList.delete t (st_tmp s)\<rparr>"

text \<open>
  \<^verbatim>\<open>syncDir\<close>: the entries of one directory reach the disk.  It says nothing about the entry of the
  directory itself in its parent.
\<close>

definition syncDir :: "string \<Rightarrow> store \<Rightarrow> store" where
  "syncDir d s = s\<lparr>st_disk :=
     filter (\<lambda>(cid, f). chunk_dir cid = d) (st_chunks s) @
     filter (\<lambda>(cid, f). chunk_dir cid \<noteq> d) (st_disk s)\<rparr>"

text \<open>\<^verbatim>\<open>io.CopyBuffer\<close> into the temporary file and the hash.\<close>

definition copy_temp :: "faults \<Rightarrow> int \<Rightarrow> string \<Rightarrow> reader \<Rightarrow> (uint32 \<times> int) fsop" where
  "copy_temp F now t r s =
     (let s' = write_temp t now (rdata r) s
      in case rerr r of
           Some e \<Rightarrow> ([s'], Inl e)
         | None \<Rightarrow> if fl_write F then ([s'], Inl [Other ''write''])
                  else ([s'], Inr (CRC32C (rdata r), int (length (rdata r)))))"

definition check_staged ::
  "(uint32 \<Rightarrow> int \<Rightarrow> error option) option \<Rightarrow> uint32 \<Rightarrow> int \<Rightarrow> unit fsop" where
  "check_staged verify crc sz s = (case verify of
      None \<Rightarrow> ([], Inr ())
    | Some v \<Rightarrow> (case v crc sz of None \<Rightarrow> ([], Inr ()) | Some e \<Rightarrow> ([], Inl e)))"

text \<open>The deferred cleanup: unless the write committed, the temporary file goes.\<close>

definition unless_committed :: "string \<Rightarrow> 'a fsop \<Rightarrow> 'a fsop" where
  "unless_committed t m s = (case m s of
      (ss, Inl e) \<Rightarrow> (ss @ [remove_temp t (last (s # ss))], Inl e)
    | (ss, Inr x) \<Rightarrow> (ss, Inr x))"

definition durableWrite ::
  "faults \<Rightarrow> int \<Rightarrow> string \<Rightarrow> string \<Rightarrow> reader \<Rightarrow>
    (uint32 \<Rightarrow> int \<Rightarrow> error option) option \<Rightarrow> (uint32 \<times> int) fsop" where
  "durableWrite F now t cid r verify =
     fs_bind (fs_call (fl_create F) ''create temp'' (create_temp t now)) (\<lambda>_.
     unless_committed t (
       fs_bind (copy_temp F now t r) (\<lambda>(crc, sz).
       fs_bind (check_staged verify crc sz) (\<lambda>_.
       fs_bind (fs_call (fl_sync F) ''fsync'' (sync_temp t)) (\<lambda>_.
       fs_bind (fs_call (fl_close F) ''close'' (\<lambda>s. s)) (\<lambda>_.
       fs_bind (fs_call (fl_mkdir F) ''mkdir'' (mkdir_all (chunk_dir cid))) (\<lambda>_.
       fs_bind (fs_call (fl_rename F) ''commit'' (rename_temp t cid)) (\<lambda>_.
       fs_bind (fs_call (fl_syncdir F) ''fsync dir'' (syncDir (chunk_dir cid))) (\<lambda>_.
       fs_return (crc, sz))))))))))"

definition WriteChunk :: "faults \<Rightarrow> int \<Rightarrow> string \<Rightarrow> string \<Rightarrow> reader \<Rightarrow> (uint32 \<times> int) fsop" where
  "WriteChunk F now t cid r = (case validateID cid of
      Some e \<Rightarrow> fs_fail e
    | None \<Rightarrow> durableWrite F now t cid r None)"

definition verify_chunk :: "uint32 \<Rightarrow> int \<Rightarrow> uint32 \<Rightarrow> int \<Rightarrow> error option" where
  "verify_chunk wantCRC wantSize crc sz =
     (if sz \<noteq> wantSize then Some [ErrVerificationFailed]
      else if crc \<noteq> wantCRC then Some [ErrVerificationFailed]
      else None)"

definition WriteChunkVerified ::
  "faults \<Rightarrow> int \<Rightarrow> string \<Rightarrow> string \<Rightarrow> reader \<Rightarrow> uint32 \<Rightarrow> int \<Rightarrow> unit fsop" where
  "WriteChunkVerified F now t cid r wantCRC wantSize = (case validateID cid of
      Some e \<Rightarrow> fs_fail e
    | None \<Rightarrow> fs_bind (durableWrite F now t cid r (Some (verify_chunk wantCRC wantSize)))
                (\<lambda>_. fs_return ()))"

text \<open>\<^verbatim>\<open>store.Open\<close> empties \<^verbatim>\<open>tmp/\<close> and leaves the chunks alone.\<close>

definition store_Open :: "faults \<Rightarrow> store \<Rightarrow> store \<times> (error + unit)" where
  "store_Open F s =
     (if fl_remove F then (s, Inl [Other ''clean tmp''])
      else let s' = s\<lparr>st_tmp := []\<rparr>
           in if fl_mkdir F then (s', Inl [Other ''init'']) else (s', Inr ()))"

section \<open>Reading, surveying, sweeping\<close>

text \<open>
  \<^verbatim>\<open>Verify\<close>: the same bytes, but a clean EOF becomes \<^const>\<open>ErrChecksumMismatch\<close> unless they hash
  to the expected checksum.
\<close>

definition Verify :: "reader \<Rightarrow> uint32 \<Rightarrow> reader" where
  "Verify r want =
     (if rerr r = None \<and> CRC32C (rdata r) \<noteq> want then r\<lparr>rerr := Some [ErrChecksumMismatch]\<rparr> else r)"

definition ReadChunk :: "faults \<Rightarrow> store \<Rightarrow> string \<Rightarrow> uint32 \<Rightarrow> error + reader" where
  "ReadChunk F s cid wantCRC = (case validateID cid of
      Some e \<Rightarrow> Inl e
    | None \<Rightarrow> (if fl_open F then Inl [Other ''open chunk'']
       else case chunk_data s cid of
              None \<Rightarrow> Inl [store_ErrNotFound]
            | Some data \<Rightarrow> Inr (Verify (bytes_NewReader data) wantCRC)))"

definition HasChunk :: "faults \<Rightarrow> store \<Rightarrow> string \<Rightarrow> error + bool" where
  "HasChunk F s cid = (case validateID cid of
      Some e \<Rightarrow> Inl e
    | None \<Rightarrow> (if fl_stat F then Inl [Other ''stat chunk'']
       else Inr (chunk_file s cid \<noteq> None)))"

fun HasChunks :: "faults \<Rightarrow> store \<Rightarrow> string list \<Rightarrow> error + string list" where
  "HasChunks F s [] = Inr []"
| "HasChunks F s (cid # cids) = (case HasChunk F s cid of
      Inl e \<Rightarrow> if errors_Is e ErrInvalidID then HasChunks F s cids else Inl e
    | Inr held \<Rightarrow> (case HasChunks F s cids of
         Inl e \<Rightarrow> Inl e
       | Inr have_ids \<Rightarrow> Inr (if held then cid # have_ids else have_ids)))"

record chunk_info =
  ci_ID :: string
  ci_Size :: int
  ci_Modified :: int

definition within :: "string \<Rightarrow> string \<Rightarrow> bool" where
  "within dir pre =
     (if length pre > length dir then HasPrefix pre dir else HasPrefix dir pre)"

definition chunk_info_of :: "string \<Rightarrow> cfile \<Rightarrow> chunk_info" where
  "chunk_info_of cid f = \<lparr>ci_ID = cid, ci_Size = int (length (f_data f)), ci_Modified = f_mtime f\<rparr>"

definition chunk_dirs :: "store \<Rightarrow> string list" where
  "chunk_dirs s = sort (remdups (st_dirs s))"

definition dir_files :: "store \<Rightarrow> string \<Rightarrow> string list" where
  "dir_files s dir = sort (remdups (filter (\<lambda>cid. chunk_dir cid = dir) (map fst (st_chunks s))))"

text \<open>
  The directory listing is read once per directory; a file gone since then is skipped.  The
  visitor runs with the state it is given and hands back the next one, and an error of its own ends
  the sweep.
\<close>

type_synonym 'acc visitor = "store \<times> 'acc \<Rightarrow> chunk_info \<Rightarrow> (store \<times> 'acc) \<times> error option"

fun scan_files ::
  "faults \<Rightarrow> string \<Rightarrow> 'acc visitor \<Rightarrow> string list \<Rightarrow> store \<times> 'acc \<Rightarrow> (store \<times> 'acc) \<times> error option"
  where
  "scan_files F pre visit [] acc = (acc, None)"
| "scan_files F pre visit (cid # cids) acc =
     (if \<not> HasPrefix cid pre then scan_files F pre visit cids acc
      else case chunk_file (fst acc) cid of
             None \<Rightarrow> scan_files F pre visit cids acc
           | Some f \<Rightarrow>
               if fl_info F then (acc, Some [Other ''stat chunk''])
               else (case visit acc (chunk_info_of cid f) of
                       (acc', Some e) \<Rightarrow> (acc', Some e)
                     | (acc', None) \<Rightarrow> scan_files F pre visit cids acc'))"

fun scan_dirs ::
  "faults \<Rightarrow> string \<Rightarrow> 'acc visitor \<Rightarrow> string list \<Rightarrow> store \<times> 'acc \<Rightarrow> (store \<times> 'acc) \<times> error option"
  where
  "scan_dirs F pre visit [] acc = (acc, None)"
| "scan_dirs F pre visit (d # ds) acc =
     (if \<not> within d pre then scan_dirs F pre visit ds acc
      else if fl_readsub F then (acc, Some [Other ''list chunks''])
      else case scan_files F pre visit (dir_files (fst acc) d) acc of
             (acc', Some e) \<Rightarrow> (acc', Some e)
           | (acc', None) \<Rightarrow> scan_dirs F pre visit ds acc')"

definition ScanChunks ::
  "faults \<Rightarrow> string \<Rightarrow> 'acc visitor \<Rightarrow> store \<times> 'acc \<Rightarrow> (store \<times> 'acc) \<times> error option" where
  "ScanChunks F pre visit acc =
     (if fl_readdir F then (acc, Some [Other ''list chunk directories''])
      else scan_dirs F pre visit (chunk_dirs (fst acc)) acc)"

definition RemoveChunk :: "faults \<Rightarrow> store \<Rightarrow> string \<Rightarrow> store \<times> (error + unit)" where
  "RemoveChunk F s cid = (case validateID cid of
      Some e \<Rightarrow> (s, Inl e)
    | None \<Rightarrow> (if fl_remove F then (s, Inl [Other ''remove chunk''])
       else (s\<lparr>st_chunks := AList.delete cid (st_chunks s)\<rparr>, Inr ())))"

section \<open>Crashes\<close>

text \<open>
  What a directory entry may be after a crash: nothing if its directory's own entry was lost,
  otherwise the entry as last fsynced or as last renamed; and a file that was not fsynced may come
  back with any contents.
\<close>

definition survives :: "cfile option \<Rightarrow> cfile option \<Rightarrow> bool" where
  "survives f f' = (case f of
      None \<Rightarrow> f' = None
    | Some g \<Rightarrow> (case f' of None \<Rightarrow> False
        | Some g' \<Rightarrow> f_synced g' \<and> (f_synced g \<longrightarrow> f_data g' = f_data g)))"

definition crash :: "store \<Rightarrow> store \<Rightarrow> bool" where
  "crash s s' \<longleftrightarrow>
     set (st_ddirs s) \<subseteq> set (st_dirs s') \<and> set (st_dirs s') \<subseteq> set (st_dirs s) \<and>
     st_ddirs s' = st_dirs s' \<and> st_disk s' = st_chunks s' \<and>
     (\<forall>cid. if chunk_dir cid \<in> set (st_dirs s')
           then survives (map_of (st_chunks s) cid) (chunk_file s' cid) \<or>
                survives (map_of (st_disk s) cid) (chunk_file s' cid)
           else chunk_file s' cid = None)"

text \<open>No chunk is visible, now or after a crash, whose bytes have not reached the disk.\<close>

definition store_inv :: "store \<Rightarrow> bool" where
  "store_inv s \<longleftrightarrow>
     (\<forall>cid f. map_of (st_chunks s) cid = Some f \<longrightarrow> f_synced f) \<and>
     (\<forall>cid f. map_of (st_disk s) cid = Some f \<longrightarrow> f_synced f)"

section \<open>What each system call changes\<close>

lemma create_temp_simps [simp]:
  "st_chunks (create_temp t now s) = st_chunks s" "st_disk (create_temp t now s) = st_disk s"
  "st_dirs (create_temp t now s) = st_dirs s" "st_ddirs (create_temp t now s) = st_ddirs s"
  by (simp_all add: create_temp_def)

lemma write_temp_simps [simp]:
  "st_chunks (write_temp t now d s) = st_chunks s" "st_disk (write_temp t now d s) = st_disk s"
  "st_dirs (write_temp t now d s) = st_dirs s" "st_ddirs (write_temp t now d s) = st_ddirs s"
  "map_of (st_tmp (write_temp t now d s)) t = Some \<lparr>f_data = d, f_synced = False, f_mtime = now\<rparr>"
  by (simp_all add: write_temp_def update_conv')

lemma sync_temp_simps [simp]:
  "st_chunks (sync_temp t s) = st_chunks s" "st_disk (sync_temp t s) = st_disk s"
  "st_dirs (sync_temp t s) = st_dirs s" "st_ddirs (sync_temp t s) = st_ddirs s"
  "map_of (st_tmp (sync_temp t s)) t = map_option (f_synced_update (\<lambda>_. True)) (map_of (st_tmp s) t)"
  by (simp_all add: sync_temp_def update_conv' split: option.splits)

lemma mkdir_all_simps [simp]:
  "st_tmp (mkdir_all d s) = st_tmp s" "st_chunks (mkdir_all d s) = st_chunks s"
  "st_disk (mkdir_all d s) = st_disk s" "st_ddirs (mkdir_all d s) = st_ddirs s"
  by (simp_all add: mkdir_all_def)

lemma set_dirs_mkdir_all [simp]: "set (st_dirs (mkdir_all d s)) = insert d (set (st_dirs s))"
  by (simp add: mkdir_all_def)

lemma rename_temp_simps [simp]:
  "st_disk (rename_temp t cid s) = st_disk s" "st_dirs (rename_temp t cid s) = st_dirs s"
  "st_ddirs (rename_temp t cid s) = st_ddirs s"
  "map_of (st_tmp s) t = Some f \<Longrightarrow>
    map_of (st_chunks (rename_temp t cid s)) = (map_of (st_chunks s))(cid \<mapsto> f)"
  by (simp_all add: rename_temp_def update_conv' split: option.splits)

lemma remove_temp_simps [simp]:
  "st_chunks (remove_temp t s) = st_chunks s" "st_disk (remove_temp t s) = st_disk s"
  "st_dirs (remove_temp t s) = st_dirs s" "st_ddirs (remove_temp t s) = st_ddirs s"
  by (simp_all add: remove_temp_def)

lemma syncDir_simps [simp]:
  "st_tmp (syncDir d s) = st_tmp s" "st_chunks (syncDir d s) = st_chunks s"
  "st_dirs (syncDir d s) = st_dirs s" "st_ddirs (syncDir d s) = st_ddirs s"
  "map_of (st_disk (syncDir d s)) x = (if chunk_dir x = d then map_of (st_chunks s) x else map_of (st_disk s) x)"
  by (simp_all add: syncDir_def map_add_def map_of_filter_key split: option.splits)

lemmas fs_defs = fs_bind_def fs_call_def fs_return_def fs_fail_def unless_committed_def
  copy_temp_def check_staged_def

text \<open>The file a successful copy leaves behind, fsynced.\<close>

definition staged :: "reader \<Rightarrow> int \<Rightarrow> cfile" where
  "staged r now = \<lparr>f_data = rdata r, f_synced = True, f_mtime = now\<rparr>"

definition verified :: "(uint32 \<Rightarrow> int \<Rightarrow> error option) option \<Rightarrow> reader \<Rightarrow> bool" where
  "verified v r = (case v of None \<Rightarrow> True
     | Some f \<Rightarrow> f (CRC32C (rdata r)) (int (length (rdata r))) = None)"

text \<open>How far a write has got: nothing visible yet, or the whole verified file renamed in.\<close>

definition write_progress ::
  "store \<Rightarrow> string \<Rightarrow> reader \<Rightarrow> int \<Rightarrow> (uint32 \<Rightarrow> int \<Rightarrow> error option) option \<Rightarrow> store \<Rightarrow> bool" where
  "write_progress s cid r now v u \<longleftrightarrow>
     (map_of (st_chunks u) = map_of (st_chunks s) \<or>
      rerr r = None \<and> verified v r \<and> chunk_dir cid \<in> set (st_dirs u) \<and>
      map_of (st_chunks u) = (map_of (st_chunks s))(cid \<mapsto> staged r now)) \<and>
     (\<forall>x. map_of (st_disk u) x = map_of (st_disk s) x \<or> map_of (st_disk u) x = map_of (st_chunks u) x) \<and>
     st_ddirs u = st_ddirs s \<and> set (st_dirs s) \<subseteq> set (st_dirs u) \<and> set (st_dirs u) \<subseteq> insert (chunk_dir cid) (set (st_dirs s))"

lemma durableWrite_progress:
  "u \<in> set (fst (durableWrite F now t cid r v s)) \<Longrightarrow> write_progress s cid r now v u"
  by (auto simp: durableWrite_def fs_defs write_progress_def staged_def verified_def Let_def
      split: if_splits option.splits prod.splits sum.splits)

lemma durableWrite_ok:
  "snd (durableWrite F now t cid r v s) = Inr (crc, sz) \<longleftrightarrow>
    \<not> fl_create F \<and> \<not> fl_write F \<and> \<not> fl_sync F \<and> \<not> fl_close F \<and> \<not> fl_mkdir F \<and> \<not> fl_rename F \<and>
    \<not> fl_syncdir F \<and> rerr r = None \<and> verified v r \<and> crc = CRC32C (rdata r) \<and> sz = int (length (rdata r))"
  by (auto simp: durableWrite_def fs_defs verified_def Let_def
      split: if_splits option.splits prod.splits sum.splits)

lemma durableWrite_last:
  assumes "\<not> fl_create F" "\<not> fl_write F" "\<not> fl_sync F" "\<not> fl_close F" "\<not> fl_mkdir F"
    "\<not> fl_rename F" "\<not> fl_syncdir F" "rerr r = None" "verified v r"
  shows "fst (fs_run (durableWrite F now t cid r v) s) =
    syncDir (chunk_dir cid) (rename_temp t cid (mkdir_all (chunk_dir cid)
      (sync_temp t (write_temp t now (rdata r) (create_temp t now s)))))"
proof -
  have "check_staged v (CRC32C (rdata r)) (int (length (rdata r))) u = ([], Inr ())" for u
    using assms(9) by (auto simp: check_staged_def verified_def split: option.splits)
  then show ?thesis
    using assms(1-8)
    by (simp add: fs_run_def durableWrite_def fs_bind_def fs_call_def fs_return_def
        unless_committed_def copy_temp_def Let_def)
qed

lemma durableWrite_final:
  assumes "snd (durableWrite F now t cid r v s) = Inr x"
  shows "map_of (st_chunks (fst (fs_run (durableWrite F now t cid r v) s))) =
      (map_of (st_chunks s))(cid \<mapsto> staged r now)"
    and "map_of (st_disk (fst (fs_run (durableWrite F now t cid r v) s))) cid = Some (staged r now)"
    and "chunk_dir cid \<in> set (st_dirs (fst (fs_run (durableWrite F now t cid r v) s)))"
proof -
  obtain crc sz where "x = (crc, sz)" by (cases x)
  with assms have "snd (durableWrite F now t cid r v s) = Inr (crc, sz)" by simp
  then have ok: "\<not> fl_create F" "\<not> fl_write F" "\<not> fl_sync F" "\<not> fl_close F" "\<not> fl_mkdir F"
    "\<not> fl_rename F" "\<not> fl_syncdir F" "rerr r = None" "verified v r"
    unfolding durableWrite_ok by blast+
  show "map_of (st_chunks (fst (fs_run (durableWrite F now t cid r v) s))) =
      (map_of (st_chunks s))(cid \<mapsto> staged r now)"
    "map_of (st_disk (fst (fs_run (durableWrite F now t cid r v) s))) cid = Some (staged r now)"
    "chunk_dir cid \<in> set (st_dirs (fst (fs_run (durableWrite F now t cid r v) s)))"
    by (simp_all add: durableWrite_last[OF ok] staged_def)
qed

text \<open>The verified write is the plain one with the check put in, after the id is looked at.\<close>

lemma verified_verify_chunk [simp]:
  "verified (Some (verify_chunk c n)) r \<longleftrightarrow> CRC32C (rdata r) = c \<and> int (length (rdata r)) = n"
  by (auto simp: verified_def verify_chunk_def)

lemma WriteChunkVerified_trace:
  "fst (WriteChunkVerified F now t cid r c n s) =
    (if validateID cid = None then fst (durableWrite F now t cid r (Some (verify_chunk c n)) s) else [])"
  by (auto simp: WriteChunkVerified_def fs_defs split: option.splits prod.splits sum.splits)

lemma WriteChunkVerified_Inr:
  "snd (WriteChunkVerified F now t cid r c n s) = Inr x \<longleftrightarrow>
    validateID cid = None \<and> (\<exists>y. snd (durableWrite F now t cid r (Some (verify_chunk c n)) s) = Inr y)"
  by (auto simp: WriteChunkVerified_def fs_defs split: option.splits prod.splits sum.splits)

definition write_faults :: "faults \<Rightarrow> bool" where
  "write_faults F \<longleftrightarrow> fl_create F \<or> fl_write F \<or> fl_sync F \<or> fl_close F \<or> fl_mkdir F \<or> fl_rename F \<or>
     fl_syncdir F"

lemma fst_fs_run: "fst (fs_run m s) = last (s # fst (m s))"
  by (simp add: fs_run_def split: prod.splits)

lemma snd_fs_run: "snd (fs_run m s) = snd (m s)"
  by (simp add: fs_run_def split: prod.splits)

lemma WriteChunkVerified_succeeds:
  "snd (fs_run (WriteChunkVerified F now t cid r c n) s) = Inr () \<longleftrightarrow>
    validateID cid = None \<and> rerr r = None \<and> CRC32C (rdata r) = c \<and> int (length (rdata r)) = n \<and>
    \<not> write_faults F"
  unfolding snd_fs_run WriteChunkVerified_Inr
  by (auto simp: durableWrite_ok write_faults_def)

lemma WriteChunkVerified_stores:
  assumes "snd (fs_run (WriteChunkVerified F now t cid r c n) s) = Inr ()"
  shows "map_of (st_chunks (fst (fs_run (WriteChunkVerified F now t cid r c n) s))) =
      (map_of (st_chunks s))(cid \<mapsto> staged r now)"
    and "map_of (st_disk (fst (fs_run (WriteChunkVerified F now t cid r c n) s))) cid = Some (staged r now)"
    and "chunk_dir cid \<in> set (st_dirs (fst (fs_run (WriteChunkVerified F now t cid r c n) s)))"
proof -
  let ?d = "durableWrite F now t cid r (Some (verify_chunk c n))"
  from assms obtain y where valid: "validateID cid = None" and y: "snd (?d s) = Inr y"
    unfolding snd_fs_run WriteChunkVerified_Inr by blast
  have "fst (fs_run (WriteChunkVerified F now t cid r c n) s) = fst (fs_run ?d s)"
    by (simp only: fst_fs_run WriteChunkVerified_trace valid) simp
  then show "map_of (st_chunks (fst (fs_run (WriteChunkVerified F now t cid r c n) s))) =
      (map_of (st_chunks s))(cid \<mapsto> staged r now)"
    "map_of (st_disk (fst (fs_run (WriteChunkVerified F now t cid r c n) s))) cid = Some (staged r now)"
    "chunk_dir cid \<in> set (st_dirs (fst (fs_run (WriteChunkVerified F now t cid r c n) s)))"
    using durableWrite_final[OF y] by simp_all
qed

lemma WriteChunkVerified_progress:
  "u \<in> set (s # fst (WriteChunkVerified F now t cid r c n s)) \<Longrightarrow>
    write_progress s cid r now (Some (verify_chunk c n)) u"
  using durableWrite_progress[of u F now t cid r "Some (verify_chunk c n)" s]
  by (auto simp: WriteChunkVerified_trace write_progress_def split: if_splits)

text \<open>The invariant holds at every step of a write and across a crash at any of them.\<close>

lemma write_progress_inv [inv_intros]:
  assumes "store_inv s" "write_progress s cid r now v u"
  shows "store_inv u"
proof -
  have chunks: "f_synced f" if "map_of (st_chunks u) x = Some f" for x f
    using assms that by (auto simp: store_inv_def write_progress_def staged_def split: if_splits)
  have "f_synced f" if f: "map_of (st_disk u) x = Some f" for x f
  proof -
    from assms(2) have "map_of (st_disk u) x = map_of (st_disk s) x \<or>
        map_of (st_disk u) x = map_of (st_chunks u) x"
      unfolding write_progress_def by blast
    then show ?thesis using f assms(1) chunks[of x f] by (auto simp: store_inv_def)
  qed
  with chunks show ?thesis by (auto simp: store_inv_def)
qed

lemma survives_cases:
  "survives f (Some g') \<Longrightarrow> \<exists>g. f = Some g \<and> f_synced g' \<and> (f_synced g \<longrightarrow> f_data g' = f_data g)"
  by (auto simp: survives_def split: option.splits)

lemma crash_cases:
  assumes "crash s s'" "chunk_file s' x = Some g'"
  obtains g where "map_of (st_chunks s) x = Some g \<or> map_of (st_disk s) x = Some g"
    "f_synced g'" "f_synced g \<longrightarrow> f_data g' = f_data g"
proof -
  have dir: "chunk_dir x \<in> set (st_dirs s')"
    using assms by (auto simp: crash_def split: if_splits)
  then have "survives (map_of (st_chunks s) x) (Some g') \<or> survives (map_of (st_disk s) x) (Some g')"
    using assms unfolding crash_def by metis
  then show ?thesis using that survives_cases by blast
qed

lemma crash_inv [inv_intros]:
  assumes "crash s s'"
  shows "store_inv s'"
proof -
  have "f_synced f" if "map_of (st_chunks s') x = Some f" for x f
    using crash_cases[OF assms, of x f] that by (auto simp: chunk_file_def)
  moreover have "st_disk s' = st_chunks s'" using assms by (simp add: crash_def)
  ultimately show ?thesis by (auto simp: store_inv_def)
qed

lemma crash_chunk:
  assumes "store_inv s" "crash s s'" "chunk_data s' x = Some d"
  shows "chunk_data s x = Some d \<or> map_option f_data (map_of (st_disk s) x) = Some d"
proof -
  from assms(3) obtain g' where "chunk_file s' x = Some g'" "f_data g' = d"
    by (auto simp: chunk_data_def)
  from crash_cases[OF assms(2) this(1)] obtain g where
    "map_of (st_chunks s) x = Some g \<or> map_of (st_disk s) x = Some g"
    "f_synced g \<longrightarrow> f_data g' = f_data g" by blast
  with assms(1) \<open>f_data g' = d\<close> show ?thesis
    by (auto simp: store_inv_def chunk_data_def chunk_file_def)
qed

lemma crash_keeps:
  assumes "store_inv s" "crash s s'" "chunk_dir x \<in> set (st_ddirs s)"
    "chunk_data s x = Some d" "map_option f_data (map_of (st_disk s) x) = Some d"
  shows "chunk_data s' x = Some d"
proof -
  have "chunk_dir x \<in> set (st_dirs s')" using assms(2,3) by (auto simp: crash_def)
  then have "survives (map_of (st_chunks s) x) (chunk_file s' x) \<or>
      survives (map_of (st_disk s) x) (chunk_file s' x)"
    using assms(2) by (auto simp: crash_def)
  then show ?thesis
    using assms(1,4,5)
    by (auto simp: survives_def store_inv_def chunk_data_def chunk_file_def split: option.splits)
qed

section \<open>Sweeping visits every chunk of a slice once\<close>

text \<open>A chunk sits in the directory its id names, and that directory exists.\<close>

definition store_wf :: "store \<Rightarrow> bool" where
  "store_wf s \<longleftrightarrow>
     (\<forall>x f. map_of (st_chunks s) x = Some f \<longrightarrow> validateID x = None \<and> chunk_dir x \<in> set (st_dirs s))"

lemma write_progress_wf [inv_intros]:
  assumes "store_wf s" "validateID cid = None" "write_progress s cid r now v u"
  shows "store_wf u"
proof -
  have dirs: "set (st_dirs s) \<subseteq> set (st_dirs u)" using assms(3) by (simp add: write_progress_def)
  consider "map_of (st_chunks u) = map_of (st_chunks s)"
    | "chunk_dir cid \<in> set (st_dirs u)" "map_of (st_chunks u) = (map_of (st_chunks s))(cid \<mapsto> staged r now)"
    using assms(3) unfolding write_progress_def by blast
  then show ?thesis
    using assms(1,2) dirs by cases (auto simp: store_wf_def split: if_splits)
qed

text \<open>What a sweep of one directory reports, in terms of the files it holds.\<close>

definition info_at :: "store \<Rightarrow> string \<Rightarrow> chunk_info option" where
  "info_at s x = map_option (chunk_info_of x) (chunk_file s x)"

definition dir_infos :: "store \<Rightarrow> string \<Rightarrow> string \<Rightarrow> chunk_info list" where
  "dir_infos s pre d = List.map_filter (info_at s) (filter (\<lambda>x. HasPrefix x pre) (dir_files s d))"

definition scan_infos :: "store \<Rightarrow> string \<Rightarrow> chunk_info list" where
  "scan_infos s pre = concat (map (dir_infos s pre) (filter (\<lambda>d. within d pre) (chunk_dirs s)))"

text \<open>Visiting a list of chunks one after the other, up to the first error.\<close>

fun run_visits :: "'acc visitor \<Rightarrow> store \<times> 'acc \<Rightarrow> chunk_info list \<Rightarrow> (store \<times> 'acc) \<times> error option"
  where
  "run_visits visit a [] = (a, None)"
| "run_visits visit a (i # is) = (case visit a i of
      (a', Some e) \<Rightarrow> (a', Some e)
    | (a', None) \<Rightarrow> run_visits visit a' is)"

lemma run_visits_append:
  "run_visits visit a (is @ js) = (case run_visits visit a is of
      (a', Some e) \<Rightarrow> (a', Some e)
    | (a', None) \<Rightarrow> run_visits visit a' js)"
  by (induction "is" arbitrary: a) (auto split: prod.splits option.splits)

text \<open>A visitor may change the chunk it is visiting and nothing else of the store's chunks.\<close>

definition local_visit :: "'acc visitor \<Rightarrow> bool" where
  "local_visit visit \<longleftrightarrow>
     (\<forall>a i x. x \<noteq> ci_ID i \<longrightarrow> chunk_file (fst (fst (visit a i))) x = chunk_file (fst a) x)"

lemma local_visitD:
  "local_visit visit \<Longrightarrow> x \<noteq> ci_ID i \<Longrightarrow> visit a i = (a', e) \<Longrightarrow> chunk_file (fst a') x = chunk_file (fst a) x"
  unfolding local_visit_def by (metis fst_conv)

lemma ci_ID_info_of [simp]: "ci_ID (chunk_info_of x f) = x"
  by (simp add: chunk_info_of_def)

lemma set_map_filter_info:
  "i \<in> set (List.map_filter (info_at s) xs) \<longleftrightarrow>
    (\<exists>x f. x \<in> set xs \<and> chunk_file s x = Some f \<and> i = chunk_info_of x f)"
  by (induction xs) (auto simp: map_filter_simps info_at_def split: option.splits)

lemma run_visits_local:
  assumes "local_visit visit" "x \<notin> ci_ID ` set is" "run_visits visit a is = (a', e)"
  shows "chunk_file (fst a') x = chunk_file (fst a) x"
  using assms(2,3)
proof (induction "is" arbitrary: a)
  case (Cons i "is")
  obtain b e' where v: "visit a i = (b, e')" by fastforce
  have "x \<noteq> ci_ID i" using Cons.prems by auto
  then have b: "chunk_file (fst b) x = chunk_file (fst a) x" using local_visitD[OF assms(1) _ v] by simp
  show ?case
  proof (cases e')
    case None
    with Cons.prems v have "run_visits visit b is = (a', e)" "x \<notin> ci_ID ` set is" by auto
    with Cons.IH b show ?thesis by simp
  next
    case (Some e2)
    with Cons.prems v b show ?thesis by auto
  qed
qed simp

lemma map_filter_info_cong:
  "(\<And>x. x \<in> set xs \<Longrightarrow> chunk_file s x = chunk_file u x) \<Longrightarrow>
    List.map_filter (info_at s) xs = List.map_filter (info_at u) xs"
  by (induction xs) (auto simp: map_filter_simps info_at_def split: option.splits)

lemma scan_files_run:
  assumes "local_visit visit" "distinct xs" "\<not> fl_info F"
  shows "scan_files F pre visit xs a =
    run_visits visit a (List.map_filter (info_at (fst a)) (filter (\<lambda>x. HasPrefix x pre) xs))"
  using assms(2)
proof (induction xs arbitrary: a)
  case (Cons x xs)
  show ?case
  proof (cases "HasPrefix x pre")
    case True
    show ?thesis
    proof (cases "chunk_file (fst a) x")
      case (Some f)
      obtain b e where v: "visit a (chunk_info_of x f) = (b, e)" by fastforce
      have "List.map_filter (info_at (fst b)) (filter (\<lambda>x. HasPrefix x pre) xs) =
          List.map_filter (info_at (fst a)) (filter (\<lambda>x. HasPrefix x pre) xs)"
        using Cons.prems by (intro map_filter_info_cong local_visitD[OF assms(1) _ v]) auto
      moreover have "info_at (fst a) x = Some (chunk_info_of x f)" using Some by (simp add: info_at_def)
      ultimately show ?thesis
        using Cons.IH[of b] Cons.prems True Some v assms(3)
        by (auto simp: map_filter_simps split: option.splits)
    qed (use Cons True in \<open>auto simp: map_filter_simps info_at_def\<close>)
  qed (use Cons in auto)
qed (simp add: map_filter_simps)

lemma set_dir_files: "set (dir_files s d) = {x. chunk_file s x \<noteq> None \<and> chunk_dir x = d}"
  by (auto simp: dir_files_def chunk_file_def map_of_eq_None_iff image_iff)

lemma dir_files_cong:
  assumes "\<And>x. chunk_dir x = d \<Longrightarrow> chunk_file s x = chunk_file u x"
  shows "dir_files s d = dir_files u d"
proof (rule sorted_wrt_less_set_eq)
  show "sorted_wrt (<) (dir_files s d)" "sorted_wrt (<) (dir_files u d)"
    by (simp_all add: dir_files_def strict_sorted_iff)
  show "set (dir_files s d) = set (dir_files u d)" using assms by (auto simp: set_dir_files)
qed

lemma dir_infos_cong:
  assumes "\<And>x. chunk_dir x = d \<Longrightarrow> chunk_file s x = chunk_file u x"
  shows "dir_infos s pre d = dir_infos u pre d"
proof -
  have files: "dir_files s d = dir_files u d" using assms by (rule dir_files_cong)
  have "chunk_file s x = chunk_file u x" if "x \<in> set (dir_files u d)" for x
    using that assms by (simp add: set_dir_files)
  then show ?thesis unfolding dir_infos_def files by (intro map_filter_info_cong) auto
qed

lemma distinct_dir_files: "distinct (dir_files s d)"
  by (simp add: dir_files_def)

lemma scan_dirs_run:
  assumes "local_visit visit" "distinct ds" "\<not> fl_info F" "\<not> fl_readsub F"
  shows "scan_dirs F pre visit ds a =
    run_visits visit a (concat (map (dir_infos (fst a) pre) (filter (\<lambda>d. within d pre) ds)))"
  using assms(2)
proof (induction ds arbitrary: a)
  case (Cons d ds)
  show ?case
  proof (cases "within d pre")
    case True
    obtain b e where v: "run_visits visit a (dir_infos (fst a) pre d) = (b, e)" by fastforce
    have "dir_infos (fst b) pre d' = dir_infos (fst a) pre d'" if "d' \<in> set ds" for d'
    proof (rule dir_infos_cong)
      fix x assume x: "chunk_dir x = d'"
      have "ci_ID ` set (dir_infos (fst a) pre d) \<subseteq> {y. chunk_dir y = d}"
        by (auto simp: dir_infos_def set_map_filter_info set_dir_files)
      then have "x \<notin> ci_ID ` set (dir_infos (fst a) pre d)" using x that Cons.prems by auto
      then show "chunk_file (fst b) x = chunk_file (fst a) x"
        using v by (rule run_visits_local[OF assms(1)])
    qed
    then have same: "map (dir_infos (fst b) pre) (filter (\<lambda>d. within d pre) ds) =
        map (dir_infos (fst a) pre) (filter (\<lambda>d. within d pre) ds)" by auto
    have "scan_files F pre visit (dir_files (fst a) d) a = (b, e)"
      using scan_files_run[OF assms(1) distinct_dir_files assms(3)] v by (simp add: dir_infos_def)
    then show ?thesis using Cons.IH[of b] Cons.prems True same v assms(4)
      by (auto simp: run_visits_append split: option.splits)
  qed (use Cons in auto)
qed simp

lemma ScanChunks_run:
  assumes "local_visit visit" "\<not> fl_readdir F" "\<not> fl_readsub F" "\<not> fl_info F"
  shows "ScanChunks F pre visit a = run_visits visit a (scan_infos (fst a) pre)"
  using assms scan_dirs_run[OF assms(1), of "chunk_dirs (fst a)" F pre a]
  by (simp add: ScanChunks_def scan_infos_def chunk_dirs_def)

text \<open>
  Whatever every visit keeps, a whole sweep keeps, however it ends.  A visit is only ever made of a
  file that is there at that moment and whose id begins with the slice's prefix.
\<close>

definition visit_keeps :: "(store \<times> 'acc \<Rightarrow> bool) \<Rightarrow> string \<Rightarrow> 'acc visitor \<Rightarrow> bool" where
  "visit_keeps P pre visit \<longleftrightarrow>
     (\<forall>a x f. P a \<longrightarrow> HasPrefix x pre \<longrightarrow> chunk_file (fst a) x = Some f \<longrightarrow>
        P (fst (visit a (chunk_info_of x f))))"

lemma scan_files_keeps:
  assumes "visit_keeps P pre visit" "P a"
  shows "P (fst (scan_files F pre visit xs a))"
  using assms(2)
proof (induction xs arbitrary: a)
  case (Cons x xs)
  show ?case
  proof (cases "HasPrefix x pre")
    case True
    show ?thesis
    proof (cases "chunk_file (fst a) x")
      case (Some f)
      have "P (fst (visit a (chunk_info_of x f)))"
        using assms(1) Cons.prems True Some unfolding visit_keeps_def by blast
      then show ?thesis using Cons True Some by (auto split: prod.splits option.splits)
    qed (use Cons True in simp)
  qed (use Cons in simp)
qed simp

lemma scan_dirs_keeps:
  assumes "visit_keeps P pre visit" "P a"
  shows "P (fst (scan_dirs F pre visit ds a))"
  using assms(2)
proof (induction ds arbitrary: a)
  case (Cons d ds)
  have "P (fst (scan_files F pre visit (dir_files (fst a) d) a))"
    using Cons.prems by (rule scan_files_keeps[OF assms(1)])
  then show ?case using Cons by (auto split: prod.splits option.splits)
qed simp

lemma ScanChunks_keeps [inv_intros]:
  assumes "visit_keeps P pre visit" "P a"
  shows "P (fst (ScanChunks F pre visit a))"
  using assms by (simp add: ScanChunks_def scan_dirs_keeps)

lemma within_prefix:
  assumes "HasPrefix x pre"
  shows "within (chunk_dir x) pre"
proof -
  obtain r where "x = pre @ r" using assms by (auto simp: HasPrefix_prefix prefix_def)
  then show ?thesis by (auto simp: within_def chunk_dir_def HasPrefix_def take_append)
qed

lemma set_scan_infos:
  assumes "store_wf s"
  shows "i \<in> set (scan_infos s pre) \<longleftrightarrow>
    (\<exists>x f. chunk_file s x = Some f \<and> HasPrefix x pre \<and> i = chunk_info_of x f)"
  using assms within_prefix[of _ pre]
  by (fastforce simp: scan_infos_def dir_infos_def set_map_filter_info set_dir_files chunk_dirs_def
      store_wf_def chunk_file_def)

section \<open>The interface the coordinator uses\<close>

text \<open>
  A good copy of a chunk: bytes of the length and with the checksum the manifest says.
\<close>

definition good :: "bytes option \<Rightarrow> uint32 \<Rightarrow> int \<Rightarrow> bool" where
  "good d c n \<longleftrightarrow> (case d of None \<Rightarrow> False | Some b \<Rightarrow> CRC32C b = c \<and> int (length b) = n)"

text \<open>
  What a coordinator relies on wherever a chunk lives, on its own disk or behind a peer: a write
  that succeeds left a good copy, a write that fails left what was there or a good copy, no write
  touches another chunk, and a read that ends cleanly yields bytes with the checksum asked for.
\<close>

locale chunk_sink =
  fixes put :: "'w \<Rightarrow> string \<Rightarrow> reader \<Rightarrow> uint32 \<Rightarrow> int \<Rightarrow> 'w \<times> error option"
    and content :: "'w \<Rightarrow> string \<Rightarrow> bytes option"
  assumes put_ok: "put w x r c n = (w', None) \<Longrightarrow> good (content w' x) c n"
    and put_other: "put w x r c n = (w', res) \<Longrightarrow> y \<noteq> x \<Longrightarrow> content w' y = content w y"
    and put_whole: "put w x r c n = (w', res) \<Longrightarrow> content w' x = content w x \<or> good (content w' x) c n"
begin

text \<open>A write never makes a good copy bad, whatever the outcome.\<close>

lemma put_keeps_good:
  assumes "put w x r c n = (w', res)" "good (content w x) c n"
  shows "good (content w' x) c n"
  using put_whole[OF assms(1)] assms(2) by auto

lemma put_keeps_others:
  assumes "put w x r c n = (w', res)" "y \<noteq> x" "good (content w y) c' n'"
  shows "good (content w' y) c' n'"
  using put_other[OF assms(1,2)] assms(3) by simp

end

locale chunk_source =
  fixes get :: "'w \<Rightarrow> string \<Rightarrow> uint32 \<Rightarrow> error + reader"
    and content :: "'w \<Rightarrow> string \<Rightarrow> bytes option"
  assumes get_ok: "get w x c = Inr r \<Longrightarrow> rerr r = None \<Longrightarrow> CRC32C (rdata r) = c"
    and get_held: "get w x c = Inr r \<Longrightarrow> content w x \<noteq> None"
begin

text \<open>Nothing a get answers with comes out of thin air, and nothing it delivers whole is unverified.\<close>

lemma get_verified:
  assumes "get w x c = Inr r" "rerr r = None"
  shows "good (Some (rdata r)) c (int (length (rdata r))) \<and> content w x \<noteq> None"
  using get_ok[OF assms] get_held[OF assms(1)] by (simp add: good_def)

end

locale chunk_endpoint = chunk_sink put content + chunk_source get content
  for put :: "'w \<Rightarrow> string \<Rightarrow> reader \<Rightarrow> uint32 \<Rightarrow> int \<Rightarrow> 'w \<times> error option"
    and get :: "'w \<Rightarrow> string \<Rightarrow> uint32 \<Rightarrow> error + reader"
    and content :: "'w \<Rightarrow> string \<Rightarrow> bytes option"

lemma Verify_clean:
  "rerr (Verify (bytes_NewReader d) c) = None \<longleftrightarrow> CRC32C d = c"
  "rdata (Verify r c) = rdata r"
  by (auto simp: Verify_def)

lemma ReadChunk_clean:
  assumes "ReadChunk F s x c = Inr r" "rerr r = None"
  shows "chunk_data s x = Some (rdata r) \<and> CRC32C (rdata r) = c"
  using assms by (auto simp: ReadChunk_def Verify_clean split: option.splits if_splits)

lemma WriteChunkVerified_frame:
  "y \<noteq> x \<Longrightarrow> chunk_data (fst (fs_run (WriteChunkVerified F now t x r c n) s)) y = chunk_data s y"
proof -
  assume "y \<noteq> x"
  have "last (s # fst (WriteChunkVerified F now t x r c n s)) \<in>
      set (s # fst (WriteChunkVerified F now t x r c n s))" by (rule last_in_set) simp
  then have "write_progress s x r now (Some (verify_chunk c n))
      (fst (fs_run (WriteChunkVerified F now t x r c n) s))"
    unfolding fst_fs_run by (rule WriteChunkVerified_progress)
  then show ?thesis
    using \<open>y \<noteq> x\<close> by (auto simp: write_progress_def chunk_data_def chunk_file_def)
qed

lemma WriteChunkVerified_whole:
  "chunk_data (fst (fs_run (WriteChunkVerified F now t x r c n) s)) x = chunk_data s x \<or>
   chunk_data (fst (fs_run (WriteChunkVerified F now t x r c n) s)) x = Some (rdata r) \<and>
     CRC32C (rdata r) = c \<and> int (length (rdata r)) = n"
proof -
  have "last (s # fst (WriteChunkVerified F now t x r c n s)) \<in>
      set (s # fst (WriteChunkVerified F now t x r c n s))" by (rule last_in_set) simp
  then have "write_progress s x r now (Some (verify_chunk c n))
      (fst (fs_run (WriteChunkVerified F now t x r c n) s))"
    unfolding fst_fs_run by (rule WriteChunkVerified_progress)
  then show ?thesis
    by (auto simp: write_progress_def chunk_data_def chunk_file_def staged_def)
qed

definition local_put ::
  "faults \<Rightarrow> int \<Rightarrow> string \<Rightarrow> store \<Rightarrow> string \<Rightarrow> reader \<Rightarrow> uint32 \<Rightarrow> int \<Rightarrow> store \<times> error option" where
  "local_put F now t s x r c n = (case fs_run (WriteChunkVerified F now t x r c n) s of
      (s', Inl e) \<Rightarrow> (s', Some e)
    | (s', Inr _) \<Rightarrow> (s', None))"

lemma fst_local_put: "fst (local_put F now t s x r c n) = fst (fs_run (WriteChunkVerified F now t x r c n) s)"
  by (simp add: local_put_def split: prod.splits sum.splits)

lemma local_put_ok:
  assumes "local_put F now t s x r c n = (s', None)"
  shows "rerr r = None \<and> CRC32C (rdata r) = c \<and> int (length (rdata r)) = n \<and> chunk_data s' x = Some (rdata r)"
proof -
  obtain u res where "fs_run (WriteChunkVerified F now t x r c n) s = (u, res)" by fastforce
  with assms have run: "fs_run (WriteChunkVerified F now t x r c n) s = (s', Inr ())"
    by (cases res) (simp_all add: local_put_def)
  then have ok: "snd (fs_run (WriteChunkVerified F now t x r c n) s) = Inr ()" by simp
  then have "rerr r = None \<and> CRC32C (rdata r) = c \<and> int (length (rdata r)) = n"
    unfolding WriteChunkVerified_succeeds by blast
  with WriteChunkVerified_stores(1)[OF ok] run show ?thesis
    by (simp add: chunk_data_def chunk_file_def staged_def)
qed

interpretation disk: chunk_endpoint "local_put F now t" "ReadChunk G" chunk_data
  for F now t G
proof (unfold_locales, goal_cases)
  case (1 s x r c n s')
  from local_put_ok[OF 1] show ?case by (simp add: good_def)
next
  case (2 s x r c n s' res y)
  then show ?case using WriteChunkVerified_frame[of y x F now t r c n s] fst_local_put[of F now t s x r c n] by simp
next
  case (3 s x r c n s' res)
  then show ?case
    using WriteChunkVerified_whole[of F now t x r c n s] fst_local_put[of F now t s x r c n]
    by (auto simp: good_def)
next
  case (4 s x c r)
  then show ?case using ReadChunk_clean by blast
next
  case (5 s x c r)
  then show ?case by (auto simp: ReadChunk_def split: option.splits if_splits)
qed

section \<open>Properties of the chunk store\<close>

text \<open>
  C33. A verified write succeeds exactly when the id is well formed, the source ends cleanly, the
  bytes have the declared length and checksum and no system call fails; then the chunk holds
  exactly those bytes, its directory entry is on disk, and no other chunk changed.
\<close>

theorem WriteChunkVerified_correct:
  "case fs_run (WriteChunkVerified F now t cid r c n) s of (s', res) \<Rightarrow>
     (res = Inr () \<longleftrightarrow>
        validateID cid = None \<and> rerr r = None \<and> CRC32C (rdata r) = c \<and> int (length (rdata r)) = n \<and>
        \<not> write_faults F) \<and>
     (res = Inr () \<longrightarrow>
        chunk_data s' cid = Some (rdata r) \<and>
        map_option f_data (map_of (st_disk s') cid) = Some (rdata r)) \<and>
     (\<forall>y. y \<noteq> cid \<longrightarrow> chunk_data s' y = chunk_data s y)"
proof -
  let ?run = "fs_run (WriteChunkVerified F now t cid r c n) s"
  have "snd ?run = Inr () \<Longrightarrow> chunk_data (fst ?run) cid = Some (rdata r) \<and>
      map_option f_data (map_of (st_disk (fst ?run)) cid) = Some (rdata r)"
    using WriteChunkVerified_stores(1,2)[of F now t cid r c n s]
    by (simp add: chunk_data_def chunk_file_def staged_def)
  then show ?thesis
    using WriteChunkVerified_succeeds[of F now t cid r c n s]
      WriteChunkVerified_frame[of _ cid F now t r c n s]
    by (simp add: case_prod_beta)
qed

text \<open>A store with the directory \<^verbatim>\<open>AB\<close> on disk and nothing in it, for the witnesses.\<close>

definition example_store :: store where
  "example_store = \<lparr>st_tmp = [], st_chunks = [], st_disk = [], st_dirs = [''AB''], st_ddirs = [''AB'']\<rparr>"

theorem WriteChunkVerified_correct_witness:
  "snd (fs_run (WriteChunkVerified no_faults 5 ''w.1'' ''ABC000000'' (bytes_NewReader [1, 2])
      (CRC32C [1, 2]) 2) example_store) = Inr () \<and>
   chunk_data (fst (fs_run (WriteChunkVerified no_faults 5 ''w.1'' ''ABC000000'' (bytes_NewReader [1, 2])
      (CRC32C [1, 2]) 2) example_store)) ''ABC000000'' = Some [1, 2]"
  using WriteChunkVerified_correct[where F = no_faults and now = 5 and t = "''w.1''"
      and cid = "''ABC000000''" and r = "bytes_NewReader [1, 2]" and c = "CRC32C [1, 2]" and n = 2
      and s = example_store]
  by (simp add: case_prod_beta validateID_def write_faults_def no_faults_def)

text \<open>
  C34. Crash atomicity: wherever a crash falls during a verified write, every chunk that is visible
  afterwards holds either the complete bytes it held before or, for the chunk being written, the
  complete new bytes, which have the declared length and checksum.  A torn chunk cannot appear.
\<close>

theorem WriteChunkVerified_crash_atomic:
  assumes "store_inv s"
    and "u \<in> set (s # fst (WriteChunkVerified F now t cid r c n s))"
    and "crash u s'"
    and "chunk_data s' x = Some d"
  shows "chunk_data s x = Some d \<or> map_option f_data (map_of (st_disk s) x) = Some d \<or>
    x = cid \<and> d = rdata r \<and> CRC32C d = c \<and> int (length d) = n"
proof -
  have progress: "write_progress s cid r now (Some (verify_chunk c n)) u"
    using assms(2) by (rule WriteChunkVerified_progress)
  with assms(1) have "store_inv u" by (rule write_progress_inv)
  from crash_chunk[OF this assms(3,4)]
  have "chunk_data u x = Some d \<or> map_option f_data (map_of (st_disk u) x) = Some d" .
  moreover have "map_of (st_disk u) x = map_of (st_disk s) x \<or>
      map_of (st_disk u) x = map_of (st_chunks u) x"
    using progress unfolding write_progress_def by blast
  ultimately have "chunk_data u x = Some d \<or> map_option f_data (map_of (st_disk s) x) = Some d"
    by (auto simp: chunk_data_def chunk_file_def)
  moreover have "chunk_data u x = Some d \<Longrightarrow> chunk_data s x = Some d \<or>
      x = cid \<and> d = rdata r \<and> CRC32C d = c \<and> int (length d) = n"
    using progress
    by (auto simp: write_progress_def chunk_data_def chunk_file_def staged_def split: if_splits)
  ultimately show ?thesis by blast
qed

definition example_after_crash :: store where
  "example_after_crash = \<lparr>st_tmp = [],
     st_chunks = [(''ABC000000'', \<lparr>f_data = [1, 2], f_synced = True, f_mtime = 5\<rparr>)],
     st_disk = [(''ABC000000'', \<lparr>f_data = [1, 2], f_synced = True, f_mtime = 5\<rparr>)],
     st_dirs = [''AB''], st_ddirs = [''AB'']\<rparr>"

lemma example_crash:
  "crash (fst (fs_run (WriteChunkVerified no_faults 5 ''w.1'' ''ABC000000'' (bytes_NewReader [1, 2])
      (CRC32C [1, 2]) 2) example_store)) example_after_crash"
  by (auto simp: crash_def survives_def chunk_file_def fs_run_def WriteChunkVerified_def validateID_def
      durableWrite_def fs_defs no_faults_def verify_chunk_def create_temp_def write_temp_def
      sync_temp_def mkdir_all_def rename_temp_def syncDir_def chunk_dir_def example_store_def
      example_after_crash_def)

theorem WriteChunkVerified_crash_atomic_witness:
  "store_inv example_store \<and>
   (chunk_data example_store ''ABC000000'' = Some [1, 2] \<or>
    map_option f_data (map_of (st_disk example_store) ''ABC000000'') = Some [1, 2] \<or>
    ''ABC000000'' = ''ABC000000'' \<and> [1, 2] = rdata (bytes_NewReader [1, 2]) \<and>
      CRC32C [1, 2] = CRC32C [1, 2] \<and> int (length ([1, 2] :: bytes)) = 2)"
proof -
  let ?w = "WriteChunkVerified no_faults 5 ''w.1'' ''ABC000000'' (bytes_NewReader [1, 2]) (CRC32C [1, 2]) 2"
  have inv: "store_inv example_store" by (simp add: store_inv_def example_store_def)
  have "fst (fs_run ?w example_store) \<in> set (example_store # fst (?w example_store))"
    unfolding fst_fs_run by (rule last_in_set) simp
  from WriteChunkVerified_crash_atomic[OF inv this example_crash, of "''ABC000000''" "[1, 2]"] inv
  show ?thesis by (simp add: chunk_data_def chunk_file_def example_after_crash_def)
qed

text \<open>
  Durability: once a verified write has returned success, no crash loses the chunk, provided
  the entry of its two-character directory had itself reached the disk.
\<close>

theorem WriteChunkVerified_durable:
  assumes "store_inv s"
    and "snd (fs_run (WriteChunkVerified F now t cid r c n) s) = Inr ()"
    and "chunk_dir cid \<in> set (st_ddirs s)"
    and "crash (fst (fs_run (WriteChunkVerified F now t cid r c n) s)) s'"
  shows "chunk_data s' cid = Some (rdata r)"
proof -
  let ?u = "fst (fs_run (WriteChunkVerified F now t cid r c n) s)"
  have "last (s # fst (WriteChunkVerified F now t cid r c n s)) \<in>
      set (s # fst (WriteChunkVerified F now t cid r c n s))" by (rule last_in_set) simp
  then have progress: "write_progress s cid r now (Some (verify_chunk c n)) ?u"
    unfolding fst_fs_run by (rule WriteChunkVerified_progress)
  show ?thesis
  proof (rule crash_keeps[OF write_progress_inv[OF assms(1) progress] assms(4)])
    show "chunk_dir cid \<in> set (st_ddirs ?u)" using progress assms(3) by (simp add: write_progress_def)
    show "chunk_data ?u cid = Some (rdata r)" "map_option f_data (map_of (st_disk ?u) cid) = Some (rdata r)"
      using WriteChunkVerified_stores(1,2)[OF assms(2)]
      by (simp_all add: chunk_data_def chunk_file_def staged_def)
  qed
qed

theorem WriteChunkVerified_durable_witness:
  "chunk_data example_after_crash ''ABC000000'' = Some (rdata (bytes_NewReader [1, 2]))"
proof (rule WriteChunkVerified_durable[OF _ _ _ example_crash])
  show "store_inv example_store" by (simp add: store_inv_def example_store_def)
  show "snd (fs_run (WriteChunkVerified no_faults 5 ''w.1'' ''ABC000000'' (bytes_NewReader [1, 2])
      (CRC32C [1, 2]) 2) example_store) = Inr ()"
    by (simp add: WriteChunkVerified_succeeds validateID_def write_faults_def no_faults_def)
  show "chunk_dir ''ABC000000'' \<in> set (st_ddirs example_store)"
    by (simp add: chunk_dir_def example_store_def)
qed

definition fresh_store :: store where
  "fresh_store = \<lparr>st_tmp = [], st_chunks = [], st_disk = [], st_dirs = [], st_ddirs = []\<rparr>"


text \<open>
  What a failed write leaves.  If any step but the last fails, nothing at any chunk path has
  changed.  If the last step, the directory fsync, is the one that fails, the write reports an
  error although the whole verified chunk is visible under its id.
\<close>

theorem WriteChunkVerified_error:
  assumes "snd (fs_run (WriteChunkVerified F now t cid r c n) s) = Inl e"
  shows "map_of (st_chunks (fst (fs_run (WriteChunkVerified F now t cid r c n) s))) =
    (if fl_syncdir F \<and> \<not> write_faults (F\<lparr>fl_syncdir := False\<rparr>) \<and> validateID cid = None \<and>
        rerr r = None \<and> CRC32C (rdata r) = c \<and> int (length (rdata r)) = n
     then (map_of (st_chunks s))(cid \<mapsto> staged r now) else map_of (st_chunks s))"
  using assms
  by (auto simp: fs_run_def WriteChunkVerified_def durableWrite_def fs_defs Let_def verify_chunk_def
      write_faults_def staged_def split: if_splits option.splits prod.splits sum.splits)

theorem WriteChunkVerified_error_witness:
  "chunk_data (fst (fs_run (WriteChunkVerified (no_faults\<lparr>fl_syncdir := True\<rparr>) 5 ''w.1'' ''ABC000000''
      (bytes_NewReader [1, 2]) (CRC32C [1, 2]) 2) example_store)) ''ABC000000'' = Some [1, 2]"
proof -
  let ?w = "fs_run (WriteChunkVerified (no_faults\<lparr>fl_syncdir := True\<rparr>) 5 ''w.1'' ''ABC000000''
      (bytes_NewReader [1, 2]) (CRC32C [1, 2]) 2) example_store"
  have "snd ?w = Inl [Other ''fsync dir'']"
    by (simp add: fs_run_def WriteChunkVerified_def validateID_def durableWrite_def fs_defs
        no_faults_def verify_chunk_def)
  from WriteChunkVerified_error[OF this] show ?thesis
    by (simp add: chunk_data_def chunk_file_def staged_def no_faults_def write_faults_def validateID_def)
qed

end
