(* ===== verification/Hashes.thy ===== *)
theory Hashes
  imports Kavo_Prelude
begin

unbundle bit_operations_syntax

text \<open>
  The digests of Go's \<^verbatim>\<open>crypto/sha256\<close>, \<^verbatim>\<open>crypto/md5\<close> and \<^verbatim>\<open>crypto/hmac\<close> as the standards define
  them, and the byte-level encodings the sources use around them: big- and little-endian words,
  hexadecimal and decimal formatting.
\<close>

section \<open>Bytes, words and characters\<close>

definition byte_of_char :: "char \<Rightarrow> byte" where
  "byte_of_char c = word_of_nat (of_char c)"

definition char_of_byte :: "byte \<Rightarrow> char" where
  "char_of_byte b = char_of (unat b)"

definition bytes_of_string :: "string \<Rightarrow> bytes" where
  "bytes_of_string s = map byte_of_char s"

definition string_of_bytes :: "bytes \<Rightarrow> string" where
  "string_of_bytes bs = map char_of_byte bs"

text \<open>\<open>be_word\<close> reads a big-endian word, \<open>be_bytes n\<close> writes the low \<open>n\<close> bytes of one.\<close>

definition be_word :: "bytes \<Rightarrow> 'a::len word" where
  "be_word bs = foldl (\<lambda>acc b. push_bit 8 acc OR ucast b) 0 bs"

definition be_bytes :: "nat \<Rightarrow> 'a::len word \<Rightarrow> bytes" where
  "be_bytes n w = map (\<lambda>i. ucast (drop_bit (8 * (n - 1 - i)) w)) [0..<n]"

definition le_word :: "bytes \<Rightarrow> 'a::len word" where
  "le_word bs = be_word (rev bs)"

definition le_bytes :: "nat \<Rightarrow> 'a::len word \<Rightarrow> bytes" where
  "le_bytes n w = rev (be_bytes n w)"

definition rotr32 :: "nat \<Rightarrow> uint32 \<Rightarrow> uint32" where
  "rotr32 n w = drop_bit n w OR push_bit (32 - n) w"

definition rotl32 :: "nat \<Rightarrow> uint32 \<Rightarrow> uint32" where
  "rotl32 n w = push_bit n w OR drop_bit (32 - n) w"

fun blocks :: "nat \<Rightarrow> nat \<Rightarrow> 'b list \<Rightarrow> 'b list list" where
  "blocks w 0 xs = []"
| "blocks w (Suc n) xs = take w xs # blocks w n (drop w xs)"

text \<open>Both digests pad to 64-byte blocks: a one bit, zeroes, and the bit length.\<close>

definition md_pad :: "(uint64 \<Rightarrow> bytes) \<Rightarrow> bytes \<Rightarrow> bytes" where
  "md_pad len_bytes msg =
     msg @ 0x80 # replicate ((119 - length msg mod 64) mod 64) 0
       @ len_bytes (word_of_nat (8 * length msg))"

section \<open>SHA-256\<close>

text \<open>
  The constants are the first 32 bits of the fractional parts of the cube roots of the first
  64 primes, and of the square roots of the first eight.
\<close>

fun root_bits :: "nat \<Rightarrow> int \<Rightarrow> nat \<Rightarrow> int \<Rightarrow> int" where
  "root_bits e n 0 acc = acc"
| "root_bits e n (Suc k) acc =
     root_bits e n k (if (acc + 2 ^ k) ^ e \<le> n then acc + 2 ^ k else acc)"

definition first_primes :: "nat list" where
  "first_primes = filter (\<lambda>n. list_all (\<lambda>d. n mod d \<noteq> 0) [2..<n]) [2..<312]"

definition sha256_K :: "uint32 list" where
  "sha256_K = map (\<lambda>p. word_of_int (root_bits 3 (int p * 2 ^ 96) 36 0)) first_primes"

definition sha256_H0 :: "uint32 list" where
  "sha256_H0 = map (\<lambda>p. word_of_int (root_bits 2 (int p * 2 ^ 64) 36 0)) (take 8 first_primes)"

definition sha_s0 :: "uint32 \<Rightarrow> uint32" where
  "sha_s0 x = rotr32 7 x XOR rotr32 18 x XOR drop_bit 3 x"

definition sha_s1 :: "uint32 \<Rightarrow> uint32" where
  "sha_s1 x = rotr32 17 x XOR rotr32 19 x XOR drop_bit 10 x"

definition sha_S0 :: "uint32 \<Rightarrow> uint32" where
  "sha_S0 x = rotr32 2 x XOR rotr32 13 x XOR rotr32 22 x"

definition sha_S1 :: "uint32 \<Rightarrow> uint32" where
  "sha_S1 x = rotr32 6 x XOR rotr32 11 x XOR rotr32 25 x"

fun sha256_schedule :: "nat \<Rightarrow> uint32 list \<Rightarrow> uint32 list" where
  "sha256_schedule 0 ws = ws"
| "sha256_schedule (Suc n) ws =
     (let t = length ws;
          w = sha_s1 (ws ! (t - 2)) + ws ! (t - 7) + sha_s0 (ws ! (t - 15)) + ws ! (t - 16)
      in sha256_schedule n (ws @ [w]))"

type_synonym sha_state =
  "uint32 \<times> uint32 \<times> uint32 \<times> uint32 \<times> uint32 \<times> uint32 \<times> uint32 \<times> uint32"

fun sha256_round :: "uint32 \<times> uint32 \<Rightarrow> sha_state \<Rightarrow> sha_state" where
  "sha256_round (k, w) (a, b, c, d, e, f, g, h) =
     (let t1 = h + sha_S1 e + ((e AND f) XOR (NOT e AND g)) + k + w;
          t2 = sha_S0 a + ((a AND b) XOR (a AND c) XOR (b AND c))
      in (t1 + t2, a, b, c, d + t1, e, f, g))"

fun sha256_block :: "uint32 list \<Rightarrow> bytes \<Rightarrow> uint32 list" where
  "sha256_block hs blk =
     (let ws = sha256_schedule 48 (map be_word (blocks 4 16 blk));
          (a, b, c, d, e, f, g, h) = fold sha256_round (zip sha256_K ws)
            (hs ! 0, hs ! 1, hs ! 2, hs ! 3, hs ! 4, hs ! 5, hs ! 6, hs ! 7)
      in map2 (+) hs [a, b, c, d, e, f, g, h])"

definition sha256 :: "bytes \<Rightarrow> bytes" where
  "sha256 msg =
     (let padded = md_pad (be_bytes 8) msg
      in concat (map (be_bytes 4)
           (foldl sha256_block sha256_H0 (blocks 64 (length padded div 64) padded))))"

section \<open>MD5\<close>

definition md5_K :: "uint32 list" where
  "md5_K =
    [0xd76aa478, 0xe8c7b756, 0x242070db, 0xc1bdceee, 0xf57c0faf, 0x4787c62a,
     0xa8304613, 0xfd469501, 0x698098d8, 0x8b44f7af, 0xffff5bb1, 0x895cd7be,
     0x6b901122, 0xfd987193, 0xa679438e, 0x49b40821, 0xf61e2562, 0xc040b340,
     0x265e5a51, 0xe9b6c7aa, 0xd62f105d, 0x02441453, 0xd8a1e681, 0xe7d3fbc8,
     0x21e1cde6, 0xc33707d6, 0xf4d50d87, 0x455a14ed, 0xa9e3e905, 0xfcefa3f8,
     0x676f02d9, 0x8d2a4c8a, 0xfffa3942, 0x8771f681, 0x6d9d6122, 0xfde5380c,
     0xa4beea44, 0x4bdecfa9, 0xf6bb4b60, 0xbebfbc70, 0x289b7ec6, 0xeaa127fa,
     0xd4ef3085, 0x04881d05, 0xd9d4d039, 0xe6db99e5, 0x1fa27cf8, 0xc4ac5665,
     0xf4292244, 0x432aff97, 0xab9423a7, 0xfc93a039, 0x655b59c3, 0x8f0ccc92,
     0xffeff47d, 0x85845dd1, 0x6fa87e4f, 0xfe2ce6e0, 0xa3014314, 0x4e0811a1,
     0xf7537e82, 0xbd3af235, 0x2ad7d2bb, 0xeb86d391]"

definition md5_shift :: "nat \<Rightarrow> nat" where
  "md5_shift i = [[7, 12, 17, 22], [5, 9, 14, 20], [4, 11, 16, 23], [6, 10, 15, 21]]
     ! (i div 16) ! (i mod 4)"

type_synonym md5_state = "uint32 \<times> uint32 \<times> uint32 \<times> uint32"

fun md5_round :: "uint32 list \<Rightarrow> nat \<Rightarrow> md5_state \<Rightarrow> md5_state" where
  "md5_round ws i (a, b, c, d) =
     (let (f, g) =
            (if i < 16 then ((b AND c) OR (NOT b AND d), i)
             else if i < 32 then ((d AND b) OR (NOT d AND c), (5 * i + 1) mod 16)
             else if i < 48 then (b XOR c XOR d, (3 * i + 5) mod 16)
             else (c XOR (b OR NOT d), (7 * i) mod 16))
      in (d, b + rotl32 (md5_shift i) (a + f + md5_K ! i + ws ! g), b, c))"

fun md5_block :: "md5_state \<Rightarrow> bytes \<Rightarrow> md5_state" where
  "md5_block (a, b, c, d) blk =
     (let (a', b', c', d') = fold (md5_round (map le_word (blocks 4 16 blk))) [0..<64] (a, b, c, d)
      in (a + a', b + b', c + c', d + d'))"

definition md5 :: "bytes \<Rightarrow> bytes" where
  "md5 msg =
     (let padded = md_pad (le_bytes 8) msg;
          (a, b, c, d) = foldl md5_block (0x67452301, 0xefcdab89, 0x98badcfe, 0x10325476)
            (blocks 64 (length padded div 64) padded)
      in le_bytes 4 a @ le_bytes 4 b @ le_bytes 4 c @ le_bytes 4 d)"

section \<open>HMAC\<close>

definition hmac_pad_key :: "bytes \<Rightarrow> bytes" where
  "hmac_pad_key key = (let k = (if 64 < length key then sha256 key else key)
     in k @ replicate (64 - length k) 0)"

definition hmac_sha256 :: "bytes \<Rightarrow> bytes \<Rightarrow> bytes" where
  "hmac_sha256 key msg =
     (let k = hmac_pad_key key
      in sha256 (map (\<lambda>b. b XOR 0x5c) k @ sha256 (map (\<lambda>b. b XOR 0x36) k @ msg)))"

section \<open>Formatting\<close>

definition digit_char :: "nat \<Rightarrow> char" where
  "digit_char n = char_of (if n < 10 then 48 + n else 87 + n)"

text \<open>\<^verbatim>\<open>hex.EncodeToString\<close>, \<^verbatim>\<open>%d\<close> and the zero-padded \<^verbatim>\<open>%0*d\<close>.\<close>

definition hex_encode :: "bytes \<Rightarrow> string" where
  "hex_encode bs = concat (map (\<lambda>b. [digit_char (unat b div 16), digit_char (unat b mod 16)]) bs)"

fun fmt_d :: "nat \<Rightarrow> string" where
  "fmt_d n = (if n < 10 then [digit_char n] else fmt_d (n div 10) @ [digit_char (n mod 10)])"

declare fmt_d.simps [simp del]

definition fmt_0d :: "nat \<Rightarrow> nat \<Rightarrow> string" where
  "fmt_0d w n = (let s = fmt_d n in replicate (w - length s) (CHR ''0'') @ s)"

section \<open>Lemmas\<close>

lemma length_be_bytes [simp]: "length (be_bytes n w) = n"
  by (simp add: be_bytes_def)

lemma length_le_bytes [simp]: "length (le_bytes n w) = n"
  by (simp add: le_bytes_def)

lemma length_hex_encode [simp]: "length (hex_encode bs) = 2 * length bs"
  by (induction bs) (auto simp: hex_encode_def)

lemma length_md5 [simp]: "length (md5 msg) = 16"
  by (simp add: md5_def Let_def split: prod.splits)

lemma fmt_d_not_Nil [simp]: "fmt_d n \<noteq> []"
  by (subst fmt_d.simps) simp

lemma digit_char_inj: "m < 16 \<Longrightarrow> n < 16 \<Longrightarrow> digit_char m = digit_char n \<Longrightarrow> m = n"
  by (auto simp: digit_char_def char_of_eq_iff take_bit_eq_mod split: if_splits dest!: arg_cong[of _ _ of_char])

lemma fmt_d_inj: "fmt_d m = fmt_d n \<Longrightarrow> m = n"
proof (induction m arbitrary: n rule: fmt_d.induct)
  case (1 m)
  have one: "length (fmt_d k) = Suc 0 \<longleftrightarrow> k < 10" for k
    by (subst fmt_d.simps) simp
  show ?case
  proof (cases "m < 10")
    case True
    then have "n < 10" using one[of m] one[of n] "1.prems" by simp
    then show ?thesis using True "1.prems" digit_char_inj[of m n]
      by (simp add: fmt_d.simps[of m] fmt_d.simps[of n])
  next
    case False
    then have "\<not> n < 10" using one[of m] one[of n] "1.prems" by simp
    then have "fmt_d (m div 10) = fmt_d (n div 10)" "digit_char (m mod 10) = digit_char (n mod 10)"
      using False "1.prems" by (simp_all add: fmt_d.simps[of m] fmt_d.simps[of n])
    then have "m div 10 = n div 10" "m mod 10 = n mod 10"
      using "1.IH"[OF False] digit_char_inj[of "m mod 10" "n mod 10"] by auto
    then show ?thesis by (metis div_mult_mod_eq)
  qed
qed

text \<open>Decimal numerals are made of digits, and reading one back gives the number.\<close>

definition is_digit :: "char \<Rightarrow> bool" where
  "is_digit c \<longleftrightarrow> CHR ''0'' \<le> c \<and> c \<le> CHR ''9''"

definition dec_value :: "string \<Rightarrow> nat" where
  "dec_value s = foldl (\<lambda>acc c. 10 * acc + (of_char c - 48)) 0 s"

lemma of_digit_char [simp]: "d < 10 \<Longrightarrow> of_char (digit_char d) = 48 + d"
  by (simp add: digit_char_def)

lemma is_digit_digit_char [simp]: "d < 10 \<Longrightarrow> is_digit (digit_char d)"
  by (simp add: is_digit_def less_eq_char_def)

lemma fmt_d_digits: "\<forall>c \<in> set (fmt_d n). is_digit c"
proof (induction n rule: fmt_d.induct)
  case (1 n)
  then show ?case by (cases "n < 10") (simp_all add: fmt_d.simps[of n])
qed

lemma fmt_0d_digits: "\<forall>c \<in> set (fmt_0d w n). is_digit c"
  using fmt_d_digits[of n] by (auto simp: fmt_0d_def Let_def is_digit_def)

lemma dec_value_fmt_d: "dec_value (fmt_d n) = n"
proof (induction n rule: fmt_d.induct)
  case (1 n)
  show ?case
  proof (cases "n < 10")
    case True
    then show ?thesis by (simp add: fmt_d.simps[of n] dec_value_def)
  next
    case False
    then have "dec_value (fmt_d n) = 10 * dec_value (fmt_d (n div 10)) + n mod 10"
      by (simp add: fmt_d.simps[of n] dec_value_def)
    then show ?thesis using 1[OF False] by simp
  qed
qed

lemma dec_value_fmt_0d [simp]: "dec_value (fmt_0d w n) = n"
proof -
  have "foldl (\<lambda>acc c. 10 * acc + (of_char c - 48)) (0 :: nat) (replicate k (CHR ''0'')) = 0" for k
    by (induction k) simp_all
  then show ?thesis using dec_value_fmt_d[of n] by (simp add: fmt_0d_def Let_def dec_value_def)
qed

lemma fmt_0d_inj [simp]: "fmt_0d w m = fmt_0d w n \<longleftrightarrow> m = n"
  by (metis dec_value_fmt_0d)

end
