(* ===== verification/Node.thy ===== *)
theory Node
  imports Store Hashes
begin

text \<open>
  Moving chunks between nodes: the handlers of \<^verbatim>\<open>internal/api/api.go\<close> that serve a node's chunk
  store and the client side in \<^verbatim>\<open>internal/peer/peer.go\<close>.

  The disks of the cluster are a function from node id to chunk store.  Everything the network and
  the machines may do to one operation is the environment: which system calls fail on which node,
  which node answers at an address, what becomes of the bytes of a body in either direction (any
  function at all, so corruption, truncation and an aborted connection are covered), and whether
  the answer to a request arrives.
\<close>

section \<open>The environment\<close>

record env =
  ev_now :: int
  ev_faults :: "string \<Rightarrow> string \<Rightarrow> faults"
  ev_addr :: "string \<Rightarrow> string option"
  ev_up :: "string \<Rightarrow> string \<Rightarrow> reader \<Rightarrow> reader"
  ev_down :: "string \<Rightarrow> string \<Rightarrow> reader \<Rightarrow> reader"
  ev_reply :: "string \<Rightarrow> string \<Rightarrow> bool"

type_synonym disks = "string \<Rightarrow> store"

section \<open>The checksum header\<close>

text \<open>\<^verbatim>\<open>%08x\<close> of a 32-bit checksum, and \<^verbatim>\<open>strconv.ParseUint(raw, 16, 32)\<close>.\<close>

definition hex_char :: "nat \<Rightarrow> nat \<Rightarrow> char" where
  "hex_char n i = digit_char (n div 16 ^ i mod 16)"

definition fmt_08x :: "uint32 \<Rightarrow> string" where
  "fmt_08x c = map (hex_char (unat c)) (rev [0..<8])"

definition hex_value :: "char \<Rightarrow> nat option" where
  "hex_value c = (let n = of_char c in
     if 48 \<le> n \<and> n \<le> 57 then Some (n - 48)
     else if 97 \<le> n \<and> n \<le> 102 then Some (n - 87)
     else if 65 \<le> n \<and> n \<le> 70 then Some (n - 55)
     else None)"

fun hex_digits :: "nat \<Rightarrow> string \<Rightarrow> nat option" where
  "hex_digits acc [] = Some acc"
| "hex_digits acc (c # cs) = (case hex_value c of
      None \<Rightarrow> None
    | Some d \<Rightarrow> hex_digits (acc * 16 + d) cs)"

definition declaredCRC :: "string \<Rightarrow> error + uint32" where
  "declaredCRC raw =
     (if raw = '''' then Inl [Other ''missing header'']
      else case hex_digits 0 raw of
             None \<Rightarrow> Inl [Other ''malformed header'']
           | Some n \<Rightarrow> if n < 2 ^ 32 then Inr (word_of_nat n) else Inl [Other ''malformed header''])"

section \<open>Serving chunks\<close>

definition putChunk ::
  "faults \<Rightarrow> int \<Rightarrow> store \<Rightarrow> string \<Rightarrow> string \<Rightarrow> int \<Rightarrow> reader \<Rightarrow> store \<times> int" where
  "putChunk F now s cid header contentLength body = (case declaredCRC header of
      Inl e \<Rightarrow> (s, 400)
    | Inr crc \<Rightarrow>
        if contentLength < 0 then (s, 411)
        else (case local_put F now cid s cid body crc contentLength of
           (s', None) \<Rightarrow> (s', 200)
         | (s', Some e) \<Rightarrow>
             (s', if errors_Is e ErrInvalidID then 400
                  else if errors_Is e ErrVerificationFailed then 400
                  else if errors_Is e ErrUnexpectedEOF then 400
                  else 500)))"

text \<open>
  A copy that fails its checksum at the end is logged, not aborted: the handler returns, so the
  response body ends like any other.  It is the receiver's check that rejects it.
\<close>

definition getChunk :: "faults \<Rightarrow> store \<Rightarrow> string \<Rightarrow> string \<Rightarrow> int \<times> reader" where
  "getChunk F s cid header = (case declaredCRC header of
      Inl e \<Rightarrow> (400, bytes_NewReader [])
    | Inr crc \<Rightarrow> (case ReadChunk F s cid crc of
        Inl e \<Rightarrow>
          (if errors_Is e store_ErrNotFound then 404
           else if errors_Is e ErrInvalidID then 400
           else 500, bytes_NewReader [])
      | Inr rc \<Rightarrow> (200, bytes_NewReader (rdata rc))))"

definition headChunk :: "faults \<Rightarrow> store \<Rightarrow> string \<Rightarrow> int" where
  "headChunk F s cid = (case HasChunk F s cid of
      Inl e \<Rightarrow> if errors_Is e ErrInvalidID then 400 else 500
    | Inr held \<Rightarrow> if \<not> held then 404 else 200)"

definition checkChunks :: "faults \<Rightarrow> store \<Rightarrow> string list \<Rightarrow> int \<times> string list" where
  "checkChunks F s cids = (case HasChunks F s cids of
      Inl e \<Rightarrow> (500, [])
    | Inr have_ids \<Rightarrow> (200, have_ids))"

section \<open>Calling a peer\<close>

definition PushChunk ::
  "env \<Rightarrow> disks \<Rightarrow> string \<Rightarrow> string \<Rightarrow> uint32 \<Rightarrow> int \<Rightarrow> reader \<Rightarrow> disks \<times> error option" where
  "PushChunk V D addr cid crc sz body = (case ev_addr V addr of
      None \<Rightarrow> (D, Some [Other ''peer: push chunk''])
    | Some node \<Rightarrow>
        (case putChunk (ev_faults V node cid) (ev_now V) (D node) cid (fmt_08x crc) sz (ev_up V addr cid body) of
           (s', status) \<Rightarrow>
             (D(node := s'),
              if \<not> ev_reply V addr cid then Some [Other ''peer: push chunk'']
              else if status \<noteq> 200 then Some [Other ''peer: push chunk'']
              else None)))"

definition FetchChunk :: "env \<Rightarrow> disks \<Rightarrow> string \<Rightarrow> string \<Rightarrow> uint32 \<Rightarrow> error + reader" where
  "FetchChunk V D addr cid crc = (case ev_addr V addr of
      None \<Rightarrow> Inl [Other ''peer: fetch chunk'']
    | Some node \<Rightarrow>
        (case getChunk (ev_faults V node cid) (D node) cid (fmt_08x crc) of
           (status, body) \<Rightarrow>
             if \<not> ev_reply V addr cid then Inl [Other ''peer: fetch chunk'']
             else if status = 200 then Inr (Verify (ev_down V addr cid body) crc)
             else if status = 404 then Inl [peer_ErrNotFound]
             else Inl [Other ''peer: fetch chunk'']))"

definition peer_HasChunks :: "env \<Rightarrow> disks \<Rightarrow> string \<Rightarrow> string list \<Rightarrow> error + string list" where
  "peer_HasChunks V D addr cids = (case ev_addr V addr of
      None \<Rightarrow> Inl [Other ''peer: check chunks'']
    | Some node \<Rightarrow>
        (case checkChunks (ev_faults V node '''') (D node) cids of
           (status, have_ids) \<Rightarrow>
             if \<not> ev_reply V addr '''' then Inl [Other ''peer: check chunks'']
             else if status \<noteq> 200 then Inl [Other ''peer: check chunks'']
             else Inr have_ids))"

section \<open>Lemmas\<close>

lemma hex_value_digit: "d < 16 \<Longrightarrow> hex_value (digit_char d) = Some d"
  by (auto simp: hex_value_def digit_char_def Let_def)

lemma hex_digits_chars:
  "hex_digits acc (map (hex_char n) (rev [0..<k])) = Some (acc * 16 ^ k + n mod 16 ^ k)"
proof (induction k arbitrary: acc)
  case (Suc k)
  have "n mod 16 ^ Suc k = 16 ^ k * (n div 16 ^ k mod 16) + n mod 16 ^ k"
    by (simp only: power_Suc2 mod_mult2_eq)
  then show ?case using Suc by (simp add: hex_char_def hex_value_digit algebra_simps)
qed simp

lemma declaredCRC_fmt [simp]: "declaredCRC (fmt_08x c) = Inr c"
proof -
  have "unat c < 2 ^ 32" using unsigned_less[where 'a = nat and w = c] by simp
  moreover have "hex_digits 0 (fmt_08x c) = Some (unat c mod 16 ^ 8)"
    unfolding fmt_08x_def hex_digits_chars by simp
  ultimately show ?thesis by (simp add: declaredCRC_def fmt_08x_def)
qed

lemma putChunk_ok:
  assumes "putChunk F now s cid (fmt_08x crc) n body = (s', 200)"
  shows "local_put F now cid s cid body crc n = (s', None)"
  using assms by (auto simp: putChunk_def split: if_splits prod.splits option.splits)

lemma putChunk_store:
  "fst (putChunk F now s cid (fmt_08x crc) n body) = s \<or>
   fst (putChunk F now s cid (fmt_08x crc) n body) = fst (local_put F now cid s cid body crc n)"
  by (auto simp: putChunk_def split: if_splits prod.splits option.splits)

definition peer_content :: "env \<Rightarrow> string \<Rightarrow> disks \<Rightarrow> string \<Rightarrow> bytes option" where
  "peer_content V addr D x = (case ev_addr V addr of None \<Rightarrow> None | Some node \<Rightarrow> chunk_data (D node) x)"

definition peer_put :: "env \<Rightarrow> string \<Rightarrow> disks \<Rightarrow> string \<Rightarrow> reader \<Rightarrow> uint32 \<Rightarrow> int \<Rightarrow> disks \<times> error option" where
  "peer_put V addr D x r c n = PushChunk V D addr x c n r"

lemma PushChunk_store:
  assumes "PushChunk V D addr x c n r = (D', res)" "ev_addr V addr = Some node"
  shows "D' = D(node := fst (putChunk (ev_faults V node x) (ev_now V) (D node) x (fmt_08x c) n (ev_up V addr x r)))"
  using assms by (auto simp: PushChunk_def split: prod.splits)

lemma PushChunk_ok:
  assumes "PushChunk V D addr x c n r = (D', None)"
  obtains node where "ev_addr V addr = Some node" "D' = D(node := D' node)"
    "local_put (ev_faults V node x) (ev_now V) x (D node) x (ev_up V addr x r) c n = (D' node, None)"
  using assms putChunk_ok
  by (fastforce simp: PushChunk_def split: option.splits prod.splits if_splits)

text \<open>A peer behind an address is as good an endpoint as the local disk, whatever the wire does.\<close>

interpretation remote: chunk_endpoint "peer_put V addr" "\<lambda>D x c. FetchChunk V D addr x c" "peer_content V addr"
  for V addr
proof (unfold_locales, goal_cases)
  case (1 D x r c n D')
  then obtain node where n: "ev_addr V addr = Some node"
    "local_put (ev_faults V node x) (ev_now V) x (D node) x (ev_up V addr x r) c n = (D' node, None)"
    unfolding peer_put_def by (rule PushChunk_ok)
  from disk.put_ok[OF n(2)] show ?case using n(1) by (simp add: peer_content_def)
next
  case (2 D x r c n D' res y)
  show ?case
  proof (cases "ev_addr V addr")
    case (Some node)
    note D' = PushChunk_store[OF 2(1)[unfolded peer_put_def] Some]
    show ?thesis
      using D' Some 2(2) putChunk_store[of "ev_faults V node x" "ev_now V" "D node" x c n "ev_up V addr x r"]
        WriteChunkVerified_frame[OF 2(2)]
      by (auto simp: peer_content_def fst_local_put)
  qed (simp add: peer_content_def)
next
  case (3 D x r c n D' res)
  show ?case
  proof (cases "ev_addr V addr")
    case (Some node)
    note D' = PushChunk_store[OF 3[unfolded peer_put_def] Some]
    obtain s' e where p: "local_put (ev_faults V node x) (ev_now V) x (D node) x (ev_up V addr x r) c n = (s', e)"
      by fastforce
    from disk.put_whole[OF p] show ?thesis
      using D' Some putChunk_store[of "ev_faults V node x" "ev_now V" "D node" x c n "ev_up V addr x r"] p
      by (auto simp: peer_content_def)
  qed (simp add: peer_content_def)
next
  case (4 D x c r)
  then show ?case by (auto simp: FetchChunk_def Verify_def split: option.splits prod.splits if_splits)
next
  case (5 D x c r)
  then show ?case
    by (auto simp: FetchChunk_def getChunk_def ReadChunk_def peer_content_def
        split: option.splits prod.splits if_splits sum.splits)
qed

end
