(* ===== verification/EC.thy ===== *)
theory EC
  imports Kavo_Prelude
begin

text \<open>
  Erasure coding, \<^verbatim>\<open>internal/ec/ec.go\<close>: splitting a chunk into data and parity shards and
  rebuilding it from the shards that survive.

  The arithmetic is \<^verbatim>\<open>klauspost/reedsolomon\<close>, a third-party package, and is the argument \<open>rs\<close> of
  the definitions.  What the code relies on is the locale \<open>reed_solomon\<close>: how \<^verbatim>\<open>Split\<close> cuts and
  pads, that \<^verbatim>\<open>Encode\<close> keeps the data shards, that \<^verbatim>\<open>Reconstruct\<close> recovers the missing shards of
  an encoding from any \<^verbatim>\<open>Data\<close> of them, and that \<^verbatim>\<open>Join\<close> writes out the data shards.
\<close>

record scheme =
  sc_Data :: int
  sc_Parity :: int

definition zero_scheme :: scheme where
  "zero_scheme = \<lparr>sc_Data = 0, sc_Parity = 0\<rparr>"

text \<open>The sum is taken not to wrap, which takes a scheme of \<open>2 ^ 63\<close> shards.\<close>

definition Shards :: "scheme \<Rightarrow> int" where
  "Shards s = sc_Data s + sc_Parity s"

definition Valid :: "scheme \<Rightarrow> bool" where
  "Valid s \<longleftrightarrow> sc_Data s > 0 \<and> sc_Parity s > 0 \<and> Shards s \<le> 256"

section \<open>The coding library\<close>

record rs_lib =
  rs_New :: "int \<Rightarrow> int \<Rightarrow> error option"
  rs_Split :: "scheme \<Rightarrow> bytes \<Rightarrow> error + bytes list"
  rs_Encode :: "scheme \<Rightarrow> bytes list \<Rightarrow> error + bytes list"
  rs_Reconstruct :: "scheme \<Rightarrow> bytes option list \<Rightarrow> error + bytes option list"
  rs_Join :: "scheme \<Rightarrow> bytes option list \<Rightarrow> int \<Rightarrow> error + bytes list"

section \<open>Encode and Reconstruct\<close>

definition encoder :: "rs_lib \<Rightarrow> scheme \<Rightarrow> error + scheme" where
  "encoder rs s =
     (if \<not> Valid s then Inl [Other ''ec: invalid scheme'']
      else case rs_New rs (sc_Data s) (sc_Parity s) of
             Some e \<Rightarrow> Inl e
           | None \<Rightarrow> Inr s)"

definition Encode :: "rs_lib \<Rightarrow> scheme \<Rightarrow> bytes \<Rightarrow> error + bytes list" where
  "Encode rs s chunk = (case encoder rs s of
      Inl e \<Rightarrow> Inl e
    | Inr enc \<Rightarrow> (case rs_Split rs enc chunk of
        Inl e \<Rightarrow> Inl e
      | Inr shards \<Rightarrow> (case rs_Encode rs enc shards of
          Inl e \<Rightarrow> Inl e
        | Inr shards' \<Rightarrow> Inr shards')))"

text \<open>\<^verbatim>\<open>sliceWriter\<close> collects what \<^verbatim>\<open>Join\<close> writes.\<close>

definition sliceWriter_Write :: "bytes \<Rightarrow> bytes \<Rightarrow> bytes" where
  "sliceWriter_Write b p = b @ p"

definition present :: "bytes option list \<Rightarrow> nat" where
  "present shards = length (filter (\<lambda>sh. sh \<noteq> None) shards)"

text \<open>
  \<^verbatim>\<open>Reconstruct\<close> hands back the chunk and, through the slice it was given, the rebuilt shards.
  A negative size makes \<^verbatim>\<open>make([]byte, 0, size)\<close> panic, which is an error here.
\<close>

definition Reconstruct ::
  "rs_lib \<Rightarrow> scheme \<Rightarrow> bytes option list \<Rightarrow> int \<Rightarrow> error + bytes \<times> bytes option list" where
  "Reconstruct rs s shards sz =
     (if int (length shards) \<noteq> Shards s then Inl [Other ''ec: shard slots'']
      else if int (present shards) < sc_Data s then Inl [ErrTooFewShards]
      else case encoder rs s of
        Inl e \<Rightarrow> Inl e
      | Inr enc \<Rightarrow>
          (case (if int (present shards) < Shards s then rs_Reconstruct rs enc shards else Inr shards) of
             Inl e \<Rightarrow> Inl e
           | Inr shards' \<Rightarrow>
               if sz < 0 then Inl [Other ''panic: makeslice'']
               else (case rs_Join rs enc shards' sz of
                       Inl e \<Rightarrow> Inl e
                     | Inr pieces \<Rightarrow> Inr (foldl sliceWriter_Write [] pieces, shards'))))"

section \<open>What the library promises\<close>

text \<open>Slots that hold some of the shards of one encoding, each in its own place.\<close>

definition slots_of :: "bytes list \<Rightarrow> bytes option list \<Rightarrow> bool" where
  "slots_of full shards \<longleftrightarrow>
     list_all2 (\<lambda>f sh. sh = None \<or> sh = Some f) full shards"

definition per_shard :: "scheme \<Rightarrow> bytes \<Rightarrow> nat" where
  "per_shard s chunk = (length chunk + nat (sc_Data s) - 1) div nat (sc_Data s)"

locale reed_solomon =
  fixes rs :: rs_lib and sc :: scheme
  assumes valid: "Valid sc"
    and new_ok: "rs_New rs (sc_Data sc) (sc_Parity sc) = None"
    and split_ok: "chunk \<noteq> [] \<Longrightarrow> \<exists>shards. rs_Split rs sc chunk = Inr shards \<and>
      int (length shards) = Shards sc \<and>
      (\<forall>sh \<in> set shards. length sh = per_shard sc chunk) \<and>
      concat (take (nat (sc_Data sc)) shards) =
        chunk @ replicate (per_shard sc chunk * nat (sc_Data sc) - length chunk) 0"
    and encode_ok: "int (length shards) = Shards sc \<Longrightarrow> 0 < n \<Longrightarrow> \<forall>sh \<in> set shards. length sh = n \<Longrightarrow>
      \<exists>full. rs_Encode rs sc shards = Inr full \<and> length full = length shards \<and>
        (\<forall>sh \<in> set full. length sh = n) \<and>
        take (nat (sc_Data sc)) full = take (nat (sc_Data sc)) shards"
    and reconstruct_ok: "rs_Encode rs sc shards = Inr full \<Longrightarrow> int (length full) = Shards sc \<Longrightarrow>
      0 < n \<Longrightarrow> \<forall>sh \<in> set full. length sh = n \<Longrightarrow>
      slots_of full slots \<Longrightarrow> sc_Data sc \<le> int (present slots) \<Longrightarrow>
      rs_Reconstruct rs sc slots = Inr (map Some full)"
    and join_ok: "int (length full) = Shards sc \<Longrightarrow> 0 \<le> sz \<Longrightarrow>
      nat sz \<le> length (concat (take (nat (sc_Data sc)) full)) \<Longrightarrow>
      \<exists>pieces. rs_Join rs sc (map Some full) sz = Inr pieces \<and>
        concat pieces = take (nat sz) (concat (take (nat (sc_Data sc)) full))"

section \<open>The contract the cluster uses\<close>

text \<open>
  An erasure coder: encoding a chunk gives a fixed number of shards of one length, and any \<open>need\<close>
  of them, in their places, give back the chunk and every other shard.
\<close>

locale erasure_coder =
  fixes enc :: "bytes \<Rightarrow> error + bytes list"
    and dec :: "bytes option list \<Rightarrow> int \<Rightarrow> error + bytes \<times> bytes option list"
    and need total :: nat
  assumes need_pos: "0 < need" and need_total: "need < total"
    and enc_total: "chunk \<noteq> [] \<Longrightarrow> \<exists>full. enc chunk = Inr full"
    and enc_length: "chunk \<noteq> [] \<Longrightarrow> enc chunk = Inr full \<Longrightarrow> length full = total"
    and dec_enc: "chunk \<noteq> [] \<Longrightarrow> enc chunk = Inr full \<Longrightarrow> slots_of full slots \<Longrightarrow> need \<le> present slots \<Longrightarrow>
      dec slots (int (length chunk)) = Inr (chunk, map Some full)"
begin

lemma slots_of_full: "slots_of full (map Some full)"
  by (simp add: slots_of_def list_all2_conv_all_nth)

text \<open>Losing up to \<open>total - need\<close> shards, whichever they are, loses nothing.\<close>

lemma dec_after_loss:
  assumes "chunk \<noteq> []" "enc chunk = Inr full" "card lost \<le> total - need" "finite lost"
  shows "dec (map (\<lambda>i. if i \<in> lost then None else Some (full ! i)) [0..<total]) (int (length chunk)) =
    Inr (chunk, map Some full)"
proof (rule dec_enc[OF assms(1,2)])
  let ?slots = "map (\<lambda>i. if i \<in> lost then None else Some (full ! i)) [0..<total]"
  show "slots_of full ?slots"
    using enc_length[OF assms(1,2)] by (simp add: slots_of_def list_all2_conv_all_nth)
  have "present ?slots = length (filter (\<lambda>i. i \<notin> lost) [0..<total])"
    by (simp add: present_def filter_map o_def cong: filter_cong)
  also have "\<dots> = card ({0..<total} - lost)"
    by (subst length_filter_card) (auto intro: arg_cong[where f = card])
  also have "\<dots> \<ge> total - card lost"
    using diff_card_le_card_Diff[OF assms(4), of "{0..<total}"] by simp
  finally show "need \<le> present ?slots" using assms(3) need_total by simp
qed

end

lemma foldl_sliceWriter [simp]: "foldl sliceWriter_Write b pieces = b @ concat pieces"
  by (induction pieces arbitrary: b) (simp_all add: sliceWriter_Write_def)

lemma present_le: "present shards \<le> length shards"
  by (simp add: present_def)

lemma slots_of_length: "slots_of full slots \<Longrightarrow> length slots = length full"
  unfolding slots_of_def by (drule list_all2_lengthD) simp

lemma present_all:
  assumes "slots_of full slots" "present slots = length full"
  shows "slots = map Some full"
proof (rule nth_equalityI)
  show "length slots = length (map Some full)" using assms(1) by (simp add: slots_of_length)
  fix i assume i: "i < length slots"
  have "filter (\<lambda>sh. sh \<noteq> None) slots = slots"
    using assms by (metis filter_True length_filter_less nat_less_le present_def slots_of_length)
  then have "slots ! i \<noteq> None" using i by (metis (mono_tags, lifting) filter_id_conv nth_mem)
  then show "slots ! i = map Some full ! i" using assms(1) i by (auto simp: slots_of_def list_all2_conv_all_nth)
qed

lemma per_shard_covers:
  assumes "0 < sc_Data s"
  shows "length chunk \<le> per_shard s chunk * nat (sc_Data s)"
proof -
  let ?d = "nat (sc_Data s)"
  have "0 < ?d" using assms by simp
  have "(length chunk + ?d - 1) mod ?d < ?d" using \<open>0 < ?d\<close> by simp
  moreover have "(length chunk + ?d - 1) div ?d * ?d + (length chunk + ?d - 1) mod ?d =
      length chunk + ?d - 1" by (rule div_mult_mod_eq)
  ultimately have "length chunk \<le> (length chunk + ?d - 1) div ?d * ?d" using \<open>0 < ?d\<close> by linarith
  then show ?thesis by (simp add: per_shard_def)
qed

lemma per_shard_pos: "0 < sc_Data s \<Longrightarrow> chunk \<noteq> [] \<Longrightarrow> 0 < per_shard s chunk"
  using per_shard_covers[of s chunk] by (cases "per_shard s chunk") auto

context reed_solomon
begin

lemma encoder_ok: "encoder rs sc = Inr sc"
  using valid new_ok by (simp add: encoder_def)

lemma Encode_shape:
  assumes "chunk \<noteq> []"
  obtains shards full where "rs_Split rs sc chunk = Inr shards" "rs_Encode rs sc shards = Inr full"
    "Encode rs sc chunk = Inr full" "int (length full) = Shards sc"
    "\<forall>sh \<in> set full. length sh = per_shard sc chunk"
    "concat (take (nat (sc_Data sc)) full) =
      chunk @ replicate (per_shard sc chunk * nat (sc_Data sc) - length chunk) 0"
proof -
  have pos: "0 < per_shard sc chunk" using valid assms by (simp add: Valid_def per_shard_pos)
  obtain shards where s: "rs_Split rs sc chunk = Inr shards" "int (length shards) = Shards sc"
    "\<forall>sh \<in> set shards. length sh = per_shard sc chunk"
    "concat (take (nat (sc_Data sc)) shards) =
      chunk @ replicate (per_shard sc chunk * nat (sc_Data sc) - length chunk) 0"
    using split_ok[OF assms] by blast
  obtain full where f: "rs_Encode rs sc shards = Inr full" "length full = length shards"
    "\<forall>sh \<in> set full. length sh = per_shard sc chunk"
    "take (nat (sc_Data sc)) full = take (nat (sc_Data sc)) shards"
    using encode_ok[OF s(2) pos s(3)] by blast
  show ?thesis using that[OF s(1) f(1)] s f by (simp add: Encode_def encoder_ok)
qed

lemma Reconstruct_Encode:
  assumes "chunk \<noteq> []" "Encode rs sc chunk = Inr full" "slots_of full slots"
    "nat (sc_Data sc) \<le> present slots"
  shows "Reconstruct rs sc slots (int (length chunk)) = Inr (chunk, map Some full)"
proof -
  obtain shards full' where e: "rs_Encode rs sc shards = Inr full'" "Encode rs sc chunk = Inr full'"
    "int (length full') = Shards sc" "\<forall>sh \<in> set full'. length sh = per_shard sc chunk"
    "concat (take (nat (sc_Data sc)) full') =
      chunk @ replicate (per_shard sc chunk * nat (sc_Data sc) - length chunk) 0"
    using Encode_shape[OF assms(1)] by metis
  have full: "full' = full" using e(2) assms(2) by simp
  have len: "length slots = length full" using assms(3) by (simp add: slots_of_length)
  have pos: "0 < per_shard sc chunk" using valid assms(1) by (simp add: Valid_def per_shard_pos)
  have need: "sc_Data sc \<le> int (present slots)" using assms(4) by linarith
  have filled: "(if int (present slots) < Shards sc then rs_Reconstruct rs sc slots else Inr slots) =
      Inr (map Some full)"
  proof (cases "int (present slots) < Shards sc")
    case True
    then show ?thesis using reconstruct_ok[OF e(1,3) pos e(4)] full assms(3) need by simp
  next
    case False
    moreover have "int (length full) = Shards sc" using e(3) full by simp
    ultimately have "present slots = length full" using present_le[of slots] len by linarith
    then show ?thesis using present_all[OF assms(3)] False by simp
  qed
  obtain pieces where "rs_Join rs sc (map Some full) (int (length chunk)) = Inr pieces"
    "concat pieces = take (length chunk) (concat (take (nat (sc_Data sc)) full))"
    using join_ok[OF e(3), of "int (length chunk)"] e(5) full by auto
  then have "concat pieces = chunk" using e(5) full by simp
  then show ?thesis
    using \<open>rs_Join rs sc (map Some full) (int (length chunk)) = Inr pieces\<close> filled len e(3) full need
    by (simp add: Reconstruct_def encoder_ok)
qed

end

sublocale reed_solomon \<subseteq> code: erasure_coder
  "Encode rs sc" "Reconstruct rs sc" "nat (sc_Data sc)" "nat (Shards sc)"
proof (unfold_locales, goal_cases)
  case 1 then show ?case using valid by (simp add: Valid_def)
next
  case 2 then show ?case using valid by (simp add: Valid_def Shards_def)
next
  case (3 chunk) then show ?case by (metis Encode_shape)
next
  case (4 chunk full)
  then show ?case using Encode_shape[OF 4(1)] by (metis nat_int sum.inject(2))
next
  case (5 chunk full slots) then show ?case by (rule Reconstruct_Encode)
qed


context reed_solomon
begin

lemma Reconstruct_lost:
  assumes "chunk \<noteq> []" "finite lost" "int (card lost) \<le> sc_Parity sc"
  shows "\<exists>full. Encode rs sc chunk = Inr full \<and> int (length full) = Shards sc \<and>
    Reconstruct rs sc (map (\<lambda>i. if i \<in> lost then None else Some (full ! i)) [0..<length full])
      (int (length chunk)) = Inr (chunk, map Some full)"
proof -
  obtain full where full: "Encode rs sc chunk = Inr full" using code.enc_total[OF assms(1)] by blast
  have len: "length full = nat (Shards sc)" using code.enc_length[OF assms(1) full] .
  have "card lost \<le> nat (Shards sc) - nat (sc_Data sc)"
    using assms(3) valid by (simp add: Valid_def Shards_def nat_add_distrib)
  then show ?thesis
    using code.dec_after_loss[OF assms(1) full _ assms(2)] full len valid
    by (simp add: Valid_def Shards_def)
qed

end

section \<open>A concrete code\<close>

text \<open>
  Two data shards and their exclusive or: the smallest code with the promised behaviour, used to
  show that the library's promises can hold.
\<close>

definition scheme_2_1 :: scheme where
  "scheme_2_1 = \<lparr>sc_Data = 2, sc_Parity = 1\<rparr>"

definition xor_bytes :: "bytes \<Rightarrow> bytes \<Rightarrow> bytes" where
  "xor_bytes a b = map2 (XOR) a b"

definition xor_split :: "scheme \<Rightarrow> bytes \<Rightarrow> error + bytes list" where
  "xor_split s chunk =
     (if chunk = [] then Inl [Other ''short data'']
      else let k = per_shard s chunk; padded = chunk @ replicate (2 * k - length chunk) 0
           in Inr [take k padded, drop k padded, replicate k 0])"

fun xor_encode :: "scheme \<Rightarrow> bytes list \<Rightarrow> error + bytes list" where
  "xor_encode s [a, b, c] = Inr [a, b, xor_bytes a b]"
| "xor_encode s _ = Inl [Other ''too few shards'']"

fun xor_reconstruct :: "scheme \<Rightarrow> bytes option list \<Rightarrow> error + bytes option list" where
  "xor_reconstruct s [Some a, Some b, c] = Inr [Some a, Some b, Some (xor_bytes a b)]"
| "xor_reconstruct s [Some a, None, Some c] = Inr [Some a, Some (xor_bytes a c), Some c]"
| "xor_reconstruct s [None, Some b, Some c] = Inr [Some (xor_bytes b c), Some b, Some c]"
| "xor_reconstruct s _ = Inl [Other ''too few shards'']"

fun xor_join :: "scheme \<Rightarrow> bytes option list \<Rightarrow> int \<Rightarrow> error + bytes list" where
  "xor_join s (Some a # Some b # rest) sz =
     (if nat sz > length (a @ b) then Inl [Other ''short data'']
      else Inr [take (nat sz) (a @ b)])"
| "xor_join s _ sz = Inl [Other ''too few shards'']"

definition xor_rs :: rs_lib where
  "xor_rs = \<lparr>rs_New = \<lambda>d p. None, rs_Split = xor_split, rs_Encode = xor_encode,
     rs_Reconstruct = xor_reconstruct, rs_Join = xor_join\<rparr>"

lemma xor_bytes_cancel:
  "length a = length b \<Longrightarrow> xor_bytes a (xor_bytes a b) = b"
  "length a = length b \<Longrightarrow> xor_bytes b (xor_bytes a b) = a"
  by (induction a b rule: list_induct2)
    (simp_all add: xor_bytes_def xor.left_commute xor.assoc[symmetric])

lemma length_xor_bytes [simp]: "length (xor_bytes a b) = min (length a) (length b)"
  by (simp add: xor_bytes_def)

lemma length_3: "length xs = 3 \<longleftrightarrow> (\<exists>a b c. xs = [a, b, c])"
  by (auto simp: numeral_3_eq_3 length_Suc_conv)

lemma slots_of_3:
  "slots_of [a, b, c] slots \<Longrightarrow>
    \<exists>x y z. slots = [x, y, z] \<and> x \<in> {None, Some a} \<and> y \<in> {None, Some b} \<and> z \<in> {None, Some c}"
  by (auto simp: slots_of_def list_all2_Cons1)

lemma xor_reconstruct_full:
  assumes "length a = length b" "slots_of [a, b, xor_bytes a b] slots" "2 \<le> present slots"
  shows "xor_reconstruct s slots = Inr (map Some [a, b, xor_bytes a b])"
proof -
  obtain x y z where "slots = [x, y, z]" "x \<in> {None, Some a}" "y \<in> {None, Some b}"
    "z \<in> {None, Some (xor_bytes a b)}"
    using slots_of_3[OF assms(2)] by blast
  then show ?thesis using assms(1,3) by (auto simp: present_def xor_bytes_cancel)
qed

interpretation xor21: reed_solomon xor_rs scheme_2_1
proof (unfold_locales, goal_cases)
  case 1 then show ?case by (simp add: Valid_def Shards_def scheme_2_1_def)
next
  case 2 then show ?case by (simp add: xor_rs_def)
next
  case (3 chunk)
  define k where "k = per_shard scheme_2_1 chunk"
  define padded where "padded = chunk @ replicate (2 * k - length chunk) 0"
  have "length chunk \<le> k * 2"
    using per_shard_covers[of scheme_2_1 chunk] by (simp add: scheme_2_1_def k_def)
  then have "length padded = 2 * k" by (simp add: padded_def)
  then obtain u v where uv: "padded = u @ v" "length u = k" "length v = k"
    using that[of "take k padded" "drop k padded"] by simp
  have "xor_split scheme_2_1 chunk = Inr [take k padded, drop k padded, replicate k 0]"
    using 3 by (simp add: xor_split_def k_def padded_def Let_def)
  then have split: "xor_split scheme_2_1 chunk = Inr [u, v, replicate k 0]" using uv by simp
  have "u @ v = chunk @ replicate (k * 2 - length chunk) 0"
    by (simp only: uv(1)[symmetric] padded_def mult.commute)
  moreover have "nat (sc_Data scheme_2_1) = Suc (Suc 0)" "Shards scheme_2_1 = 3"
    by (simp_all add: scheme_2_1_def Shards_def)
  ultimately show ?case
    unfolding k_def[symmetric] using split uv(2,3) by (simp add: xor_rs_def numeral_2_eq_2)
next
  case (4 shards n)
  then obtain a b c where "shards = [a, b, c]" by (auto simp: Shards_def scheme_2_1_def length_3)
  with 4 show ?case by (simp add: xor_rs_def scheme_2_1_def numeral_2_eq_2)
next
  case (5 shards full n slots)
  then obtain a b c where "shards = [a, b, c]"
    by (auto simp: xor_rs_def elim: xor_encode.elims)
  with 5 show ?case
    by (auto simp: xor_rs_def scheme_2_1_def intro!: xor_reconstruct_full[simplified])
next
  case (6 full sz)
  then obtain a b c where "full = [a, b, c]" by (auto simp: Shards_def scheme_2_1_def length_3)
  with 6 show ?case by (simp add: xor_rs_def scheme_2_1_def numeral_2_eq_2)
qed

section \<open>Properties of the erasure code\<close>

text \<open>
  C36. Losing any \<^verbatim>\<open>Parity\<close> shards of an encoded chunk loses nothing: reconstruction from the
  shards that are left, in their places, returns exactly the chunk, padding removed, and every
  lost shard.
\<close>

theorem Reconstruct_after_loss:
  assumes "reed_solomon rs sc"
    and "chunk \<noteq> []"
    and "finite lost" and "int (card lost) \<le> sc_Parity sc"
  shows "\<exists>full. Encode rs sc chunk = Inr full \<and> int (length full) = Shards sc \<and>
    Reconstruct rs sc (map (\<lambda>i. if i \<in> lost then None else Some (full ! i)) [0..<length full])
      (int (length chunk)) = Inr (chunk, map Some full)"
  using assms(2-4) by (rule reed_solomon.Reconstruct_lost[OF assms(1)])

theorem Reconstruct_after_loss_witness:
  "\<exists>full. Encode xor_rs scheme_2_1 [1, 2, 3] = Inr full \<and> int (length full) = 3 \<and>
    Reconstruct xor_rs scheme_2_1
      (map (\<lambda>i. if i \<in> {0} then None else Some (full ! i)) [0..<length full]) 3 =
      Inr ([1, 2, 3], map Some full)"
  using Reconstruct_after_loss[OF xor21.reed_solomon_axioms, of "[1, 2, 3]" "{0}"]
  by (simp add: Shards_def scheme_2_1_def)

text \<open>
  Fewer than \<^verbatim>\<open>Data\<close> shards is always reported as such, and never decoded into something
  else, whatever the library does.
\<close>

theorem Reconstruct_too_few:
  assumes "int (length shards) = Shards sc" and "int (present shards) < sc_Data sc"
  shows "Reconstruct rs sc shards sz = Inl [ErrTooFewShards]"
  using assms by (simp add: Reconstruct_def)

theorem Reconstruct_too_few_witness:
  "Reconstruct xor_rs scheme_2_1 [None, Some [7], None] 2 = Inl [ErrTooFewShards]"
  by (rule Reconstruct_too_few) (simp_all add: Shards_def scheme_2_1_def present_def)

end
