(* ===== verification/Object.thy ===== *)
theory Object
  imports Crc EC Hashes
begin

text \<open>
  Chunking and reassembly, \<^verbatim>\<open>internal/object/object.go\<close>: the manifest, the loop that cuts a
  stream into chunks and hands each to \<^verbatim>\<open>commit\<close>, and the range read that streams chunks back,
  holding back the last byte of every window until the chunk has been verified.

  Randomness (\<^verbatim>\<open>rand.Text\<close>) is the argument \<open>pre\<close>.  A writer is a \<open>sink\<close> that accepts a given
  number of bytes and then fails, so a client that goes away at any byte is covered.  A block size
  \<open>bs\<close> stands for how \<^verbatim>\<open>io.Copy\<close> happens to cuts the stream into writes; statements hold for all
  of them.
\<close>

section \<open>Manifests\<close>

record chunk_ref =
  cr_ID :: string
  cr_Size :: int
  cr_CRC :: uint32
  cr_Shards :: "uint32 list"

record part =
  pt_Number :: int
  pt_Size :: int
  pt_CRC32C :: "uint32 option"
  pt_CRC32 :: "uint32 option"
  pt_CRC64NVME :: "uint64 option"

record manifest =
  m_Size :: int
  m_ETag :: string
  m_ContentType :: string
  m_Modified :: int
  m_Meta :: "(string \<times> string) list"
  m_Nodes :: "string list"
  m_Chunks :: "chunk_ref list"
  m_Coding :: scheme
  m_CRC32C :: "uint32 option"
  m_CRC32 :: "uint32 option"
  m_CRC64NVME :: "uint64 option"
  m_Parts :: "part list"

definition zero_manifest :: manifest where
  "zero_manifest = \<lparr>m_Size = 0, m_ETag = '''', m_ContentType = '''', m_Modified = 0, m_Meta = [],
     m_Nodes = [], m_Chunks = [], m_Coding = zero_scheme, m_CRC32C = None, m_CRC32 = None,
     m_CRC64NVME = None, m_Parts = []\<rparr>"

definition DefaultChunkSize :: int where
  "DefaultChunkSize = 2 ^ 25"

definition smallObject :: int where
  "smallObject = 2 ^ 20"

definition indexWidth :: nat where
  "indexWidth = 6"

definition ShardID :: "chunk_ref \<Rightarrow> nat \<Rightarrow> string" where
  "ShardID c i = cr_ID c @ ''s'' @ fmt_0d 2 i"

definition WriteID :: "string \<Rightarrow> string" where
  "WriteID cid =
     (if length cid \<le> indexWidth then '''' else take (length cid - indexWidth) cid)"

section \<open>Writing\<close>

text \<open>\<^verbatim>\<open>io.ReadFull\<close> into a buffer of \<open>k\<close> bytes: the bytes read, the rest of the source, the error.\<close>

definition ReadFull :: "reader \<Rightarrow> nat \<Rightarrow> bytes \<times> reader \<times> error option" where
  "ReadFull r k =
     (take k (rdata r), r\<lparr>rdata := drop k (rdata r)\<rparr>,
      if k \<le> length (rdata r) then None
      else (case rerr r of
              None \<Rightarrow> Some [if rdata r = [] then EOF else ErrUnexpectedEOF]
            | Some e \<Rightarrow> Some e))"

definition readOrEnd :: "reader \<Rightarrow> nat \<Rightarrow> bytes \<times> reader \<times> error option" where
  "readOrEnd r k = (case ReadFull r k of
      (p, r', Some e) \<Rightarrow>
        (p, r', if errors_Is e EOF \<or> errors_Is e ErrUnexpectedEOF then None else Some e)
    | (p, r', None) \<Rightarrow> (p, r', None))"

text \<open>
  \<^verbatim>\<open>readChunk\<close>: the bytes it leaves at the front of the buffer, the length of the buffer to use
  next, the rest of the source and the error.  Only the first \<^verbatim>\<open>n\<close> bytes of a buffer are ever
  looked at, so a buffer is its length.
\<close>

definition readChunk :: "reader \<Rightarrow> int \<Rightarrow> int \<Rightarrow> bytes \<times> int \<times> reader \<times> error option" where
  "readChunk r buf chunkSize = (case readOrEnd r (nat buf) of
      (p, r1, err) \<Rightarrow>
        if err \<noteq> None \<or> int (length p) < buf \<or> buf = chunkSize then (p, buf, r1, err)
        else (case readOrEnd r1 1 of
          (probe, r2, err) \<Rightarrow>
            if err \<noteq> None \<or> probe = [] then (p, buf, r2, err)
            else (case readOrEnd r2 (nat chunkSize - (length p + 1)) of
              (rest, r3, err) \<Rightarrow> (p @ probe @ rest, chunkSize, r3, err))))"

type_synonym 's committer = "'s \<Rightarrow> chunk_ref \<Rightarrow> bytes \<Rightarrow> 's \<times> (error + chunk_ref)"

definition new_ref :: "string \<Rightarrow> nat \<Rightarrow> bytes \<Rightarrow> chunk_ref" where
  "new_ref pre i data = \<lparr>cr_ID = pre @ fmt_0d indexWidth i, cr_Size = int (length data),
     cr_CRC = CRC32C data, cr_Shards = []\<rparr>"

lemma readOrEnd_rest: "readOrEnd r k = (p, r', err) \<Longrightarrow>
    rdata r = p @ rdata r' \<and> rerr r' = rerr r \<and> (err \<noteq> None \<longrightarrow> length p < k)"
  by (auto simp: readOrEnd_def ReadFull_def split: if_splits option.splits)

lemma readChunk_rest:
  "readChunk r buf cs = (p, buf', r', err) \<Longrightarrow> rdata r = p @ rdata r' \<and> rerr r' = rerr r"
  by (auto simp: readChunk_def dest!: readOrEnd_rest split: if_splits prod.splits)

function write_loop ::
  "string \<Rightarrow> int \<Rightarrow> 's committer \<Rightarrow> nat \<Rightarrow> int \<Rightarrow> manifest \<Rightarrow> reader \<Rightarrow> 's \<Rightarrow> 's \<times> (error + manifest)"
  where
  "write_loop pre chunkSize commit i buf m r s = (case readChunk r buf chunkSize of
      (data, buf', r', err) \<Rightarrow>
        if err \<noteq> None then (s, Inl (the err))
        else if data = [] then (s, Inr m)
        else (case commit s (new_ref pre i data) data of
            (s', Inl e) \<Rightarrow> (s', Inl e)
          | (s', Inr ref) \<Rightarrow>
              write_loop pre chunkSize commit (i + 1) buf'
                (m\<lparr>m_Chunks := m_Chunks m @ [ref], m_Size := m_Size m + cr_Size ref\<rparr>) r' s'))"
  by pat_completeness auto
termination
  by (relation "measure (\<lambda>(pre, cs, commit, i, buf, m, r, s). length (rdata r))")
    (auto dest!: readChunk_rest[OF sym])

declare write_loop.simps [simp del]

definition Write ::
  "reader \<Rightarrow> int \<Rightarrow> int \<Rightarrow> string \<Rightarrow> 's committer \<Rightarrow> 's \<Rightarrow> 's \<times> (error + manifest)" where
  "Write r chunkSize expect pre commit s =
     (if chunkSize \<le> 0 then (s, Inl [Other ''object: chunk size must be positive''])
      else let start = (if expect > 0 then min chunkSize expect else min chunkSize smallObject)
           in write_loop pre chunkSize commit 0 start zero_manifest r s)"

section \<open>Reading\<close>

record sink =
  sk_data :: bytes
  sk_room :: nat

definition sink_Write :: "sink \<Rightarrow> bytes \<Rightarrow> sink \<times> error option" where
  "sink_Write w p =
     (w\<lparr>sk_data := sk_data w @ take (sk_room w) p, sk_room := sk_room w - length p\<rparr>,
      if length p \<le> sk_room w then None else Some [Other ''write''])"

record heldBack =
  hb_w :: sink
  hb_last :: byte
  hb_held :: bool

definition hb_release :: "heldBack \<Rightarrow> heldBack \<times> error option" where
  "hb_release h =
     (if \<not> hb_held h then (h, None)
      else case sink_Write (hb_w h) [hb_last h] of
             (w', err) \<Rightarrow> (h\<lparr>hb_held := False, hb_w := w'\<rparr>, err))"

definition hb_Write :: "heldBack \<Rightarrow> bytes \<Rightarrow> heldBack \<times> int \<times> error option" where
  "hb_Write h p =
     (if p = [] then (h, 0, None)
      else case hb_release h of
        (h1, Some e) \<Rightarrow> (h1, 0, Some e)
      | (h1, None) \<Rightarrow>
          (case (if length p > 1 then sink_Write (hb_w h1) (butlast p) else (hb_w h1, None)) of
             (w2, Some e) \<Rightarrow> (h1\<lparr>hb_w := w2\<rparr>, 0, Some e)
           | (w2, None) \<Rightarrow> (h1\<lparr>hb_w := w2, hb_last := last p, hb_held := True\<rparr>,
                           int (length p), None)))"

text \<open>The stream as \<^verbatim>\<open>io.Copy\<close> sees it, cuts into blocks of at most \<open>bs\<close> bytes.\<close>

function cuts :: "nat \<Rightarrow> 'a list \<Rightarrow> 'a list list" where
  "cuts n xs = (if n = 0 \<or> xs = [] then [] else take n xs # cuts n (drop n xs))"
  by pat_completeness auto
termination by (relation "measure (\<lambda>(n, xs). length xs)") auto

declare cuts.simps [simp del]

fun copy_held :: "heldBack \<Rightarrow> bytes list \<Rightarrow> heldBack \<times> int \<times> error option" where
  "copy_held h [] = (h, 0, None)"
| "copy_held h (p # ps) = (case hb_Write h p of
      (h1, n, Some e) \<Rightarrow> (h1, n, Some e)
    | (h1, n, None) \<Rightarrow> (case copy_held h1 ps of (h2, n2, err) \<Rightarrow> (h2, n + n2, err)))"

text \<open>
  \<^verbatim>\<open>io.CopyN\<close>: at most \<open>k\<close> bytes, and a source that ends sooner is an error even if it ends
  cleanly.
\<close>

definition short_error :: "reader \<Rightarrow> error" where
  "short_error rc = (case rerr rc of None \<Rightarrow> [EOF] | Some e \<Rightarrow> e)"

definition CopyN_discard :: "reader \<Rightarrow> nat \<Rightarrow> reader \<times> error option" where
  "CopyN_discard rc k =
     (rc\<lparr>rdata := drop k (rdata rc)\<rparr>,
      if k \<le> length (rdata rc) then None else Some (short_error rc))"

definition CopyN_held :: "nat \<Rightarrow> heldBack \<Rightarrow> reader \<Rightarrow> nat \<Rightarrow> heldBack \<times> reader \<times> int \<times> error option" where
  "CopyN_held bs h rc k = (case copy_held h (cuts bs (take k (rdata rc))) of
      (h', n, Some e) \<Rightarrow> (h', rc\<lparr>rdata := drop k (rdata rc)\<rparr>, n, Some e)
    | (h', n, None) \<Rightarrow>
        (h', rc\<lparr>rdata := drop k (rdata rc)\<rparr>, n,
         if k \<le> length (rdata rc) then None else Some (short_error rc)))"

definition readWindow :: "nat \<Rightarrow> sink \<Rightarrow> reader \<Rightarrow> int \<Rightarrow> int \<Rightarrow> sink \<times> int \<times> error option" where
  "readWindow bs w rc skip tk = (case CopyN_discard rc (nat skip) of
      (rc1, Some e) \<Rightarrow> (w, 0, Some e)
    | (rc1, None) \<Rightarrow>
        (case CopyN_held bs \<lparr>hb_w = w, hb_last = 0, hb_held = False\<rparr> rc1 (nat tk) of
           (h, rc2, n, Some e) \<Rightarrow> (hb_w h, n, Some e)
         | (h, rc2, n, None) \<Rightarrow>
             (case rerr rc2 of
                Some e \<Rightarrow> (hb_w h, n, Some e)
              | None \<Rightarrow> (case hb_release h of (h', err) \<Rightarrow> (hb_w h', n, err)))))"

fun read_chunks ::
  "nat \<Rightarrow> (chunk_ref \<Rightarrow> error + reader) \<Rightarrow> int \<Rightarrow> int \<Rightarrow> chunk_ref list \<Rightarrow> int \<Rightarrow> int \<Rightarrow> sink \<Rightarrow>
    sink \<times> int \<times> error option" where
  "read_chunks bs fetch off fin [] at tot w = (w, tot, None)"
| "read_chunks bs fetch off fin (c # cs) at tot w =
     (let nxt = at + cr_Size c in
      if nxt \<le> off \<or> at \<ge> fin then read_chunks bs fetch off fin cs nxt tot w
      else case fetch c of
        Inl e \<Rightarrow> (w, tot, Some e)
      | Inr rc \<Rightarrow>
          (let skip = max (off - at) 0 in
           case readWindow bs w rc skip (min nxt fin - (at + skip)) of
             (w', n, Some e) \<Rightarrow> (w', tot + n, Some e)
           | (w', n, None) \<Rightarrow> read_chunks bs fetch off fin cs nxt (tot + n) w'))"

definition ReadRange ::
  "nat \<Rightarrow> manifest \<Rightarrow> sink \<Rightarrow> int \<Rightarrow> int \<Rightarrow> (chunk_ref \<Rightarrow> error + reader) \<Rightarrow> sink \<times> error option" where
  "ReadRange bs m w off len fetch =
     (if off < 0 \<or> len < 0 \<or> i64 (off + len) > m_Size m
      then (w, Some [Other ''object: range outside''])
      else case read_chunks bs fetch off (i64 (off + len)) (m_Chunks m) 0 0 w of
             (w', tot, Some e) \<Rightarrow> (w', Some e)
           | (w', tot, None) \<Rightarrow>
               (w', if tot \<noteq> len then Some [Other ''object: short read''] else None))"

definition Read :: "nat \<Rightarrow> manifest \<Rightarrow> sink \<Rightarrow> (chunk_ref \<Rightarrow> error + reader) \<Rightarrow> sink \<times> error option" where
  "Read bs m w fetch = ReadRange bs m w 0 (m_Size m) fetch"

section \<open>Chunk boundaries\<close>

lemma cut_Nil [simp]: "cuts n [] = []"
  by (subst cuts.simps) simp

lemma concat_cut [simp]: "0 < n \<Longrightarrow> concat (cuts n xs) = xs"
proof (induction n xs rule: cuts.induct)
  case (1 n xs)
  then show ?case by (cases "xs = []") (simp_all add: cuts.simps[of n xs])
qed

lemma cut_step: "0 < n \<Longrightarrow> xs \<noteq> [] \<Longrightarrow> cuts n xs = take n xs # cuts n (drop n xs)"
  by (subst cuts.simps) simp

lemma cut_pieces: "0 < n \<Longrightarrow> p \<in> set (cuts n xs) \<Longrightarrow> p \<noteq> [] \<and> length p \<le> n"
proof (induction n xs rule: cuts.induct)
  case (1 n xs)
  show ?case
  proof (cases "xs = []")
    case False
    then have "p = take n xs \<or> p \<in> set (cuts n (drop n xs))"
      using "1.prems" by (simp add: cut_step)
    then show ?thesis using 1 False by auto
  qed (use 1 in simp)
qed

text \<open>How the source ends, as \<^verbatim>\<open>readOrEnd\<close> sees it: an early end of file counts as the end.\<close>

definition source_error :: "reader \<Rightarrow> error option" where
  "source_error r = (case rerr r of None \<Rightarrow> None
     | Some e \<Rightarrow> if errors_Is e EOF \<or> errors_Is e ErrUnexpectedEOF then None else Some e)"

lemma readOrEnd_spec:
  "readOrEnd r k = (take k (rdata r), r\<lparr>rdata := drop k (rdata r)\<rparr>,
     if k \<le> length (rdata r) then None else source_error r)"
  by (simp add: readOrEnd_def ReadFull_def source_error_def errors_Is_def split: option.splits)

lemma source_error_update [simp]: "source_error (r\<lparr>rdata := d\<rparr>) = source_error r"
  by (simp add: source_error_def)

text \<open>However long the buffer, one call reads a whole chunk or the rest of the source.\<close>

lemma readChunk_spec:
  assumes "0 < buf" "buf \<le> cs"
  shows "\<exists>buf'. 0 < buf' \<and> buf' \<le> cs \<and>
    readChunk r buf cs = (take (nat cs) (rdata r), buf', r\<lparr>rdata := drop (nat cs) (rdata r)\<rparr>,
      if nat cs \<le> length (rdata r) then None else source_error r)"
proof -
  let ?d = "rdata r"
  have len: "int (length (take (nat buf) ?d)) < buf \<longleftrightarrow> length ?d < nat buf"
    using assms by (auto simp: min_def)
  consider "length ?d < nat buf" | "buf = cs" "nat buf \<le> length ?d"
    | "buf \<noteq> cs" "length ?d = nat buf" | "buf \<noteq> cs" "nat buf < length ?d" by linarith
  then show ?thesis
  proof cases
    case 1
    then have "readChunk r buf cs = (?d, buf, r\<lparr>rdata := []\<rparr>, source_error r)"
      by (simp add: readChunk_def readOrEnd_spec)
    moreover have "\<not> nat cs \<le> length ?d" using 1 assms by linarith
    ultimately show ?thesis using assms 1 by auto
  next
    case 2
    then show ?thesis using assms by (auto simp: readChunk_def readOrEnd_spec)
  next
    case 3
    then have "\<not> nat cs \<le> length ?d" using assms by linarith
    then show ?thesis using 3 assms by (auto simp: readChunk_def readOrEnd_spec)
  next
    case 4
    then obtain c ds where split: "?d = take (nat buf) ?d @ c # ds"
      by (metis Cons_nth_drop_Suc append_take_drop_id)
    define p where "p = take (nat buf) ?d"
    have p: "?d = p @ c # ds" "length p = nat buf" using split 4 by (simp_all add: p_def)
    have "nat buf < nat cs" using 4 assms by linarith
    then obtain k where k: "nat cs = length p + Suc k" using p(2) by (metis add_Suc_right less_imp_Suc_add)
    have "readChunk r buf cs = (take (nat cs) ?d, cs, r\<lparr>rdata := drop (nat cs) ?d\<rparr>,
        if nat cs \<le> length ?d then None else source_error r)"
      using 4(1) p k assms by (simp add: readChunk_def readOrEnd_spec)
    then show ?thesis using assms by auto
  qed
qed

text \<open>The specification of a write: commit the pieces one after the other, up to a failure.\<close>

fun commit_all ::
  "string \<Rightarrow> 's committer \<Rightarrow> nat \<Rightarrow> manifest \<Rightarrow> bytes list \<Rightarrow> 's \<Rightarrow> 's \<times> (error + manifest)" where
  "commit_all pre commit i m [] s = (s, Inr m)"
| "commit_all pre commit i m (d # ds) s = (case commit s (new_ref pre i d) d of
      (s', Inl e) \<Rightarrow> (s', Inl e)
    | (s', Inr ref) \<Rightarrow>
        commit_all pre commit (i + 1)
          (m\<lparr>m_Chunks := m_Chunks m @ [ref], m_Size := m_Size m + cr_Size ref\<rparr>) ds s')"

definition whole_pieces :: "nat \<Rightarrow> reader \<Rightarrow> bytes list" where
  "whole_pieces n r = (if source_error r = None then cuts n (rdata r)
     else cuts n (take (n * (length (rdata r) div n)) (rdata r)))"

lemma whole_pieces_step:
  assumes "0 < n" "n \<le> length (rdata r)"
  shows "whole_pieces n r = take n (rdata r) # whole_pieces n (r\<lparr>rdata := drop n (rdata r)\<rparr>)"
proof -
  let ?d = "rdata r"
  let ?q = "(length ?d - n) div n"
  have div: "length ?d div n = Suc ?q" using assms by (simp add: le_div_geq)
  then have "take (n * (length ?d div n)) ?d = take n ?d @ take (n * ?q) (drop n ?d)"
    by (simp only: div mult_Suc_right take_add)
  moreover have "?d \<noteq> []" using assms by auto
  ultimately show ?thesis using assms by (auto simp: whole_pieces_def cut_step)
qed

lemma whole_pieces_last:
  assumes "0 < n" "length (rdata r) < n"
  shows "whole_pieces n r = (if source_error r = None \<and> rdata r \<noteq> [] then [rdata r] else [])"
  using assms by (auto simp: whole_pieces_def cut_step)

lemma write_loop_spec:
  assumes "0 < buf" "buf \<le> cs"
  shows "write_loop pre cs commit i buf m r s =
    (case commit_all pre commit i m (whole_pieces (nat cs) r) s of
       (s', Inl e) \<Rightarrow> (s', Inl e)
     | (s', Inr m') \<Rightarrow> (s', case source_error r of None \<Rightarrow> Inr m' | Some e \<Rightarrow> Inl e))"
  using assms(1,2)
proof (induction "length (rdata r)" arbitrary: i buf m r s rule: less_induct)
  case less
  let ?d = "rdata r" and ?r = "r\<lparr>rdata := drop (nat cs) (rdata r)\<rparr>"
  obtain buf' where buf': "0 < buf'" "buf' \<le> cs"
    and read: "readChunk r buf cs = (take (nat cs) ?d, buf', ?r,
      if nat cs \<le> length ?d then None else source_error r)"
    using readChunk_spec[OF less.prems, of r] by blast
  have cs: "0 < nat cs" using less.prems by linarith
  show ?case
  proof (cases "nat cs \<le> length ?d")
    case True
    then have "?d \<noteq> []" using cs by auto
    then have IH: "write_loop pre cs commit j buf' m' ?r s' =
      (case commit_all pre commit j m' (whole_pieces (nat cs) ?r) s' of
         (s', Inl e) \<Rightarrow> (s', Inl e)
       | (s', Inr m') \<Rightarrow> (s', case source_error r of None \<Rightarrow> Inr m' | Some e \<Rightarrow> Inl e))" for j m' s'
      using less.hyps[of ?r, OF _ buf'] cs by simp
    show ?thesis
      using read True \<open>?d \<noteq> []\<close> cs
      by (simp add: write_loop.simps[of _ _ _ _ buf] IH whole_pieces_step split: prod.split sum.split)
  next
    case False
    have over: "write_loop pre cs commit j buf' m' (r\<lparr>rdata := []\<rparr>) s' = (s', Inr m')" if "source_error r = None" for j m' s'
      using readChunk_spec[OF buf', of "r\<lparr>rdata := []\<rparr>"] that cs
      by (auto simp: write_loop.simps[of _ _ _ _ buf'] split: if_splits)
    show ?thesis
      using read False cs
      by (auto simp: write_loop.simps[of _ _ _ _ buf] whole_pieces_last over
          split: prod.split sum.split option.split)
  qed
qed

lemma Write_chunks_spec:
  assumes "0 < cs"
  shows "Write r cs expect pre commit s =
    (case commit_all pre commit 0 zero_manifest (whole_pieces (nat cs) r) s of
       (s', Inl e) \<Rightarrow> (s', Inl e)
     | (s', Inr m) \<Rightarrow> (s', case source_error r of None \<Rightarrow> Inr m | Some e \<Rightarrow> Inl e))"
proof -
  have "0 < (if expect > 0 then min cs expect else min cs smallObject)"
    "(if expect > 0 then min cs expect else min cs smallObject) \<le> cs"
    using assms by (auto simp: smallObject_def)
  from write_loop_spec[OF this, of pre commit 0 zero_manifest r s] assms show ?thesis
    unfolding Write_def Let_def by (simp only: not_le if_not_P if_False)
qed


text \<open>
  C37. Chunking: whatever length the caller expected, a write commits exactly the pieces of the
  stream cuts at multiples of the chunk size, in order, the last one shorter, and none empty; it
  stops at the first commit that fails, and if the source fails, the whole chunks before the
  failure are all it commits and it reports the failure.
\<close>

theorem Write_chunks:
  assumes "0 < cs"
  shows "Write r cs expect pre commit s =
    (case commit_all pre commit 0 zero_manifest (whole_pieces (nat cs) r) s of
       (s', Inl e) \<Rightarrow> (s', Inl e)
     | (s', Inr m) \<Rightarrow> (s', case source_error r of None \<Rightarrow> Inr m | Some e \<Rightarrow> Inl e))"
  using assms by (rule Write_chunks_spec)

text \<open>The committer the coordinator passes fills in the shard checksums and nothing else.\<close>

definition keeps_ref :: "'s committer \<Rightarrow> bool" where
  "keeps_ref commit \<longleftrightarrow> (\<forall>s ref d s' ref'. commit s ref d = (s', Inr ref') \<longrightarrow>
     cr_ID ref' = cr_ID ref \<and> cr_Size ref' = cr_Size ref \<and> cr_CRC ref' = cr_CRC ref)"

definition describes :: "string \<Rightarrow> nat \<Rightarrow> chunk_ref \<Rightarrow> bytes \<Rightarrow> bool" where
  "describes pre i ref d \<longleftrightarrow> cr_ID ref = pre @ fmt_0d indexWidth i \<and> cr_Size ref = int (length d) \<and>
     cr_CRC ref = CRC32C d"

lemma commit_all_manifest:
  assumes "keeps_ref commit"
  shows "commit_all pre commit i m ds s = (s', Inr m') \<Longrightarrow>
    \<exists>refs. m_Chunks m' = m_Chunks m @ refs \<and> length refs = length ds \<and>
      (\<forall>k < length ds. describes pre (i + k) (refs ! k) (ds ! k)) \<and>
      m_Size m' = m_Size m + int (length (concat ds))"
proof (induction ds arbitrary: i m s)
  case (Cons d ds)
  obtain s1 res where c: "commit s (new_ref pre i d) d = (s1, res)" by fastforce
  with Cons.prems obtain ref where res: "res = Inr ref" by (cases res) auto
  have ref: "describes pre i ref d"
    using assms c res by (auto simp: keeps_ref_def describes_def new_ref_def)
  from Cons.prems c res have "commit_all pre commit (i + 1)
      (m\<lparr>m_Chunks := m_Chunks m @ [ref], m_Size := m_Size m + cr_Size ref\<rparr>) ds s1 = (s', Inr m')" by simp
  from Cons.IH[OF this] obtain refs where refs: "m_Chunks m' = m_Chunks m @ ref # refs"
    "length refs = length ds" "\<forall>k < length ds. describes pre (i + 1 + k) (refs ! k) (ds ! k)"
    "m_Size m' = m_Size m + cr_Size ref + int (length (concat ds))" by auto
  have "describes pre (i + k) ((ref # refs) ! k) ((d # ds) ! k)" if "k < length (d # ds)" for k
    using that ref refs(3) by (cases k) auto
  moreover have "cr_Size ref = int (length d)" using ref by (simp add: describes_def)
  ultimately show ?case using refs by (intro exI[of _ "ref # refs"]) auto
qed simp

lemma Write_manifest_shape:
  assumes "0 < cs" and "keeps_ref commit" and "Write r cs expect pre commit s = (s', Inr m)"
  shows "m_Size m = int (length (rdata r)) \<and> length (m_Chunks m) = length (cuts (nat cs) (rdata r)) \<and>
    (\<forall>k < length (m_Chunks m). describes pre k (m_Chunks m ! k) (cuts (nat cs) (rdata r) ! k))"
proof -
  have src: "source_error r = None" and all: "commit_all pre commit 0 zero_manifest (whole_pieces (nat cs) r) s = (s', Inr m)"
    using assms(3) unfolding Write_chunks_spec[OF assms(1)]
    by (auto split: prod.splits sum.splits option.splits)
  have "whole_pieces (nat cs) r = cuts (nat cs) (rdata r)" using src by (simp add: whole_pieces_def)
  with commit_all_manifest[OF assms(2) all] assms(1) show ?thesis by (auto simp: zero_manifest_def)
qed

text \<open>
  The manifest of a write that returns one describes the stream: its size is the stream's
  length and its refs are, in order, the pieces' ids (the write's prefix and the index), lengths
  and checksums.
\<close>

theorem Write_manifest:
  assumes "0 < cs" and "keeps_ref commit" and "Write r cs expect pre commit s = (s', Inr m)"
  shows "m_Size m = int (length (rdata r)) \<and> length (m_Chunks m) = length (cuts (nat cs) (rdata r)) \<and>
    (\<forall>k < length (m_Chunks m). describes pre k (m_Chunks m ! k) (cuts (nat cs) (rdata r) ! k))"
  using assms by (rule Write_manifest_shape)

section \<open>The window a reader receives\<close>

lemma sink_Write_ok: "sink_Write w p = (w', None) \<Longrightarrow> sk_data w' = sk_data w @ p"
  by (auto simp: sink_Write_def split: if_splits)

lemma sink_Write_fail:
  "sink_Write w p = (w', Some e) \<Longrightarrow> \<exists>d. sk_data w' = sk_data w @ d \<and> strict_prefix d p"
  by (auto simp: sink_Write_def take_is_prefix strict_prefix_def split: if_splits)

lemma strict_prefix_appendI: "strict_prefix x y \<Longrightarrow> strict_prefix x (y @ z)"
  by (auto simp: strict_prefix_def prefix_def)

lemma strict_prefix_grow [simp]: "strict_prefix x (x @ c # z)"
  by (simp add: strict_prefix_def)

lemma strict_prefix_cancel [simp]: "strict_prefix (x @ y) (x @ z) \<longleftrightarrow> strict_prefix y z"
  by (auto simp: strict_prefix_def)

text \<open>What the client has and what is still held: together the bytes written so far.\<close>

definition hb_total :: "heldBack \<Rightarrow> bytes" where
  "hb_total h = sk_data (hb_w h) @ (if hb_held h then [hb_last h] else [])"

lemma hb_release_ok: "hb_release h = (h', None) \<Longrightarrow> sk_data (hb_w h') = hb_total h \<and> \<not> hb_held h'"
  by (auto simp: hb_release_def hb_total_def dest: sink_Write_ok split: if_splits prod.splits)

lemma hb_release_fail:
  "hb_release h = (h', Some e) \<Longrightarrow> hb_held h \<and> sk_data (hb_w h') = sk_data (hb_w h)"
  by (auto simp: hb_release_def strict_prefix_def prefix_Cons dest!: sink_Write_fail split: if_splits prod.splits)

lemma butlast_write_ok:
  assumes "p \<noteq> []"
    "(if length p > 1 then sink_Write w (butlast p) else (w, None)) = (w2, None)"
  shows "sk_data w2 = sk_data w @ butlast p"
proof (cases "length p > 1")
  case True
  then show ?thesis using assms sink_Write_ok by simp
next
  case False
  then have "butlast p = []" using assms(1) by (cases p) auto
  then show ?thesis using assms False by simp
qed

lemma hb_Write_ok:
  assumes "hb_Write h p = (h', n, None)"
  shows "hb_total h' = hb_total h @ p \<and> n = int (length p) \<and> (p \<noteq> [] \<longrightarrow> hb_held h') \<and>
    prefix (sk_data (hb_w h)) (sk_data (hb_w h'))"
proof (cases "p = []")
  case False
  then obtain h1 w2 where rel: "hb_release h = (h1, None)"
    and wr: "(if length p > 1 then sink_Write (hb_w h1) (butlast p) else (hb_w h1, None)) = (w2, None)"
    and h': "h' = h1\<lparr>hb_w := w2, hb_last := last p, hb_held := True\<rparr>" "n = int (length p)"
    using assms by (auto simp: hb_Write_def split: prod.splits option.splits)
  have "sk_data w2 = hb_total h @ butlast p"
    using butlast_write_ok[OF False wr] hb_release_ok[OF rel] by simp
  then show ?thesis using h' False by (simp add: hb_total_def)
qed (use assms in \<open>auto simp: hb_Write_def\<close>)

lemma hb_Write_fail:
  assumes "hb_Write h p = (h', n, Some e)"
  shows "strict_prefix (sk_data (hb_w h')) (hb_total h @ p) \<and>
    prefix (sk_data (hb_w h)) (sk_data (hb_w h'))"
proof -
  have "p \<noteq> []" using assms by (auto simp: hb_Write_def)
  obtain h1 err where rel: "hb_release h = (h1, err)" by fastforce
  show ?thesis
  proof (cases err)
    case (Some e')
    then have "h' = h1" using assms rel \<open>p \<noteq> []\<close> by (auto simp: hb_Write_def)
    then show ?thesis using hb_release_fail[of h h1 e'] rel Some by (simp add: hb_total_def)
  next
    case None
    then obtain w2 where wr: "sink_Write (hb_w h1) (butlast p) = (w2, Some e)"
      and h': "h' = h1\<lparr>hb_w := w2\<rparr>"
      using assms rel \<open>p \<noteq> []\<close> by (auto simp: hb_Write_def split: if_splits prod.splits option.splits)
    from sink_Write_fail[OF wr] obtain d where d: "sk_data w2 = hb_total h @ d" "strict_prefix d (butlast p)"
      using hb_release_ok[of h h1] rel None by auto
    have "strict_prefix d p"
      using strict_prefix_appendI[OF d(2), of "[last p]"] \<open>p \<noteq> []\<close> by simp
    then show ?thesis using d h' by (simp add: hb_total_def)
  qed
qed

lemma copy_held_ok:
  "copy_held h ps = (h', n, None) \<Longrightarrow> [] \<notin> set ps \<Longrightarrow>
    hb_total h' = hb_total h @ concat ps \<and> n = int (length (concat ps)) \<and> (ps \<noteq> [] \<longrightarrow> hb_held h') \<and>
    prefix (sk_data (hb_w h)) (sk_data (hb_w h'))"
proof (induction ps arbitrary: h n)
  case (Cons p ps)
  then obtain h1 n1 n2 where w: "hb_Write h p = (h1, n1, None)" "copy_held h1 ps = (h', n2, None)" "n = n1 + n2"
    by (auto split: prod.splits option.splits)
  note p = hb_Write_ok[OF w(1)]
  have rest: "hb_total h' = hb_total h1 @ concat ps" "n2 = int (length (concat ps))"
    "ps \<noteq> [] \<longrightarrow> hb_held h'" "prefix (sk_data (hb_w h1)) (sk_data (hb_w h'))"
    using Cons.IH[OF w(2)] Cons.prems by auto
  have "prefix (sk_data (hb_w h)) (sk_data (hb_w h'))"
    using p rest(4) by (blast intro: prefix_order.trans)
  moreover have "hb_held h'" using p rest(3) Cons.prems w(2) by (cases "ps = []") auto
  ultimately show ?case using p rest(1,2) w(3) by simp
qed simp

lemma copy_held_fail:
  "copy_held h ps = (h', n, Some e) \<Longrightarrow>
    strict_prefix (sk_data (hb_w h')) (hb_total h @ concat ps) \<and>
    prefix (sk_data (hb_w h)) (sk_data (hb_w h'))"
proof (induction ps arbitrary: h n)
  case (Cons p ps)
  obtain h1 n1 err where w: "hb_Write h p = (h1, n1, err)" by (metis prod_cases3)
  show ?case
  proof (cases err)
    case (Some e')
    then have "h' = h1" using Cons.prems w by auto
    moreover have "strict_prefix (sk_data (hb_w h1)) ((hb_total h @ p) @ concat ps)"
      using hb_Write_fail[of h p h1 n1 e'] w Some by (simp only: strict_prefix_appendI)
    ultimately show ?thesis using hb_Write_fail[of h p h1 n1 e'] w Some by simp
  next
    case None
    then obtain n2 where rest: "copy_held h1 ps = (h', n2, Some e)"
      using Cons.prems w by (auto split: prod.splits)
    have "hb_total h1 = hb_total h @ p" "prefix (sk_data (hb_w h)) (sk_data (hb_w h1))"
      using hb_Write_ok[of h p h1 n1] w None by auto
    with Cons.IH[OF rest] show ?thesis by (auto intro: prefix_order.trans)
  qed
qed simp

text \<open>
  A window is delivered whole, from a chunk that verified, or the client is left short: by at least
  the byte that was held back.
\<close>

lemma readWindow_ok:
  assumes "readWindow bs w rc skip tk = (w', n, None)" "0 < bs" "0 \<le> tk"
  shows "rerr rc = None \<and> n = tk \<and> length (take (nat tk) (drop (nat skip) (rdata rc))) = nat tk \<and>
    sk_data w' = sk_data w @ take (nat tk) (drop (nat skip) (rdata rc))"
proof -
  let ?h = "\<lparr>hb_w = w, hb_last = 0, hb_held = False\<rparr>"
  let ?win = "take (nat tk) (drop (nat skip) (rdata rc))"
  have clean: "[] \<notin> set (cuts bs ?win)" using cut_pieces[OF assms(2)] by blast
  from assms(1) obtain h h' where
    len: "nat skip \<le> length (rdata rc)" "nat tk \<le> length (rdata rc) - nat skip"
    and copy: "copy_held ?h (cuts bs ?win) = (h, n, None)" and err: "rerr rc = None"
    and rel: "hb_release h = (h', None)" "w' = hb_w h'"
    by (auto simp: readWindow_def CopyN_discard_def CopyN_held_def
        split: if_splits prod.splits option.splits)
  have "hb_total h = sk_data w @ ?win" "n = int (length ?win)"
    using copy_held_ok[OF copy clean] assms(2) by (simp_all add: hb_total_def)
  then show ?thesis using hb_release_ok[OF rel(1)] rel(2) err len assms(3) by auto
qed

lemma readWindow_fail:
  assumes "readWindow bs w rc skip tk = (w', n, Some e)" "0 < bs"
  shows "\<exists>d. sk_data w' = sk_data w @ d \<and> prefix d (drop (nat skip) (rdata rc)) \<and>
    (d = [] \<or> int (length d) < tk)"
proof -
  let ?h = "\<lparr>hb_w = w, hb_last = 0, hb_held = False\<rparr>"
  let ?win = "take (nat tk) (drop (nat skip) (rdata rc))"
  have clean: "[] \<notin> set (cuts bs ?win)" using cut_pieces[OF assms(2)] by blast
  have win: "concat (cuts bs ?win) = ?win" using assms(2) by simp
  show ?thesis
  proof (cases "nat skip \<le> length (rdata rc)")
    case False
    then have "w' = w" using assms(1) by (auto simp: readWindow_def CopyN_discard_def)
    then show ?thesis by auto
  next
    case True
    obtain h k err where copy: "copy_held ?h (cuts bs ?win) = (h, k, err)" by (metis prod_cases3)
    have short: "sk_data (hb_w h) = sk_data w @ d \<Longrightarrow> strict_prefix d ?win \<Longrightarrow> w' = hb_w h \<Longrightarrow> ?thesis" for d
    proof -
      assume d: "sk_data (hb_w h) = sk_data w @ d" "strict_prefix d ?win" "w' = hb_w h"
      have "length d < length ?win" using prefix_length_less[OF d(2)] .
      then have "int (length d) < tk" by auto
      moreover have "prefix d (drop (nat skip) (rdata rc))"
        by (rule prefix_order.trans[OF prefix_order.less_imp_le[OF d(2)] take_is_prefix])
      ultimately show ?thesis using d by auto
    qed
    show ?thesis
    proof (cases err)
      case (Some e')
      then have "w' = hb_w h" using assms(1) True copy
        by (auto simp: readWindow_def CopyN_discard_def CopyN_held_def)
      moreover obtain d where "sk_data (hb_w h) = sk_data w @ d" "strict_prefix d ?win"
        using copy_held_fail[OF copy[unfolded Some]] win by (auto simp: hb_total_def prefix_def)
      ultimately show ?thesis using short by blast
    next
      case None
      have total: "hb_total h = sk_data w @ ?win" "?win \<noteq> [] \<longrightarrow> hb_held h"
        using copy_held_ok[of ?h _ h k, OF _ clean] copy None win
        by (auto simp: hb_total_def cut_step assms(2))
      have w': "sk_data w' = sk_data (hb_w h)"
        using assms(1) True copy None hb_release_fail[of h]
        by (auto simp: readWindow_def CopyN_discard_def CopyN_held_def split: if_splits option.splits prod.splits)
      show ?thesis
      proof (cases "?win = []")
        case True
        then have "copy_held ?h [] = (h, k, err)" using copy by (metis cut_Nil)
        then have "h = ?h" by simp
        then show ?thesis using w' by simp
      next
        case False
        then have "sk_data (hb_w h) @ [hb_last h] = sk_data w @ ?win"
          using total by (simp add: hb_total_def)
        then have "sk_data (hb_w h) = sk_data w @ butlast ?win"
          using False by (metis butlast_append butlast_snoc)
        then have "sk_data w' = sk_data w @ butlast ?win" using w' by simp
        moreover have "prefix (butlast ?win) (drop (nat skip) (rdata rc))"
          using prefixeq_butlast take_is_prefix by (rule prefix_order.trans)
        moreover have "int (length (butlast ?win)) < tk" using False by (cases "nat tk") auto
        ultimately show ?thesis by blast
      qed
    qed
  qed
qed


text \<open>Readers that either end in an error or yield the chunk's bytes, and sizes that are right.\<close>

definition verified_fetch :: "(chunk_ref \<Rightarrow> error + reader) \<Rightarrow> chunk_ref list \<Rightarrow> bytes list \<Rightarrow> bool" where
  "verified_fetch fetch cs ds \<longleftrightarrow>
     list_all2 (\<lambda>c d. cr_Size c = int (length d) \<and>
       (\<forall>rc. fetch c = Inr rc \<longrightarrow> rerr rc = None \<longrightarrow> rdata rc = d)) cs ds"

definition window :: "int \<Rightarrow> int \<Rightarrow> int \<Rightarrow> bytes \<Rightarrow> bytes" where
  "window off fin at d = take (nat (fin - max off at)) (drop (nat (off - at)) d)"

lemma window_skip:
  assumes "at + int (length x) \<le> off"
  shows "window off fin at (x @ y) = window off fin (at + int (length x)) y"
proof -
  have "nat (off - at) = length x + nat (off - (at + int (length x)))" using assms by linarith
  moreover have "max off at = off" "max off (at + int (length x)) = off" using assms by auto
  ultimately show ?thesis by (simp add: window_def)
qed

lemma window_past: "fin \<le> at \<Longrightarrow> window off fin at d = []"
  by (simp add: window_def)

lemma window_split:
  assumes "off < at + int (length x)" "at < fin" "off \<le> fin" "0 \<le> off" "0 \<le> at"
  shows "window off fin at (x @ y) =
    take (nat (min (at + int (length x)) fin - (at + max (off - at) 0))) (drop (nat (max (off - at) 0)) x) @
    window off fin (at + int (length x)) y"
proof -
  define k L where "k = nat (off - at)" and "L = length x"
  have k: "k \<le> L" "max off at = at + int k" "nat (max (off - at) 0) = k" "max (off - at) 0 = int k"
    using assms by (auto simp: k_def L_def)
  have "nat (min (at + int L) fin - (at + int k)) = min (L - k) (nat (fin - (at + int k)))"
    using k(1) by linarith
  then have left: "take (nat (min (at + int L) fin - (at + int k))) (drop k x) =
      take (nat (fin - (at + int k))) (drop k x)"
    by (metis L_def length_drop min.commute take_all_iff take_take order_refl)
  have "nat (fin - (at + int k)) - (L - k) = nat (fin - (at + int L))" using k(1) by linarith
  moreover have "max off (at + int L) = at + int L" "nat (off - (at + int L)) = 0"
    using assms(1) by (simp_all add: L_def)
  ultimately show ?thesis
    using k left by (simp add: window_def k_def[symmetric] L_def[symmetric])
qed

lemma read_chunks_ok:
  assumes "0 < bs" "0 \<le> off" "off \<le> fin"
  shows "read_chunks bs fetch off fin cs at tot w = (w', tot', None) \<Longrightarrow> verified_fetch fetch cs ds \<Longrightarrow> 0 \<le> at \<Longrightarrow>
    sk_data w' = sk_data w @ window off fin at (concat ds) \<and>
    tot' = tot + int (length (window off fin at (concat ds)))"
proof (induction cs arbitrary: at tot w ds)
  case (Cons c cs)
  then obtain d ds' where ds: "ds = d # ds'" and sz: "cr_Size c = int (length d)"
    and good: "\<And>rc. fetch c = Inr rc \<Longrightarrow> rerr rc = None \<Longrightarrow> rdata rc = d"
    and rest: "verified_fetch fetch cs ds'"
    by (auto simp: verified_fetch_def list_all2_Cons1)
  note IH = Cons.IH[OF _ rest]
  consider "at + cr_Size c \<le> off" | "fin \<le> at" | "off < at + cr_Size c" "at < fin" by linarith
  then show ?case
  proof cases
    case 1
    then show ?thesis using IH[of "at + cr_Size c" tot w] Cons.prems sz
      by (simp add: ds Let_def window_skip)
  next
    case 2
    then show ?thesis using IH[of "at + cr_Size c" tot w] Cons.prems sz
      by (simp add: ds Let_def window_past)
  next
    case 3
    let ?skip = "max (off - at) 0" and ?nxt = "at + cr_Size c"
    let ?tk = "min ?nxt fin - (at + ?skip)"
    from 3 Cons.prems(1) obtain rc w1 n where f: "fetch c = Inr rc"
      and rw: "readWindow bs w rc ?skip ?tk = (w1, n, None)"
      and more: "read_chunks bs fetch off fin cs ?nxt (tot + n) w1 = (w', tot', None)"
      by (auto simp: Let_def split: sum.splits prod.splits option.splits)
    have tk: "0 \<le> ?tk" using 3 assms sz by auto
    note win = readWindow_ok[OF rw assms(1) tk]
    have "rdata rc = d" using good[OF f] win by simp
    then show ?thesis using win IH[OF more] 3 assms Cons.prems(3) tk
      by (simp add: ds sz window_split)
  qed
qed (simp add: verified_fetch_def window_def)

lemma read_chunks_bound:
  assumes "0 < bs" "0 \<le> off" "off \<le> fin"
  shows "read_chunks bs fetch off fin cs at tot w = (w', tot', err) \<Longrightarrow> \<forall>c \<in> set cs. 0 \<le> cr_Size c \<Longrightarrow>
    \<exists>d. sk_data w' = sk_data w @ d \<and> (err = None \<longrightarrow> tot' = tot + int (length d)) \<and>
      (d = [] \<or> int (length d) \<le> fin - max off at) \<and>
      (err \<noteq> None \<longrightarrow> at < fin \<and> (d = [] \<or> int (length d) < fin - max off at))"
proof (induction cs arbitrary: at tot w)
  case (Cons c cs)
  let ?nxt = "at + cr_Size c" and ?skip = "max (off - at) 0"
  let ?tk = "min ?nxt fin - (at + ?skip)"
  have nxt: "at \<le> ?nxt" using Cons.prems(2) by simp
  show ?case
  proof (cases "?nxt \<le> off \<or> fin \<le> at")
    case True
    then have "read_chunks bs fetch off fin cs ?nxt tot w = (w', tot', err)"
      using Cons.prems(1) by (simp add: Let_def)
    from Cons.IH[OF this] Cons.prems(2) obtain d where d: "sk_data w' = sk_data w @ d"
      "err = None \<longrightarrow> tot' = tot + int (length d)" "d = [] \<or> int (length d) \<le> fin - max off ?nxt"
      "err \<noteq> None \<longrightarrow> ?nxt < fin \<and> (d = [] \<or> int (length d) < fin - max off ?nxt)" by auto
    moreover have "fin - max off ?nxt \<le> fin - max off at" using nxt by simp
    ultimately show ?thesis using nxt by (intro exI[of _ d]) auto
  next
    case False
    then have tk: "0 \<le> ?tk" "?tk \<le> fin - max off at" using assms nxt by auto
    show ?thesis
    proof (cases "fetch c")
      case (Inl e)
      then show ?thesis using Cons.prems(1) False by (auto simp: Let_def)
    next
      case (Inr rc)
      obtain w1 n err1 where rw: "readWindow bs w rc ?skip ?tk = (w1, n, err1)" by (metis prod_cases3)
      show ?thesis
      proof (cases err1)
        case (Some e)
        then show ?thesis
          using readWindow_fail[of bs w rc ?skip ?tk w1 n e] rw assms(1) Cons.prems(1) False Inr tk
          by (auto simp: Let_def)
      next
        case None
        then have more: "read_chunks bs fetch off fin cs ?nxt (tot + n) w1 = (w', tot', err)"
          using Cons.prems(1) False Inr rw by (simp add: Let_def)
        from None rw have ok: "readWindow bs w rc ?skip ?tk = (w1, n, None)" by simp
        define x where "x = take (nat ?tk) (drop (nat ?skip) (rdata rc))"
        have x: "sk_data w1 = sk_data w @ x" "n = int (length x)" "int (length x) = ?tk"
          using readWindow_ok[OF ok assms(1) tk(1)] tk(1) unfolding x_def by linarith+
        from Cons.IH[OF more] Cons.prems(2) obtain d where d: "sk_data w' = sk_data w1 @ d"
          "err = None \<longrightarrow> tot' = tot + n + int (length d)"
          "d = [] \<or> int (length d) \<le> fin - max off ?nxt"
          "err \<noteq> None \<longrightarrow> ?nxt < fin \<and> (d = [] \<or> int (length d) < fin - max off ?nxt)" by auto
        have "max off ?nxt = ?nxt" using False by simp
        moreover have "d \<noteq> [] \<Longrightarrow> ?tk = ?nxt - max off at" using d(3) False by (auto simp: max_def)
        ultimately have len: "d = [] \<or> int (length (x @ d)) \<le> fin - max off at"
          "err \<noteq> None \<longrightarrow> d \<noteq> [] \<longrightarrow> int (length (x @ d)) < fin - max off at"
          using d(3,4) x(3) by auto
        have "err \<noteq> None \<longrightarrow> at < fin \<and> int (length (x @ d)) < fin - max off at"
          using len(2) d(4) x(3) False nxt by (cases "d = []") auto
        then show ?thesis
          using d(1,2) x len(1) tk(2) by (intro exI[of _ "x @ d"]) auto
      qed
    qed
  qed
qed simp


lemma read_chunks_past:
  "fin \<le> at \<Longrightarrow> \<forall>c \<in> set cs. 0 \<le> cr_Size c \<Longrightarrow> read_chunks bs fetch off fin cs at tot w = (w, tot, None)"
  by (induction cs arbitrary: at) (auto simp: Let_def)

lemma i64_sum:
  assumes "in_i64 off" "in_i64 len" "0 \<le> off" "0 \<le> len"
  shows "i64 (off + len) = off + len \<or> i64 (off + len) < 0"
proof (cases "off + len < 2 ^ 63")
  case True
  then show ?thesis using assms by (simp add: in_i64_def)
next
  case False
  have "(off + len + 2 ^ 63) mod 2 ^ 64 = (off + len - 2 ^ 63) mod 2 ^ 64"
    using mod_add_self2[of "off + len - 2 ^ 63" "2 ^ 64"] by (simp add: add.commute)
  also have "\<dots> = off + len - 2 ^ 63"
    using False assms by (intro mod_pos_pos_trivial) (simp_all add: in_i64_def)
  finally have "(off + len + 2 ^ 63) mod 2 ^ 64 = off + len - 2 ^ 63" .
  then show ?thesis using assms by (simp add: i64_def in_i64_def)
qed

lemma verified_fetch_sizes: "verified_fetch fetch cs ds \<Longrightarrow> \<forall>c \<in> set cs. 0 \<le> cr_Size c"
  by (auto simp: verified_fetch_def list_all2_conv_all_nth in_set_conv_nth)

text \<open>The two ways past the guards: a proper range, or a sum that wrapped and selects nothing.\<close>

lemma ReadRange_cases:
  assumes "\<not> (off < 0 \<or> len < 0 \<or> i64 (off + len) > m_Size m)" "in_i64 off" "in_i64 len"
    "\<forall>c \<in> set (m_Chunks m). 0 \<le> cr_Size c"
  obtains "0 \<le> off" "0 \<le> len" "i64 (off + len) = off + len"
  | "0 < len" "ReadRange bs m w off len fetch = (w, Some [Other ''object: short read''])"
proof -
  have nonneg: "0 \<le> off" "0 \<le> len" using assms(1) by auto
  consider "i64 (off + len) = off + len" | "i64 (off + len) < 0" using i64_sum assms(2,3) nonneg by blast
  then show ?thesis
  proof cases
    case 2
    have "0 < len" using 2 nonneg assms(2) by (cases "len = 0") auto
    moreover have "ReadRange bs m w off len fetch = (w, Some [Other ''object: short read''])"
      using assms(1) 2 read_chunks_past[of "i64 (off + len)" 0 "m_Chunks m"] assms(4) \<open>0 < len\<close>
      by (auto simp: ReadRange_def)
    ultimately show ?thesis using that(2) by blast
  qed (use nonneg that(1) in blast)
qed

section \<open>Properties of chunking and reading\<close>

lemma ReadRange_delivers:
  assumes "0 < bs" and "in_i64 off" and "in_i64 len"
    and "verified_fetch fetch (m_Chunks m) ds"
    and "ReadRange bs m w off len fetch = (w', None)"
  shows "sk_data w' = sk_data w @ take (nat len) (drop (nat off) (concat ds)) \<and>
    length (take (nat len) (drop (nat off) (concat ds))) = nat len"
proof -
  have "\<not> (off < 0 \<or> len < 0 \<or> i64 (off + len) > m_Size m)"
    using assms(5) by (auto simp: ReadRange_def split: if_splits)
  from this assms(2,3) verified_fetch_sizes[OF assms(4)] show ?thesis
  proof (rule ReadRange_cases)
    assume r: "0 \<le> off" "0 \<le> len" "i64 (off + len) = off + len"
    then obtain tot where tot: "read_chunks bs fetch off (off + len) (m_Chunks m) 0 0 w = (w', tot, None)"
      "tot = len"
      using assms(5) by (auto simp: ReadRange_def split: if_splits prod.splits option.splits)
    have "window off (off + len) 0 (concat ds) = take (nat len) (drop (nat off) (concat ds))"
      using r by (simp add: window_def max_def)
    then show ?thesis
      using read_chunks_ok[OF assms(1) r(1) _ tot(1) assms(4)] r(2) tot(2) by simp linarith
  next
    assume "ReadRange bs m w off len fetch = (w, Some [Other ''object: short read''])"
    then show ?thesis using assms(5) by simp
  qed
qed

text \<open>
  C38. A range read that succeeds has delivered exactly the requested bytes of the object, and
  every byte of them came from a chunk read to its verified end.
\<close>

theorem ReadRange_exact:
  assumes "0 < bs" and "in_i64 off" and "in_i64 len"
    and "verified_fetch fetch (m_Chunks m) ds"
    and "ReadRange bs m w off len fetch = (w', None)"
  shows "sk_data w' = sk_data w @ take (nat len) (drop (nat off) (concat ds)) \<and>
    length (take (nat len) (drop (nat off) (concat ds))) = nat len"
  using assms by (rule ReadRange_delivers)

lemma ReadRange_fails_short:
  assumes "0 < bs" and "in_i64 off" and "in_i64 len"
    and "\<forall>c \<in> set (m_Chunks m). 0 \<le> cr_Size c"
    and "ReadRange bs m w off len fetch = (w', Some e)"
  shows "\<exists>d. sk_data w' = sk_data w @ d \<and> (if 0 < len then int (length d) < len else d = [])"
proof (cases "off < 0 \<or> len < 0 \<or> i64 (off + len) > m_Size m")
  case True
  then have "w' = w" using assms(5) by (simp add: ReadRange_def)
  then show ?thesis by (auto split: if_splits)
next
  case False
  from False assms(2-4) show ?thesis
  proof (rule ReadRange_cases[where bs = bs and w = w and fetch = fetch])
    assume r: "0 \<le> off" "0 \<le> len" "i64 (off + len) = off + len"
    obtain w1 tot err where rc: "read_chunks bs fetch off (off + len) (m_Chunks m) 0 0 w = (w1, tot, err)"
      by (metis prod_cases3)
    have "w1 = w'" "err = None \<Longrightarrow> tot \<noteq> len"
      using assms(5) rc False r by (auto simp: ReadRange_def split: option.splits if_splits)
    then show ?thesis using read_chunks_bound[OF assms(1) r(1) _ rc assms(4)] r
      by (cases err) auto
  next
    assume "0 < len" "ReadRange bs m w off len fetch = (w, Some [Other ''object: short read''])"
    then show ?thesis using assms(5) by auto
  qed
qed

text \<open>
  A range read that fails, for whatever reason and wherever (a chunk that cannot be fetched,
  one that fails its checksum at its very end, a manifest missing a chunk, a client that went
  away), has delivered strictly fewer bytes than were asked for.
\<close>

theorem ReadRange_short:
  assumes "0 < bs" and "in_i64 off" and "in_i64 len"
    and "\<forall>c \<in> set (m_Chunks m). 0 \<le> cr_Size c"
    and "ReadRange bs m w off len fetch = (w', Some e)"
  shows "\<exists>d. sk_data w' = sk_data w @ d \<and> (if 0 < len then int (length d) < len else d = [])"
  using assms by (rule ReadRange_fails_short)

text \<open>Two chunks, the second of which fails its checksum at the end, for the witnesses.\<close>

definition example_ref :: "nat \<Rightarrow> bytes \<Rightarrow> chunk_ref" where
  "example_ref i d = new_ref ''AB'' i d"

definition example_manifest :: manifest where
  "example_manifest = zero_manifest\<lparr>m_Size := 5,
     m_Chunks := [example_ref 0 [1, 2, 3], example_ref 1 [4, 5]]\<rparr>"

definition example_fetch :: "error option \<Rightarrow> chunk_ref \<Rightarrow> error + reader" where
  "example_fetch err c =
     (if cr_Size c = 3 then Inr \<lparr>rdata = [1, 2, 3], rerr = None\<rparr>
      else Inr \<lparr>rdata = [4, 5], rerr = err\<rparr>)"

lemma example_verified: "verified_fetch (example_fetch err) (m_Chunks example_manifest) [[1, 2, 3], [4, 5]]"
  by (simp add: verified_fetch_def example_fetch_def example_manifest_def example_ref_def new_ref_def)

lemmas read_eval = ReadRange_def readWindow_def CopyN_discard_def CopyN_held_def cut_step hb_Write_def
  hb_release_def sink_Write_def example_manifest_def example_ref_def example_fetch_def new_ref_def
  zero_manifest_def

theorem ReadRange_exact_witness:
  "sk_data (fst (ReadRange 2 example_manifest \<lparr>sk_data = [], sk_room = 9\<rparr> 1 3 (example_fetch None))) = [2, 3, 4]"
proof -
  obtain w' where run: "ReadRange 2 example_manifest \<lparr>sk_data = [], sk_room = 9\<rparr> 1 3 (example_fetch None) = (w', None)"
    by (simp add: read_eval in_i64_def)
  have "sk_data w' = sk_data \<lparr>sk_data = [], sk_room = 9\<rparr> @
      take (nat 3) (drop (nat 1) (concat [[1, 2, 3], [4, 5]]))"
    using ReadRange_exact[OF _ _ _ example_verified run] by (simp add: in_i64_def)
  with run show ?thesis by simp
qed

theorem ReadRange_short_witness:
  "\<exists>d. sk_data (fst (ReadRange 2 example_manifest \<lparr>sk_data = [], sk_room = 9\<rparr> 1 4
      (example_fetch (Some [ErrChecksumMismatch])))) = d \<and> int (length d) < 4"
proof -
  obtain w' where run: "ReadRange 2 example_manifest \<lparr>sk_data = [], sk_room = 9\<rparr> 1 4
      (example_fetch (Some [ErrChecksumMismatch])) = (w', Some [ErrChecksumMismatch])"
    by (simp add: read_eval in_i64_def)
  have "\<exists>d. sk_data w' = sk_data \<lparr>sk_data = [], sk_room = 9\<rparr> @ d \<and> (if 0 < (4 :: int) then int (length d) < 4 else d = [])"
    using verified_fetch_sizes[OF example_verified]
    by (intro ReadRange_short[OF _ _ _ _ run]) (simp_all add: in_i64_def)
  with run show ?thesis by simp
qed

definition example_commit :: "(string \<times> bytes) list committer" where
  "example_commit s ref d = (s @ [(cr_ID ref, d)], Inr ref)"

theorem Write_chunks_witness:
  "snd (Write (bytes_NewReader [1, 2, 3, 4, 5]) 3 1 ''AB'' example_commit []) =
     Inr example_manifest"
  using Write_chunks[of 3 "bytes_NewReader [1, 2, 3, 4, 5]" 1 "''AB''" example_commit "[]"]
  by (simp add: whole_pieces_def source_error_def cut_step example_commit_def example_manifest_def
      example_ref_def zero_manifest_def new_ref_def numeral_3_eq_3)

theorem Write_manifest_witness:
  "m_Size example_manifest = 5 \<and> length (m_Chunks example_manifest) = 2"
proof -
  have keeps: "keeps_ref example_commit" by (simp add: keeps_ref_def example_commit_def)
  obtain s' where run: "Write (bytes_NewReader [1, 2, 3, 4, 5]) 3 1 ''AB'' example_commit [] =
      (s', Inr example_manifest)"
    by (simp add: Write_def write_loop.simps readChunk_def readOrEnd_def ReadFull_def errors_Is_def
        example_commit_def example_manifest_def example_ref_def zero_manifest_def new_ref_def)
  from Write_manifest[OF _ keeps run] show ?thesis by (simp add: cut_step numeral_3_eq_3)
qed

end
