(* ===== verification/Etcd.thy ===== *)
theory Etcd
  imports Object "HOL-Library.AList"
begin

text \<open>
  The etcd client the metadata packages call.  etcd is a service and not part of the sources, so it
  is an argument \<open>E\<close> of every definition that talks to it: a function from a request to the next
  state of the service and an answer or an error, and the range end of a prefix.

  What the code relies on is the locale \<open>etcd_client\<close>: requests are atomic and take effect in the
  order they are answered, with the documented meaning \<open>etcd_apply\<close>; a request that returns an
  error, which is the client's own and none of the sources', may or may not have taken effect.  The locale is interpreted on \<open>mem_etcd\<close>, which keeps the
  whole store in memory and never fails.
\<close>

section \<open>Stored values\<close>

text \<open>
  Values are what \<^verbatim>\<open>json.Marshal\<close> writes and \<^verbatim>\<open>json.Unmarshal\<close> reads back: one of the records
  of the sources, or a plain string.
\<close>

record upload =
  up_Key :: string
  up_ContentType :: string
  up_Created :: int
  up_Meta :: "(string \<times> string) list"

record completion =
  co_Key :: string
  co_ETag :: string
  co_When :: int
  co_Parts :: int

datatype stored =
    SManifest manifest
  | SUpload upload
  | SCompletion completion
  | SString string

text \<open>
  \<^verbatim>\<open>json.Unmarshal\<close> into a manifest: fields are matched by name, so an upload record decodes as a
  manifest with a content type and metadata and nothing else.
\<close>

fun decode_manifest :: "stored \<Rightarrow> error + manifest" where
  "decode_manifest (SManifest m) = Inr m"
| "decode_manifest (SUpload u) =
     Inr (zero_manifest\<lparr>m_ContentType := up_ContentType u, m_Meta := up_Meta u\<rparr>)"
| "decode_manifest (SCompletion c) = Inl [Other ''corrupt manifest'']"
| "decode_manifest (SString s) = Inl [Other ''corrupt manifest'']"

fun decode_upload :: "stored \<Rightarrow> error + upload" where
  "decode_upload (SUpload u) = Inr u"
| "decode_upload (SManifest m) =
     Inr \<lparr>up_Key = '''', up_ContentType = m_ContentType m, up_Created = 0, up_Meta = m_Meta m\<rparr>"
| "decode_upload (SCompletion c) =
     Inr \<lparr>up_Key = co_Key c, up_ContentType = '''', up_Created = 0, up_Meta = []\<rparr>"
| "decode_upload (SString s) = Inl [Other ''corrupt upload'']"

fun decode_completion :: "stored \<Rightarrow> error + completion" where
  "decode_completion (SCompletion c) = Inr c"
| "decode_completion (SUpload u) = Inr \<lparr>co_Key = up_Key u, co_ETag = '''', co_When = 0, co_Parts = 0\<rparr>"
| "decode_completion (SManifest m) = Inl [Other ''corrupt completion'']"
| "decode_completion (SString s) = Inl [Other ''corrupt completion'']"

fun stored_string :: "stored \<Rightarrow> string" where
  "stored_string (SString s) = s"
| "stored_string _ = ''{}''"

section \<open>Requests and what they mean\<close>

record kvd =
  kd_Value :: stored
  kd_ModRev :: int

record kvs =
  kvs_Rev :: int
  kvs_Keys :: "(string \<times> kvd) list"

text \<open>
  \<open>CmpExists k\<close> is the comparison \<^verbatim>\<open>CreateRevision(k) > 0\<close>: etcd documents 0 as the revision of a
  key that is not there.
\<close>

datatype etcd_cmp = CmpModRev string int | CmpExists string

datatype etcd_req =
    EPut string stored
  | EDelete string
  | EDeletePrefix string
  | EGet string
  | EGetPrefix string
  | ERange string string int
  | ETxn "etcd_cmp list" string stored
  | EGrant int

datatype etcd_resp =
    RDone
  | RKvs "(string \<times> kvd) list" bool
  | RTxn bool

definition kv_lookup :: "kvs \<Rightarrow> string \<Rightarrow> kvd option" where
  "kv_lookup s k = map_of (kvs_Keys s) k"

definition kv_put :: "kvs \<Rightarrow> string \<Rightarrow> stored \<Rightarrow> kvs" where
  "kv_put s k v =
     \<lparr>kvs_Rev = kvs_Rev s + 1,
      kvs_Keys = AList.update k \<lparr>kd_Value = v, kd_ModRev = kvs_Rev s + 1\<rparr> (kvs_Keys s)\<rparr>"

definition kv_drop :: "kvs \<Rightarrow> (string \<Rightarrow> bool) \<Rightarrow> kvs" where
  "kv_drop s P =
     \<lparr>kvs_Rev = kvs_Rev s + 1, kvs_Keys = filter (\<lambda>(k, d). \<not> P k) (kvs_Keys s)\<rparr>"

definition kv_select :: "kvs \<Rightarrow> (string \<Rightarrow> bool) \<Rightarrow> (string \<times> kvd) list" where
  "kv_select s P =
     map (\<lambda>k. (k, the (map_of (kvs_Keys s) k))) (sort (remdups (filter P (map fst (kvs_Keys s)))))"

fun cmp_holds :: "kvs \<Rightarrow> etcd_cmp \<Rightarrow> bool" where
  "cmp_holds s (CmpModRev k r) = ((case kv_lookup s k of None \<Rightarrow> 0 | Some d \<Rightarrow> kd_ModRev d) = r)"
| "cmp_holds s (CmpExists k) = (kv_lookup s k \<noteq> None)"

fun etcd_apply :: "kvs \<Rightarrow> etcd_req \<Rightarrow> kvs \<times> etcd_resp" where
  "etcd_apply s (EPut k v) = (kv_put s k v, RDone)"
| "etcd_apply s (EDelete k) = (kv_drop s (\<lambda>x. x = k), RDone)"
| "etcd_apply s (EDeletePrefix p) = (kv_drop s (\<lambda>x. HasPrefix x p), RDone)"
| "etcd_apply s (EGet k) = (s, RKvs (kv_select s (\<lambda>x. x = k)) False)"
| "etcd_apply s (EGetPrefix p) = (s, RKvs (kv_select s (\<lambda>x. HasPrefix x p)) False)"
| "etcd_apply s (ERange a b limit) =
     (let xs = kv_select s (\<lambda>x. a \<le> x \<and> x < b)
      in (s, if limit > 0 then RKvs (take (nat limit) xs) (limit < int (length xs)) else RKvs xs False))"
| "etcd_apply s (ETxn cs k v) =
     (if list_all (cmp_holds s) cs then (kv_put s k v, RTxn True) else (s, RTxn False))"
| "etcd_apply s (EGrant ttl) = (s, RDone)"

record 's etcd =
  et_call :: "'s \<Rightarrow> etcd_req \<Rightarrow> 's \<times> (error + etcd_resp)"
  et_prefixEnd :: "string \<Rightarrow> string"

locale etcd_client =
  fixes E :: "'s etcd" and view :: "'s \<Rightarrow> kvs"
  assumes call_ok: "et_call E s q = (s', Inr r) \<Longrightarrow> (view s', r) = etcd_apply (view s) q"
    and call_err: "et_call E s q = (s', Inl e) \<Longrightarrow>
      view s' = view s \<or> view s' = fst (etcd_apply (view s) q)"
    and call_foreign: "et_call E s q = (s', Inl e) \<Longrightarrow> \<exists>msg. e = [Other msg]"
    and prefix_end: "\<exists>c \<in> set p. c \<noteq> CHR 0xFF \<Longrightarrow>
      (p \<le> k \<and> k < et_prefixEnd E p) \<longleftrightarrow> HasPrefix k p"

section \<open>An in-memory instance\<close>

fun bump :: "string \<Rightarrow> string" where
  "bump [] = []"
| "bump (c # p) = (if \<exists>d \<in> set p. d \<noteq> CHR 0xFF then c # bump p
                   else if c = CHR 0xFF then [] else [char_of (of_char c + (1 :: nat))])"

definition mem_etcd :: "kvs etcd" where
  "mem_etcd = \<lparr>et_call = \<lambda>s q. (case etcd_apply s q of (s', r) \<Rightarrow> (s', Inr r)), et_prefixEnd = bump\<rparr>"

definition empty_kvs :: kvs where
  "empty_kvs = \<lparr>kvs_Rev = 1, kvs_Keys = []\<rparr>"

lemma of_char_FF: "of_char (CHR 0xFF) = (255 :: nat)"
  by simp

lemma char_le_FF [simp]: "c \<le> CHR 0xFF"
proof -
  have "(of_char c :: nat) < 256" by simp
  then have "(of_char c :: nat) \<le> 255" by linarith
  then show ?thesis by (simp add: less_eq_char_def)
qed

lemma FFs_least:
  assumes "\<forall>c \<in> set p. c = CHR 0xFF"
  shows "p \<le> ds \<longleftrightarrow> HasPrefix ds p"
  using assms
proof (induction p arbitrary: ds)
  case (Cons c p)
  show ?case
  proof (cases ds)
    case (Cons d ds')
    have "CHR 0xFF < d \<longleftrightarrow> False" using char_le_FF[of d] by (meson leD)
    then show ?thesis using Cons Cons.IH[of ds'] Cons.prems by (auto simp: HasPrefix_def)
  qed (simp add: HasPrefix_def)
qed simp

lemma char_less_bump:
  assumes "c \<noteq> CHR 0xFF"
  shows "(d < char_of (of_char c + (1 :: nat))) \<longleftrightarrow> d \<le> c"
proof -
  have c: "of_char c < (256 :: nat)" "of_char d < (256 :: nat)" by simp_all
  have "of_char c \<noteq> (255 :: nat)" using assms of_char_FF by (metis of_char_eq_iff)
  then have "of_char c + 1 < (256 :: nat)" using c(1) by linarith
  then have "of_char (char_of (of_char c + (1 :: nat)) :: char) = of_char c + (1 :: nat)"
    by (simp add: of_char_of)
  then show ?thesis by (auto simp: less_char_def less_eq_char_def)
qed

lemma bump_range: "\<exists>c \<in> set p. c \<noteq> CHR 0xFF \<Longrightarrow> (p \<le> k \<and> k < bump p) \<longleftrightarrow> HasPrefix k p"
proof (induction p arbitrary: k)
  case (Cons c p)
  show ?case
  proof (cases k)
    case Nil
    then show ?thesis by (simp add: HasPrefix_def)
  next
    case k: (Cons d ds)
    have pre: "HasPrefix (d # ds) (c # p) \<longleftrightarrow> d = c \<and> HasPrefix ds p"
      by (auto simp: HasPrefix_def)
    show ?thesis
    proof (cases "\<exists>d \<in> set p. d \<noteq> CHR 0xFF")
      case True
      then have "bump (c # p) = c # bump p" by simp
      then show ?thesis using Cons.IH[OF True, of ds] k pre by (cases "d = c") auto
    next
      case False
      then have c: "c \<noteq> CHR 0xFF" using Cons.prems by auto
      have "p \<le> ds \<longleftrightarrow> HasPrefix ds p" using False by (intro FFs_least) auto
      moreover have "bump (c # p) = [char_of (of_char c + (1 :: nat))]" using c False by simp
      moreover have "d # ds < [char_of (of_char c + (1 :: nat))] \<longleftrightarrow> d \<le> c"
        using char_less_bump[OF c, of d] by simp
      moreover have "c # p \<le> d # ds \<longleftrightarrow> c < d \<or> c = d \<and> p \<le> ds" by simp
      ultimately show ?thesis using k pre by (metis leD order_refl)
    qed
  qed
qed simp

interpretation mem: etcd_client mem_etcd "\<lambda>s. s"
proof (unfold_locales, goal_cases)
  case (1 s q s' r)
  then show ?case by (auto simp: mem_etcd_def split: prod.splits)
next
  case (2 s q s' e)
  then show ?case by (auto simp: mem_etcd_def split: prod.splits)
next
  case (3 s q s' e)
  then show ?case by (auto simp: mem_etcd_def split: prod.splits)
next
  case (4 p k)
  then show ?case using bump_range[OF 4] by (simp add: mem_etcd_def)
qed

section \<open>Lookups after updates\<close>

lemma kv_lookup_put [simp]:
  "kv_lookup (kv_put s k v) x =
    (if x = k then Some \<lparr>kd_Value = v, kd_ModRev = kvs_Rev s + 1\<rparr> else kv_lookup s x)"
  by (simp add: kv_lookup_def kv_put_def update_conv')

lemma kv_lookup_drop [simp]: "kv_lookup (kv_drop s P) x = (if P x then None else kv_lookup s x)"
  by (simp add: kv_lookup_def kv_drop_def map_of_filter_key[where P = "\<lambda>k. \<not> P k"])

lemma set_kv_select:
  "(k, d) \<in> set (kv_select s P) \<longleftrightarrow> P k \<and> kv_lookup s k = Some d"
proof -
  have "k \<in> fst ` set (kvs_Keys s) \<longleftrightarrow> (\<exists>d. map_of (kvs_Keys s) k = Some d)"
    by (metis domIff dom_map_of_conv_image_fst option.exhaust option.simps(3))
  then show ?thesis by (auto simp: kv_select_def kv_lookup_def)
qed

lemma sorted_kv_select: "sorted_wrt (<) (map fst (kv_select s P))"
  by (simp add: kv_select_def o_def strict_sorted_iff)

lemma length_kv_select: "length (kv_select s P) \<le> length (kvs_Keys s)"
  unfolding kv_select_def by (simp, metis length_filter_le length_map length_remdups_leq order.trans)

lemma kv_select_single:
  "kv_select s (\<lambda>x. x = k) = (case kv_lookup s k of None \<Rightarrow> [] | Some d \<Rightarrow> [(k, d)])"
proof (rule sorted_fst_unique[OF sorted_kv_select])
  show "set (kv_select s (\<lambda>x. x = k)) = set (case kv_lookup s k of None \<Rightarrow> [] | Some d \<Rightarrow> [(k, d)])"
    by (auto simp: set_kv_select split: option.splits)
qed (simp split: option.splits)

end
