(* ===== verification/Meta.thy ===== *)
theory Meta
  imports Etcd
begin

text \<open>
  The manifest store, \<^verbatim>\<open>internal/meta\<close>: \<^verbatim>\<open>meta.go\<close> (objects and cursors), \<^verbatim>\<open>writing.go\<close> (the
  records of writes in flight), \<^verbatim>\<open>upload.go\<close> (multipart uploads) and the list of
  \<^verbatim>\<open>members.go\<close>, whose registration and watch are in \<open>Membership\<close>.  Each operation is the sequence of etcd requests the source makes, with every
  error it can return.

  The key prefix is taken as already cleaned, so \<^verbatim>\<open>path.Join\<close> puts a slash between its arguments.
\<close>

section \<open>Keys\<close>

record meta =
  mt_prefix :: string

definition join :: "string \<Rightarrow> string \<Rightarrow> string" where
  "join p x = p @ ''/'' @ x"

definition objects_prefix :: "meta \<Rightarrow> string" where
  "objects_prefix M = join (mt_prefix M) ''objects'' @ ''/''"

definition meta_key :: "meta \<Rightarrow> string \<Rightarrow> string" where
  "meta_key M k = objects_prefix M @ k"

definition cursorKey :: "meta \<Rightarrow> string \<Rightarrow> string \<Rightarrow> string" where
  "cursorKey M task node = join (join (join (mt_prefix M) ''cursors'') task) node"

definition writingPrefix :: "meta \<Rightarrow> string" where
  "writingPrefix M = join (mt_prefix M) ''writing'' @ ''/''"

definition writingKey :: "meta \<Rightarrow> string \<Rightarrow> string" where
  "writingKey M i = writingPrefix M @ i"

definition uploads_prefix :: "meta \<Rightarrow> string" where
  "uploads_prefix M = join (mt_prefix M) ''uploads'' @ ''/''"

definition uploadPrefix :: "meta \<Rightarrow> string \<Rightarrow> string" where
  "uploadPrefix M i = join (join (mt_prefix M) ''uploads'') i @ ''/''"

definition uploadKey :: "meta \<Rightarrow> string \<Rightarrow> string" where
  "uploadKey M i = uploadPrefix M i @ ''upload''"

definition partKey :: "meta \<Rightarrow> string \<Rightarrow> nat \<Rightarrow> string" where
  "partKey M i number = uploadPrefix M i @ ''parts/'' @ fmt_0d 5 number"

definition completionKey :: "meta \<Rightarrow> string \<Rightarrow> string" where
  "completionKey M i = join (join (mt_prefix M) ''completed'') i"

definition memberPrefix :: "meta \<Rightarrow> string" where
  "memberPrefix M = join (mt_prefix M) ''members'' @ ''/''"

definition memberKey :: "meta \<Rightarrow> string \<Rightarrow> string" where
  "memberKey M i = memberPrefix M @ i"

text \<open>\<^verbatim>\<open>path.Base\<close> and \<^verbatim>\<open>path.Dir\<close> of a key, whose last element is never empty.\<close>

definition path_Base :: "string \<Rightarrow> string" where
  "path_Base k = rev (takeWhile (\<lambda>c. c \<noteq> CHR ''/'') (rev k))"

definition path_Dir :: "string \<Rightarrow> string" where
  "path_Dir k = rev (drop 1 (dropWhile (\<lambda>c. c \<noteq> CHR ''/'') (rev k)))"

section \<open>Objects\<close>

definition et_unit :: "'s etcd \<Rightarrow> 's \<Rightarrow> etcd_req \<Rightarrow> 's \<times> error option" where
  "et_unit E s q = (case et_call E s q of
      (s', Inl e) \<Rightarrow> (s', Some e)
    | (s', Inr r) \<Rightarrow> (s', None))"

definition et_kvs :: "'s etcd \<Rightarrow> 's \<Rightarrow> etcd_req \<Rightarrow> 's \<times> (error + (string \<times> kvd) list \<times> bool)" where
  "et_kvs E s q = (case et_call E s q of
      (s', Inl e) \<Rightarrow> (s', Inl e)
    | (s', Inr (RKvs kv mr)) \<Rightarrow> (s', Inr (kv, mr))
    | (s', Inr r) \<Rightarrow> (s', Inr ([], False)))"

definition et_txn :: "'s etcd \<Rightarrow> 's \<Rightarrow> etcd_req \<Rightarrow> 's \<times> (error + bool)" where
  "et_txn E s q = (case et_call E s q of
      (s', Inl e) \<Rightarrow> (s', Inl e)
    | (s', Inr (RTxn b)) \<Rightarrow> (s', Inr b)
    | (s', Inr r) \<Rightarrow> (s', Inr False))"

definition meta_Commit :: "'s etcd \<Rightarrow> meta \<Rightarrow> 's \<Rightarrow> string \<Rightarrow> manifest \<Rightarrow> 's \<times> error option" where
  "meta_Commit E M s k m = et_unit E s (EPut (meta_key M k) (SManifest m))"

definition meta_Get :: "'s etcd \<Rightarrow> meta \<Rightarrow> 's \<Rightarrow> string \<Rightarrow> 's \<times> (error + manifest)" where
  "meta_Get E M s k = (case et_kvs E s (EGet (meta_key M k)) of
      (s', Inl e) \<Rightarrow> (s', Inl e)
    | (s', Inr ([], mr)) \<Rightarrow> (s', Inl [meta_ErrNotFound])
    | (s', Inr ((_, d) # _, mr)) \<Rightarrow> (s', decode_manifest (kd_Value d)))"

definition meta_Delete :: "'s etcd \<Rightarrow> meta \<Rightarrow> 's \<Rightarrow> string \<Rightarrow> 's \<times> error option" where
  "meta_Delete E M s k = et_unit E s (EDelete (meta_key M k))"

definition CommitIfUnchanged ::
  "'s etcd \<Rightarrow> meta \<Rightarrow> 's \<Rightarrow> string \<Rightarrow> manifest \<Rightarrow> int \<Rightarrow> 's \<times> error option" where
  "CommitIfUnchanged E M s k m revision =
     (case et_txn E s (ETxn [CmpModRev (meta_key M k) revision] (meta_key M k) (SManifest m)) of
        (s', Inl e) \<Rightarrow> (s', Some e)
      | (s', Inr succeeded) \<Rightarrow> (s', if \<not> succeeded then Some [ErrChanged] else None))"

definition After :: "string \<Rightarrow> string" where
  "After k = k @ [CHR 0x00]"

text \<open>\<^verbatim>\<open>string(b)\<close> of a byte is the UTF-8 encoding of the code point with that number.\<close>

definition utf8_byte :: "nat \<Rightarrow> string" where
  "utf8_byte b = (if b < 128 then [char_of b] else [char_of (192 + b div 64), char_of (128 + b mod 64)])"

definition PastPrefix :: "string \<Rightarrow> string" where
  "PastPrefix p = (case dropWhile (\<lambda>c. c = CHR 0xFF) (rev p) of
      [] \<Rightarrow> ''''
    | c # r \<Rightarrow> rev r @ utf8_byte (of_char c + 1))"

record obj =
  ob_Key :: string
  ob_Manifest :: manifest
  ob_Revision :: int

record entry =
  en_Key :: string
  en_Size :: int
  en_ETag :: string
  en_Modified :: int

definition scan ::
  "'s etcd \<Rightarrow> meta \<Rightarrow> 's \<Rightarrow> string \<Rightarrow> string \<Rightarrow> int \<Rightarrow> 's \<times> (error + (string \<times> kvd) list)" where
  "scan E M s pre from limit =
     (let start = (if from > pre then meta_key M from else meta_key M pre);
          fin = et_prefixEnd E (meta_key M pre)
      in if start \<ge> fin then (s, Inr [])
         else case et_kvs E s (ERange start fin limit) of
                (s', Inl e) \<Rightarrow> (s', Inl e)
              | (s', Inr (kv, mr)) \<Rightarrow> (s', Inr kv))"

fun decode_all :: "('a \<Rightarrow> error + 'b) \<Rightarrow> 'a list \<Rightarrow> error + 'b list" where
  "decode_all f [] = Inr []"
| "decode_all f (x # xs) = (case f x of
      Inl e \<Rightarrow> Inl e
    | Inr y \<Rightarrow> (case decode_all f xs of Inl e \<Rightarrow> Inl e | Inr ys \<Rightarrow> Inr (y # ys)))"

fun decode_obj :: "meta \<Rightarrow> string \<times> kvd \<Rightarrow> error + obj" where
  "decode_obj M (k, d) = (case decode_manifest (kd_Value d) of
      Inl e \<Rightarrow> Inl e
    | Inr m \<Rightarrow> Inr \<lparr>ob_Key = TrimPrefix k (objects_prefix M), ob_Manifest = m, ob_Revision = kd_ModRev d\<rparr>)"

fun decode_entry :: "meta \<Rightarrow> string \<times> kvd \<Rightarrow> error + entry" where
  "decode_entry M (k, d) = (case decode_manifest (kd_Value d) of
      Inl e \<Rightarrow> Inl e
    | Inr m \<Rightarrow> Inr \<lparr>en_Key = TrimPrefix k (objects_prefix M), en_Size = m_Size m, en_ETag = m_ETag m,
                   en_Modified = m_Modified m\<rparr>)"

definition ScanObjects ::
  "'s etcd \<Rightarrow> meta \<Rightarrow> 's \<Rightarrow> string \<Rightarrow> string \<Rightarrow> int \<Rightarrow> 's \<times> (error + obj list)" where
  "ScanObjects E M s pre from limit = (case scan E M s pre from limit of
      (s', Inl e) \<Rightarrow> (s', Inl e)
    | (s', Inr kv) \<Rightarrow> (s', decode_all (decode_obj M) kv))"

definition ScanEntries ::
  "'s etcd \<Rightarrow> meta \<Rightarrow> 's \<Rightarrow> string \<Rightarrow> string \<Rightarrow> int \<Rightarrow> 's \<times> (error + entry list)" where
  "ScanEntries E M s pre from limit = (case scan E M s pre from limit of
      (s', Inl e) \<Rightarrow> (s', Inl e)
    | (s', Inr kv) \<Rightarrow> (s', decode_all (decode_entry M) kv))"

definition SaveCursor :: "'s etcd \<Rightarrow> meta \<Rightarrow> 's \<Rightarrow> string \<Rightarrow> string \<Rightarrow> string \<Rightarrow> 's \<times> error option" where
  "SaveCursor E M s task node k = et_unit E s (EPut (cursorKey M task node) (SString k))"

definition Cursor :: "'s etcd \<Rightarrow> meta \<Rightarrow> 's \<Rightarrow> string \<Rightarrow> string \<Rightarrow> 's \<times> (error + string)" where
  "Cursor E M s task node = (case et_kvs E s (EGet (cursorKey M task node)) of
      (s', Inl e) \<Rightarrow> (s', Inl e)
    | (s', Inr ([], mr)) \<Rightarrow> (s', Inr '''')
    | (s', Inr ((_, d) # _, mr)) \<Rightarrow> (s', Inr (stored_string (kd_Value d))))"

section \<open>Writes in flight\<close>

definition MarkWriting :: "'s etcd \<Rightarrow> meta \<Rightarrow> 's \<Rightarrow> string \<Rightarrow> string \<Rightarrow> 's \<times> error option" where
  "MarkWriting E M s i node =
     (if i = '''' \<or> CHR ''/'' \<in> set i then (s, Some [Other ''meta: write id''])
      else et_unit E s (EPut (writingKey M i) (SString node)))"

definition DoneWriting :: "'s etcd \<Rightarrow> meta \<Rightarrow> 's \<Rightarrow> string \<Rightarrow> 's \<times> error option" where
  "DoneWriting E M s i = et_unit E s (EDelete (writingKey M i))"

definition Writing :: "'s etcd \<Rightarrow> meta \<Rightarrow> 's \<Rightarrow> 's \<times> (error + (string \<times> string) list)" where
  "Writing E M s = (case et_kvs E s (EGetPrefix (writingPrefix M)) of
      (s', Inl e) \<Rightarrow> (s', Inl e)
    | (s', Inr (kv, mr)) \<Rightarrow>
        (s', Inr (map (\<lambda>(k, d). (path_Base k, stored_string (kd_Value d))) kv)))"

definition whileWriting ::
  "'s etcd \<Rightarrow> meta \<Rightarrow> 's \<Rightarrow> string \<Rightarrow> string \<Rightarrow> stored \<Rightarrow> 's \<times> error option" where
  "whileWriting E M s i k v = (case et_txn E s (ETxn [CmpExists (writingKey M i)] k v) of
      (s', Inl e) \<Rightarrow> (s', Some e)
    | (s', Inr succeeded) \<Rightarrow> (s', if \<not> succeeded then Some [ErrNotWriting] else None))"

definition CommitWhileWriting ::
  "'s etcd \<Rightarrow> meta \<Rightarrow> 's \<Rightarrow> string \<Rightarrow> manifest \<Rightarrow> string \<Rightarrow> 's \<times> error option" where
  "CommitWhileWriting E M s k m i = whileWriting E M s i (meta_key M k) (SManifest m)"

section \<open>Multipart uploads\<close>

definition CreateUpload :: "'s etcd \<Rightarrow> meta \<Rightarrow> 's \<Rightarrow> string \<Rightarrow> upload \<Rightarrow> 's \<times> error option" where
  "CreateUpload E M s i u = et_unit E s (EPut (uploadKey M i) (SUpload u))"

definition meta_Upload :: "'s etcd \<Rightarrow> meta \<Rightarrow> 's \<Rightarrow> string \<Rightarrow> 's \<times> (error + upload)" where
  "meta_Upload E M s i = (case et_kvs E s (EGet (uploadKey M i)) of
      (s', Inl e) \<Rightarrow> (s', Inl e)
    | (s', Inr ([], mr)) \<Rightarrow> (s', Inl [meta_ErrNotFound])
    | (s', Inr ((_, d) # _, mr)) \<Rightarrow> (s', decode_upload (kd_Value d)))"

definition CommitPart :: "'s etcd \<Rightarrow> meta \<Rightarrow> 's \<Rightarrow> string \<Rightarrow> nat \<Rightarrow> manifest \<Rightarrow> 's \<times> error option" where
  "CommitPart E M s i number m =
     (case et_txn E s (ETxn [CmpExists (uploadKey M i)] (partKey M i number) (SManifest m)) of
        (s', Inl e) \<Rightarrow> (s', Some e)
      | (s', Inr succeeded) \<Rightarrow> (s', if \<not> succeeded then Some [meta_ErrNotFound] else None))"

definition CommitPartWhileWriting ::
  "'s etcd \<Rightarrow> meta \<Rightarrow> 's \<Rightarrow> string \<Rightarrow> nat \<Rightarrow> manifest \<Rightarrow> string \<Rightarrow> 's \<times> error option" where
  "CommitPartWhileWriting E M s i number m writeID =
     (case et_txn E s (ETxn [CmpExists (writingKey M writeID), CmpExists (uploadKey M i)]
             (partKey M i number) (SManifest m)) of
        (s', Inl e) \<Rightarrow> (s', Some e)
      | (s', Inr succeeded) \<Rightarrow>
          if succeeded then (s', None)
          else (case meta_Upload E M s' i of
                  (s'', Inl e) \<Rightarrow> (s'', Some e)
                | (s'', Inr u) \<Rightarrow> (s'', Some [ErrNotWriting])))"

text \<open>\<^verbatim>\<open>strconv.Atoi\<close>: an optional sign and decimal digits within 64 bits.\<close>

definition digit_value :: "char \<Rightarrow> int option" where
  "digit_value c = (let n = of_char c in if 48 \<le> n \<and> n \<le> 57 then Some (n - 48) else None)"

fun digits_value :: "int \<Rightarrow> string \<Rightarrow> int option" where
  "digits_value acc [] = Some acc"
| "digits_value acc (c # cs) = (case digit_value c of
      None \<Rightarrow> None
    | Some d \<Rightarrow> digits_value (10 * acc + d) cs)"

definition Atoi :: "string \<Rightarrow> int option" where
  "Atoi t = (let (neg, ds) = (case t of
        c # cs \<Rightarrow> if c = CHR ''-'' then (True, cs) else if c = CHR ''+'' then (False, cs) else (False, t)
      | [] \<Rightarrow> (False, t))
     in if ds = [] then None
        else case digits_value 0 ds of
               None \<Rightarrow> None
             | Some n \<Rightarrow> (let v = (if neg then - n else n) in if in_i64 v then Some v else None))"

fun decode_part :: "string \<times> kvd \<Rightarrow> error + int \<times> manifest" where
  "decode_part (k, d) = (case Atoi (path_Base k) of
      None \<Rightarrow> Inl [Other ''meta: part key'']
    | Some number \<Rightarrow> (case decode_manifest (kd_Value d) of
        Inl e \<Rightarrow> Inl e
      | Inr m \<Rightarrow> Inr (number, m)))"

definition Parts :: "'s etcd \<Rightarrow> meta \<Rightarrow> 's \<Rightarrow> string \<Rightarrow> 's \<times> (error + (int \<times> manifest) list)" where
  "Parts E M s i = (case et_kvs E s (EGetPrefix (uploadPrefix M i @ ''parts/'')) of
      (s', Inl e) \<Rightarrow> (s', Inl e)
    | (s', Inr (kv, mr)) \<Rightarrow> (s', case decode_all decode_part kv of
        Inl e \<Rightarrow> Inl e
      | Inr ps \<Rightarrow> Inr (foldl (\<lambda>acc (n, m). AList.update n m acc) [] ps)))"

record part_ref =
  pr_Key :: string
  pr_Manifest :: manifest

fun decode_part_ref :: "string \<times> kvd \<Rightarrow> error + part_ref" where
  "decode_part_ref (k, d) =
     (if \<not> Contains k ''/parts/'' then Inr \<lparr>pr_Key = k, pr_Manifest = zero_manifest\<rparr>
      else case decode_manifest (kd_Value d) of
             Inl e \<Rightarrow> Inl e
           | Inr m \<Rightarrow> Inr \<lparr>pr_Key = k, pr_Manifest = m\<rparr>)"

definition ScanParts :: "'s etcd \<Rightarrow> meta \<Rightarrow> 's \<Rightarrow> string \<Rightarrow> int \<Rightarrow> 's \<times> (error + part_ref list)" where
  "ScanParts E M s from limit =
     (let start = (if from \<noteq> '''' then After from else uploads_prefix M);
          fin = et_prefixEnd E (uploads_prefix M)
      in if start \<ge> fin then (s, Inr [])
         else case et_kvs E s (ERange start fin limit) of
                (s', Inl e) \<Rightarrow> (s', Inl e)
              | (s', Inr (kv, mr)) \<Rightarrow> (s', decode_all decode_part_ref kv))"

record upload_ref =
  ur_ID :: string
  ur_Upload :: upload

definition scanBudget :: int where
  "scanBudget = 1024"

text \<open>The loop of \<^verbatim>\<open>Uploads\<close>: the uploads found and whether it stopped at the limit.\<close>

fun uploads_loop ::
  "string \<Rightarrow> int \<Rightarrow> (string \<times> kvd) list \<Rightarrow> upload_ref list \<Rightarrow> error + upload_ref list \<times> bool" where
  "uploads_loop pre limit [] acc = Inr (acc, False)"
| "uploads_loop pre limit ((k, d) # kv) acc =
     (if \<not> HasSuffix k ''/upload'' then uploads_loop pre limit kv acc
      else case decode_upload (kd_Value d) of
             Inl e \<Rightarrow> Inl e
           | Inr u \<Rightarrow>
               if \<not> HasPrefix (up_Key u) pre then uploads_loop pre limit kv acc
               else if int (length acc) = limit then Inr (acc, True)
               else uploads_loop pre limit kv
                      (acc @ [\<lparr>ur_ID = path_Base (path_Dir k), ur_Upload = u\<rparr>]))"

definition Uploads ::
  "'s etcd \<Rightarrow> meta \<Rightarrow> 's \<Rightarrow> string \<Rightarrow> string \<Rightarrow> int \<Rightarrow> 's \<times> (error + upload_ref list \<times> bool)" where
  "Uploads E M s pre after limit =
     (let start = (if after \<noteq> '''' then After (uploadPrefix M after) else uploads_prefix M);
          fin = et_prefixEnd E (uploads_prefix M)
      in if start \<ge> fin then (s, Inr ([], False))
         else case et_kvs E s (ERange start fin scanBudget) of
                (s', Inl e) \<Rightarrow> (s', Inl e)
              | (s', Inr (kv, mr)) \<Rightarrow> (s', case uploads_loop pre limit kv [] of
                    Inl e \<Rightarrow> Inl e
                  | Inr (ups, True) \<Rightarrow> Inr (ups, True)
                  | Inr (ups, False) \<Rightarrow> Inr (ups, mr \<or> int (length kv) = scanBudget)))"

definition CompletionMemory :: int where
  "CompletionMemory = 3600"

text \<open>The lease's expiry is etcd's; here the record stays until it is looked up.\<close>

definition FinishUpload :: "'s etcd \<Rightarrow> meta \<Rightarrow> 's \<Rightarrow> string \<Rightarrow> completion \<Rightarrow> 's \<times> error option" where
  "FinishUpload E M s i c = (case et_unit E s (EGrant CompletionMemory) of
      (s', Some e) \<Rightarrow> (s', Some e)
    | (s', None) \<Rightarrow> et_unit E s' (EPut (completionKey M i) (SCompletion c)))"

definition meta_Completion :: "'s etcd \<Rightarrow> meta \<Rightarrow> 's \<Rightarrow> string \<Rightarrow> 's \<times> (error + completion)" where
  "meta_Completion E M s i = (case et_kvs E s (EGet (completionKey M i)) of
      (s', Inl e) \<Rightarrow> (s', Inl e)
    | (s', Inr ([], mr)) \<Rightarrow> (s', Inl [meta_ErrNotFound])
    | (s', Inr ((_, d) # _, mr)) \<Rightarrow> (s', decode_completion (kd_Value d)))"

definition DeleteUpload :: "'s etcd \<Rightarrow> meta \<Rightarrow> 's \<Rightarrow> string \<Rightarrow> 's \<times> error option" where
  "DeleteUpload E M s i = et_unit E s (EDeletePrefix (uploadPrefix M i))"

text \<open>One page of \<^verbatim>\<open>ExpireUploads\<close>: where to go on, how many went, and an error if there was one.\<close>

fun expire_page ::
  "'s etcd \<Rightarrow> meta \<Rightarrow> int \<Rightarrow> (string \<times> kvd) list \<Rightarrow> string \<Rightarrow> int \<Rightarrow> 's \<Rightarrow> 's \<times> string \<times> int \<times> error option"
  where
  "expire_page E M cutoff [] start n s = (s, start, n, None)"
| "expire_page E M cutoff ((k, d) # kv) start n s =
     (if \<not> HasSuffix k ''/upload'' then expire_page E M cutoff kv (After k) n s
      else case decode_upload (kd_Value d) of
             Inl e \<Rightarrow> (s, After k, n, Some e)
           | Inr u \<Rightarrow>
               if up_Created u > cutoff then expire_page E M cutoff kv (After k) n s
               else (case DeleteUpload E M s (path_Base (path_Dir k)) of
                       (s', Some e) \<Rightarrow> (s', After k, n, Some e)
                     | (s', None) \<Rightarrow> expire_page E M cutoff kv (After k) (n + 1) s'))"

text \<open>The loop over pages, with a bound on their number; \<open>None\<close> is a loop that is not done yet.\<close>

fun expire_pages ::
  "nat \<Rightarrow> 's etcd \<Rightarrow> meta \<Rightarrow> int \<Rightarrow> string \<Rightarrow> int \<Rightarrow> 's \<Rightarrow> ('s \<times> int \<times> error option) option" where
  "expire_pages 0 E M cutoff start n s = None"
| "expire_pages (Suc fuel) E M cutoff start n s =
     (if start \<ge> et_prefixEnd E (uploads_prefix M) then Some (s, n, None)
      else case et_kvs E s (ERange start (et_prefixEnd E (uploads_prefix M)) 64) of
             (s', Inl e) \<Rightarrow> Some (s', n, Some e)
           | (s', Inr ([], mr)) \<Rightarrow> Some (s', n, None)
           | (s', Inr (kv, mr)) \<Rightarrow> (case expire_page E M cutoff kv start n s' of
                (s'', start', n', Some e) \<Rightarrow> Some (s'', n', Some e)
              | (s'', start', n', None) \<Rightarrow> expire_pages fuel E M cutoff start' n' s''))"

definition ExpireUploads ::
  "nat \<Rightarrow> 's etcd \<Rightarrow> meta \<Rightarrow> 's \<Rightarrow> int \<Rightarrow> ('s \<times> int \<times> error option) option" where
  "ExpireUploads fuel E M s cutoff = expire_pages fuel E M cutoff (uploads_prefix M) 0 s"

section \<open>Members\<close>

definition Members :: "'s etcd \<Rightarrow> meta \<Rightarrow> 's \<Rightarrow> 's \<times> (error + (string \<times> string) list)" where
  "Members E M s = (case et_kvs E s (EGetPrefix (memberPrefix M)) of
      (s', Inl e) \<Rightarrow> (s', Inl e)
    | (s', Inr (kv, mr)) \<Rightarrow>
        (s', Inr (map (\<lambda>(k, d). (path_Base k, stored_string (kd_Value d))) kv)))"

section \<open>What a request did\<close>

lemma char_zero_least [simp]: "CHR 0x00 \<le> c"
  by (simp add: less_eq_char_def)

lemma After_le [go_simps]: "After k \<le> x \<longleftrightarrow> k < x"
proof (induction k arbitrary: x)
  case Nil
  show ?case
  proof (cases x)
    case (Cons c cs)
    have "CHR 0x00 < c \<or> CHR 0x00 = c" using char_zero_least[of c] by (auto simp: order_le_less)
    then show ?thesis using Cons by (auto simp: After_def)
  qed (simp add: After_def)
next
  case (Cons d k)
  then show ?case by (cases x) (auto simp: After_def)
qed

lemma kv_select_none: "(\<And>x. \<not> P x) \<Longrightarrow> kv_select v P = []"
  by (simp add: kv_select_def)

context etcd_client
begin

lemma et_unit_ok: "et_unit E s q = (s', None) \<Longrightarrow> view s' = fst (etcd_apply (view s) q)"
  using call_ok by (auto simp: et_unit_def split: prod.splits sum.splits) (metis fst_conv)

lemma et_unit_any:
  assumes "et_unit E s q = (s', r)"
  shows "view s' = view s \<or> view s' = fst (etcd_apply (view s) q)"
  using assms call_ok call_err
  by (auto simp: et_unit_def split: prod.splits sum.splits) (metis fst_conv)+

text \<open>Reads leave the store as it was.\<close>

definition read_req :: "etcd_req \<Rightarrow> bool" where
  "read_req q \<longleftrightarrow> (case q of EGet _ \<Rightarrow> True | EGetPrefix _ \<Rightarrow> True | ERange _ _ _ \<Rightarrow> True | _ \<Rightarrow> False)"

lemma read_req_view: "read_req q \<Longrightarrow> fst (etcd_apply v q) = v"
  by (cases q) (auto simp: read_req_def Let_def)

lemma read_req_simps [simp]:
  "read_req (EGet k)" "read_req (EGetPrefix p)" "read_req (ERange a b l)"
  by (simp_all add: read_req_def)

lemma et_kvs_view: "et_kvs E s q = (s', r) \<Longrightarrow> read_req q \<Longrightarrow> view s' = view s"
  using call_ok call_err read_req_view
  by (auto simp: et_kvs_def split: prod.splits sum.splits etcd_resp.splits) (metis fst_conv)+

lemma et_kvs_ok:
  assumes "et_kvs E s q = (s', Inr (kv, mr))" "read_req q"
  shows "snd (etcd_apply (view s) q) = RKvs kv mr"
proof -
  obtain r where c: "et_call E s q = (s', Inr r)"
    using assms(1) by (auto simp: et_kvs_def split: prod.splits sum.splits etcd_resp.splits)
  have "r = snd (etcd_apply (view s) q)" using call_ok[OF c] by (metis snd_conv)
  moreover have "\<exists>x y. snd (etcd_apply (view s) q) = RKvs x y"
    using assms(2) by (cases q) (auto simp: read_req_def Let_def)
  ultimately show ?thesis using assms(1) c by (auto simp: et_kvs_def)
qed

lemma et_txn_ok:
  assumes "et_txn E s (ETxn cs k v) = (s', Inr b)"
  shows "b = list_all (cmp_holds (view s)) cs \<and> view s' = (if b then kv_put (view s) k v else view s)"
proof -
  obtain r where c: "et_call E s (ETxn cs k v) = (s', Inr r)"
    using assms by (auto simp: et_txn_def split: prod.splits sum.splits etcd_resp.splits)
  have "(view s', r) = etcd_apply (view s) (ETxn cs k v)" using call_ok[OF c] .
  then show ?thesis using assms c by (auto simp: et_txn_def split: if_splits)
qed

lemma et_txn_err:
  assumes "et_txn E s (ETxn cs k v) = (s', Inl e)"
  shows "view s' = view s \<or> list_all (cmp_holds (view s)) cs \<and> view s' = kv_put (view s) k v"
proof -
  have "et_call E s (ETxn cs k v) = (s', Inl e)"
    using assms by (auto simp: et_txn_def split: prod.splits sum.splits etcd_resp.splits)
  from call_err[OF this] show ?thesis by (auto split: if_splits)
qed

end

section \<open>The committed objects\<close>

text \<open>What readers see: the manifest committed under a key, if there is one that decodes.\<close>

definition committed :: "meta \<Rightarrow> kvs \<Rightarrow> string \<Rightarrow> manifest option" where
  "committed M v k = (case kv_lookup v (meta_key M k) of
      None \<Rightarrow> None
    | Some d \<Rightarrow> (case decode_manifest (kd_Value d) of Inl e \<Rightarrow> None | Inr m \<Rightarrow> Some m))"

lemma meta_key_inj [simp]: "meta_key M k = meta_key M k' \<longleftrightarrow> k = k'"
  by (simp add: meta_key_def)

lemma committed_put [simp]:
  "committed M (kv_put v (meta_key M k) (SManifest m)) = (committed M v)(k \<mapsto> m)"
  by (auto simp: committed_def)

lemma committed_drop [simp]:
  "committed M (kv_drop v (\<lambda>x. x = meta_key M k)) = (committed M v)(k := None)"
  by (auto simp: committed_def)

text \<open>
  The contract of the manifest store: an acknowledged commit is what readers see, and no operation
  touches any other key.
\<close>

locale manifest_store =
  fixes commit :: "'s \<Rightarrow> string \<Rightarrow> manifest \<Rightarrow> 's \<times> error option"
    and get :: "'s \<Rightarrow> string \<Rightarrow> 's \<times> (error + manifest)"
    and delete :: "'s \<Rightarrow> string \<Rightarrow> 's \<times> error option"
    and content :: "'s \<Rightarrow> string \<Rightarrow> manifest option"
  assumes commit_ok: "commit s k m = (s', None) \<Longrightarrow> content s' = (content s)(k \<mapsto> m)"
    and commit_any: "commit s k m = (s', r) \<Longrightarrow> content s' = content s \<or> content s' = (content s)(k \<mapsto> m)"
    and get_ok: "get s k = (s', Inr m) \<Longrightarrow> content s k = Some m"
    and get_missing: "get s k = (s', Inl [meta_ErrNotFound]) \<Longrightarrow> content s k = None"
    and get_view: "get s k = (s', g) \<Longrightarrow> content s' = content s"
    and delete_ok: "delete s k = (s', None) \<Longrightarrow> content s' = (content s)(k := None)"
    and delete_any: "delete s k = (s', r) \<Longrightarrow> content s' = content s \<or> content s' = (content s)(k := None)"
begin

lemma commit_get:
  assumes "commit s k m = (s1, None)" "get s1 k = (s2, Inr m')"
  shows "m' = m"
  using commit_ok[OF assms(1)] get_ok[OF assms(2)] by simp

lemma copy_same:
  assumes "get s a = (s1, Inr m)" "commit s1 b (f m) = (s2, None)" "a \<noteq> b"
  shows "content s2 a = Some m \<and> content s2 b = Some (f m)"
  using get_ok[OF assms(1)] get_view[OF assms(1)] commit_ok[OF assms(2)] assms(3) by simp

end

context etcd_client
begin

lemma meta_Get_view: "meta_Get E M s k = (s', r) \<Longrightarrow> view s' = view s"
  by (auto simp: meta_Get_def dest!: et_kvs_view split: prod.splits sum.splits list.splits)

lemma meta_Get_ok:
  assumes "meta_Get E M s k = (s', Inr m)"
  shows "committed M (view s) k = Some m"
proof -
  from assms obtain k' d kv mr where c: "et_kvs E s (EGet (meta_key M k)) = (s', Inr ((k', d) # kv, mr))"
    and m: "decode_manifest (kd_Value d) = Inr m"
    by (auto simp: meta_Get_def split: prod.splits sum.splits list.splits)
  from et_kvs_ok[OF c] have "(k', d) # kv = kv_select (view s) (\<lambda>x. x = meta_key M k)" by simp
  then show ?thesis using m by (auto simp: kv_select_single committed_def split: option.splits)
qed

lemma et_kvs_foreign: "et_kvs E s q = (s', Inl e) \<Longrightarrow> \<exists>msg. e = [Other msg]"
  by (auto simp: et_kvs_def dest!: call_foreign split: prod.splits sum.splits etcd_resp.splits)

lemma decode_manifest_foreign: "decode_manifest v = Inl e \<Longrightarrow> \<exists>msg. e = [Other msg]"
  by (cases v) auto

lemma meta_Get_missing:
  assumes "meta_Get E M s k = (s', Inl [meta_ErrNotFound])"
  shows "committed M (view s) k = None"
proof -
  from assms obtain mr where c: "et_kvs E s (EGet (meta_key M k)) = (s', Inr ([], mr))"
    by (auto simp: meta_Get_def dest!: et_kvs_foreign decode_manifest_foreign
        split: prod.splits sum.splits list.splits)
  from et_kvs_ok[OF c] have "[] = kv_select (view s) (\<lambda>x. x = meta_key M k)" by simp
  then show ?thesis by (auto simp: kv_select_single committed_def split: option.splits)
qed

end

sublocale etcd_client \<subseteq> objects: manifest_store
  "meta_Commit E M" "meta_Get E M" "meta_Delete E M" "\<lambda>s. committed M (view s)"
  for M
proof (unfold_locales, goal_cases)
  case (1 s k m s')
  then show ?case by (simp add: meta_Commit_def et_unit_ok)
next
  case (2 s k m s' r)
  then show ?case using et_unit_any[of s "EPut (meta_key M k) (SManifest m)" s' r] by (auto simp: meta_Commit_def)
next
  case (3 s k s' m)
  then show ?case by (rule meta_Get_ok)
next
  case (4 s k s')
  then show ?case by (rule meta_Get_missing)
next
  case (5 s k s' g)
  then show ?case by (simp add: meta_Get_view)
next
  case (6 s k s')
  then show ?case by (simp add: meta_Delete_def et_unit_ok)
next
  case (7 s k s' r)
  then show ?case using et_unit_any[of s "EDelete (meta_key M k)" s' r] by (auto simp: meta_Delete_def)
qed

context etcd_client
begin

lemma CommitIfUnchanged_spec:
  assumes "CommitIfUnchanged E M s k m revision = (s', r)"
  shows "(r = None \<longrightarrow> cmp_holds (view s) (CmpModRev (meta_key M k) revision) \<and>
      committed M (view s') = (committed M (view s))(k \<mapsto> m)) \<and>
    (r = Some [ErrChanged] \<longrightarrow> \<not> cmp_holds (view s) (CmpModRev (meta_key M k) revision) \<and> view s' = view s) \<and>
    (\<not> cmp_holds (view s) (CmpModRev (meta_key M k) revision) \<longrightarrow> view s' = view s)"
proof -
  let ?q = "ETxn [CmpModRev (meta_key M k) revision] (meta_key M k) (SManifest m)"
  obtain res where t: "et_txn E s ?q = (s', res)"
    using assms by (auto simp: CommitIfUnchanged_def split: prod.splits sum.splits)
  show ?thesis
  proof (cases res)
    case (Inr b)
    with t have "et_txn E s ?q = (s', Inr b)" by simp
    from et_txn_ok[OF this] show ?thesis using assms t Inr by (auto simp: CommitIfUnchanged_def)
  next
    case (Inl e)
    with t have c: "et_txn E s ?q = (s', Inl e)" by simp
    have "r = Some e" using assms t Inl by (simp add: CommitIfUnchanged_def)
    moreover have "\<exists>msg. e = [Other msg]"
      using c by (auto simp: et_txn_def dest!: call_foreign split: prod.splits sum.splits etcd_resp.splits)
    ultimately show ?thesis using et_txn_err[OF c] by auto
  qed
qed

lemma CommitWhileWriting_spec:
  assumes "CommitWhileWriting E M s k m i = (s', r)"
  shows "(r = None \<longrightarrow> kv_lookup (view s) (writingKey M i) \<noteq> None \<and>
      committed M (view s') = (committed M (view s))(k \<mapsto> m)) \<and>
    (kv_lookup (view s) (writingKey M i) = None \<longrightarrow> r \<noteq> None \<and> view s' = view s)"
proof -
  let ?q = "ETxn [CmpExists (writingKey M i)] (meta_key M k) (SManifest m)"
  obtain res where t: "et_txn E s ?q = (s', res)"
    using assms by (auto simp: CommitWhileWriting_def whileWriting_def split: prod.splits sum.splits)
  show ?thesis
  proof (cases res)
    case (Inr b)
    with t have "et_txn E s ?q = (s', Inr b)" by simp
    from et_txn_ok[OF this] show ?thesis
      using assms t Inr by (auto simp: CommitWhileWriting_def whileWriting_def)
  next
    case (Inl e)
    with t have "et_txn E s ?q = (s', Inl e)" by simp
    from et_txn_err[OF this] show ?thesis
      using assms t Inl by (auto simp: CommitWhileWriting_def whileWriting_def)
  qed
qed

text \<open>A page of a scan: the first keys of the range at or after where it starts.\<close>

lemma scan_page:
  assumes "scan E M s pre from limit = (s', Inr kv)" "0 < limit"
  shows "view s' = view s \<and> kv = take (nat limit)
    (kv_select (view s) (\<lambda>x. HasPrefix x (meta_key M pre) \<and> meta_key M from \<le> x))"
proof -
  let ?start = "if from > pre then meta_key M from else meta_key M pre"
  let ?fin = "et_prefixEnd E (meta_key M pre)"
  have range: "(meta_key M pre \<le> x \<and> x < ?fin) \<longleftrightarrow> HasPrefix x (meta_key M pre)" for x
    by (rule prefix_end) (auto simp: meta_key_def objects_prefix_def join_def)
  have sel: "(?start \<le> x \<and> x < ?fin) \<longleftrightarrow> HasPrefix x (meta_key M pre) \<and> meta_key M from \<le> x" for x
  proof (cases "from > pre")
    case True
    then have "meta_key M pre \<le> meta_key M from" by (simp add: meta_key_def less_imp_le)
    then show ?thesis using True range[of x] by auto
  next
    case False
    then have "meta_key M from \<le> meta_key M pre" by (simp add: meta_key_def)
    then show ?thesis using False range[of x] by auto
  qed
  show ?thesis
  proof (cases "?start \<ge> ?fin")
    case True
    then have "kv_select (view s) (\<lambda>x. HasPrefix x (meta_key M pre) \<and> meta_key M from \<le> x) = []"
      using sel True by (intro kv_select_none) (metis leD order.strict_trans1)
    then show ?thesis using assms True by (simp add: scan_def Let_def)
  next
    case False
    then obtain mr where c: "et_kvs E s (ERange ?start ?fin limit) = (s', Inr (kv, mr))"
      using assms by (auto simp: scan_def Let_def split: prod.splits sum.splits)
    have "snd (etcd_apply (view s) (ERange ?start ?fin limit)) = RKvs kv mr"
      using et_kvs_ok[OF c] by simp
    then have "kv = take (nat limit) (kv_select (view s) (\<lambda>x. ?start \<le> x \<and> x < ?fin))"
      using assms(2) by (simp only: etcd_apply.simps Let_def snd_conv if_True etcd_resp.inject)
    then show ?thesis
      using et_kvs_view[OF c] by (simp only: sel read_req_simps)
  qed
qed

end

lemma kv_select_after:
  assumes "take n (kv_select v (\<lambda>x. P x \<and> a \<le> x)) \<noteq> []"
    and "k = fst (last (take n (kv_select v (\<lambda>x. P x \<and> a \<le> x))))"
  shows "kv_select v (\<lambda>x. P x \<and> After k \<le> x) = drop n (kv_select v (\<lambda>x. P x \<and> a \<le> x))"
proof -
  let ?xs = "kv_select v (\<lambda>x. P x \<and> a \<le> x)"
  have sorted: "sorted_wrt (<) (map fst ?xs)" by (rule sorted_kv_select)
  have app: "map fst ?xs = map fst (take n ?xs) @ map fst (drop n ?xs)"
    by (simp only: map_append[symmetric] append_take_drop_id)
  have split: "\<And>x y. x \<in> set (take n ?xs) \<Longrightarrow> y \<in> set (drop n ?xs) \<Longrightarrow> fst x < fst y"
    using sorted unfolding app sorted_wrt_append by auto
  have k: "k \<in> fst ` set (take n ?xs)" using assms last_in_set by blast
  have le: "fst x \<le> k" if "x \<in> set (take n ?xs)" for x
  proof -
    have "sorted (map fst (take n ?xs))"
      using sorted unfolding app sorted_wrt_append by (simp add: strict_sorted_imp_sorted)
    then have "fst x \<le> last (map fst (take n ?xs))" using that by (intro sorted_le_last) auto
    then show ?thesis using assms by (simp add: last_map)
  qed
  have "set (kv_select v (\<lambda>x. P x \<and> After k \<le> x)) = set (drop n ?xs)"
  proof (intro set_eqI iffI)
    fix y assume y: "y \<in> set (kv_select v (\<lambda>x. P x \<and> After k \<le> x))"
    obtain yk yd where yy: "y = (yk, yd)" by (cases y)
    have "a \<le> k" using k assms(1) by (auto simp: set_kv_select dest!: in_set_takeD)
    then have "y \<in> set ?xs" using y yy by (auto simp: set_kv_select After_le)
    moreover have "y \<notin> set (take n ?xs)" using le[of y] y yy by (auto simp: set_kv_select After_le)
    ultimately show "y \<in> set (drop n ?xs)" by (metis Un_iff append_take_drop_id set_append)
  next
    fix y assume y: "y \<in> set (drop n ?xs)"
    obtain yk yd where yy: "y = (yk, yd)" by (cases y)
    have "k < fst y" using split[OF _ y] k by auto
    then show "y \<in> set (kv_select v (\<lambda>x. P x \<and> After k \<le> x))"
      using in_set_dropD[OF y] yy by (simp add: set_kv_select After_le)
  qed
  moreover have "sorted_wrt (<) (map fst (drop n ?xs))"
    using sorted unfolding app sorted_wrt_append by simp
  ultimately show ?thesis by (intro sorted_fst_unique sorted_kv_select)
qed


section \<open>Stepping over a group of keys\<close>

lemma bump_snoc: "c \<noteq> CHR 0xFF \<Longrightarrow> bump (q @ [c]) = q @ [char_of (of_char c + (1 :: nat))]"
  by (induction q) auto

lemma PastPrefix_snoc:
  assumes "of_char c < (127 :: nat)"
  shows "PastPrefix (q @ [c]) = bump (q @ [c])"
proof -
  have "c \<noteq> CHR 0xFF" using assms of_char_FF by auto
  then show ?thesis using assms by (simp add: PastPrefix_def utf8_byte_def bump_snoc)
qed

lemma PastPrefix_range:
  assumes "of_char c < (127 :: nat)"
  shows "(q @ [c] \<le> k \<and> k < PastPrefix (q @ [c])) \<longleftrightarrow> HasPrefix k (q @ [c])"
proof -
  have "c \<noteq> CHR 0xFF" using assms of_char_FF by auto
  then have "\<exists>d \<in> set (q @ [c]). d \<noteq> CHR 0xFF" by simp
  then show ?thesis unfolding PastPrefix_snoc[OF assms] by (rule bump_range)
qed

section \<open>Properties of the manifest store\<close>

text \<open>
  An acknowledged commit is what the next read of the key returns, and it changes what a read
  of no other key returns.
\<close>

theorem Commit_then_Get:
  assumes "etcd_client E view"
    and "meta_Commit E M s k m = (s1, None)"
    and "meta_Get E M s1 k' = (s2, r)"
  shows "(k' = k \<longrightarrow> r \<noteq> Inl [meta_ErrNotFound] \<and> (\<forall>m'. r = Inr m' \<longrightarrow> m' = m)) \<and>
    (k' \<noteq> k \<longrightarrow> (\<forall>m'. r = Inr m' \<longrightarrow> committed M (view s) k' = Some m')) \<and>
    committed M (view s2) = (committed M (view s))(k \<mapsto> m)"
proof -
  have c: "committed M (view s1) = (committed M (view s))(k \<mapsto> m)"
    using etcd_client.et_unit_ok[OF assms(1)] assms(2) by (simp add: meta_Commit_def)
  have v: "view s2 = view s1" using etcd_client.meta_Get_view[OF assms(1,3)] .
  have ok: "r = Inr m' \<Longrightarrow> committed M (view s1) k' = Some m'" for m'
    using etcd_client.meta_Get_ok[OF assms(1)] assms(3) by simp
  have miss: "r = Inl [meta_ErrNotFound] \<Longrightarrow> committed M (view s1) k' = None"
    using etcd_client.meta_Get_missing[OF assms(1)] assms(3) by simp
  show ?thesis using c v ok miss by auto
qed

definition example_meta :: meta where
  "example_meta = \<lparr>mt_prefix = ''kavo''\<rparr>"

theorem Commit_then_Get_witness:
  "snd (meta_Get mem_etcd example_meta
      (fst (meta_Commit mem_etcd example_meta empty_kvs ''a'' zero_manifest)) ''a'') = Inr zero_manifest"
proof -
  obtain s1 where c: "meta_Commit mem_etcd example_meta empty_kvs ''a'' zero_manifest = (s1, None)"
    by (simp add: meta_Commit_def et_unit_def mem_etcd_def)
  obtain s2 m where g: "meta_Get mem_etcd example_meta s1 ''a'' = (s2, Inr m)"
    using c by (auto simp: meta_Commit_def et_unit_def mem_etcd_def meta_Get_def et_kvs_def
        kv_select_single empty_kvs_def)
  show ?thesis using Commit_then_Get[OF mem.etcd_client_axioms c g] g c by simp
qed



text \<open>
  A write that announced itself commits its manifest in the same transaction that finds its
  record still there: if the sweep has dropped the record, the commit fails and nothing changes.
\<close>

theorem CommitWhileWriting_atomic:
  assumes "etcd_client E view"
    and "CommitWhileWriting E M s k m i = (s', r)"
  shows "(r = None \<longrightarrow> kv_lookup (view s) (writingKey M i) \<noteq> None \<and>
      committed M (view s') = (committed M (view s))(k \<mapsto> m)) \<and>
    (kv_lookup (view s) (writingKey M i) = None \<longrightarrow> r \<noteq> None \<and> view s' = view s)"
  using assms by (rule etcd_client.CommitWhileWriting_spec)

theorem CommitWhileWriting_atomic_witness:
  "snd (CommitWhileWriting mem_etcd example_meta empty_kvs ''a'' zero_manifest ''W'') \<noteq> None"
proof -
  obtain s' r where c: "CommitWhileWriting mem_etcd example_meta empty_kvs ''a'' zero_manifest ''W'' = (s', r)"
    by fastforce
  have "kv_lookup empty_kvs (writingKey example_meta ''W'') = None"
    by (simp add: kv_lookup_def empty_kvs_def)
  with CommitWhileWriting_atomic[OF mem.etcd_client_axioms c] c show ?thesis by simp
qed

text \<open>
  Stepping past a group whose last byte is below \<^verbatim>\<open>0x7f\<close> passes exactly the keys of the
  group: what sorts from the group's prefix up to the step is what begins with the prefix.
\<close>

theorem PastPrefix_exact:
  assumes "of_char c < (127 :: nat)"
  shows "(q @ [c] \<le> k \<and> k < PastPrefix (q @ [c])) \<longleftrightarrow> HasPrefix k (q @ [c])"
  using assms by (rule PastPrefix_range)

theorem PastPrefix_exact_witness:
  "(''a/'' \<le> ''a/b'' \<and> ''a/b'' < PastPrefix ''a/'') \<longleftrightarrow> HasPrefix ''a/b'' ''a/''"
  using PastPrefix_exact[of "CHR ''/''" "''a''" "''a/b''"] by simp

text \<open>
  For a group ending in a byte from \<^verbatim>\<open>0x7f\<close> on, \<^verbatim>\<open>string(prefix[i]+1)\<close> encodes the next
  number as a two-byte character, and the step can pass keys that are not in the group: with the
  group \<^verbatim>\<open>"\<close>e-acute\<^verbatim>\<open>"\<close> (bytes C3 A9), the key e-circumflex (C3 AA) is stepped over.
\<close>

theorem PastPrefix_skips_others:
  "[CHR 0xC3, CHR 0xA9] < [CHR 0xC3, CHR 0xAA] \<and>
   [CHR 0xC3, CHR 0xAA] < PastPrefix [CHR 0xC3, CHR 0xA9] \<and>
   \<not> HasPrefix [CHR 0xC3, CHR 0xAA] [CHR 0xC3, CHR 0xA9]"
  by (simp add: PastPrefix_def utf8_byte_def HasPrefix_def less_char_def)

end
