(* ===== verification/Ring.thy ===== *)
theory Ring
  imports Hashes
begin

unbundle bit_operations_syntax

text \<open>
  The consistent-hash ring of \<^verbatim>\<open>internal/ring/ring.go\<close>: keys to partitions, partitions to owner
  nodes.  The lemmas relate the lap around the ring to a reference walk over the positions, and
  from it derive the width, the preference order and the stability under membership changes that
  placement, repair and collection rely on.
\<close>

section \<open>Definitions\<close>

definition Partitions :: nat where
  "Partitions = 256"

definition DefaultVNodes :: nat where
  "DefaultVNodes = 128"

definition partitionShift :: nat where
  "partitionShift = 56"

record vnode =
  pos :: uint64
  node :: string

record ring =
  vnodes :: "vnode list"

definition hashPos :: "string \<Rightarrow> uint64" where
  "hashPos s = be_word (take 8 (sha256 (bytes_of_string s)))"

definition vnodePos :: "string \<Rightarrow> nat \<Rightarrow> uint64" where
  "vnodePos nd i = hashPos (nd @ ''#'' @ fmt_d i)"

text \<open>
  \<^verbatim>\<open>slices.SortFunc\<close> leaves the order of equal positions open; the model takes the stable one.
\<close>

definition ring_New :: "string list \<Rightarrow> nat \<Rightarrow> ring" where
  "ring_New nodes vnodesPerNode =
     \<lparr>vnodes = sort_key pos
        (concat (map (\<lambda>nd. map (\<lambda>i. \<lparr>pos = vnodePos nd i, node = nd\<rparr>) [0..<vnodesPerNode]) nodes))\<rparr>"

definition PartitionFor :: "string \<Rightarrow> nat" where
  "PartitionFor key = unat (drop_bit partitionShift (hashPos key))"

text \<open>
  \<^verbatim>\<open>slices.BinarySearchFunc\<close> on a sorted slice returns the first index whose position is not
  below the target.
\<close>

definition search_pos :: "vnode list \<Rightarrow> uint64 \<Rightarrow> nat" where
  "search_pos vs target = length (takeWhile (\<lambda>v. pos v < target) vs)"

fun owners_lap :: "vnode list \<Rightarrow> nat \<Rightarrow> nat \<Rightarrow> nat list \<Rightarrow> string list \<Rightarrow> string list" where
  "owners_lap vs start n [] owners = owners"
| "owners_lap vs start n (i # is) owners =
     (let nd = node (vs ! ((start + i) mod length vs))
      in if nd \<in> set owners then owners_lap vs start n is owners
         else let owners' = owners @ [nd]
              in if length owners' = n then owners' else owners_lap vs start n is owners')"

definition Owners :: "ring \<Rightarrow> nat \<Rightarrow> int \<Rightarrow> string list" where
  "Owners r p n =
     (if vnodes r = [] \<or> n \<le> 0 then []
      else let start = search_pos (vnodes r) (push_bit partitionShift (word_of_nat p))
           in owners_lap (vnodes r) start (nat n) [0..<length (vnodes r)] [])"

definition ring_nodes :: "ring \<Rightarrow> string set" where
  "ring_nodes r = node ` set (vnodes r)"

definition sorted_ring :: "ring \<Rightarrow> bool" where
  "sorted_ring r \<longleftrightarrow> sorted (map pos (vnodes r))"

section \<open>The reference walk\<close>

text \<open>First occurrences, in order.\<close>

fun firsts :: "'a list \<Rightarrow> 'a list \<Rightarrow> 'a list" where
  "firsts seen [] = []"
| "firsts seen (x # xs) = (if x \<in> set seen then firsts seen xs else x # firsts (seen @ [x]) xs)"

lemma set_firsts: "set (firsts seen xs) = set xs - set seen"
  by (induction xs arbitrary: seen) auto

lemma distinct_firsts: "distinct (firsts seen xs)"
  by (induction xs arbitrary: seen) (auto simp: set_firsts)

lemma firsts_cong_seen: "set s = set t \<Longrightarrow> firsts s xs = firsts t xs"
proof (induction xs arbitrary: s t)
  case (Cons x xs)
  have "set (s @ [x]) = set (t @ [x])" using Cons.prems by simp
  then have "firsts (s @ [x]) xs = firsts (t @ [x]) xs" by (rule Cons.IH)
  moreover have "x \<in> set s \<longleftrightarrow> x \<in> set t" using Cons.prems by simp
  moreover have "firsts s xs = firsts t xs" using Cons.prems by (rule Cons.IH)
  ultimately show ?case by simp
qed simp

lemma firsts_unseen: "x \<notin> set xs \<Longrightarrow> firsts (seen @ [x]) xs = firsts seen xs"
proof (induction xs arbitrary: seen)
  case (Cons z zs)
  have "firsts (seen @ [x, z]) zs = firsts ((seen @ [z]) @ [x]) zs"
    by (rule firsts_cong_seen) auto
  also have "\<dots> = firsts (seen @ [z]) zs" using Cons.prems by (intro Cons.IH) simp
  finally show ?case using Cons by auto
qed simp

lemma firsts_filter: "firsts seen (filter P xs) = filter P (firsts seen xs)"
proof (induction xs arbitrary: seen)
  case (Cons x xs)
  have "filter P (firsts (seen @ [x]) xs) = filter P (firsts seen xs)" if "\<not> P x"
  proof -
    have "filter P (firsts (seen @ [x]) xs) = firsts (seen @ [x]) (filter P xs)"
      by (simp add: Cons.IH)
    also have "\<dots> = firsts seen (filter P xs)" using that by (intro firsts_unseen) simp
    finally show ?thesis by (simp add: Cons.IH)
  qed
  then show ?case using Cons.IH by auto
qed simp

definition ring_walk :: "ring \<Rightarrow> nat \<Rightarrow> string list" where
  "ring_walk r p = (let t = push_bit partitionShift (word_of_nat p)
     in map node (filter (\<lambda>v. t \<le> pos v) (vnodes r) @ filter (\<lambda>v. pos v < t) (vnodes r)))"

lemma owners_lap_firsts:
  assumes "length owners < n"
  shows "owners_lap vs start n is owners =
    owners @ take (n - length owners)
      (firsts owners (map (\<lambda>i. node (vs ! ((start + i) mod length vs))) is))"
  using assms
proof (induction "is" arbitrary: owners)
  case (Cons i "is")
  let ?nd = "node (vs ! ((start + i) mod length vs))"
  show ?case
  proof (cases "?nd \<in> set owners \<or> Suc (length owners) = n")
    case True
    then show ?thesis using Cons by (auto simp: Let_def)
  next
    case False
    then have "length (owners @ [?nd]) < n" using Cons.prems by simp
    from Cons.IH[OF this] False Cons.prems show ?thesis
      by (simp add: Let_def Suc_diff_Suc[symmetric])
  qed
qed simp

lemma rotated_nth:
  assumes "s \<le> length vs"
  shows "map (\<lambda>i. vs ! ((s + i) mod length vs)) [0..<length vs] = drop s vs @ take s vs"
proof (rule nth_equalityI)
  fix i assume "i < length (map (\<lambda>i. vs ! ((s + i) mod length vs)) [0..<length vs])"
  then have i: "i < length vs" by simp
  show "map (\<lambda>i. vs ! ((s + i) mod length vs)) [0..<length vs] ! i = (drop s vs @ take s vs) ! i"
  proof (cases "s + i < length vs")
    case True
    then have "i < length vs - s" by simp
    moreover have "(s + i) mod length vs = s + i" using True by simp
    ultimately show ?thesis using i by (simp add: nth_append)
  next
    case False
    then have "(s + i) mod length vs = (s + i - length vs) mod length vs"
      by (simp add: le_mod_geq)
    also have "\<dots> = s + i - length vs"
      using i assms by (intro mod_less) arith
    finally have "(s + i) mod length vs = s + i - length vs" .
    moreover have "\<not> i < length vs - s" "i - (length vs - s) < s" "i - (length vs - s) = s + i - length vs"
      using i assms False by auto
    ultimately show ?thesis using i by (simp add: nth_append)
  qed
qed (use assms in simp)

lemma sorted_split_at:
  assumes "sorted (map pos vs)"
  shows "take (search_pos vs t) vs = filter (\<lambda>v. pos v < t) vs"
    and "drop (search_pos vs t) vs = filter (\<lambda>v. t \<le> pos v) vs"
proof -
  have tw: "takeWhile (\<lambda>v. pos v < t) vs = filter (\<lambda>v. pos v < t) vs"
    using assms
  proof (induction vs)
    case (Cons v vs)
    show ?case
    proof (cases "pos v < t")
      case False
      then have "\<forall>w \<in> set vs. \<not> pos w < t" using Cons.prems by auto
      then show ?thesis using False by simp
    qed (use Cons in auto)
  qed simp
  show "take (search_pos vs t) vs = filter (\<lambda>v. pos v < t) vs"
    using tw takeWhile_eq_take[of "\<lambda>v. pos v < t" vs] by (simp add: search_pos_def)
  have "dropWhile (\<lambda>v. pos v < t) vs = filter (\<lambda>v. t \<le> pos v) vs"
    using assms
  proof (induction vs)
    case (Cons v vs)
    show ?case
    proof (cases "pos v < t")
      case False
      then have "\<forall>w \<in> set vs. t \<le> pos w" using Cons.prems by auto
      then show ?thesis using False by (auto simp: filter_id_conv)
    qed (use Cons in auto)
  qed simp
  then show "drop (search_pos vs t) vs = filter (\<lambda>v. t \<le> pos v) vs"
    using dropWhile_eq_drop[of "\<lambda>v. pos v < t" vs] by (simp add: search_pos_def)
qed

lemma Owners_walk:
  assumes "sorted_ring r" "0 < n"
  shows "Owners r p n = take (nat n) (firsts [] (ring_walk r p))"
proof (cases "vnodes r = []")
  case True
  then show ?thesis by (simp add: Owners_def ring_walk_def)
next
  case False
  define s where "s = search_pos (vnodes r) (push_bit partitionShift (word_of_nat p))"
  have "s \<le> length (vnodes r)"
    unfolding s_def search_pos_def by (rule length_takeWhile_le)
  then have "map (\<lambda>i. node (vnodes r ! ((s + i) mod length (vnodes r)))) [0..<length (vnodes r)] =
      map node (drop s (vnodes r) @ take s (vnodes r))"
    using rotated_nth[of s "vnodes r"] by (metis (no_types, lifting) map_map comp_apply map_cong)
  also have "\<dots> = ring_walk r p"
    using assms(1) sorted_split_at[of "vnodes r"] by (simp add: ring_walk_def s_def sorted_ring_def Let_def)
  finally show ?thesis
    using False assms(2) owners_lap_firsts[of "[]" "nat n" "vnodes r" s "[0..<length (vnodes r)]"]
    by (simp add: Owners_def Let_def s_def)
qed

lemma set_walk: "set (ring_walk r p) = ring_nodes r"
proof -
  have "node v \<in> set (ring_walk r p)" if "v \<in> set (vnodes r)" for v
    using that linorder_not_le by (fastforce simp: ring_walk_def Let_def)
  then show ?thesis by (auto simp: ring_walk_def ring_nodes_def Let_def)
qed

lemma sorted_ring_New [simp]: "sorted_ring (ring_New nodes k)"
  by (simp add: sorted_ring_def ring_New_def)

lemma ring_nodes_New: "0 < k \<Longrightarrow> ring_nodes (ring_New nodes k) = set nodes"
proof -
  assume k: "0 < k"
  have "ring_nodes (ring_New nodes k) =
      node ` (\<Union>nd \<in> set nodes. (\<lambda>i. \<lparr>pos = vnodePos nd i, node = nd\<rparr>) ` {0..<k})"
    by (simp add: ring_nodes_def ring_New_def)
  also have "\<dots> = set nodes" using k by (auto simp: image_UN image_image)
  finally show ?thesis .
qed

lemma Owners_nonpos: "n \<le> 0 \<Longrightarrow> Owners r p n = []"
  by (simp add: Owners_def)

lemma Owners_subset: "sorted_ring r \<Longrightarrow> set (Owners r p n) \<subseteq> ring_nodes r"
proof (cases "0 < n")
  case True
  assume "sorted_ring r"
  then have "set (Owners r p n) \<subseteq> set (firsts [] (ring_walk r p))"
    using True by (simp add: Owners_walk set_take_subset)
  then show ?thesis by (simp add: set_firsts set_walk)
qed (simp add: Owners_nonpos)

lemma distinct_Owners: "sorted_ring r \<Longrightarrow> distinct (Owners r p n)"
  by (cases "0 < n") (simp_all add: Owners_walk Owners_nonpos distinct_firsts distinct_take)

lemma length_Owners:
  assumes "sorted_ring r"
  shows "length (Owners r p n) = min (nat n) (card (ring_nodes r))"
proof (cases "0 < n")
  case True
  have "length (firsts [] (ring_walk r p)) = card (ring_nodes r)"
    using distinct_card[OF distinct_firsts, of "[]" "ring_walk r p"] by (simp add: set_firsts set_walk)
  then show ?thesis using assms True by (simp add: Owners_walk min.commute)
qed (simp add: Owners_nonpos)

lemma take_filter_neq:
  assumes "distinct xs"
  shows "take n (filter (\<lambda>y. y \<noteq> x) xs) = take n (filter (\<lambda>y. y \<noteq> x) (take (Suc n) xs))"
  using assms
proof (induction xs arbitrary: n)
  case (Cons y ys)
  show ?case
  proof (cases "y = x")
    case True
    then have keep: "filter (\<lambda>y. y \<noteq> x) zs = zs" if "set zs \<subseteq> set ys" for zs
      using Cons.prems that by (auto simp: filter_id_conv)
    show ?thesis using True keep[of ys] keep[of "take n ys"] by (simp add: set_take_subset)
  next
    case False
    then show ?thesis using Cons by (cases n) auto
  qed
qed simp

lemma walk_remove:
  "ring_walk (ring_New (filter (\<lambda>y. y \<noteq> x) nodes) k) p = filter (\<lambda>y. y \<noteq> x) (ring_walk (ring_New nodes k) p)"
proof -
  define mk where "mk nd = map (\<lambda>i. \<lparr>pos = vnodePos nd i, node = nd\<rparr>) [0..<k]" for nd
  have "concat (map mk (filter (\<lambda>y. y \<noteq> x) nodes)) = filter (\<lambda>v. node v \<noteq> x) (concat (map mk nodes))"
    by (induction nodes) (auto simp: mk_def filter_empty_conv filter_id_conv)
  then have "vnodes (ring_New (filter (\<lambda>y. y \<noteq> x) nodes) k) =
      filter (\<lambda>v. node v \<noteq> x) (vnodes (ring_New nodes k))"
    by (simp add: ring_New_def mk_def[symmetric] filter_sort)
  then show ?thesis
    by (simp add: ring_walk_def Let_def filter_map comp_def filter_filter conj_commute)
qed

section \<open>Properties of placement\<close>

text \<open>
  The partition of a key is one of the 256, and the key's own ring position lies inside the
  span that \<^verbatim>\<open>Owners\<close> starts from: key to partition and partition to ring never disagree.
\<close>

theorem PartitionFor_span:
  "PartitionFor key < Partitions \<and>
   push_bit partitionShift (word_of_nat (PartitionFor key)) \<le> hashPos key \<and>
   hashPos key - push_bit partitionShift (word_of_nat (PartitionFor key)) < 2 ^ partitionShift"
proof -
  define h where "h = hashPos key"
  define q where "q = unat h div 2 ^ 56"
  have lt: "unat h < 2 ^ 64" using unsigned_less[where 'a = nat and w = h] by simp
  have q: "q < 256" unfolding q_def using lt by (simp add: less_mult_imp_div_less)
  have part: "PartitionFor key = q"
    unfolding PartitionFor_def partitionShift_def h_def[symmetric] q_def unat_drop_bit_eq
    by (rule drop_bit_eq_div)
  have base: "push_bit partitionShift (word_of_nat q :: uint64) = word_of_nat (q * 2 ^ 56)"
    by (simp add: push_bit_eq_mult partitionShift_def)
  have unat_base: "unat (word_of_nat (q * 2 ^ 56) :: uint64) = q * 2 ^ 56"
    using q by (simp only: unat_of_nat) simp
  have le: "q * 2 ^ 56 \<le> unat h" by (simp add: q_def)
  then have word_le: "word_of_nat (q * 2 ^ 56) \<le> h" by (simp only: word_le_nat_alt unat_base)
  have "unat (h - word_of_nat (q * 2 ^ 56)) = unat h mod 2 ^ 56"
    by (simp only: unat_sub[OF word_le] unat_base) (simp only: q_def minus_div_mult_eq_mod)
  then have "h - word_of_nat (q * 2 ^ 56) < 2 ^ partitionShift"
    by (simp add: word_less_nat_alt partitionShift_def del: of_nat_mult)
  then show ?thesis using q word_le
    by (simp only: part base Partitions_def h_def[symmetric])
qed

text \<open>
  C40. Placement on a ring built from the membership: the owners of a partition are distinct
  members, and there are as many as asked for unless the cluster is smaller than that.
\<close>

theorem Owners_placement:
  assumes "0 < k"
  shows "distinct (Owners (ring_New nodes k) p n) \<and>
    set (Owners (ring_New nodes k) p n) \<subseteq> set nodes \<and>
    length (Owners (ring_New nodes k) p n) = min (nat n) (card (set nodes))"
  using Owners_subset[of "ring_New nodes k" p n] distinct_Owners[of "ring_New nodes k" p n]
    length_Owners[of "ring_New nodes k" p n] ring_nodes_New[OF assms]
  by simp

theorem Owners_placement_witness:
  "(0::nat) < 2 \<and> length (Owners (ring_New [''n1'', ''n2'', ''n3''] 2) 7 3) = 3"
  using Owners_placement[of 2 "[''n1'', ''n2'', ''n3'']" 7 3] by simp

text \<open>
  The preference order does not depend on how many owners are asked for: a narrower
  placement is the front of a wider one, so the first of three owners is the first of nine.
\<close>

theorem Owners_prefix:
  assumes "m \<le> n"
  shows "Owners (ring_New nodes k) p m = take (nat m) (Owners (ring_New nodes k) p n)"
  using assms by (cases "0 < m") (simp_all add: Owners_walk Owners_nonpos min_def nat_mono)

theorem Owners_prefix_witness:
  "(1::int) \<le> 3 \<and> Owners (ring_New [''n1'', ''n2''] 4) 0 1 = take 1 (Owners (ring_New [''n1'', ''n2''] 4) 0 3)"
  using Owners_prefix[of 1 3 "[''n1'', ''n2'']" 4 0] by simp

text \<open>
  Consistent hashing: when a node leaves, every partition keeps its other owners in their
  order and at most the next node of the old order joins them; no other placement changes.
\<close>

theorem Owners_remove_node:
  assumes "0 \<le> n"
  shows "Owners (ring_New (filter (\<lambda>y. y \<noteq> x) nodes) k) p n =
    take (nat n) (filter (\<lambda>y. y \<noteq> x) (Owners (ring_New nodes k) p (n + 1)))"
proof (cases "n = 0")
  case False
  then have n: "0 < n" using assms by simp
  let ?f = "\<lambda>y. y \<noteq> x" and ?all = "firsts [] (ring_walk (ring_New nodes k) p)"
  have "Owners (ring_New (filter ?f nodes) k) p n = take (nat n) (filter ?f ?all)"
    using n by (simp add: Owners_walk walk_remove firsts_filter)
  also have "\<dots> = take (nat n) (filter ?f (take (Suc (nat n)) ?all))"
    by (rule take_filter_neq[OF distinct_firsts])
  also have "take (Suc (nat n)) ?all = Owners (ring_New nodes k) p (n + 1)"
    using n by (simp add: Owners_walk Suc_nat_eq_nat_zadd1 add.commute)
  finally show ?thesis .
qed (simp add: Owners_nonpos)

theorem Owners_remove_node_witness:
  "(0::int) \<le> 2 \<and> Owners (ring_New [''n1'', ''n3''] 8) 5 2 =
     take 2 (filter (\<lambda>y. y \<noteq> ''n2'') (Owners (ring_New [''n1'', ''n2'', ''n3''] 8) 5 3))"
  using Owners_remove_node[of 2 "''n2''" "[''n1'', ''n2'', ''n3'']" 8 5] by simp

end
