(* ===== verification/Coordinator.thy ===== *)
theory Coordinator
  imports Node Meta Ring
begin

text \<open>
  The coordinator, \<^verbatim>\<open>internal/cluster/cluster.go\<close> and \<^verbatim>\<open>internal/cluster/erasure.go\<close>: placing an
  object on its partition's owners, storing every chunk on enough of them, committing the manifest,
  and reading chunks back from whichever owner has them.

  The state of the cluster is a \<open>world\<close>: the disks of all nodes and the state of etcd.  The
  surroundings are a \<open>sys\<close>: the etcd client, the erasure-coding library and the environment of
  \<open>Node\<close>.  Requests that the source sends to the owners in parallel go to different nodes, and are
  made here one after the other.  A membership snapshot is taken once per operation, as the source
  does.
\<close>

section \<open>State\<close>

record membership =
  mb_peers :: "(string \<times> string) list"
  mb_known :: "(string \<times> string) list"
  mb_ring :: ring

record coord =
  c_self :: string
  c_quorum :: int
  c_addr :: string
  c_live :: membership
  c_chunkSize :: int
  c_scheme :: scheme
  c_meta :: meta

record 's world =
  w_disks :: disks
  w_kv :: 's

record 's sys =
  sy_etcd :: "'s etcd"
  sy_rs :: rs_lib
  sy_env :: env

definition Replicas :: int where
  "Replicas = 3"

definition DefaultWriteQuorum :: int where
  "DefaultWriteQuorum = 2"

section \<open>Configuration and membership\<close>

text \<open>Looking up a key a Go map does not hold gives the zero value, here the empty address.\<close>

definition addr_of :: "(string \<times> string) list \<Rightarrow> string \<Rightarrow> string" where
  "addr_of m nd = (case map_of m nd of None \<Rightarrow> '''' | Some a \<Rightarrow> a)"

definition readAddr :: "membership \<Rightarrow> string \<Rightarrow> string" where
  "readAddr m nd = (let a = addr_of (mb_peers m) nd in
     if a \<noteq> '''' then a else addr_of (mb_known m) nd)"

definition AcknowledgeAt :: "coord \<Rightarrow> int \<Rightarrow> coord \<times> error option" where
  "AcknowledgeAt c w =
     (if w < 1 \<or> w > Replicas then (c, Some [Other ''cluster: write quorum''])
      else (c\<lparr>c_quorum := w\<rparr>, None))"

definition EncodeWith :: "coord \<Rightarrow> scheme \<Rightarrow> coord \<times> error option" where
  "EncodeWith c s =
     (if s \<noteq> zero_scheme \<and> \<not> Valid s then (c, Some [Other ''cluster: not a usable erasure code''])
      else (c\<lparr>c_scheme := s\<rparr>, None))"

definition width :: "coord \<Rightarrow> int" where
  "width c = (if c_scheme c = zero_scheme then Replicas else Shards (c_scheme c))"

definition redundancy :: "manifest \<Rightarrow> int" where
  "redundancy m = (if Valid (m_Coding m) then Shards (m_Coding m) else Replicas)"

definition SetMembers :: "coord \<Rightarrow> (string \<times> string) list \<Rightarrow> coord" where
  "SetMembers c peers =
     (let nxt = AList.update (c_self c) (c_addr c) peers;
          known = nxt @ filter (\<lambda>(i, a). map_of nxt i = None) (mb_known (c_live c))
      in c\<lparr>c_live := \<lparr>mb_peers = nxt, mb_known = known,
              mb_ring = ring_New (sort (remdups (map fst nxt))) DefaultVNodes\<rparr>\<rparr>)"

definition cluster_New :: "string \<Rightarrow> string \<Rightarrow> meta \<Rightarrow> int \<Rightarrow> coord" where
  "cluster_New self addr M chunkSize =
     SetMembers \<lparr>c_self = self, c_quorum = DefaultWriteQuorum, c_addr = addr,
       c_live = \<lparr>mb_peers = [], mb_known = [], mb_ring = \<lparr>vnodes = []\<rparr>\<rparr>, c_chunkSize = chunkSize,
       c_scheme = zero_scheme, c_meta = M\<rparr> []"

definition cluster_Members :: "coord \<Rightarrow> (string \<times> string) list" where
  "cluster_Members c = mb_peers (c_live c)"

section \<open>Storing one chunk\<close>

text \<open>Where a chunk or shard goes: this node's own store, or a push to the owner's address.\<close>

definition store_at ::
  "'s sys \<Rightarrow> coord \<Rightarrow> membership \<Rightarrow> string \<Rightarrow> disks \<Rightarrow> string \<Rightarrow> reader \<Rightarrow> uint32 \<Rightarrow> int \<Rightarrow>
    disks \<times> error option" where
  "store_at X c live owner D cid r crc sz =
     (let V = sy_env X in
      if owner = c_self c
      then (case local_put (ev_faults V owner cid) (ev_now V) cid (D owner) cid r crc sz of
              (s', err) \<Rightarrow> (D(owner := s'), err))
      else PushChunk V D (addr_of (mb_peers live) owner) cid crc sz r)"

definition storeChunk ::
  "'s sys \<Rightarrow> coord \<Rightarrow> membership \<Rightarrow> chunk_ref \<Rightarrow> bytes \<Rightarrow> string \<Rightarrow> disks \<Rightarrow> disks \<times> error option" where
  "storeChunk X c live ref data owner D =
     store_at X c live owner D (cr_ID ref) (bytes_NewReader data) (cr_CRC ref) (cr_Size ref)"

fun store_each ::
  "('o \<Rightarrow> disks \<Rightarrow> disks \<times> error option) \<Rightarrow> 'o list \<Rightarrow> disks \<Rightarrow> disks \<times> error option list" where
  "store_each f [] D = (D, [])"
| "store_each f (ow # os) D = (case f ow D of
      (D', err) \<Rightarrow> (case store_each f os D' of (D'', errs) \<Rightarrow> (D'', err # errs)))"

definition acks :: "error option list \<Rightarrow> int" where
  "acks errs = int (length (filter (\<lambda>e. e = None) errs))"

definition errors_Join :: "error option list \<Rightarrow> error" where
  "errors_Join errs = concat (map (\<lambda>e. case e of None \<Rightarrow> [] | Some x \<Rightarrow> x) errs)"

definition replicate_chunk ::
  "'s sys \<Rightarrow> coord \<Rightarrow> membership \<Rightarrow> string list \<Rightarrow> chunk_ref \<Rightarrow> bytes \<Rightarrow> disks \<Rightarrow> disks \<times> error option" where
  "replicate_chunk X c live owners ref data D =
     (case store_each (storeChunk X c live ref data) owners D of
        (D', errs) \<Rightarrow>
          (D', if acks errs < c_quorum c then Some (ErrQuorum # errors_Join errs) else None))"

section \<open>Erasure-coded chunks\<close>

definition shardSize :: "int \<Rightarrow> scheme \<Rightarrow> int" where
  "shardSize chunk s = (chunk + sc_Data s - 1) div sc_Data s"

definition storeShard ::
  "'s sys \<Rightarrow> coord \<Rightarrow> membership \<Rightarrow> chunk_ref \<Rightarrow> nat \<times> string \<times> bytes \<Rightarrow> disks \<Rightarrow> disks \<times> error option" where
  "storeShard X c live ref ios D = (case ios of (i, owner, shard) \<Rightarrow>
     store_at X c live owner D (ShardID ref i) (bytes_NewReader shard) (cr_Shards ref ! i)
       (int (length shard)))"

definition cluster_encode ::
  "'s sys \<Rightarrow> coord \<Rightarrow> membership \<Rightarrow> string list \<Rightarrow> chunk_ref \<Rightarrow> bytes \<Rightarrow> disks \<Rightarrow> disks \<times> (error + chunk_ref)" where
  "cluster_encode X c live owners ref data D =
     (let s = c_scheme c in
      if int (length owners) \<noteq> Shards s then (D, Inl [Other ''cluster: owners for chunk''])
      else case Encode (sy_rs X) s data of
        Inl e \<Rightarrow> (D, Inl e)
      | Inr shards \<Rightarrow>
          (let ref' = ref\<lparr>cr_Shards := map CRC32C shards\<rparr> in
           case store_each (storeShard X c live ref')
                  (zip [0..<length shards] (zip owners shards)) D of
             (D', errs) \<Rightarrow>
               if acks errs < min (sc_Data s + 1) (Shards s)
               then (D', Inl (ErrQuorum # errors_Join errs))
               else (D', Inr ref')))"

text \<open>
  One chunk or shard from one node.  The local copy is read even if the node is not a member; a
  node this cluster has never seen has no address to try.
\<close>

definition fetch_from ::
  "'s sys \<Rightarrow> coord \<Rightarrow> disks \<Rightarrow> string \<Rightarrow> string \<Rightarrow> uint32 \<Rightarrow> error + reader" where
  "fetch_from X c D nd cid crc =
     (let V = sy_env X; addr = readAddr (c_live c) nd in
      if nd = c_self c then ReadChunk (ev_faults V nd cid) (D nd) cid crc
      else if addr = '''' then Inl [Other ''cluster: never been a member'']
      else FetchChunk V D addr cid crc)"

text \<open>
  \<^verbatim>\<open>fetchShard\<close>: exactly \<open>sz\<close> bytes, and then one read past the end that has to be a clean end of
  file.  A position outside the placement or the checksum list would panic.
\<close>

definition fetchShard ::
  "'s sys \<Rightarrow> coord \<Rightarrow> disks \<Rightarrow> chunk_ref \<Rightarrow> string list \<Rightarrow> nat \<Rightarrow> int \<Rightarrow> error + bytes" where
  "fetchShard X c D ref nodes i sz =
     (if \<not> (i < length nodes \<and> i < length (cr_Shards ref) \<and> 0 \<le> sz) then Inl [Other ''panic'']
      else case fetch_from X c D (nodes ! i) (ShardID ref i) (cr_Shards ref ! i) of
        Inl e \<Rightarrow> Inl e
      | Inr rc \<Rightarrow> (case ReadFull rc (nat sz) of
          (shard, rest, Some e) \<Rightarrow> Inl e
        | (shard, rest, None) \<Rightarrow>
            if rdata rest \<noteq> [] \<or> \<not> (case rerr rest of None \<Rightarrow> True | Some e \<Rightarrow> errors_Is e EOF)
            then Inl [Other ''cluster: shard size'']
            else Inr shard))"

definition gather ::
  "'s sys \<Rightarrow> coord \<Rightarrow> disks \<Rightarrow> chunk_ref \<Rightarrow> string list \<Rightarrow> scheme \<Rightarrow> nat \<Rightarrow> nat \<Rightarrow> bytes option list \<Rightarrow>
    bytes option list" where
  "gather X c D ref nodes s from til shards =
     map (\<lambda>(i, sh). if from \<le> i \<and> i < til \<and> sh = None
        then (case fetchShard X c D ref nodes i (shardSize (cr_Size ref) s) of
                Inl e \<Rightarrow> None | Inr b \<Rightarrow> Some b)
        else sh) (zip [0..<length shards] shards)"

definition cluster_decode ::
  "'s sys \<Rightarrow> coord \<Rightarrow> disks \<Rightarrow> chunk_ref \<Rightarrow> string list \<Rightarrow> scheme \<Rightarrow> error + bytes" where
  "cluster_decode X c D ref nodes s =
     (if int (length nodes) \<noteq> Shards s \<or> int (length (cr_Shards ref)) \<noteq> Shards s
      then Inl [Other ''cluster: shard checksums'']
      else let slots = replicate (nat (Shards s)) None;
               shards = gather X c D ref nodes s 0 (nat (sc_Data s)) slots;
               shards' = (if None \<in> set shards
                          then gather X c D ref nodes s (nat (sc_Data s)) (nat (Shards s)) shards
                          else shards)
           in case Reconstruct (sy_rs X) s shards' (cr_Size ref) of
                Inl e \<Rightarrow> Inl e
              | Inr (chunk, full) \<Rightarrow>
                  if CRC32C chunk \<noteq> cr_CRC ref then Inl [Other ''cluster: reconstructed'']
                  else Inr chunk)"

definition restoreShards ::
  "'s sys \<Rightarrow> coord \<Rightarrow> membership \<Rightarrow> chunk_ref \<Rightarrow> string list \<Rightarrow> string list \<Rightarrow> nat list \<Rightarrow> scheme \<Rightarrow>
    disks \<Rightarrow> disks \<times> error option" where
  "restoreShards X c live ref from dest missing s D =
     (case Reconstruct (sy_rs X) s
             (gather X c D ref from s 0 (nat (Shards s)) (replicate (nat (Shards s)) None))
             (cr_Size ref) of
        Inl e \<Rightarrow> (D, Some e)
      | Inr (chunk, full) \<Rightarrow>
          (case store_each (storeShard X c live ref)
                  (map (\<lambda>i. (i, dest ! i, (case full ! i of None \<Rightarrow> [] | Some b \<Rightarrow> b))) missing) D of
             (D', errs) \<Rightarrow> (D', if list_all (\<lambda>e. e = None) errs then None else Some (errors_Join errs))))"

definition verifyLocalShard :: "'s sys \<Rightarrow> coord \<Rightarrow> disks \<Rightarrow> chunk_ref \<Rightarrow> nat \<Rightarrow> bool \<times> int \<times> error option" where
  "verifyLocalShard X c D ref i =
     (let F = ev_faults (sy_env X) (c_self c) (ShardID ref i); s = D (c_self c) in
      case HasChunk F s (ShardID ref i) of
        Inl e \<Rightarrow> (False, 0, Some e)
      | Inr False \<Rightarrow> (False, 0, None)
      | Inr True \<Rightarrow> (case ReadChunk F s (ShardID ref i) (cr_Shards ref ! i) of
          Inl e \<Rightarrow> (True, 0, Some e)
        | Inr rc \<Rightarrow> (True, int (length (rdata rc)), rerr rc)))"

section \<open>Writing an object\<close>

record 's wstate =
  ws_world :: "'s world"
  ws_writing :: string
  ws_hashed :: bytes

text \<open>
  The commit function \<^verbatim>\<open>write\<close> passes to \<^verbatim>\<open>object.Write\<close>: a write that can have a second chunk
  first records itself, then the chunk is hashed and placed.
\<close>

definition announce :: "'s sys \<Rightarrow> coord \<Rightarrow> 's wstate \<Rightarrow> chunk_ref \<Rightarrow> bytes \<Rightarrow> 's wstate \<times> error option" where
  "announce X c st ref data =
     (if ws_writing st = '''' \<and> int (length data) = c_chunkSize c
      then (let wid = WriteID (cr_ID ref) in
            case MarkWriting (sy_etcd X) (c_meta c) (w_kv (ws_world st)) wid (c_self c) of
              (kv', err) \<Rightarrow> (st\<lparr>ws_writing := wid, ws_world := (ws_world st)\<lparr>w_kv := kv'\<rparr>\<rparr>, err))
      else (st, None))"

definition place_chunk ::
  "'s sys \<Rightarrow> coord \<Rightarrow> membership \<Rightarrow> string list \<Rightarrow> chunk_ref \<Rightarrow> bytes \<Rightarrow> disks \<Rightarrow> disks \<times> (error + chunk_ref)" where
  "place_chunk X c live owners ref data D =
     (if c_scheme c \<noteq> zero_scheme then cluster_encode X c live owners ref data D
      else case replicate_chunk X c live owners ref data D of
             (D', Some e) \<Rightarrow> (D', Inl e)
           | (D', None) \<Rightarrow> (D', Inr ref))"

definition commit_chunk ::
  "'s sys \<Rightarrow> coord \<Rightarrow> membership \<Rightarrow> string list \<Rightarrow> 's wstate committer" where
  "commit_chunk X c live owners st ref data = (case announce X c st ref data of
      (st1, Some e) \<Rightarrow> (st1, Inl e)
    | (st1, None) \<Rightarrow>
        (case place_chunk X c live owners ref data (w_disks (ws_world st1)) of
           (D', res) \<Rightarrow>
             (st1\<lparr>ws_hashed := ws_hashed st1 @ data, ws_world := (ws_world st1)\<lparr>w_disks := D'\<rparr>\<rparr>, res)))"

definition stopWriting :: "'s sys \<Rightarrow> coord \<Rightarrow> 's world \<Rightarrow> string \<Rightarrow> 's world" where
  "stopWriting X c w writing =
     (if writing = '''' then w
      else w\<lparr>w_kv := fst (DoneWriting (sy_etcd X) (c_meta c) (w_kv w) writing)\<rparr>)"

text \<open>Times are in nanoseconds; \<^verbatim>\<open>Truncate(time.Second)\<close> drops the fraction.\<close>

definition truncate_second :: "int \<Rightarrow> int" where
  "truncate_second t = t - t mod 1000000000"

definition cluster_write ::
  "'s sys \<Rightarrow> coord \<Rightarrow> 's world \<Rightarrow> string \<Rightarrow> reader \<Rightarrow> int \<Rightarrow> string \<Rightarrow>
    's world \<times> (error + manifest \<times> string)" where
  "cluster_write X c w key body expect pre =
     (let live = c_live c;
          owners = Owners (mb_ring live) (PartitionFor key) (width c)
      in if owners = [] then (w, Inl [Other ''cluster: no nodes available''])
         else if c_scheme c \<noteq> zero_scheme \<and> int (length owners) < width c
         then (w, Inl [Other ''cluster: scheme needs nodes''])
         else if c_scheme c = zero_scheme \<and> int (length owners) < c_quorum c
         then (w, Inl [ErrQuorum])
         else case Write body (c_chunkSize c) expect pre (commit_chunk X c live owners)
                     \<lparr>ws_world = w, ws_writing = '''', ws_hashed = []\<rparr> of
                (st, Inl e) \<Rightarrow> (stopWriting X c (ws_world st) (ws_writing st), Inl e)
              | (st, Inr m) \<Rightarrow>
                  (ws_world st,
                   Inr (m\<lparr>m_Nodes := owners, m_Coding := c_scheme c,
                          m_ETag := hex_encode (md5 (ws_hashed st)),
                          m_CRC32C := Some (CRC32C (ws_hashed st)),
                          m_CRC32 := Some (CRC32 (ws_hashed st)),
                          m_CRC64NVME := Some (CRC64NVME (ws_hashed st)),
                          m_Modified := truncate_second (ev_now (sy_env X))\<rparr>, ws_writing st)))"

record put_options =
  po_ContentType :: string
  po_ETag :: string
  po_Size :: int
  po_Meta :: "(string \<times> string) list"
  po_MD5 :: string
  po_CRC32C :: "uint32 option"
  po_TrailingCRC32C :: "(error + uint32 option) option"
  po_CRC32 :: "uint32 option"
  po_TrailingCRC32 :: "(error + uint32 option) option"
  po_CRC64NVME :: "uint64 option"
  po_TrailingCRC64NVME :: "(error + uint64 option) option"

text \<open>\<^verbatim>\<open>strings.EqualFold\<close> on a declared digest and a hex digest.\<close>

definition ascii_lower :: "char \<Rightarrow> char" where
  "ascii_lower ch = (if CHR ''A'' \<le> ch \<and> ch \<le> CHR ''Z'' then char_of (of_char ch + (32 :: nat)) else ch)"

definition EqualFold :: "string \<Rightarrow> string \<Rightarrow> bool" where
  "EqualFold a b \<longleftrightarrow> map ascii_lower a = map ascii_lower b"

text \<open>
  The three checks have one body at three types: a declared value, which a trailer may supply or
  contradict, against the one computed.
\<close>

definition check_declared :: "'v option \<Rightarrow> 'v option \<Rightarrow> (error + 'v option) option \<Rightarrow> error option" where
  "check_declared computed header trailing =
     (let compare_to = (\<lambda>declared. case (declared, computed) of
            (Some d, Some v) \<Rightarrow> if d \<noteq> v then Some [ErrBadDigest] else None
          | _ \<Rightarrow> None)
      in case trailing of
           None \<Rightarrow> compare_to header
         | Some (Inl e) \<Rightarrow> Some e
         | Some (Inr v) \<Rightarrow>
             (case header of
                None \<Rightarrow> compare_to v
              | Some d \<Rightarrow> (case v of
                  Some x \<Rightarrow> if x \<noteq> d then Some [ErrBadDigest] else compare_to header
                | None \<Rightarrow> compare_to header)))"

definition checkCRC32C :: "manifest \<Rightarrow> put_options \<Rightarrow> error option" where
  "checkCRC32C m opts = check_declared (m_CRC32C m) (po_CRC32C opts) (po_TrailingCRC32C opts)"

definition checkCRC32 :: "manifest \<Rightarrow> put_options \<Rightarrow> error option" where
  "checkCRC32 m opts = check_declared (m_CRC32 m) (po_CRC32 opts) (po_TrailingCRC32 opts)"

definition checkCRC64NVME :: "manifest \<Rightarrow> put_options \<Rightarrow> error option" where
  "checkCRC64NVME m opts = check_declared (m_CRC64NVME m) (po_CRC64NVME opts) (po_TrailingCRC64NVME opts)"

text \<open>The checks of \<^verbatim>\<open>Put\<close> in their order; the first failure is the answer.\<close>

definition put_checks :: "manifest \<Rightarrow> put_options \<Rightarrow> error option" where
  "put_checks m opts =
     (if po_MD5 opts \<noteq> '''' \<and> \<not> EqualFold (po_MD5 opts) (m_ETag m) then Some [ErrBadDigest]
      else case checkCRC32C m opts of Some e \<Rightarrow> Some e
         | None \<Rightarrow> (case checkCRC32 m opts of Some e \<Rightarrow> Some e
             | None \<Rightarrow> checkCRC64NVME m opts))"

definition cmp_Or :: "string \<Rightarrow> string \<Rightarrow> string" where
  "cmp_Or a b = (if a \<noteq> '''' then a else b)"

text \<open>The commit point: under the write's own record when it took one out.\<close>

definition commit_manifest ::
  "'s sys \<Rightarrow> coord \<Rightarrow> 's \<Rightarrow> string \<Rightarrow> manifest \<Rightarrow> string \<Rightarrow> 's \<times> error option" where
  "commit_manifest X c kv key m writing =
     (if writing = '''' then meta_Commit (sy_etcd X) (c_meta c) kv key m
      else CommitWhileWriting (sy_etcd X) (c_meta c) kv key m writing)"

definition cluster_Put ::
  "'s sys \<Rightarrow> coord \<Rightarrow> 's world \<Rightarrow> string \<Rightarrow> reader \<Rightarrow> put_options \<Rightarrow> string \<Rightarrow>
    's world \<times> (error + manifest)" where
  "cluster_Put X c w key body opts pre =
     (case cluster_write X c w key body (po_Size opts) pre of
        (w1, Inl e) \<Rightarrow> (w1, Inl e)
      | (w1, Inr (m, writing)) \<Rightarrow>
          (case put_checks m opts of
             Some e \<Rightarrow> (stopWriting X c w1 writing, Inl e)
           | None \<Rightarrow>
               (let m' = m\<lparr>m_ETag := cmp_Or (po_ETag opts) (m_ETag m),
                           m_ContentType := po_ContentType opts, m_Meta := po_Meta opts\<rparr>
                in case commit_manifest X c (w_kv w1) key m' writing of
                     (kv', err) \<Rightarrow>
                       (let w2 = stopWriting X c (w1\<lparr>w_kv := kv'\<rparr>) writing
                        in case err of Some e \<Rightarrow> (w2, Inl e) | None \<Rightarrow> (w2, Inr m')))))"

section \<open>Names\<close>

definition cluster_Delete :: "'s sys \<Rightarrow> coord \<Rightarrow> 's world \<Rightarrow> string \<Rightarrow> 's world \<times> error option" where
  "cluster_Delete X c w key = (case meta_Delete (sy_etcd X) (c_meta c) (w_kv w) key of
      (kv', err) \<Rightarrow> (w\<lparr>w_kv := kv'\<rparr>, err))"

record copy_options =
  cp_Replace :: bool
  cp_ContentType :: string
  cp_Meta :: "(string \<times> string) list"

definition cluster_Copy ::
  "'s sys \<Rightarrow> coord \<Rightarrow> 's world \<Rightarrow> string \<Rightarrow> string \<Rightarrow> copy_options \<Rightarrow> 's world \<times> (error + manifest)" where
  "cluster_Copy X c w from dest opts = (case meta_Get (sy_etcd X) (c_meta c) (w_kv w) from of
      (kv1, Inl e) \<Rightarrow> (w\<lparr>w_kv := kv1\<rparr>, Inl e)
    | (kv1, Inr m) \<Rightarrow>
        (let m1 = m\<lparr>m_Modified := truncate_second (ev_now (sy_env X))\<rparr>;
             m2 = (if cp_Replace opts
                   then m1\<lparr>m_ContentType := cp_ContentType opts, m_Meta := cp_Meta opts\<rparr> else m1)
         in case meta_Commit (sy_etcd X) (c_meta c) kv1 dest m2 of
              (kv2, Some e) \<Rightarrow> (w\<lparr>w_kv := kv2\<rparr>, Inl e)
            | (kv2, None) \<Rightarrow> (w\<lparr>w_kv := kv2\<rparr>, Inr m2)))"

definition Resolve :: "'s sys \<Rightarrow> coord \<Rightarrow> 's world \<Rightarrow> string \<Rightarrow> 's world \<times> (error + manifest)" where
  "Resolve X c w key = (case meta_Get (sy_etcd X) (c_meta c) (w_kv w) key of
      (kv', r) \<Rightarrow> (w\<lparr>w_kv := kv'\<rparr>, r))"

section \<open>Reading an object\<close>

text \<open>\<^verbatim>\<open>localFirst\<close> swaps this node's position with the first.\<close>

fun index_of :: "'a \<Rightarrow> 'a list \<Rightarrow> nat option" where
  "index_of x [] = None"
| "index_of x (y # ys) = (if x = y then Some 0 else map_option Suc (index_of x ys))"

definition localFirst :: "coord \<Rightarrow> string list \<Rightarrow> string list" where
  "localFirst c nodes = (case index_of (c_self c) nodes of
      None \<Rightarrow> nodes
    | Some 0 \<Rightarrow> nodes
    | Some i \<Rightarrow> nodes[0 := nodes ! i, i := nodes ! 0])"

fun fetch_first :: "(string \<Rightarrow> error + reader) \<Rightarrow> string list \<Rightarrow> error \<Rightarrow> error + reader" where
  "fetch_first f [] errs = Inl (Other ''cluster: no owner of chunk'' # errs)"
| "fetch_first f (n # ns) errs = (case f n of
      Inr rc \<Rightarrow> Inr rc
    | Inl e \<Rightarrow> fetch_first f ns (errs @ e))"

definition cluster_fetch :: "'s sys \<Rightarrow> coord \<Rightarrow> disks \<Rightarrow> chunk_ref \<Rightarrow> string list \<Rightarrow> error + reader" where
  "cluster_fetch X c D ref nodes =
     fetch_first (\<lambda>nd. fetch_from X c D nd (cr_ID ref) (cr_CRC ref)) (localFirst c nodes) []"

definition cluster_chunk :: "'s sys \<Rightarrow> coord \<Rightarrow> disks \<Rightarrow> manifest \<Rightarrow> chunk_ref \<Rightarrow> error + reader" where
  "cluster_chunk X c D m ref =
     (if m_Coding m = zero_scheme then cluster_fetch X c D ref (m_Nodes m)
      else case cluster_decode X c D ref (m_Nodes m) (m_Coding m) of
             Inl e \<Rightarrow> Inl e
           | Inr data \<Rightarrow> Inr (bytes_NewReader data))"

definition StreamRange ::
  "'s sys \<Rightarrow> coord \<Rightarrow> nat \<Rightarrow> 's world \<Rightarrow> manifest \<Rightarrow> sink \<Rightarrow> int \<Rightarrow> int \<Rightarrow> sink \<times> error option" where
  "StreamRange X c bs w m out off len =
     ReadRange bs m out off len (cluster_chunk X c (w_disks w) m)"

definition Stream :: "'s sys \<Rightarrow> coord \<Rightarrow> nat \<Rightarrow> 's world \<Rightarrow> manifest \<Rightarrow> sink \<Rightarrow> sink \<times> error option" where
  "Stream X c bs w m out = Read bs m out (cluster_chunk X c (w_disks w) m)"

section \<open>The object endpoints\<close>

text \<open>
  \<^verbatim>\<open>put\<close> and \<^verbatim>\<open>get\<close> of \<^verbatim>\<open>internal/api/api.go\<close>: the status answered, and for a read the length
  promised and what was delivered.
\<close>

definition zero_options :: put_options where
  "zero_options = \<lparr>po_ContentType = '''', po_ETag = '''', po_Size = 0, po_Meta = [], po_MD5 = '''',
     po_CRC32C = None, po_TrailingCRC32C = None, po_CRC32 = None, po_TrailingCRC32 = None,
     po_CRC64NVME = None, po_TrailingCRC64NVME = None\<rparr>"

definition api_put ::
  "'s sys \<Rightarrow> coord \<Rightarrow> 's world \<Rightarrow> string \<Rightarrow> reader \<Rightarrow> int \<Rightarrow> string \<Rightarrow> 's world \<times> int \<times> int option" where
  "api_put X c w key body contentLength pre =
     (if key = '''' then (w, 400, None)
      else case cluster_Put X c w key body (zero_options\<lparr>po_Size := contentLength\<rparr>) pre of
             (w', Inl e) \<Rightarrow> (w', if errors_Is e ErrQuorum then 503 else 500, None)
           | (w', Inr m) \<Rightarrow> (w', 200, Some (m_Size m)))"

definition api_get ::
  "'s sys \<Rightarrow> coord \<Rightarrow> nat \<Rightarrow> 's world \<Rightarrow> string \<Rightarrow> sink \<Rightarrow> 's world \<times> int \<times> int option \<times> sink" where
  "api_get X c bs w key out = (case Resolve X c w key of
      (w', Inl e) \<Rightarrow> (w', if errors_Is e meta_ErrNotFound then 404 else 500, None, out)
    | (w', Inr m) \<Rightarrow> (w', 200, Some (m_Size m), fst (Stream X c bs w' m out)))"

end
