(* ===== verification/GoStrings.thy ===== *)
theory GoStrings
  imports Coordinator
begin

text \<open>
  What the gateway and the signature verification use of the Go standard library: splitting and
  trimming strings, \<^verbatim>\<open>strconv.ParseInt\<close>, standard base64, percent-decoding, and the two multimaps
  of an HTTP request, headers under canonical names and query values under their own.

  Go strings are bytes.  Where a library function looks at runes, the bytes of the UTF-8 encodings
  that matter to it are written out.
\<close>

section \<open>Splitting and joining\<close>

fun Split :: "char \<Rightarrow> string \<Rightarrow> string list" where
  "Split sep [] = [[]]"
| "Split sep (x # xs) =
     (if x = sep then [] # Split sep xs
      else case Split sep xs of [] \<Rightarrow> [[x]] | p # ps \<Rightarrow> (x # p) # ps)"

fun Strings_Join :: "string \<Rightarrow> string list \<Rightarrow> string" where
  "Strings_Join sep [] = []"
| "Strings_Join sep [s] = s"
| "Strings_Join sep (s # t # ss) = s @ sep @ Strings_Join sep (t # ss)"

lemma Split_not_Nil [simp]: "Split sep s \<noteq> []"
  by (cases s) (simp_all split: list.splits)

lemma Join_Cons: "ss \<noteq> [] \<Longrightarrow> Strings_Join sep (s # ss) = s @ sep @ Strings_Join sep ss"
  by (cases ss) simp_all

lemma Join_push: "Strings_Join sep ((x # s) # ss) = x # Strings_Join sep (s # ss)"
  by (cases ss) simp_all

lemma Join_Split [simp]: "Strings_Join [sep] (Split sep s) = s"
proof (induction s)
  case (Cons x xs)
  then show ?case by (cases "Split sep xs") (auto simp: Join_Cons Join_push)
qed simp

lemma Split_clean: "p \<in> set (Split sep s) \<Longrightarrow> sep \<notin> set p"
proof (induction s arbitrary: p)
  case (Cons x xs)
  then show ?case by (cases "Split sep xs") (auto split: if_splits)
qed simp

lemma Split_no_sep: "sep \<notin> set s \<Longrightarrow> Split sep s = [s]"
  by (induction s) auto

lemma Split_append: "sep \<notin> set s \<Longrightarrow> Split sep (s @ sep # t) = s # Split sep t"
  by (induction s) auto

lemma Split_Join:
  "ss \<noteq> [] \<Longrightarrow> \<forall>s \<in> set ss. sep \<notin> set s \<Longrightarrow> Split sep (Strings_Join [sep] ss) = ss"
  by (induction "[sep]" ss rule: Strings_Join.induct) (simp_all add: Split_no_sep Split_append)

lemma Join_inj:
  assumes "Strings_Join [sep] ss = Strings_Join [sep] ts" and "ss \<noteq> []" and "ts \<noteq> []"
    and "\<forall>s \<in> set ss. sep \<notin> set s" and "\<forall>t \<in> set ts. sep \<notin> set t"
  shows "ss = ts"
  using assms by (metis Split_Join)

section \<open>White space and case\<close>

text \<open>The UTF-8 encodings of the runes \<^verbatim>\<open>unicode.IsSpace\<close> holds of.\<close>

definition white :: "string list" where
  "white = [[CHR 0x09], [CHR 0x0A], [CHR 0x0B], [CHR 0x0C], [CHR 0x0D], [CHR 0x20],
     [CHR 0xC2, CHR 0x85], [CHR 0xC2, CHR 0xA0], [CHR 0xE1, CHR 0x9A, CHR 0x80]]
     @ map (\<lambda>n. [CHR 0xE2, CHR 0x80, char_of (n :: nat)]) ([0x80..<0x8B] @ [0xA8, 0xA9, 0xAF])
     @ [[CHR 0xE2, CHR 0x81, CHR 0x9F], [CHR 0xE3, CHR 0x80, CHR 0x80]]"

definition lead_space :: "string \<Rightarrow> string option" where
  "lead_space s = find (\<lambda>w. HasPrefix s w) white"

definition trail_space :: "string \<Rightarrow> string option" where
  "trail_space s = find (\<lambda>w. HasSuffix s w) white"

lemma white_not_Nil: "w \<in> set white \<Longrightarrow> w \<noteq> []"
  by (auto simp: white_def)

lemma lead_space_Some: "lead_space s = Some w \<Longrightarrow> w \<noteq> [] \<and> HasPrefix s w \<and> s \<noteq> []"
  by (auto simp: lead_space_def find_Some_iff HasPrefix_def dest: white_not_Nil[OF nth_mem])

lemma trail_space_Some: "trail_space s = Some w \<Longrightarrow> w \<noteq> [] \<and> HasSuffix s w \<and> s \<noteq> []"
  by (auto simp: trail_space_def find_Some_iff HasSuffix_def dest: white_not_Nil[OF nth_mem])

function TrimLeftSpace :: "string \<Rightarrow> string" where
  "TrimLeftSpace s = (case lead_space s of None \<Rightarrow> s | Some w \<Rightarrow> TrimLeftSpace (drop (length w) s))"
  by pat_completeness auto
termination by (relation "measure length") (auto dest!: lead_space_Some)

function TrimRightSpace :: "string \<Rightarrow> string" where
  "TrimRightSpace s =
     (case trail_space s of None \<Rightarrow> s | Some w \<Rightarrow> TrimRightSpace (take (length s - length w) s))"
  by pat_completeness auto
termination by (relation "measure length") (auto dest!: trail_space_Some)

declare TrimLeftSpace.simps [simp del] TrimRightSpace.simps [simp del]

definition TrimSpace :: "string \<Rightarrow> string" where
  "TrimSpace s = TrimRightSpace (TrimLeftSpace s)"

text \<open>\<^verbatim>\<open>strings.Fields\<close>; the word being read is \<open>cur\<close>.\<close>

definition flush_word :: "string \<Rightarrow> string list" where
  "flush_word cur = (if cur = [] then [] else [cur])"

function fields_loop :: "string \<Rightarrow> string \<Rightarrow> string list" where
  "fields_loop cur [] = flush_word cur"
| "fields_loop cur (x # xs) = (case lead_space (x # xs) of
      Some w \<Rightarrow> flush_word cur @ fields_loop [] (drop (length w) (x # xs))
    | None \<Rightarrow> fields_loop (cur @ [x]) xs)"
  by pat_completeness auto
termination by (relation "measure (length \<circ> snd)") (auto dest!: lead_space_Some)

definition Fields :: "string \<Rightarrow> string list" where
  "Fields s = fields_loop [] s"

text \<open>
  \<^verbatim>\<open>strings.EqualFold\<close> against an ASCII string: apart from the two cases of a letter, the long s
  (\<^verbatim>\<open>U+017F\<close>) folds to s and the Kelvin sign (\<^verbatim>\<open>U+212A\<close>) to k, and no other rune folds to ASCII.
\<close>

function fold_case :: "string \<Rightarrow> string" where
  "fold_case [] = []"
| "fold_case (x # xs) =
     (if HasPrefix (x # xs) [CHR 0xC5, CHR 0xBF] then CHR ''s'' # fold_case (drop 1 xs)
      else if HasPrefix (x # xs) [CHR 0xE2, CHR 0x84, CHR 0xAA] then CHR ''k'' # fold_case (drop 2 xs)
      else ascii_lower x # fold_case xs)"
  by pat_completeness auto
termination by (relation "measure length") auto

definition EqualFoldTo :: "string \<Rightarrow> string \<Rightarrow> bool" where
  "EqualFoldTo s ascii \<longleftrightarrow> fold_case s = map ascii_lower ascii"

definition TrimRight :: "string \<Rightarrow> string \<Rightarrow> string" where
  "TrimRight s cutset = rev (dropWhile (\<lambda>c. c \<in> set cutset) (rev s))"

definition TrimSuffix :: "string \<Rightarrow> string \<Rightarrow> string" where
  "TrimSuffix s p = (if HasSuffix s p then take (length s - length p) s else s)"

section \<open>Numbers\<close>

text \<open>
  \<^verbatim>\<open>strconv.ParseInt(s, base, 64)\<close> for bases 10 and 16: an optional sign, at least one digit, and a
  value that fits.
\<close>

fun base_value :: "nat \<Rightarrow> nat \<Rightarrow> string \<Rightarrow> nat option" where
  "base_value base acc [] = Some acc"
| "base_value base acc (c # cs) = (case hex_value c of
      Some d \<Rightarrow> if d < base then base_value base (acc * base + d) cs else None
    | None \<Rightarrow> None)"

definition ParseInt :: "nat \<Rightarrow> string \<Rightarrow> int option" where
  "ParseInt base s =
     (let neg = HasPrefix s ''-''; ds = (if HasPrefix s ''-'' \<or> HasPrefix s ''+'' then drop 1 s else s) in
      if ds = '''' then None
      else case base_value base 0 ds of
             None \<Rightarrow> None
           | Some n \<Rightarrow> (let v = (if neg then - int n else int n) in if in_i64 v then Some v else None))"

definition fmt_int :: "int \<Rightarrow> string" where
  "fmt_int n = (if n < 0 then ''-'' @ fmt_d (nat (- n)) else fmt_d (nat n))"

lemma ParseInt_range: "ParseInt base s = Some v \<Longrightarrow> in_i64 v"
  by (auto simp: ParseInt_def Let_def split: if_splits option.splits)

section \<open>Base64\<close>

text \<open>
  \<^verbatim>\<open>base64.StdEncoding\<close>: the decoder skips carriage returns and newlines wherever they are, wants
  the padding, and ignores the bits a short last group has over.
\<close>

definition b64_char :: "nat \<Rightarrow> char" where
  "b64_char n = char_of (if n < 26 then 65 + n else if n < 52 then 71 + n
     else if n < 62 then n - 4 else if n = 62 then 43 else (47 :: nat))"

definition b64_value :: "char \<Rightarrow> nat option" where
  "b64_value c = (let n = of_char c in
     if 65 \<le> n \<and> n \<le> 90 then Some (n - 65) else if 97 \<le> n \<and> n \<le> 122 then Some (n - 71)
     else if 48 \<le> n \<and> n \<le> 57 then Some (n + 4) else if n = 43 then Some 62
     else if n = 47 then Some 63 else None)"

fun base64_EncodeToString :: "bytes \<Rightarrow> string" where
  "base64_EncodeToString [] = ''''"
| "base64_EncodeToString [a] = (let n = unat a * 16 in
     [b64_char (n div 64), b64_char (n mod 64), CHR ''='', CHR ''=''])"
| "base64_EncodeToString [a, b] = (let n = (unat a * 256 + unat b) * 4 in
     [b64_char (n div 4096), b64_char (n div 64 mod 64), b64_char (n mod 64), CHR ''=''])"
| "base64_EncodeToString (a # b # c # bs) = (let n = (unat a * 256 + unat b) * 256 + unat c in
     [b64_char (n div 262144), b64_char (n div 4096 mod 64), b64_char (n div 64 mod 64), b64_char (n mod 64)]
       @ base64_EncodeToString bs)"

definition nat_byte :: "nat \<Rightarrow> byte" where
  "nat_byte n = word_of_nat (n mod 256)"

fun b64_decode :: "string \<Rightarrow> bytes option" where
  "b64_decode [] = Some []"
| "b64_decode (a # b # c # d # cs) = (case (b64_value a, b64_value b) of
      (Some va, Some vb) \<Rightarrow>
        (case b64_value c of
           Some vc \<Rightarrow>
             (case b64_value d of
                Some vd \<Rightarrow> (let n = ((va * 64 + vb) * 64 + vc) * 64 + vd in
                  map_option ((@) [nat_byte (n div 65536), nat_byte (n div 256), nat_byte n]) (b64_decode cs))
              | None \<Rightarrow> if d = CHR ''='' \<and> cs = [] then (let n = (va * 64 + vb) * 64 + vc in
                  Some [nat_byte (n div 1024), nat_byte (n div 4)]) else None)
         | None \<Rightarrow> if c = CHR ''='' \<and> d = CHR ''='' \<and> cs = []
             then Some [nat_byte ((va * 64 + vb) div 16)] else None)
    | _ \<Rightarrow> None)"
| "b64_decode cs = None"

definition base64_DecodeString :: "string \<Rightarrow> bytes option" where
  "base64_DecodeString s = b64_decode (filter (\<lambda>c. c \<notin> {CHR 0x0D, CHR 0x0A}) s)"

section \<open>Percent encoding\<close>

text \<open>
  \<^verbatim>\<open>url.PathUnescape\<close>, and \<^verbatim>\<open>%%%02X\<close> for every byte that is not in a list of characters that stand
  for themselves.
\<close>

fun PathUnescape :: "string \<Rightarrow> string option" where
  "PathUnescape [] = Some []"
| "PathUnescape (c # cs) =
     (if c = CHR ''%'' then
        (case cs of
           h # l # rest \<Rightarrow>
             (case (hex_value h, hex_value l) of
                (Some vh, Some vl) \<Rightarrow> map_option ((#) (char_of (vh * 16 + vl))) (PathUnescape rest)
              | _ \<Rightarrow> None)
         | _ \<Rightarrow> None)
      else map_option ((#) c) (PathUnescape cs))"

definition upper_hex :: "nat \<Rightarrow> char" where
  "upper_hex n = char_of (if n < 10 then 48 + n else 55 + n)"

definition percent :: "char \<Rightarrow> string" where
  "percent c = [CHR ''%'', upper_hex (of_char c div 16), upper_hex (of_char c mod 16)]"

definition percent_encode :: "string \<Rightarrow> string \<Rightarrow> string" where
  "percent_encode unreserved s = concat (map (\<lambda>c. if c \<in> set unreserved then [c] else percent c) s)"

section \<open>Headers and query values\<close>

type_synonym multimap = "(string \<times> string list) list"

definition valid_field_byte :: "char \<Rightarrow> bool" where
  "valid_field_byte c \<longleftrightarrow>
     c \<in> set ''abcdefghijklmnopqrstuvwxyzABCDEFGHIJKLMNOPQRSTUVWXYZ0123456789!#$%&*+-.^_`|~'' \<or> c = CHR 0x27"

definition ascii_upper :: "char \<Rightarrow> char" where
  "ascii_upper ch = (if CHR ''a'' \<le> ch \<and> ch \<le> CHR ''z'' then char_of (of_char ch - (32 :: nat)) else ch)"

fun canonical_loop :: "bool \<Rightarrow> string \<Rightarrow> string" where
  "canonical_loop up [] = []"
| "canonical_loop up (c # cs) = (if up then ascii_upper c else ascii_lower c) # canonical_loop (c = CHR ''-'') cs"

definition CanonicalHeaderKey :: "string \<Rightarrow> string" where
  "CanonicalHeaderKey s = (if list_all valid_field_byte s then canonical_loop True s else s)"

definition values_of :: "multimap \<Rightarrow> string \<Rightarrow> string list" where
  "values_of q name = (case map_of q name of None \<Rightarrow> [] | Some vs \<Rightarrow> vs)"

definition first_value :: "string list \<Rightarrow> string" where
  "first_value vs = (case vs of [] \<Rightarrow> '''' | v # _ \<Rightarrow> v)"

text \<open>\<^verbatim>\<open>url.Values\<close>: \<open>Has\<close> is whether the name is there, with or without a value.\<close>

definition q_Get :: "multimap \<Rightarrow> string \<Rightarrow> string" where
  "q_Get q name = first_value (values_of q name)"

definition q_Has :: "multimap \<Rightarrow> string \<Rightarrow> bool" where
  "q_Has q name \<longleftrightarrow> map_of q name \<noteq> None"

text \<open>\<^verbatim>\<open>http.Header\<close>.\<close>

definition h_Values :: "multimap \<Rightarrow> string \<Rightarrow> string list" where
  "h_Values h name = values_of h (CanonicalHeaderKey name)"

definition h_Get :: "multimap \<Rightarrow> string \<Rightarrow> string" where
  "h_Get h name = first_value (h_Values h name)"

definition h_Set :: "string \<Rightarrow> string \<Rightarrow> multimap \<Rightarrow> multimap" where
  "h_Set name v h = AList.update (CanonicalHeaderKey name) [v] h"

definition h_Add :: "string \<Rightarrow> string \<Rightarrow> multimap \<Rightarrow> multimap" where
  "h_Add name v h = AList.update (CanonicalHeaderKey name) (h_Values h name @ [v]) h"

section \<open>Plain text\<close>

text \<open>Text of printable ASCII has no white space to trim, and numerals and digests are of that kind.\<close>

definition printable :: "char \<Rightarrow> bool" where
  "printable c \<longleftrightarrow> (33 :: nat) \<le> of_char c \<and> of_char c < (127 :: nat)"

lemma white_not_printable: "w \<in> set white \<Longrightarrow> c \<in> set w \<Longrightarrow> \<not> printable c"
  by (auto simp: white_def printable_def)

lemma lead_space_printable: "\<forall>c \<in> set s. printable c \<Longrightarrow> lead_space s = None"
  unfolding lead_space_def find_None_iff HasPrefix_def
  by (metis in_set_takeD hd_in_set white_not_Nil white_not_printable)

lemma trail_space_printable: "\<forall>c \<in> set s. printable c \<Longrightarrow> trail_space s = None"
  unfolding trail_space_def find_None_iff HasSuffix_def
  by (metis in_set_dropD hd_in_set white_not_Nil white_not_printable)

lemma TrimSpace_printable: "\<forall>c \<in> set s. printable c \<Longrightarrow> TrimSpace s = s"
  by (simp add: TrimSpace_def TrimLeftSpace.simps[of s] TrimRightSpace.simps[of s] lead_space_printable trail_space_printable)

lemma printable_digit_char: "d < 16 \<Longrightarrow> printable (digit_char d)"
  by (auto simp: printable_def digit_char_def)

lemma hex_encode_digits:
  assumes "c \<in> set (hex_encode bs)"
  obtains d where "d < 16" "c = digit_char d"
proof -
  obtain b :: byte where "c = digit_char (unat b div 16) \<or> c = digit_char (unat b mod 16)"
    using assms by (auto simp: hex_encode_def)
  moreover have "unat b div 16 < 16" using unsigned_less[of b, where 'a = nat] by simp
  moreover have "unat b mod 16 < 16" by simp
  ultimately show thesis using that by blast
qed

lemma hex_encode_printable: "c \<in> set (hex_encode bs) \<Longrightarrow> printable c"
  by (elim hex_encode_digits) (simp add: printable_digit_char)

lemma hex_value_digit_char [simp]: "d < 16 \<Longrightarrow> hex_value (digit_char d) = Some d"
  by (auto simp: hex_value_def digit_char_def Let_def)

lemma base_value_append:
  "base_value b acc (s @ t) = (case base_value b acc s of None \<Rightarrow> None | Some v \<Rightarrow> base_value b v t)"
  by (induction s arbitrary: acc) (auto split: option.splits)

text \<open>\<^verbatim>\<open>%x\<close>.\<close>

fun fmt_x :: "nat \<Rightarrow> string" where
  "fmt_x n = (if n < 16 then [digit_char n] else fmt_x (n div 16) @ [digit_char (n mod 16)])"

declare fmt_x.simps [simp del]

lemma fmt_x_digits: "c \<in> set (fmt_x n) \<Longrightarrow> printable c \<and> c \<noteq> CHR '';'' \<and> c \<noteq> CHR ''-'' \<and> c \<noteq> CHR ''+''"
proof (induction n rule: fmt_x.induct)
  case (1 n)
  have "printable (digit_char d) \<and> digit_char d \<noteq> CHR '';'' \<and> digit_char d \<noteq> CHR ''-'' \<and> digit_char d \<noteq> CHR ''+''" if "d < 16" for d
    using that hex_value_digit_char[OF that] printable_digit_char[OF that] by (auto simp: hex_value_def)
  then show ?case using 1 by (cases "n < 16") (auto simp: fmt_x.simps[of n])
qed

lemma fmt_x_not_Nil [simp]: "fmt_x n \<noteq> []"
  by (subst fmt_x.simps) simp

lemma base_value_fmt_x: "base_value 16 0 (fmt_x n) = Some n"
proof (induction n rule: fmt_x.induct)
  case (1 n)
  then show ?case by (cases "n < 16") (simp_all add: fmt_x.simps[of n] base_value_append)
qed

lemma length_fmt_x: "n < 16 ^ Suc k \<Longrightarrow> length (fmt_x n) \<le> Suc k"
proof (induction k arbitrary: n)
  case 0
  then show ?case by (simp add: fmt_x.simps[of n])
next
  case (Suc k)
  then have "n div 16 < 16 ^ Suc k" by (simp add: less_mult_imp_div_less)
  then show ?case using Suc.IH[of "n div 16"] by (simp add: fmt_x.simps[of n])
qed

lemma ParseInt_fmt_x:
  assumes "n < 2 ^ 63"
  shows "ParseInt 16 (fmt_x n) = Some (int n)"
proof -
  have "hd (fmt_x n) \<noteq> CHR ''-''" "hd (fmt_x n) \<noteq> CHR ''+''"
    using fmt_x_digits[of "hd (fmt_x n)" n] by simp_all
  then have "\<not> HasPrefix (fmt_x n) ''-''" "\<not> HasPrefix (fmt_x n) ''+''"
    by (cases "fmt_x n"; simp add: HasPrefix_def)+
  moreover have "in_i64 (int n)"
    using assms unfolding in_i64_def by (metis of_nat_less_iff of_nat_numeral of_nat_power dual_order.trans neg_le_0_iff_le of_nat_0_le_iff zero_le_numeral zero_le_power)
  ultimately show ?thesis by (simp add: ParseInt_def base_value_fmt_x)
qed

lemma Index_char: "c \<notin> set s \<Longrightarrow> Index (s @ c # t) [c] = Some (length s)"
  by (induction s) (auto simp: HasPrefix_def)

lemma Cut_char: "c \<notin> set s \<Longrightarrow> Cut (s @ c # t) [c] = Some (s, t)"
  by (simp add: Cut_def Index_char)

section \<open>Round trips\<close>

lemma hex_value_upper_hex [simp]: "d < 16 \<Longrightarrow> hex_value (upper_hex d) = Some d"
  by (auto simp: hex_value_def upper_hex_def Let_def)

lemma char_nibbles: "char_of (of_char c div 16 * 16 + of_char c mod (16 :: nat)) = (c :: char)"
  by simp

lemma char_high_nibble: "of_char (c :: char) div 16 < (16 :: nat)"
  by (rule less_mult_imp_div_less) simp

lemma PathUnescape_percent: "PathUnescape (percent c @ s) = map_option ((#) c) (PathUnescape s)"
  using char_nibbles[of c] char_high_nibble[of c] by (simp add: percent_def)

text \<open>Percent-decoding undoes percent-encoding down to any set of characters without the percent sign.\<close>

lemma PathUnescape_encode: "CHR ''%'' \<notin> set u \<Longrightarrow> PathUnescape (percent_encode u s) = Some s"
proof (induction s)
  case (Cons c s)
  then have "PathUnescape ((if c \<in> set u then [c] else percent c) @ percent_encode u s) = Some (c # s)"
    using PathUnescape_percent[of c "percent_encode u s"] by auto
  then show ?case by (simp add: percent_encode_def)
qed (simp add: percent_encode_def)

lemma percent_encode_inj: "CHR ''%'' \<notin> set u \<Longrightarrow> percent_encode u s = percent_encode u t \<Longrightarrow> s = t"
  by (metis PathUnescape_encode option.inject)

definition upper_hex_digits :: string where
  "upper_hex_digits = ''%0123456789ABCDEF''"

lemma percent_encode_chars:
  assumes "c \<in> set (percent_encode u s)"
  shows "c \<in> set u \<or> c \<in> set upper_hex_digits"
proof -
  have "list_all (\<lambda>d. upper_hex d \<in> set upper_hex_digits) [0..<16]" by code_simp
  then have up: "upper_hex d \<in> set upper_hex_digits" if "d < 16" for d
    using that by (simp add: list_all_iff del: upt_rec_numeral)
  obtain x where x: "c \<in> set (if x \<in> set u then [x] else percent x)"
    using assms by (auto simp only: percent_encode_def set_concat set_map UN_iff)
  have "CHR ''%'' \<in> set upper_hex_digits" by (simp add: upper_hex_digits_def)
  then have "set (percent x) \<subseteq> set upper_hex_digits"
    using up[OF char_high_nibble[of x]] up[of "of_char x mod 16"] by (simp add: percent_def)
  then show ?thesis using x by (auto split: if_splits)
qed

lemma b64_value_char [simp]: "n < 64 \<Longrightarrow> b64_value (b64_char n) = Some n"
  by (auto simp: b64_value_def b64_char_def Let_def)

lemma nat_byte_unat [simp]: "nat_byte (x * 256 + unat b) = b"
proof -
  have "unat b < 256" using unsigned_less[of b, where 'a = nat] by simp
  then show ?thesis by (simp add: nat_byte_def)
qed

lemma unat_byte_less: "unat (b :: byte) < 256"
  using unsigned_less[of b, where 'a = nat] by simp

text \<open>A quantum of three bytes in base 64 and in base 256.\<close>

lemma sextet: "n div (k * 64) * 64 + n div k mod 64 = n div (k :: nat)"
  by (simp add: div_mult2_eq)

lemma sextets: "((n div 262144 * 64 + n div 4096 mod 64) * 64 + n div 64 mod 64) * 64 + n mod 64 = (n :: nat)"
  using sextet[of n 4096] sextet[of n 64] sextet[of n 1] by simp

lemma base64_decode_encode: "b64_decode (base64_EncodeToString bs) = Some bs"
proof (induction bs rule: base64_EncodeToString.induct)
  case (2 a)
  define n where "n = unat a * 16"
  have "n < 4096" using unat_byte_less[of a] by (simp add: n_def)
  then have "n div 64 < 64" by (simp add: less_mult_imp_div_less)
  moreover have "n div 64 * 64 + n mod 64 = n" by simp
  moreover have "nat_byte (n div 16) = a" using nat_byte_unat[of 0 a] by (simp add: n_def)
  ultimately show ?case by (simp add: n_def[symmetric] Let_def b64_value_def[of "CHR ''=''"])
next
  case (3 a b)
  define n where "n = (unat a * 256 + unat b) * 4"
  have "n < 262144" using unat_byte_less[of a] unat_byte_less[of b] by (simp add: n_def)
  then have "n div 4096 < 64" by (simp add: less_mult_imp_div_less)
  moreover have "(n div 4096 * 64 + n div 64 mod 64) * 64 + n mod 64 = n" using sextet[of n 64] sextet[of n 1] by simp
  moreover have "n div 4 = unat a * 256 + unat b" by (simp add: n_def)
  moreover from this have "n div 1024 = unat a" using unat_byte_less[of b] div_mult2_eq[of n 4 256] by simp
  moreover have "base64_EncodeToString [a, b] = [b64_char (n div 4096), b64_char (n div 64 mod 64), b64_char (n mod 64), CHR ''='']"
    by (simp add: n_def Let_def)
  ultimately show ?case using nat_byte_unat[of 0 a] nat_byte_unat[of "unat a" b]
    by (simp add: Let_def b64_value_def[of "CHR ''=''"] del: base64_EncodeToString.simps)
next
  case (4 a b c bs)
  define n where "n = (unat a * 256 + unat b) * 256 + unat c"
  have "n < 16777216" using unat_byte_less[of a] unat_byte_less[of b] unat_byte_less[of c] by (simp add: n_def)
  then have "n div 262144 < 64" by (simp add: less_mult_imp_div_less)
  moreover have "n div 256 = unat a * 256 + unat b" using unat_byte_less[of c] by (simp add: n_def)
  moreover from this have "n div 65536 = unat a" using unat_byte_less[of b] div_mult2_eq[of n 256 256] by simp
  moreover have "nat_byte n = c" unfolding n_def by (rule nat_byte_unat)
  moreover have "base64_EncodeToString (a # b # c # bs) =
      b64_char (n div 262144) # b64_char (n div 4096 mod 64) # b64_char (n div 64 mod 64) # b64_char (n mod 64) # base64_EncodeToString bs"
    by (simp add: n_def Let_def)
  ultimately show ?case using 4 sextets[of n] nat_byte_unat[of 0 a] nat_byte_unat[of "unat a" b]
    by (simp add: Let_def del: base64_EncodeToString.simps)
qed simp

lemma b64_char_high: "43 \<le> (of_char (b64_char n) :: nat)"
  by (auto simp: b64_char_def)

lemma base64_no_newlines: "c \<in> set (base64_EncodeToString bs) \<Longrightarrow> 43 \<le> (of_char c :: nat)"
  by (induction bs rule: base64_EncodeToString.induct) (auto simp: Let_def b64_char_high)

lemma base64_roundtrip: "base64_DecodeString (base64_EncodeToString bs) = Some bs"
proof -
  have "filter (\<lambda>c. c \<notin> {CHR 0x0D, CHR 0x0A}) (base64_EncodeToString bs) = base64_EncodeToString bs"
    by (rule filter_True) (auto dest!: base64_no_newlines)
  then show ?thesis by (simp add: base64_DecodeString_def base64_decode_encode)
qed

end
