(* ===== verification/Signature.thy ===== *)
theory Signature
  imports GoStrings "HOL-Library.Multiset"
begin

text \<open>
  Verifying AWS Signature Version 4, \<^verbatim>\<open>internal/sigv4/sigv4.go\<close>.  The canonical request is rebuilt
  from the request as it arrived, its signature is recomputed with the one secret, and the body is
  replaced by a reader that checks what it yields.

  A request is a record of the parts of \<^verbatim>\<open>http.Request\<close> the sources look at.  Instants are
  nanoseconds since the epoch; reading and writing dates in a layout of package \<^verbatim>\<open>time\<close> is the
  argument \<open>time_lib\<close> of the definitions that do it.
\<close>

section \<open>Requests\<close>

record request =
  rq_Method :: string
  rq_Host :: string
  rq_Path :: string
  rq_EscapedPath :: string
  rq_bucket :: string
  rq_key :: string
  rq_Query :: multimap
  rq_Header :: multimap
  rq_ContentLength :: int
  rq_TransferEncoding :: "string list"
  rq_Body :: reader
  rq_Trailers :: multimap

record time_lib =
  tl_Format :: "string \<Rightarrow> int \<Rightarrow> string"
  tl_Parse :: "string \<Rightarrow> string \<Rightarrow> int option"
  tl_ParseTime :: "string \<Rightarrow> int option"

record credentials =
  cd_AccessKey :: string
  cd_SecretKey :: string

definition MaxSkew :: int where
  "MaxSkew = 15 * 60 * 1000000000"

definition algorithm :: string where
  "algorithm = ''AWS4-HMAC-SHA256''"

definition unsigned_payload :: string where
  "unsigned_payload = ''UNSIGNED-PAYLOAD''"

definition streaming :: string where
  "streaming = ''STREAMING-AWS4-HMAC-SHA256-PAYLOAD''"

definition streamingTrl :: string where
  "streamingTrl = ''STREAMING-AWS4-HMAC-SHA256-PAYLOAD-TRAILER''"

definition unsignedTrl :: string where
  "unsignedTrl = ''STREAMING-UNSIGNED-PAYLOAD-TRAILER''"

definition emptyHash :: string where
  "emptyHash = ''e3b0c44298fc1c149afbf4c8996fb92427ae41e4649b934ca495991b7852b855''"

definition amz_layout :: string where
  "amz_layout = ''20060102T150405Z''"

section \<open>The Authorization header\<close>

record authorization =
  au_accessKey :: string
  au_date :: string
  au_region :: string
  au_service :: string
  au_signedHeaders :: "string list"
  au_signature :: string

definition auth_scope :: "authorization \<Rightarrow> string" where
  "auth_scope a = Strings_Join ''/'' [au_date a, au_region a, au_service a, ''aws4_request'']"

text \<open>The loop over the comma-separated parts, with the credential and the record so far.\<close>

definition auth_field :: "string \<times> string \<Rightarrow> string \<times> authorization \<Rightarrow> string \<times> authorization" where
  "auth_field nv ca = (case (nv, ca) of ((name, value), (credential, a)) \<Rightarrow>
     if name = ''Credential'' then (value, a)
     else if name = ''SignedHeaders'' then (credential, a\<lparr>au_signedHeaders := Split (CHR '';'') value\<rparr>)
     else if name = ''Signature'' then (credential, a\<lparr>au_signature := value\<rparr>)
     else (credential, a))"

primrec auth_fields :: "string list \<Rightarrow> string \<times> authorization \<Rightarrow> error + string \<times> authorization" where
  "auth_fields [] ca = Inr ca"
| "auth_fields (part # parts) ca = (case Cut (TrimSpace part) ''='' of
      None \<Rightarrow> Inl [ErrMalformed]
    | Some nv \<Rightarrow> auth_fields parts (auth_field nv ca))"

definition no_auth :: authorization where
  "no_auth = \<lparr>au_accessKey = '''', au_date = '''', au_region = '''', au_service = '''',
     au_signedHeaders = [], au_signature = ''''\<rparr>"

definition parseAuthorization :: "string \<Rightarrow> error + authorization" where
  "parseAuthorization header = (case CutPrefix header (algorithm @ '' '') of
      None \<Rightarrow> Inl (if header = '''' then [ErrMissingSignature] else [ErrMalformed])
    | Some rest \<Rightarrow>
        (case auth_fields (Split (CHR '','') rest) ('''', no_auth) of
           Inl e \<Rightarrow> Inl e
         | Inr (credential, a) \<Rightarrow>
             (let scope = Split (CHR ''/'') credential in
              if length scope \<noteq> 5 \<or> scope ! 4 \<noteq> ''aws4_request'' then Inl [ErrMalformed]
              else let a1 = a\<lparr>au_accessKey := scope ! 0, au_date := scope ! 1, au_region := scope ! 2,
                              au_service := scope ! 3\<rparr> in
                   if au_signature a1 = '''' \<or> au_signedHeaders a1 = [] then Inl [ErrMalformed]
                   else if ''host'' \<notin> set (au_signedHeaders a1) then Inl [ErrMalformed]
                   else Inr a1)))"

section \<open>When it was signed\<close>

definition parseHTTPDate :: "time_lib \<Rightarrow> string \<Rightarrow> int option" where
  "parseHTTPDate T raw = (case tl_ParseTime T raw of
      Some t \<Rightarrow> Some t
    | None \<Rightarrow> (case tl_Parse T ''Mon, 02 Jan 2006 15:04:05 MST'' raw of
        Some t \<Rightarrow> Some t
      | None \<Rightarrow> tl_Parse T ''Mon, 02 Jan 2006 15:04:05 -0700'' raw))"

definition parseAmzDate :: "time_lib \<Rightarrow> string \<Rightarrow> int option" where
  "parseAmzDate T raw = (case tl_Parse T amz_layout raw of
      Some t \<Rightarrow> Some t
    | None \<Rightarrow> parseHTTPDate T raw)"

definition requestTime :: "time_lib \<Rightarrow> request \<Rightarrow> error + int" where
  "requestTime T r =
     (if h_Get (rq_Header r) ''x-amz-date'' \<noteq> '''' then
        (case parseAmzDate T (h_Get (rq_Header r) ''x-amz-date'') of
           None \<Rightarrow> Inl [ErrMalformed] | Some t \<Rightarrow> Inr t)
      else if h_Get (rq_Header r) ''Date'' \<noteq> '''' then
        (case parseHTTPDate T (h_Get (rq_Header r) ''Date'') of
           None \<Rightarrow> Inl [ErrMalformed] | Some t \<Rightarrow> Inr t)
      else Inl [ErrMissingDate])"

section \<open>The canonical request\<close>

definition headerValue :: "request \<Rightarrow> string \<Rightarrow> string option" where
  "headerValue r name =
     (if name = ''host'' then (if rq_Host r \<noteq> '''' then Some (rq_Host r) else None)
      else if name = ''content-length'' then
        (if rq_ContentLength r < 0 then None else Some (fmt_int (rq_ContentLength r)))
      else map_option (\<lambda>vs. Strings_Join '','' (map (\<lambda>v. Strings_Join '' '' (Fields v)) vs))
             (map_of (rq_Header r) (CanonicalHeaderKey name)))"

definition canonicalPath :: "request \<Rightarrow> string" where
  "canonicalPath r = (if rq_EscapedPath r \<noteq> '''' then rq_EscapedPath r else ''/'')"

definition uri_unreserved :: string where
  "uri_unreserved = ''abcdefghijklmnopqrstuvwxyzABCDEFGHIJKLMNOPQRSTUVWXYZ0123456789-_.~''"

definition uriEncode :: "string \<Rightarrow> string" where
  "uriEncode s = percent_encode uri_unreserved s"

definition query_pairs :: "multimap \<Rightarrow> string list" where
  "query_pairs q = concat (map (\<lambda>(name, vs). map (\<lambda>v. uriEncode name @ ''='' @ uriEncode v) (sort vs)) q)"

definition canonicalQuery :: "request \<Rightarrow> string" where
  "canonicalQuery r = Strings_Join ''&'' (sort (query_pairs (rq_Query r)))"

fun header_lines :: "request \<Rightarrow> string list \<Rightarrow> error + string list" where
  "header_lines r [] = Inr []"
| "header_lines r (name # names) = (case headerValue r name of
      None \<Rightarrow> Inl [ErrMalformed]
    | Some value \<Rightarrow> (case header_lines r names of
        Inl e \<Rightarrow> Inl e
      | Inr hs \<Rightarrow> Inr ((name @ '':'' @ value @ [CHR 0x0A]) # hs)))"

definition canonicalRequest :: "request \<Rightarrow> string list \<Rightarrow> string \<Rightarrow> error + string" where
  "canonicalRequest r signedHeaders payload = (case header_lines r signedHeaders of
      Inl e \<Rightarrow> Inl e
    | Inr headers \<Rightarrow> Inr (Strings_Join [CHR 0x0A]
        [rq_Method r, canonicalPath r, canonicalQuery r, concat headers, Strings_Join '';'' signedHeaders,
         if payload = '''' then unsigned_payload else payload]))"

section \<open>Keys and signatures\<close>

lemma length_sha256 [simp]: "length (sha256 msg) = 32"
proof -
  have "length (sha256_block hs blk) = 8" if "length hs = 8" for hs blk
    using that by (simp add: Let_def split: prod.splits)
  then have "length (foldl sha256_block hs bs) = 8" if "length hs = 8" for hs bs
    using that by (induction bs arbitrary: hs) (simp_all del: sha256_block.simps)
  moreover have "length (filter (\<lambda>n. list_all (\<lambda>d. n mod d \<noteq> 0) [2..<n]) [2..<20]) = 8" by code_simp
  then have "8 \<le> length first_primes"
    using upt_add_eq_append[of 2 20 292] by (simp add: first_primes_def del: upt_rec_numeral)
  then have "length sha256_H0 = 8" by (simp add: sha256_H0_def)
  ultimately have "length (foldl sha256_block sha256_H0 bs) = 8" for bs by blast
  moreover have "length (concat (map (be_bytes 4) ws)) = 4 * length ws" for ws :: "uint32 list"
    by (induction ws) simp_all
  ultimately show ?thesis by (simp add: sha256_def Let_def)
qed

definition hmacSHA256 :: "bytes \<Rightarrow> string \<Rightarrow> bytes" where
  "hmacSHA256 key data = hmac_sha256 key (bytes_of_string data)"

definition sha256hex :: "bytes \<Rightarrow> string" where
  "sha256hex b = hex_encode (sha256 b)"

definition sign :: "bytes \<Rightarrow> string \<Rightarrow> string" where
  "sign key data = hex_encode (hmacSHA256 key data)"

definition signingKey :: "string \<Rightarrow> string \<Rightarrow> string \<Rightarrow> string \<Rightarrow> bytes" where
  "signingKey secret date region service =
     hmacSHA256 (hmacSHA256 (hmacSHA256 (hmacSHA256 (bytes_of_string (''AWS4'' @ secret)) date) region) service)
       ''aws4_request''"

definition stringToSign :: "time_lib \<Rightarrow> int \<Rightarrow> string \<Rightarrow> string \<Rightarrow> string" where
  "stringToSign T t scope hashedRequest =
     Strings_Join [CHR 0x0A] [algorithm, tl_Format T amz_layout t, scope, hashedRequest]"

section \<open>What the signature binds\<close>

text \<open>
  The pieces of the canonical request stand on lines of their own, so that one string has one reading.
  The request line and the host have no line feeds in them, which is what HTTP parsing ensures, and
  the names of the signed headers come from splitting at semicolons.
\<close>

definition one_line :: "string \<Rightarrow> bool" where
  "one_line s \<longleftrightarrow> CHR 0x0A \<notin> set s"

definition signable :: "request \<Rightarrow> string list \<Rightarrow> string \<Rightarrow> bool" where
  "signable r names payload \<longleftrightarrow> one_line (rq_Method r) \<and> one_line (rq_EscapedPath r) \<and> one_line (rq_Host r) \<and>
     one_line payload \<and> names \<noteq> [] \<and> (\<forall>n \<in> set names. one_line n \<and> CHR '';'' \<notin> set n)"

lemma set_Join: "set (Strings_Join sep ss) \<subseteq> set sep \<union> \<Union>(set ` set ss)"
  by (induction sep ss rule: Strings_Join.induct) auto

lemma one_line_Join: "one_line sep \<Longrightarrow> \<forall>s \<in> set ss. one_line s \<Longrightarrow> one_line (Strings_Join sep ss)"
  using set_Join[of sep ss] by (auto simp: one_line_def)

lemma fields_loop_one_line: "one_line cur \<Longrightarrow> f \<in> set (fields_loop cur s) \<Longrightarrow> one_line f"
proof (induction cur s arbitrary: f rule: fields_loop.induct)
  case (1 cur)
  then show ?case by (auto simp: flush_word_def split: if_splits)
next
  case (2 cur x xs)
  show ?case
  proof (cases "lead_space (x # xs)")
    case None
    moreover have "[CHR 0x0A] \<in> set white" by (simp add: white_def)
    ultimately have "\<not> HasPrefix (x # xs) [CHR 0x0A]" by (auto simp: lead_space_def find_None_iff)
    then have "one_line (cur @ [x])" using "2.prems"(1) by (auto simp: one_line_def HasPrefix_def)
    then show ?thesis using "2.IH" "2.prems"(2) None by simp
  next
    case (Some w)
    have "one_line f" if "f \<in> set (fields_loop [] (drop (length w) (x # xs)))"
      using "2.IH" Some that by (simp add: one_line_def)
    then show ?thesis using "2.prems" Some by (auto simp: flush_word_def split: if_splits)
  qed
qed

lemma fmt_int_one_line: "0 \<le> n \<Longrightarrow> one_line (fmt_int n)"
  using fmt_d_digits[of "nat n"] by (auto simp: fmt_int_def one_line_def is_digit_def)

lemma headerValue_one_line:
  assumes "one_line (rq_Host r)" "headerValue r n = Some v"
  shows "one_line v"
proof -
  have "one_line (Strings_Join '' '' (Fields x))" for x
    using fields_loop_one_line[of "''''" _ x] by (intro one_line_Join) (auto simp: Fields_def one_line_def)
  then have "one_line (Strings_Join '','' (map (\<lambda>x. Strings_Join '' '' (Fields x)) vs))" for vs
    by (intro one_line_Join) (auto simp: one_line_def)
  then show ?thesis using assms by (auto simp: headerValue_def fmt_int_one_line split: if_splits)
qed

lemma header_lines_Inr:
  "header_lines r names = Inr hs \<longleftrightarrow>
     (\<forall>n \<in> set names. headerValue r n \<noteq> None) \<and>
     hs = map (\<lambda>n. (n @ '':'' @ the (headerValue r n)) @ [CHR 0x0A]) names"
proof (induction names arbitrary: hs)
  case (Cons n names)
  show ?case
  proof (cases "header_lines r names")
    case (Inl e)
    then have "\<not> (\<forall>n \<in> set names. headerValue r n \<noteq> None)" using Cons.IH by fastforce
    then show ?thesis using Inl by (auto split: option.splits)
  next
    case (Inr hs')
    then show ?thesis using Cons.IH[of hs'] by (auto split: option.splits)
  qed
qed auto

lemma Join_lines:
  "ss \<noteq> [] \<Longrightarrow> concat (map (\<lambda>h. h @ nl) hs) @ nl @ Strings_Join nl ss = Strings_Join nl (hs @ [] # ss)"
  by (induction hs) (simp_all add: Join_Cons)

text \<open>The canonical request, line by line.\<close>

definition canonical_lines :: "request \<Rightarrow> string list \<Rightarrow> string \<Rightarrow> string list" where
  "canonical_lines r names payload =
     [rq_Method r, canonicalPath r, canonicalQuery r] @ map (\<lambda>n. n @ '':'' @ the (headerValue r n)) names
       @ [[], Strings_Join '';'' names, if payload = '''' then unsigned_payload else payload]"

lemma canonicalRequest_lines:
  assumes "canonicalRequest r names payload = Inr s"
  shows "s = Strings_Join [CHR 0x0A] (canonical_lines r names payload)"
    and "\<forall>n \<in> set names. headerValue r n \<noteq> None"
proof -
  obtain hs where hs: "header_lines r names = Inr hs"
    using assms by (auto simp: canonicalRequest_def split: sum.splits)
  then show "\<forall>n \<in> set names. headerValue r n \<noteq> None" by (simp add: header_lines_Inr)
  define L where "L = map (\<lambda>n. n @ '':'' @ the (headerValue r n)) names"
  have "hs = map (\<lambda>h. h @ [CHR 0x0A]) L" using hs by (simp add: header_lines_Inr L_def)
  then show "s = Strings_Join [CHR 0x0A] (canonical_lines r names payload)"
    using assms hs Join_lines[of "[Strings_Join '';'' names, if payload = '''' then unsigned_payload else payload]" "[CHR 0x0A]" L]
    unfolding canonical_lines_def L_def[symmetric] by (simp add: canonicalRequest_def Join_Cons)
qed

lemma uri_unreserved_clean:
  "CHR ''%'' \<notin> set uri_unreserved" "CHR ''='' \<notin> set uri_unreserved" "CHR ''&'' \<notin> set uri_unreserved"
  "CHR 0x0A \<notin> set uri_unreserved" "CHR ''='' \<notin> set upper_hex_digits" "CHR ''&'' \<notin> set upper_hex_digits"
  "CHR 0x0A \<notin> set upper_hex_digits"
  by (simp_all add: uri_unreserved_def upper_hex_digits_def)

lemma uriEncode_clean: "CHR ''='' \<notin> set (uriEncode s)" "CHR ''&'' \<notin> set (uriEncode s)" "CHR 0x0A \<notin> set (uriEncode s)"
  unfolding uriEncode_def using percent_encode_chars uri_unreserved_clean by blast+

definition query_pair :: "string \<times> string \<Rightarrow> string" where
  "query_pair nv = uriEncode (fst nv) @ ''='' @ uriEncode (snd nv)"

definition flat_query :: "multimap \<Rightarrow> (string \<times> string) list" where
  "flat_query q = concat (map (\<lambda>(n, vs). map (Pair n) (sort vs)) q)"

lemma query_pairs_flat: "query_pairs q = map query_pair (flat_query q)"
  by (induction q) (auto simp: query_pairs_def flat_query_def query_pair_def)

lemma query_pair_inj: "query_pair a = query_pair b \<Longrightarrow> a = b"
proof -
  assume "query_pair a = query_pair b"
  then have "Cut (query_pair a) ''='' = Cut (query_pair b) ''=''" by simp
  then have "uriEncode (fst a) = uriEncode (fst b)" "uriEncode (snd a) = uriEncode (snd b)"
    using uriEncode_clean(1) Cut_char by (auto simp: query_pair_def)
  then show "a = b" using percent_encode_inj[OF uri_unreserved_clean(1)] unfolding uriEncode_def by (metis prod.expand)
qed

lemma canonicalQuery_inj:
  assumes "canonicalQuery r = canonicalQuery r'"
  shows "mset (flat_query (rq_Query r)) = mset (flat_query (rq_Query r'))"
proof -
  have amp: "\<forall>p \<in> set (sort (query_pairs q)). CHR ''&'' \<notin> set p \<and> p \<noteq> []" for q
    using uriEncode_clean(2) by (auto simp: query_pairs_flat query_pair_def)
  have "Strings_Join ''&'' ps \<noteq> []" if "ps \<noteq> []" "\<forall>p \<in> set ps. p \<noteq> []" for ps
    using that by (cases "(''&'', ps)" rule: Strings_Join.cases) auto
  then have "sort (query_pairs (rq_Query r)) = sort (query_pairs (rq_Query r'))"
    using assms amp Join_inj[of "CHR ''&''"] unfolding canonicalQuery_def by (metis Strings_Join.simps(1))
  then have "mset (query_pairs (rq_Query r)) = mset (query_pairs (rq_Query r'))" by (metis mset_sort)
  then have "image_mset query_pair (mset (flat_query (rq_Query r))) = image_mset query_pair (mset (flat_query (rq_Query r')))"
    by (simp add: query_pairs_flat)
  moreover have "inv query_pair \<circ> query_pair = id" using query_pair_inj by (intro inv_o_cancel) (simp add: injI)
  ultimately show ?thesis by (metis multiset.map_comp multiset.map_id)
qed

lemma canonical_lines_clean:
  assumes "canonicalRequest r names payload = Inr s" "signable r names payload"
  shows "\<forall>l \<in> set (canonical_lines r names payload). CHR 0x0A \<notin> set l"
proof -
  have "one_line (canonicalQuery r)"
    unfolding canonicalQuery_def using uriEncode_clean(3)
    by (intro one_line_Join) (auto simp: one_line_def query_pairs_flat query_pair_def)
  moreover have "one_line (n @ '':'' @ the (headerValue r n))" if "n \<in> set names" for n
    using that assms(2) canonicalRequest_lines(2)[OF assms(1)] headerValue_one_line[of r n]
    by (auto simp: signable_def one_line_def)
  moreover have "one_line (Strings_Join '';'' names)"
    using assms(2) by (intro one_line_Join) (auto simp: signable_def one_line_def)
  moreover have "one_line (canonicalPath r)" "one_line unsigned_payload"
    using assms(2) by (auto simp: signable_def one_line_def canonicalPath_def unsigned_payload_def)
  ultimately show ?thesis using assms(2) by (auto simp: canonical_lines_def signable_def one_line_def)
qed

text \<open>
  C28. A signature covers one reading of a request.  Two requests with the same canonical request,
  whatever headers each says are signed, have the same method and path, the same query parameters
  with the same values, the same list of signed headers with the same values, and declare the same
  payload: nothing a signature covers can be changed without changing the string that is signed.
\<close>

theorem canonicalRequest_binds:
  assumes "canonicalRequest r names payload = Inr s" and "canonicalRequest r' names' payload' = Inr s"
    and "signable r names payload" and "signable r' names' payload'"
  shows "rq_Method r = rq_Method r' \<and> canonicalPath r = canonicalPath r' \<and>
    mset (flat_query (rq_Query r)) = mset (flat_query (rq_Query r')) \<and> names = names' \<and>
    (\<forall>n \<in> set names. headerValue r n = headerValue r' n) \<and>
    (if payload = '''' then unsigned_payload else payload) = (if payload' = '''' then unsigned_payload else payload')"
proof -
  let ?L = "canonical_lines r names payload" and ?L' = "canonical_lines r' names' payload'"
  have nl: "\<forall>l \<in> set ?L. CHR 0x0A \<notin> set l" "\<forall>l \<in> set ?L'. CHR 0x0A \<notin> set l"
    using canonical_lines_clean[OF assms(1,3)] canonical_lines_clean[OF assms(2,4)] by blast+
  have "?L \<noteq> []" "?L' \<noteq> []" by (simp_all add: canonical_lines_def)
  then have eq: "?L = ?L'"
    using Join_inj[of "CHR 0x0A" ?L ?L'] nl canonicalRequest_lines(1)[OF assms(1)] canonicalRequest_lines(1)[OF assms(2)] by simp
  then have len: "length names = length names'" by (auto simp: canonical_lines_def dest: arg_cong[where f = length])
  then have head: "rq_Method r = rq_Method r'" "canonicalPath r = canonicalPath r'" "canonicalQuery r = canonicalQuery r'"
      "map (\<lambda>n. n @ '':'' @ the (headerValue r n)) names = map (\<lambda>n. n @ '':'' @ the (headerValue r' n)) names'"
      "Strings_Join '';'' names = Strings_Join '';'' names'"
      "(if payload = '''' then unsigned_payload else payload) = (if payload' = '''' then unsigned_payload else payload')"
    using eq by (simp_all add: canonical_lines_def)
  have names: "names = names'"
    using Join_inj[OF head(5)] assms(3,4) by (simp add: signable_def)
  have "headerValue r n = headerValue r' n" if "n \<in> set names" for n
    using head(4) names that canonicalRequest_lines(2)[OF assms(1)] canonicalRequest_lines(2)[OF assms(2)]
    by (auto simp: option.expand)
  then show ?thesis using head names canonicalQuery_inj by blast
qed

definition plain_request :: request where
  "plain_request = \<lparr>rq_Method = ''GET'', rq_Host = ''kavo'', rq_Path = ''/b/k'', rq_EscapedPath = ''/b/k'',
     rq_bucket = ''b'', rq_key = ''k'', rq_Query = [], rq_Header = [], rq_ContentLength = 0,
     rq_TransferEncoding = [], rq_Body = bytes_NewReader [], rq_Trailers = []\<rparr>"

text \<open>Two requests that differ in a header that is not signed.\<close>

theorem canonicalRequest_binds_witness:
  "\<exists>s. canonicalRequest plain_request [''host''] '''' = Inr s \<and>
    canonicalRequest (plain_request\<lparr>rq_Header := [(''Range'', [''bytes=0-1''])]\<rparr>) [''host''] '''' = Inr s \<and>
    canonicalPath plain_request = canonicalPath (plain_request\<lparr>rq_Header := [(''Range'', [''bytes=0-1''])]\<rparr>)"
proof -
  let ?r' = "plain_request\<lparr>rq_Header := [(''Range'', [''bytes=0-1''])]\<rparr>"
  obtain s where s: "canonicalRequest plain_request [''host''] '''' = Inr s"
    by (simp add: canonicalRequest_def headerValue_def plain_request_def)
  moreover have s': "canonicalRequest ?r' [''host''] '''' = Inr s"
    using s by (simp add: canonicalRequest_def headerValue_def canonicalPath_def canonicalQuery_def plain_request_def)
  moreover have "signable plain_request [''host''] ''''" "signable ?r' [''host''] ''''"
    by (simp_all add: signable_def one_line_def plain_request_def)
  ultimately show ?thesis using canonicalRequest_binds[OF s s'] by blast
qed

end
