(* ===== verification/Chunked.thy ===== *)
theory Chunked
  imports Signature
begin

text \<open>
  The aws-chunked body, \<^verbatim>\<open>internal/sigv4/chunked.go\<close>: a reader that unwraps the framing and checks the
  signature of every chunk against the one before.  The reader is its state: what is left of the wire, the signer, how
  much of the current chunk is still to come (never negative, so a natural number), what of it was hashed, and the sticky error.
\<close>

definition maxFramingLine :: nat where
  "maxFramingLine = 1024"

record chunk_signer =
  sg_key :: bytes
  sg_date :: int
  sg_scope :: string
  sg_prev :: string

definition expect_signature :: "time_lib \<Rightarrow> chunk_signer \<Rightarrow> string \<Rightarrow> string" where
  "expect_signature T s dataHash = sign (sg_key s) (Strings_Join [CHR 0x0A]
     [''AWS4-HMAC-SHA256-PAYLOAD'', tl_Format T amz_layout (sg_date s), sg_scope s, sg_prev s, emptyHash, dataHash])"

record chunked =
  ck_br :: reader
  ck_signer :: "chunk_signer option"
  ck_left :: nat
  ck_hash :: "bytes option"
  ck_want :: string
  ck_done :: bool
  ck_err :: "error option"
  ck_trailers :: multimap

definition newChunkedReader :: "reader \<Rightarrow> chunk_signer option \<Rightarrow> chunked" where
  "newChunkedReader body signer = \<lparr>ck_br = body, ck_signer = signer, ck_left = 0, ck_hash = None,
     ck_want = '''', ck_done = False, ck_err = None, ck_trailers = []\<rparr>"

text \<open>The error a source gives once its bytes are used up.\<close>

definition end_error :: "reader \<Rightarrow> error" where
  "end_error r = (case rerr r of None \<Rightarrow> [EOF] | Some e \<Rightarrow> e)"

text \<open>\<^verbatim>\<open>ReadString\<close> of a newline: the line with its newline, or what there is and the error.\<close>

definition ReadString :: "reader \<Rightarrow> string \<times> reader \<times> error option" where
  "ReadString r = (case dropWhile (\<lambda>b. b \<noteq> 10) (rdata r) of
      [] \<Rightarrow> (string_of_bytes (rdata r), r\<lparr>rdata := []\<rparr>, Some (end_error r))
    | nl # rest \<Rightarrow> (string_of_bytes (takeWhile (\<lambda>b. b \<noteq> 10) (rdata r) @ [nl]), r\<lparr>rdata := rest\<rparr>, None))"

definition ck_line :: "reader \<Rightarrow> reader \<times> string \<times> error option" where
  "ck_line br = (case ReadString br of (l, br', err) \<Rightarrow>
     if maxFramingLine < length l then (br', '''', Some [ErrMalformed])
     else case err of
       Some e \<Rightarrow>
         if errors_Is e EOF \<and> l = '''' then (br', '''', Some [EOF])
         else if \<not> errors_Is e EOF then (br', '''', Some (ErrPayload # e))
         else (br', TrimRight l [CHR 0x0D, CHR 0x0A], None)
     | None \<Rightarrow> (br', TrimRight l [CHR 0x0D, CHR 0x0A], None))"

lemma ReadString_shrinks:
  "ReadString br = (l, br', err) \<Longrightarrow> l \<noteq> '''' \<Longrightarrow> length (rdata br') < length (rdata br)"
proof -
  assume "ReadString br = (l, br', err)" "l \<noteq> ''''"
  then show ?thesis
    using length_dropWhile_le[of "\<lambda>b. b \<noteq> 10" "rdata br"]
    by (cases "dropWhile (\<lambda>b. b \<noteq> 10) (rdata br)") (auto simp: ReadString_def string_of_bytes_def)
qed

lemma ck_line_shrinks:
  "ck_line br = (br', l, None) \<Longrightarrow> length (rdata br') < length (rdata br)"
proof -
  assume a: "ck_line br = (br', l, None)"
  obtain s br2 err where s: "ReadString br = (s, br2, err)" using prod_cases3 by blast
  then have "br2 = br'" "s \<noteq> ''''"
    using a by (auto simp: ck_line_def ReadString_def string_of_bytes_def split: if_splits option.splits list.splits)
  then show ?thesis using ReadString_shrinks[OF s] by simp
qed

text \<open>The next line that is not blank.\<close>

function next_line :: "reader \<Rightarrow> reader \<times> string \<times> error option" where
  "next_line br = (case ck_line br of (br', l, err) \<Rightarrow>
     if err = None \<and> l = '''' then next_line br' else (br', l, err))"
  by pat_completeness auto
termination by (relation "measure (length \<circ> rdata)") (auto dest: ck_line_shrinks[OF sym])

declare next_line.simps [simp del]

definition endOfChunk :: "time_lib \<Rightarrow> chunked \<Rightarrow> chunked \<times> error option" where
  "endOfChunk T c = (case ck_signer c of
      None \<Rightarrow> (c, None)
    | Some s \<Rightarrow>
        (let got = expect_signature T s (hex_encode (sha256 (the (ck_hash c)))) in
         if got \<noteq> ck_want c then (c, Some [ErrMismatch])
         else (c\<lparr>ck_signer := Some (s\<lparr>sg_prev := ck_want c\<rparr>)\<rparr>, None)))"

function trailers_loop :: "reader \<Rightarrow> multimap \<Rightarrow> reader \<times> multimap \<times> error option" where
  "trailers_loop br hs = (case ck_line br of (br', l, err) \<Rightarrow>
     if (err \<noteq> None \<and> errors_Is (the err) EOF) \<or> l = '''' then (br', hs, None)
     else if err \<noteq> None then (br', hs, err)
     else (case Cut l '':'' of
         None \<Rightarrow> (br', hs, Some [ErrMalformed])
       | Some (name, value) \<Rightarrow> trailers_loop br' (h_Add (TrimSpace name) (TrimSpace value) hs)))"
  by pat_completeness auto
termination by (relation "measure (length \<circ> rdata \<circ> fst)") (auto dest: ck_line_shrinks[OF sym])

declare trailers_loop.simps [simp del]

definition readTrailers :: "chunked \<Rightarrow> chunked \<times> error option" where
  "readTrailers c = (case trailers_loop (ck_br c) [] of
      (br', hs, err) \<Rightarrow> (c\<lparr>ck_br := br', ck_trailers := hs\<rparr>, err))"

text \<open>
  A chunk's header line, its size in hexadecimal and its parameters; and what opening the chunk does
  to the reader: the signature it must produce and a fresh hash when the body is signed.
\<close>

definition chunk_header :: "string \<Rightarrow> (nat \<times> string) option" where
  "chunk_header header =
     (let (sizeHex, params) = (case Cut header '';'' of None \<Rightarrow> (header, '''') | Some sp \<Rightarrow> sp) in
      case ParseInt 16 (TrimSpace sizeHex) of
        None \<Rightarrow> None
      | Some sz \<Rightarrow> if sz < 0 then None else Some (nat sz, params))"

definition open_chunk :: "string \<Rightarrow> chunked \<Rightarrow> chunked option" where
  "open_chunk params c = (case ck_signer c of
      None \<Rightarrow> Some (c\<lparr>ck_want := ''''\<rparr>)
    | Some s \<Rightarrow> map_option (\<lambda>sig. c\<lparr>ck_want := sig, ck_hash := Some []\<rparr>)
        (CutPrefix (TrimSpace params) ''chunk-signature=''))"

definition chunk_next :: "time_lib \<Rightarrow> chunked \<Rightarrow> chunked \<times> error option" where
  "chunk_next T c = (case next_line (ck_br c) of (br', header, err) \<Rightarrow>
     (let c1 = c\<lparr>ck_br := br'\<rparr> in
      if err \<noteq> None then (c1, Some (if errors_Is (the err) EOF then [ErrPayload] else the err))
      else case chunk_header header of
        None \<Rightarrow> (c1, Some [ErrMalformed])
      | Some (sz, params) \<Rightarrow>
          (case open_chunk params c1 of
             None \<Rightarrow> (c1\<lparr>ck_want := ''''\<rparr>, Some [ErrMalformed])
           | Some c2 \<Rightarrow>
               (let c3 = c2\<lparr>ck_left := sz\<rparr> in
                if sz = 0 then
                  (case endOfChunk T (c3\<lparr>ck_done := True\<rparr>) of
                     (c4, Some e) \<Rightarrow> (c4, Some e)
                   | (c4, None) \<Rightarrow> readTrailers c4)
                else (c3, None)))))"

lemma endOfChunk_frame:
  "endOfChunk T c = (c', err) \<Longrightarrow> ck_br c' = ck_br c \<and> ck_left c' = ck_left c \<and> ck_done c' = ck_done c \<and>
     ck_err c' = ck_err c \<and> ck_trailers c' = ck_trailers c"
  by (auto simp: endOfChunk_def Let_def split: option.splits if_splits)

lemma readTrailers_frame:
  "readTrailers c = (c', err) \<Longrightarrow> ck_left c' = ck_left c \<and> ck_done c' = ck_done c \<and> ck_err c' = ck_err c"
  by (auto simp: readTrailers_def split: prod.splits)

lemma open_chunk_frame:
  "open_chunk params c = Some c' \<Longrightarrow> ck_br c' = ck_br c \<and> ck_done c' = ck_done c \<and> ck_err c' = ck_err c \<and>
     ck_trailers c' = ck_trailers c \<and> ck_signer c' = ck_signer c"
  by (auto simp: open_chunk_def split: option.splits)

lemma next_line_shrinks: "next_line br = (br', l, None) \<Longrightarrow> length (rdata br') < length (rdata br)"
proof (induction br rule: next_line.induct)
  case (1 br)
  obtain br1 l1 err where l: "ck_line br = (br1, l1, err)" using prod_cases3 by blast
  show ?case
  proof (cases "err = None \<and> l1 = []")
    case True
    then have "length (rdata br') < length (rdata br1)"
      using "1.IH"[OF l[symmetric] refl] "1.prems" l by (simp add: next_line.simps[of br])
    then show ?thesis using ck_line_shrinks[of br br1 l1] l True by simp
  next
    case False
    then have "ck_line br = (br', l, None)" using "1.prems" l by (simp add: next_line.simps[of br] split: if_splits)
    then show ?thesis by (rule ck_line_shrinks)
  qed
qed

text \<open>What a header that was accepted leaves behind: a chunk with bytes to come, or the end.\<close>

lemma chunk_next_cases:
  assumes "chunk_next T c = (c', None)"
  obtains (data) br' header sz params c2 where
      "next_line (ck_br c) = (br', header, None)" "chunk_header header = Some (sz, params)" "0 < sz"
      "open_chunk params (c\<lparr>ck_br := br'\<rparr>) = Some c2" "c' = c2\<lparr>ck_left := sz\<rparr>"
  | (last) br' header params c2 c4 where
      "next_line (ck_br c) = (br', header, None)" "chunk_header header = Some (0, params)"
      "open_chunk params (c\<lparr>ck_br := br'\<rparr>) = Some c2"
      "endOfChunk T (c2\<lparr>ck_left := 0, ck_done := True\<rparr>) = (c4, None)" "readTrailers c4 = (c', None)"
proof -
  obtain br' header err where l: "next_line (ck_br c) = (br', header, err)" using prod_cases3 by blast
  then have err: "err = None" using assms by (auto simp: chunk_next_def Let_def split: if_splits)
  then obtain sz params where h: "chunk_header header = Some (sz, params)"
    using assms l by (auto simp: chunk_next_def Let_def split: option.splits)
  obtain c2 where c2: "open_chunk params (c\<lparr>ck_br := br'\<rparr>) = Some c2"
    using assms l err h by (auto simp: chunk_next_def Let_def split: option.splits)
  show thesis
  proof (cases "sz = 0")
    case True
    then obtain c4 where "endOfChunk T (c2\<lparr>ck_left := 0, ck_done := True\<rparr>) = (c4, None)" "readTrailers c4 = (c', None)"
      using assms l err h c2 by (auto simp: chunk_next_def Let_def split: option.splits prod.splits)
    then show thesis using last l err h c2 True by blast
  next
    case False
    then have "c' = c2\<lparr>ck_left := sz\<rparr>" using assms l err h c2 by (simp add: chunk_next_def Let_def)
    then show thesis using data l err h c2 False by simp
  qed
qed

lemma chunk_next_ready: "chunk_next T c = (c', None) \<Longrightarrow> ck_left c' = 0 \<Longrightarrow> ck_done c'"
  by (erule chunk_next_cases) (auto dest!: endOfChunk_frame readTrailers_frame)

section \<open>Reading\<close>

text \<open>
  \<^verbatim>\<open>Read\<close> into a buffer of \<open>k\<close> bytes, of which the buffered reader below fills at most \<open>g\<close>, and at
  least one, when it has any.  First the loop that looks for a chunk with bytes to give.
\<close>

function chunk_fill :: "time_lib \<Rightarrow> chunked \<Rightarrow> chunked \<times> error option" where
  "chunk_fill T c =
     (if ck_left c \<noteq> 0 then (c, None)
      else if ck_done c then (c, Some [EOF])
      else case chunk_next T c of
             (c', Some e) \<Rightarrow> (c'\<lparr>ck_err := Some e\<rparr>, Some e)
           | (c', None) \<Rightarrow> chunk_fill T c')"
  by pat_completeness auto
termination
  by (relation "measure (\<lambda>(T, c). if ck_left c = 0 \<and> \<not> ck_done c then 1 else 0)")
    (auto dest: chunk_next_ready[OF sym])

declare chunk_fill.simps [simp del]

definition chunk_Read :: "time_lib \<Rightarrow> chunked \<Rightarrow> nat \<Rightarrow> nat \<Rightarrow> bytes \<times> chunked \<times> error option" where
  "chunk_Read T c k g =
     (if ck_err c \<noteq> None then ([], c, ck_err c)
      else case chunk_fill T c of
        (c1, Some e) \<Rightarrow> ([], c1, Some e)
      | (c1, None) \<Rightarrow>
          (let avail = rdata (ck_br c1); want = min k (ck_left c1) in
           if avail = [] then
             (let e = ErrPayload # end_error (ck_br c1) in ([], c1\<lparr>ck_err := Some e\<rparr>, Some e))
           else
             (let p = take (min want (max 1 g)) avail;
                  c2 = c1\<lparr>ck_br := (ck_br c1)\<lparr>rdata := drop (length p) avail\<rparr>,
                          ck_hash := map_option (\<lambda>h. h @ p) (ck_hash c1),
                          ck_left := ck_left c1 - length p\<rparr>
              in if ck_left c2 = 0 then
                   (case endOfChunk T c2 of
                      (c3, Some e) \<Rightarrow> (p, c3\<lparr>ck_err := Some e\<rparr>, Some e)
                    | (c3, None) \<Rightarrow> (p, c3, None))
                 else (p, c2, None))))"

text \<open>
  A caller that reads to the end, with buffers and bursts of any sizes: \<open>ks i\<close> is one less than the
  buffer of the \<open>i\<close>th call, and the burst.
\<close>

lemma open_left_frame:
  "chunk_next T c = (c', None) \<Longrightarrow> ck_err c' = ck_err c \<and> (0 < ck_left c' \<longrightarrow> ck_done c' = ck_done c)"
  by (erule chunk_next_cases) (auto dest!: open_chunk_frame endOfChunk_frame readTrailers_frame)

lemma chunk_fill_start: "ck_left c \<noteq> 0 \<Longrightarrow> chunk_fill T c = (c, None)"
  by (simp add: chunk_fill.simps)

lemma chunk_fill_next:
  assumes "ck_left c = 0" "\<not> ck_done c"
  shows "chunk_fill T c = (case chunk_next T c of
      (c', Some e) \<Rightarrow> (c'\<lparr>ck_err := Some e\<rparr>, Some e)
    | (c', None) \<Rightarrow> (c', if ck_left c' = 0 then Some [EOF] else None))"
proof (cases "chunk_next T c")
  case (Pair c' err)
  show ?thesis
  proof (cases err)
    case None
    then have "ck_left c' = 0 \<Longrightarrow> ck_done c'" using chunk_next_ready Pair by simp
    then have "chunk_fill T c' = (c', if ck_left c' = 0 then Some [EOF] else None)"
      by (simp add: chunk_fill.simps[of T c'])
    then show ?thesis using assms Pair None by (simp add: chunk_fill.simps[of T c])
  next
    case (Some e)
    then show ?thesis using assms Pair by (simp add: chunk_fill.simps[of T c])
  qed
qed

lemma chunk_fill_shorter:
  assumes "chunk_fill T c = (c1, None)"
  shows "length (rdata (ck_br c1)) \<le> length (rdata (ck_br c)) \<and> ck_left c1 \<noteq> 0"
proof (cases "ck_left c \<noteq> 0")
  case True
  then show ?thesis using assms by (simp add: chunk_fill_start)
next
  case False
  then have nd: "\<not> ck_done c" using assms by (auto simp: chunk_fill.simps[of T c])
  obtain c' where c': "chunk_next T c = (c', None)" "c1 = c'" "ck_left c' \<noteq> 0"
    using assms False nd by (auto simp: chunk_fill_next split: prod.splits option.splits if_splits)
  then show ?thesis
    by (cases rule: chunk_next_cases[OF c'(1)])
      (auto dest!: next_line_shrinks open_chunk_frame endOfChunk_frame readTrailers_frame)
qed

lemma chunk_Read_shrinks:
  assumes "chunk_Read T c (Suc k) g = (p, c', None)"
  shows "length (rdata (ck_br c')) < length (rdata (ck_br c))"
proof -
  obtain c1 where f: "ck_err c = None" "chunk_fill T c = (c1, None)" "rdata (ck_br c1) \<noteq> []"
    using assms by (auto simp: chunk_Read_def Let_def split: if_splits option.splits prod.splits)
  then have "length (rdata (ck_br c')) < length (rdata (ck_br c1))"
    using assms chunk_fill_shorter[OF f(2)]
    by (auto simp: chunk_Read_def Let_def dest!: endOfChunk_frame split: if_splits option.splits prod.splits)
  then show ?thesis using chunk_fill_shorter[OF f(2)] by simp
qed

function drain :: "time_lib \<Rightarrow> (nat \<Rightarrow> nat \<times> nat) \<Rightarrow> nat \<Rightarrow> chunked \<Rightarrow> bytes \<times> error \<times> chunked" where
  "drain T ks i c = (case chunk_Read T c (Suc (fst (ks i))) (snd (ks i)) of
      (p, c', Some e) \<Rightarrow> (p, e, c')
    | (p, c', None) \<Rightarrow> (case drain T ks (Suc i) c' of (q, e, c'') \<Rightarrow> (p @ q, e, c'')))"
  by pat_completeness auto
termination
  by (relation "measure (\<lambda>(T, ks, i, c). length (rdata (ck_br c)))") (auto dest: chunk_Read_shrinks[OF sym])

declare drain.simps [simp del]

section \<open>One chunk at a time\<close>

text \<open>
  The same body read by whole chunks, which is what the framing means: the bytes, the error the body
  ends with (\<^verbatim>\<open>io.EOF\<close> at its proper end), and the trailers.
\<close>

definition whole_chunk :: "time_lib \<Rightarrow> chunked \<Rightarrow> bytes \<times> chunked \<times> error option" where
  "whole_chunk T c = (let d = rdata (ck_br c); n = ck_left c in
     if length d < n then (d, c, Some (ErrPayload # end_error (ck_br c)))
     else case endOfChunk T (c\<lparr>ck_br := (ck_br c)\<lparr>rdata := drop n d\<rparr>,
                               ck_hash := map_option (\<lambda>h. h @ take n d) (ck_hash c), ck_left := 0\<rparr>) of
            (c', err) \<Rightarrow> (take n d, c', err))"

lemma whole_chunk_frame:
  "whole_chunk T c = (p, c', None) \<Longrightarrow> length (rdata (ck_br c')) \<le> length (rdata (ck_br c)) \<and> ck_left c' = 0 \<and>
     ck_err c' = ck_err c \<and> ck_done c' = ck_done c"
  by (auto simp: whole_chunk_def Let_def dest!: endOfChunk_frame split: if_splits prod.splits)

lemma chunk_next_shrinks:
  "chunk_next T c = (c', None) \<Longrightarrow> ck_left c' \<noteq> 0 \<Longrightarrow> length (rdata (ck_br c')) < length (rdata (ck_br c))"
  by (erule chunk_next_cases)
    (auto dest!: next_line_shrinks open_chunk_frame endOfChunk_frame readTrailers_frame)

function chunk_body :: "time_lib \<Rightarrow> chunked \<Rightarrow> bytes \<times> error \<times> multimap" where
  "chunk_body T c = (case chunk_next T c of
      (c1, Some e) \<Rightarrow> ([], e, ck_trailers c1)
    | (c1, None) \<Rightarrow>
        if ck_left c1 = 0 then ([], [EOF], ck_trailers c1)
        else (case whole_chunk T c1 of
            (p, c2, Some e) \<Rightarrow> (p, e, ck_trailers c2)
          | (p, c2, None) \<Rightarrow> (case chunk_body T c2 of (q, e, hs) \<Rightarrow> (p @ q, e, hs))))"
  by pat_completeness auto
termination
  by (relation "measure (\<lambda>(T, c). length (rdata (ck_br c)))")
    (auto dest!: chunk_next_shrinks[OF sym] whole_chunk_frame[OF sym])

declare chunk_body.simps [simp del]

definition body_rest :: "time_lib \<Rightarrow> chunked \<Rightarrow> bytes \<times> error \<times> multimap" where
  "body_rest T c =
     (if ck_left c = 0 then chunk_body T c
      else case whole_chunk T c of
          (p, c2, Some e) \<Rightarrow> (p, e, ck_trailers c2)
        | (p, c2, None) \<Rightarrow> (case chunk_body T c2 of (q, e, hs) \<Rightarrow> (p @ q, e, hs)))"

text \<open>One call of \<^verbatim>\<open>Read\<close> inside a chunk takes its bytes off the rest of the body.\<close>

lemma body_rest_Read:
  assumes "ck_err c = None" "\<not> ck_done c" "0 < ck_left c"
    and r: "chunk_Read T c (Suc k) g = (p, c', err)"
  shows "(\<forall>e. err = Some e \<longrightarrow> body_rest T c = (p, e, ck_trailers c')) \<and>
    (err = None \<longrightarrow> ck_err c' = None \<and> \<not> ck_done c' \<and>
       body_rest T c = (case body_rest T c' of (q, e, hs) \<Rightarrow> (p @ q, e, hs)))"
proof -
  define d where "d = rdata (ck_br c)"
  define n where "n = min (min (Suc k) (ck_left c)) (max 1 g)"
  have n: "0 < n" "n \<le> ck_left c" using assms(3) by (auto simp: n_def)
  show ?thesis
  proof (cases "d = []")
    case True
    then have "p = []" "err = Some (ErrPayload # end_error (ck_br c))" "c' = c\<lparr>ck_err := err\<rparr>"
      using assms r by (auto simp: chunk_Read_def chunk_fill_start d_def Let_def)
    moreover have "whole_chunk T c = ([], c, Some (ErrPayload # end_error (ck_br c)))"
      using True assms(3) by (simp add: whole_chunk_def d_def)
    ultimately show ?thesis using assms(3) by (simp add: body_rest_def)
  next
    case False
    define c2 where "c2 = c\<lparr>ck_br := (ck_br c)\<lparr>rdata := drop (length (take n d)) d\<rparr>,
      ck_hash := map_option (\<lambda>h. h @ take n d) (ck_hash c), ck_left := ck_left c - length (take n d)\<rparr>"
    have p0: "chunk_Read T c (Suc k) g = (if ck_left c2 = 0 then
          (case endOfChunk T c2 of
             (c3, Some e) \<Rightarrow> (take n d, c3\<lparr>ck_err := Some e\<rparr>, Some e)
           | (c3, None) \<Rightarrow> (take n d, c3, None))
        else (take n d, c2, None))"
      using chunk_fill_start[of c T] assms(1,3) False
      by (simp only: chunk_Read_def prod.case option.case Let_def d_def[symmetric] n_def[symmetric] c2_def[symmetric]
          if_False simp_thms neq0_conv)
    show ?thesis
    proof (cases "ck_left c2 = 0")
      case True
      then have full: "n = ck_left c" "n \<le> length d" using n by (auto simp: c2_def)
      then have "whole_chunk T c = (case endOfChunk T c2 of (c', err) \<Rightarrow> (take n d, c', err))"
        by (simp add: whole_chunk_def d_def c2_def Let_def min_absorb2)
      then show ?thesis using r p0 True assms(1,2) n
        by (auto simp: body_rest_def c2_def dest!: endOfChunk_frame split: prod.splits option.splits)
    next
      case False2: False
      then have c': "p = take n d" "c' = c2" "err = None" using r p0 by auto
      have nd: "n < ck_left c \<or> length d < n" using False2 n by (auto simp: c2_def min_def split: if_splits)
      have c2: "rdata (ck_br c2) = drop n d" "ck_left c2 = ck_left c - min (length d) n" "ck_trailers c2 = ck_trailers c"
          "end_error (ck_br c2) = end_error (ck_br c)" "ck_err c2 = None" "\<not> ck_done c2"
        using assms(1,2) by (simp_all add: c2_def end_error_def min_def)
      show ?thesis
      proof (cases "length d < ck_left c")
        case True
        then have "whole_chunk T c = (d, c, Some (ErrPayload # end_error (ck_br c)))"
            "whole_chunk T c2 = (drop n d, c2, Some (ErrPayload # end_error (ck_br c)))"
          using c2 n by (auto simp: whole_chunk_def d_def[symmetric] Let_def)
        then show ?thesis using c' c2(3,5,6) False2 assms(3) by (simp add: body_rest_def)
      next
        case False
        then obtain m where m: "ck_left c = n + m" "n \<le> length d" "m \<le> length d - n"
          using nd n by (metis diff_le_mono le_add_diff_inverse less_imp_le linorder_not_le order_trans add_diff_cancel_left')
        have "whole_chunk T c = (case whole_chunk T c2 of (q, c3, e) \<Rightarrow> (take n d @ q, c3, e))"
          using m take_add[of n m d]
          by (auto simp: whole_chunk_def d_def[symmetric] c2_def Let_def min_absorb2 option.map_comp o_def
              add.commute[of n m] split: prod.splits)
        then show ?thesis using c' c2(5,6) False2 assms(3)
          by (auto simp: body_rest_def split: prod.splits option.splits)
      qed
    qed
  qed
qed

text \<open>However the body is read, it reads as whole chunks do.\<close>

lemma drain_eq_rest:
  "ck_err c = None \<Longrightarrow> \<not> ck_done c \<Longrightarrow>
     (case drain T ks i c of (p, e, c') \<Rightarrow> (p, e, ck_trailers c')) = body_rest T c"
proof (induction T ks i c rule: drain.induct)
  case (1 T ks i c)
  show ?case
  proof (cases "ck_left c = 0 \<and> (\<forall>c1. chunk_next T c = (c1, None) \<longrightarrow> ck_left c1 = 0)")
    case True
    then show ?thesis using "1.prems"
      by (auto simp: drain.simps[of T ks i c] chunk_Read_def chunk_fill_next body_rest_def chunk_body.simps[of T c]
          split: prod.splits option.splits)
  next
    case False
    have "\<exists>c1. 0 < ck_left c1 \<and> ck_err c1 = None \<and> \<not> ck_done c1 \<and> body_rest T c = body_rest T c1 \<and>
      (\<forall>k g. chunk_Read T c k g = chunk_Read T c1 k g)"
    proof (cases "ck_left c = 0")
      case True
      then obtain c1 where c1: "chunk_next T c = (c1, None)" "0 < ck_left c1" using False by auto
      then have "ck_err c1 = None" "\<not> ck_done c1" using open_left_frame[OF c1(1)] "1.prems" by auto
      moreover have "body_rest T c = body_rest T c1"
        using True c1 by (simp add: body_rest_def chunk_body.simps[of T c])
      moreover have "chunk_Read T c k g = chunk_Read T c1 k g" for k g
        using True c1 "1.prems" calculation(1) by (simp add: chunk_Read_def chunk_fill_next chunk_fill_start[of c1])
      ultimately show ?thesis using c1(2) by blast
    qed (use "1.prems" in auto)
    then obtain c1 where c1: "0 < ck_left c1" "ck_err c1 = None" "\<not> ck_done c1" "body_rest T c = body_rest T c1"
      "\<And>k g. chunk_Read T c k g = chunk_Read T c1 k g" by blast
    obtain p c' err where r: "chunk_Read T c (Suc (fst (ks i))) (snd (ks i)) = (p, c', err)" using prod_cases3 by blast
    note step = body_rest_Read[OF c1(2,3,1) r[unfolded c1(5)]]
    show ?thesis
    proof (cases err)
      case None
      then show ?thesis using "1.IH"[OF r[symmetric] refl] step r c1(4)
        by (auto simp: drain.simps[of T ks i c] split: prod.splits)
    next
      case (Some e)
      then show ?thesis using step r c1(4) by (simp add: drain.simps[of T ks i c])
    qed
  qed
qed

section \<open>What a signed body guarantees\<close>

text \<open>A list of chunks with the signatures a holder of the key gives them, each over the one before.\<close>

fun signed_chain :: "time_lib \<Rightarrow> chunk_signer \<Rightarrow> bytes list \<Rightarrow> string list \<Rightarrow> bool" where
  "signed_chain T s [] sigs \<longleftrightarrow> sigs = []"
| "signed_chain T s (d # ds) [] \<longleftrightarrow> False"
| "signed_chain T s (d # ds) (g # gs) \<longleftrightarrow>
     g = expect_signature T s (sha256hex d) \<and> signed_chain T (s\<lparr>sg_prev := g\<rparr>) ds gs"

text \<open>The signatures come from the wire.\<close>

abbreviation wire :: "chunked \<Rightarrow> string" where
  "wire c \<equiv> string_of_bytes (rdata (ck_br c))"

lemma TrimLeftSpace_suffix: "suffix (TrimLeftSpace s) s"
proof (induction s rule: TrimLeftSpace.induct)
  case (1 s)
  then show ?case
    by (cases "lead_space s") (auto simp: TrimLeftSpace.simps[of s] intro: suffix_order.trans suffix_drop)
qed

lemma TrimRightSpace_prefix: "prefix (TrimRightSpace s) s"
proof (induction s rule: TrimRightSpace.induct)
  case (1 s)
  then show ?case
    by (cases "trail_space s") (auto simp: TrimRightSpace.simps[of s] intro: prefix_order.trans take_is_prefix)
qed

lemma TrimSpace_sublist: "sublist (TrimSpace s) s"
  unfolding TrimSpace_def
  by (meson TrimLeftSpace_suffix TrimRightSpace_prefix prefix_imp_sublist sublist_order.order_trans suffix_imp_sublist)

lemma Cut_sublist: "Cut s sep = Some (a, b) \<Longrightarrow> sublist b s"
  by (auto simp: Cut_def split: option.splits)

lemma CutPrefix_sublist: "CutPrefix s p = Some r \<Longrightarrow> sublist r s"
  by (auto simp: CutPrefix_def split: if_splits)

lemma TrimRight_prefix: "prefix (TrimRight s cs) s"
  unfolding TrimRight_def
  by (metis rev_rev_ident suffix_dropWhile suffix_to_prefix)

lemma ReadString_parts:
  assumes "ReadString br = (l, br', err)"
  shows "string_of_bytes (rdata br) = l @ string_of_bytes (rdata br')"
proof (cases "dropWhile (\<lambda>b. b \<noteq> 10) (rdata br)")
  case Nil
  then show ?thesis using assms unfolding ReadString_def Nil by (auto simp: string_of_bytes_def)
next
  case (Cons nl rest)
  then have "rdata br = takeWhile (\<lambda>b. b \<noteq> 10) (rdata br) @ nl # rest" by (metis takeWhile_dropWhile_id)
  then have "string_of_bytes (rdata br) = string_of_bytes (takeWhile (\<lambda>b. b \<noteq> 10) (rdata br)) @ char_of_byte nl # string_of_bytes rest"
    unfolding string_of_bytes_def by (metis list.simps(9) map_append)
  then show ?thesis using assms Cons by (auto simp: ReadString_def string_of_bytes_def)
qed

lemma ck_line_parts:
  assumes "ck_line br = (br', l, err)"
  shows "sublist l (string_of_bytes (rdata br)) \<and> suffix (string_of_bytes (rdata br')) (string_of_bytes (rdata br)) \<and>
    (err \<noteq> None \<longrightarrow> l = '''')"
proof -
  obtain s e where s: "ReadString br = (s, br', e)" and "l = '''' \<or> l = TrimRight s [CHR 0x0D, CHR 0x0A]"
      "err \<noteq> None \<longrightarrow> l = ''''"
    using assms by (auto simp: ck_line_def split: prod.splits if_splits option.splits)
  then have "prefix l s" "err \<noteq> None \<longrightarrow> l = ''''" using TrimRight_prefix by auto
  then show ?thesis using ReadString_parts[OF s]
    by (auto intro: sublist_order.order_trans[OF prefix_imp_sublist] suffixI)
qed

lemma next_line_parts:
  "next_line br = (br', l, err) \<Longrightarrow>
     sublist l (string_of_bytes (rdata br)) \<and> suffix (string_of_bytes (rdata br')) (string_of_bytes (rdata br))"
proof (induction br rule: next_line.induct)
  case (1 br)
  obtain br1 l1 e1 where l: "ck_line br = (br1, l1, e1)" using prod_cases3 by blast
  show ?case
  proof (cases "e1 = None \<and> l1 = []")
    case True
    then have "sublist l (string_of_bytes (rdata br1))" "suffix (string_of_bytes (rdata br')) (string_of_bytes (rdata br1))"
      using "1.IH"[OF l[symmetric] refl] "1.prems" l by (simp_all add: next_line.simps[of br])
    then show ?thesis using ck_line_parts[OF l]
      by (meson sublist_order.order_trans suffix_imp_sublist suffix_order.trans)
  next
    case False
    then have "ck_line br = (br', l, err)" using "1.prems" l by (auto simp: next_line.simps[of br])
    then show ?thesis using ck_line_parts by blast
  qed
qed

lemma chunk_header_sublist: "chunk_header h = Some (sz, params) \<Longrightarrow> sublist params h"
  by (auto simp: chunk_header_def Let_def dest!: Cut_sublist split: option.splits if_splits prod.splits)

lemma open_chunk_signed:
  assumes "open_chunk params c = Some c'" "ck_signer c = Some s"
  shows "sublist (ck_want c') params \<and> ck_hash c' = Some [] \<and> ck_signer c' = Some s"
proof -
  obtain sig where "CutPrefix (TrimSpace params) ''chunk-signature='' = Some sig" "c' = c\<lparr>ck_want := sig, ck_hash := Some []\<rparr>"
    using assms by (auto simp: open_chunk_def)
  moreover from this have "sublist sig params"
    by (meson CutPrefix_sublist TrimSpace_sublist sublist_order.order_trans)
  ultimately show ?thesis using assms(2) by simp
qed

lemma endOfChunk_signed:
  assumes "endOfChunk T c = (c', None)" "ck_signer c = Some s" "ck_hash c = Some h"
  shows "ck_want c = expect_signature T s (sha256hex h) \<and> ck_signer c' = Some (s\<lparr>sg_prev := ck_want c\<rparr>)"
  using assms by (auto simp: endOfChunk_def sha256hex_def Let_def split: if_splits)

text \<open>A clean end of file is only ever the proper end.\<close>

lemma next_line_error: "next_line br = (br', l, Some e) \<Longrightarrow> e = [EOF] \<or> \<not> errors_Is e EOF"
proof (induction br rule: next_line.induct)
  case (1 br)
  obtain br1 l1 e1 where l: "ck_line br = (br1, l1, e1)" using prod_cases3 by blast
  then show ?case using "1.IH"[OF l[symmetric] refl] "1.prems"
    by (auto simp: next_line.simps[of br] ck_line_def errors_Is_def split: if_splits prod.splits option.splits)
qed

lemma trailers_loop_error: "trailers_loop br hs = (br', hs', Some e) \<Longrightarrow> e = [ErrMalformed]"
proof (induction br hs rule: trailers_loop.induct)
  case (1 br hs)
  obtain br1 l err where l: "ck_line br = (br1, l, err)" using prod_cases3 by blast
  show ?case
  proof (cases "l = ''''")
    case True
    then show ?thesis using "1.prems" l by (simp add: trailers_loop.simps[of br])
  next
    case False
    then have "err = None" using ck_line_parts[OF l] by blast
    then show ?thesis using "1.prems" "1.IH"[OF l[symmetric] refl] l False
      by (auto simp: trailers_loop.simps[of br] split: option.splits)
  qed
qed

lemma chunk_next_error: "chunk_next T c = (c', Some e) \<Longrightarrow> e \<noteq> [EOF]"
  by (auto simp: chunk_next_def Let_def endOfChunk_def readTrailers_def errors_Is_def
      dest!: trailers_loop_error next_line_error split: prod.splits if_splits option.splits)

lemma whole_chunk_error: "whole_chunk T c = (p, c', Some e) \<Longrightarrow> e \<noteq> [EOF]"
  by (auto simp: whole_chunk_def endOfChunk_def Let_def split: if_splits option.splits prod.splits)

lemma chunk_body_signed:
  "chunk_body T c = (p, [EOF], hs) \<Longrightarrow> ck_signer c = Some s \<Longrightarrow>
     \<exists>ds sigs. p = concat ds \<and> [] \<notin> set ds \<and> signed_chain T s (ds @ [[]]) sigs \<and>
       (\<forall>g \<in> set sigs. sublist g (wire c))"
proof (induction T c arbitrary: p hs s rule: chunk_body.induct)
  case (1 T c)
  obtain c1 err where n: "chunk_next T c = (c1, err)" by fastforce
  then have "err = None" using "1.prems"(1) chunk_next_error
    by (cases err) (auto simp: chunk_body.simps[of T c])
  then have n: "chunk_next T c = (c1, None)" using n by simp
  from n show ?case
  proof (cases rule: chunk_next_cases)
    case (last br' header params c2 c4)
    note o = open_chunk_signed[OF last(3), simplified, OF "1.prems"(2)]
    have "ck_want c2 = expect_signature T s (sha256hex [])"
      using endOfChunk_signed[OF last(4), of s "[]"] o by simp
    moreover have "sublist (ck_want c2) (wire c)"
      using o chunk_header_sublist[OF last(2)] next_line_parts[OF last(1)] by (meson sublist_order.order_trans)
    moreover have "ck_left c1 = 0" using last(4,5) by (auto dest!: endOfChunk_frame readTrailers_frame)
    then have "p = []" using "1.prems"(1) n by (simp add: chunk_body.simps[of T c])
    ultimately show ?thesis
      by (intro exI[of _ "[]"] exI[of _ "[ck_want c2]"]) simp
  next
    case (data br' header sz params c2)
    note o = open_chunk_signed[OF data(4), simplified, OF "1.prems"(2)]
    obtain d c3 err where w: "whole_chunk T c1 = (d, c3, err)" using prod_cases3 by blast
    have left: "ck_left c1 = sz" using data by simp
    have "err = None" using "1.prems"(1) n w left data(3)
      by (cases err) (auto simp: chunk_body.simps[of T c] dest: whole_chunk_error)
    then have w: "whole_chunk T c1 = (d, c3, None)" using w by simp
    then obtain q where q: "chunk_body T c3 = (q, [EOF], hs)" "p = d @ q"
      using "1.prems"(1) n left data(3) by (auto simp: chunk_body.simps[of T c] split: prod.splits)
    have c1: "ck_signer c1 = Some s" "ck_hash c1 = Some []" "ck_want c1 = ck_want c2" "ck_br c1 = br'"
      using data(5) o open_chunk_frame[OF data(4)] by simp_all
    have d: "d = take sz (rdata br')" "sz \<le> length (rdata br')" and
      e: "endOfChunk T (c1\<lparr>ck_br := br'\<lparr>rdata := drop sz (rdata br')\<rparr>, ck_hash := Some d, ck_left := 0\<rparr>) = (c3, None)"
      using w c1 left by (auto simp: whole_chunk_def Let_def split: if_splits prod.splits)
    have g: "ck_want c2 = expect_signature T s (sha256hex d)" "ck_signer c3 = Some (s\<lparr>sg_prev := ck_want c2\<rparr>)"
      using endOfChunk_signed[OF e, of s d] c1 by simp_all
    have "suffix (wire c3) (string_of_bytes (rdata br'))"
      using endOfChunk_frame[OF e] by (simp add: string_of_bytes_def drop_map[symmetric] suffix_drop)
    then have wire: "sublist x (wire c)" if "sublist x (wire c3)" for x
      using that next_line_parts[OF data(1)] by (meson sublist_order.order_trans suffix_imp_sublist)
    obtain ds sigs where ds: "q = concat ds" "[] \<notin> set ds" "signed_chain T (s\<lparr>sg_prev := ck_want c2\<rparr>) (ds @ [[]]) sigs"
        "\<forall>g \<in> set sigs. sublist g (wire c3)"
      using "1.IH"[OF n[symmetric] refl _ w[symmetric] refl refl q(1) g(2)] left data(3) by blast
    have "sublist (ck_want c2) (wire c)"
      using o chunk_header_sublist[OF data(2)] next_line_parts[OF data(1)] by (meson sublist_order.order_trans)
    then show ?thesis using ds q(2) g(1) wire d data(3)
      by (intro exI[of _ "d # ds"] exI[of _ "ck_want c2 # sigs"]) auto
  qed
qed

section \<open>What a client sends\<close>

text \<open>A chunk as the client frames it, and a body of chunks signed one over the other.\<close>

definition frame_header :: "nat \<Rightarrow> string \<Rightarrow> bytes" where
  "frame_header n sig = bytes_of_string (fmt_x n @ '';chunk-signature='' @ sig) @ [13, 10]"

definition chunk_frame :: "string \<Rightarrow> bytes \<Rightarrow> bytes" where
  "chunk_frame sig d = frame_header (length d) sig @ d @ [13, 10]"

definition chunk_signature :: "time_lib \<Rightarrow> chunk_signer \<Rightarrow> bytes \<Rightarrow> string" where
  "chunk_signature T s d = expect_signature T s (sha256hex d)"

fun frames :: "time_lib \<Rightarrow> chunk_signer \<Rightarrow> bytes list \<Rightarrow> bytes" where
  "frames T s [] = []"
| "frames T s (d # ds) = chunk_frame (chunk_signature T s d) d @ frames T (s\<lparr>sg_prev := chunk_signature T s d\<rparr>) ds"

fun signer_after :: "time_lib \<Rightarrow> chunk_signer \<Rightarrow> bytes list \<Rightarrow> chunk_signer" where
  "signer_after T s [] = s"
| "signer_after T s (d # ds) = signer_after T (s\<lparr>sg_prev := chunk_signature T s d\<rparr>) ds"

lemma string_of_bytes_of_string [simp]: "string_of_bytes (bytes_of_string s) = s"
proof -
  have "of_char c < (256 :: nat)" for c :: char by (rule nat_of_char_less_256)
  then have "char_of_byte (byte_of_char c) = c" for c
    by (simp add: char_of_byte_def byte_of_char_def unsigned_of_nat take_bit_eq_mod)
  then show ?thesis by (simp add: string_of_bytes_def bytes_of_string_def comp_def)
qed

lemma byte_of_char_newline: "printable c \<Longrightarrow> byte_of_char c \<noteq> 10"
proof
  assume p: "printable c" and "byte_of_char c = 10"
  then have "unat (byte_of_char c) = 10" by simp
  moreover have "of_char c < (256 :: nat)" by (rule nat_of_char_less_256)
  ultimately show False using p by (simp add: byte_of_char_def unsigned_of_nat take_bit_eq_mod printable_def)
qed

lemma ck_line_text:
  assumes "\<forall>c \<in> set h. printable c" "length h \<le> 1000" "rdata br = bytes_of_string h @ [13, 10] @ rest"
  shows "ck_line br = (br\<lparr>rdata := rest\<rparr>, h, None)"
proof -
  have nl: "\<forall>b \<in> set (bytes_of_string h @ [13]). b \<noteq> 10"
    using assms(1) byte_of_char_newline by (auto simp: bytes_of_string_def)
  have "rdata br = (bytes_of_string h @ [13]) @ 10 # rest" using assms(3) by simp
  then have "takeWhile (\<lambda>b. b \<noteq> 10) (rdata br) = bytes_of_string h @ [13]" "dropWhile (\<lambda>b. b \<noteq> 10) (rdata br) = 10 # rest"
    using nl by (auto simp: takeWhile_append2 dropWhile_append3)
  moreover have "char_of (13 :: nat) = CHR 0x0D" "char_of (10 :: nat) = CHR 0x0A" by code_simp+
  ultimately have "ReadString br = (h @ [CHR 0x0D, CHR 0x0A], br\<lparr>rdata := rest\<rparr>, None)"
    by (simp add: ReadString_def string_of_bytes_def[of "bytes_of_string h @ [13, 10]"]
        string_of_bytes_def[of "bytes_of_string h", symmetric] char_of_byte_def)
  moreover have "TrimRight (h @ [CHR 0x0D, CHR 0x0A]) [CHR 0x0D, CHR 0x0A] = h"
    using assms(1) by (cases h rule: rev_cases) (auto simp: TrimRight_def printable_def)
  ultimately show ?thesis using assms(2) by (simp add: ck_line_def maxFramingLine_def)
qed

lemma next_line_text:
  assumes "\<forall>c \<in> set h. printable c" "length h \<le> 1000" "h \<noteq> ''''"
    and "rdata br = lead @ bytes_of_string h @ [13, 10] @ rest" "lead = [] \<or> lead = [13, 10]"
  shows "next_line br = (br\<lparr>rdata := rest\<rparr>, h, None)"
proof -
  have plain: "next_line b = (b\<lparr>rdata := rest\<rparr>, h, None)" if "rdata b = bytes_of_string h @ [13, 10] @ rest" for b
    using ck_line_text[OF assms(1,2) that] assms(3) by (simp add: next_line.simps[of b])
  show ?thesis
  proof (cases "lead = []")
    case False
    then have "ck_line br = (br\<lparr>rdata := bytes_of_string h @ [13, 10] @ rest\<rparr>, '''', None)"
      using assms(4,5) by (intro ck_line_text) (simp_all add: bytes_of_string_def)
    then show ?thesis using plain[of "br\<lparr>rdata := bytes_of_string h @ [13, 10] @ rest\<rparr>"]
      by (simp add: next_line.simps[of br])
  qed (use plain assms(4) in simp)
qed

lemma frame_header_text:
  assumes "n < 2 ^ 63" "\<forall>c \<in> set sig. printable c" "length sig \<le> 900"
  shows "\<forall>c \<in> set (fmt_x n @ '';chunk-signature='' @ sig). printable c"
    and "length (fmt_x n @ '';chunk-signature='' @ sig) \<le> 1000"
    and "chunk_header (fmt_x n @ '';chunk-signature='' @ sig) = Some (n, ''chunk-signature='' @ sig)"
proof -
  show "\<forall>c \<in> set (fmt_x n @ '';chunk-signature='' @ sig). printable c"
    using assms(2) fmt_x_digits[of _ n] by (auto simp: printable_def)
  have "n < 16 ^ Suc 15" using assms(1) by simp
  then show "length (fmt_x n @ '';chunk-signature='' @ sig) \<le> 1000"
    using length_fmt_x[of n 15] assms(3) by simp
  have "Cut (fmt_x n @ CHR '';'' # ''chunk-signature='' @ sig) '';'' = Some (fmt_x n, ''chunk-signature='' @ sig)"
    using fmt_x_digits[of _ n] by (intro Cut_char) blast
  moreover have "TrimSpace (fmt_x n) = fmt_x n" using fmt_x_digits[of _ n] by (intro TrimSpace_printable) blast
  ultimately show "chunk_header (fmt_x n @ '';chunk-signature='' @ sig) = Some (n, ''chunk-signature='' @ sig)"
    using ParseInt_fmt_x[OF assms(1)] by (simp add: chunk_header_def)
qed

lemma chunk_next_frame:
  assumes "ck_signer c = Some s" "n < 2 ^ 63" "\<forall>c \<in> set sig. printable c" "length sig \<le> 900"
    and "rdata (ck_br c) = lead @ frame_header n sig @ rest" "lead = [] \<or> lead = [13, 10]"
  shows "chunk_next T c =
    (let c3 = c\<lparr>ck_br := (ck_br c)\<lparr>rdata := rest\<rparr>, ck_want := sig, ck_hash := Some [], ck_left := n\<rparr> in
     if n = 0 then (case endOfChunk T (c3\<lparr>ck_done := True\<rparr>) of
         (c4, Some e) \<Rightarrow> (c4, Some e) | (c4, None) \<Rightarrow> readTrailers c4)
     else (c3, None))"
proof -
  note t = frame_header_text[OF assms(2-4)]
  have "next_line (ck_br c) = ((ck_br c)\<lparr>rdata := rest\<rparr>, fmt_x n @ '';chunk-signature='' @ sig, None)"
    using assms(5,6) by (intro next_line_text[OF t(1,2)]) (simp_all add: frame_header_def)
  moreover have "TrimSpace (''chunk-signature='' @ sig) = ''chunk-signature='' @ sig"
    using assms(3) by (intro TrimSpace_printable) (auto simp: printable_def)
  then have "open_chunk (''chunk-signature='' @ sig) (c\<lparr>ck_br := (ck_br c)\<lparr>rdata := rest\<rparr>\<rparr>) =
      Some (c\<lparr>ck_br := (ck_br c)\<lparr>rdata := rest\<rparr>, ck_want := sig, ck_hash := Some []\<rparr>)"
    using assms(1) by (simp add: open_chunk_def CutPrefix_def HasPrefix_def)
  ultimately show ?thesis using t(3) by (simp add: chunk_next_def Let_def)
qed

lemma chunk_signature_text: "\<forall>c \<in> set (chunk_signature T s d). printable c" "length (chunk_signature T s d) \<le> 900"
proof -
  have "length (hmacSHA256 k m) = 32" for k m
    by (simp add: hmacSHA256_def hmac_sha256_def Let_def length_sha256)
  then show "length (chunk_signature T s d) \<le> 900"
    by (simp add: chunk_signature_def expect_signature_def sign_def)
  show "\<forall>c \<in> set (chunk_signature T s d). printable c"
    using hex_encode_printable by (auto simp: chunk_signature_def expect_signature_def sign_def)
qed

text \<open>Frames that check are taken off the front of the body, whatever follows them.\<close>

lemma chunk_body_frames:
  assumes "ck_signer c = Some s" "\<forall>d \<in> set ds. d \<noteq> [] \<and> length d < 2 ^ 63"
    and "rdata (ck_br c) = lead @ frames T s ds @ rest" "lead = [] \<or> lead = [13, 10]"
  shows "\<exists>c' lead'. chunk_body T c = (case chunk_body T c' of (q, e, hs) \<Rightarrow> (concat ds @ q, e, hs)) \<and>
    rdata (ck_br c') = lead' @ rest \<and> (lead' = [] \<or> lead' = [13, 10]) \<and> ck_signer c' = Some (signer_after T s ds) \<and>
    rerr (ck_br c') = rerr (ck_br c) \<and> ck_trailers c' = ck_trailers c"
  using assms
proof (induction ds arbitrary: c s lead)
  case Nil
  then show ?case by (intro exI[of _ c] exI[of _ lead]) (auto split: prod.splits)
next
  case (Cons d ds)
  define g where "g = chunk_signature T s d"
  have d: "0 < length d" "length d < 2 ^ 63" using Cons.prems(2) by auto
  define r where "r = [13, 10] @ frames T (s\<lparr>sg_prev := g\<rparr>) ds @ rest"
  define c1 where "c1 = c\<lparr>ck_br := (ck_br c)\<lparr>rdata := d @ r\<rparr>, ck_want := g, ck_hash := Some [], ck_left := length d\<rparr>"
  define c2 where "c2 = c1\<lparr>ck_br := (ck_br c)\<lparr>rdata := r\<rparr>, ck_hash := Some d, ck_left := 0,
    ck_signer := Some (s\<lparr>sg_prev := g\<rparr>)\<rparr>"
  have "chunk_next T c = (c1, None)"
    using chunk_next_frame[OF Cons.prems(1) d(2) chunk_signature_text[of T s d] _ Cons.prems(4), of "d @ r" T] Cons.prems(3) d(1)
    by (simp add: c1_def r_def g_def chunk_frame_def Let_def)
  moreover have "whole_chunk T c1 = (d, c2, None)"
    using Cons.prems(1)
    by (simp add: whole_chunk_def endOfChunk_def c1_def c2_def g_def chunk_signature_def sha256hex_def)
  ultimately have b: "chunk_body T c = (case chunk_body T c2 of (q, e, hs) \<Rightarrow> (d @ q, e, hs))"
    using d(1) by (simp add: chunk_body.simps[of T c] c1_def)
  have c2: "ck_signer c2 = Some (s\<lparr>sg_prev := g\<rparr>)" "rdata (ck_br c2) = [13, 10] @ frames T (s\<lparr>sg_prev := g\<rparr>) ds @ rest"
      "rerr (ck_br c2) = rerr (ck_br c)" "ck_trailers c2 = ck_trailers c"
    by (simp_all add: c2_def c1_def r_def)
  obtain c' lead' where "chunk_body T c2 = (case chunk_body T c' of (q, e, hs) \<Rightarrow> (concat ds @ q, e, hs))"
      "rdata (ck_br c') = lead' @ rest" "lead' = [] \<or> lead' = [13, 10]"
      "ck_signer c' = Some (signer_after T (s\<lparr>sg_prev := g\<rparr>) ds)" "rerr (ck_br c') = rerr (ck_br c)" "ck_trailers c' = ck_trailers c"
    using Cons.IH[OF c2(1) _ c2(2)] Cons.prems(2) c2(3,4) by auto
  then show ?case using b by (intro exI[of _ c'] exI[of _ lead']) (auto simp: g_def split: prod.splits)
qed

lemma chunk_body_last:
  assumes "ck_signer c = Some s" "rdata (ck_br c) = lead @ chunk_frame (chunk_signature T s []) []" "lead = [] \<or> lead = [13, 10]"
  shows "chunk_body T c = ([], [EOF], [])"
proof -
  define g where "g = chunk_signature T s []"
  define c3 where "c3 = c\<lparr>ck_br := (ck_br c)\<lparr>rdata := [13, 10]\<rparr>, ck_want := g, ck_hash := Some [], ck_left := 0, ck_done := True\<rparr>"
  have "endOfChunk T c3 = (c3\<lparr>ck_signer := Some (s\<lparr>sg_prev := g\<rparr>)\<rparr>, None)"
    using assms(1) by (simp add: endOfChunk_def c3_def g_def chunk_signature_def sha256hex_def)
  moreover have "ck_line ((ck_br c)\<lparr>rdata := [13, 10]\<rparr>) = ((ck_br c)\<lparr>rdata := []\<rparr>, '''', None)"
    using ck_line_text[of "''''" "(ck_br c)\<lparr>rdata := [13, 10]\<rparr>" "[]"] by (simp add: bytes_of_string_def)
  then have "readTrailers (c3\<lparr>ck_signer := Some (s\<lparr>sg_prev := g\<rparr>)\<rparr>) =
      (c3\<lparr>ck_signer := Some (s\<lparr>sg_prev := g\<rparr>), ck_br := (ck_br c)\<lparr>rdata := []\<rparr>, ck_trailers := []\<rparr>, None)"
    by (simp add: readTrailers_def c3_def trailers_loop.simps)
  ultimately have "chunk_next T c = (c3\<lparr>ck_signer := Some (s\<lparr>sg_prev := g\<rparr>), ck_br := (ck_br c)\<lparr>rdata := []\<rparr>, ck_trailers := []\<rparr>, None)"
    using chunk_next_frame[OF assms(1) _ chunk_signature_text[of T s "[]"] _ assms(3), of 0 "[13, 10]" T] assms(2)
    by (simp add: chunk_frame_def c3_def g_def Let_def)
  then show ?thesis by (simp add: chunk_body.simps[of T c] c3_def)
qed

lemma chunk_body_cut:
  assumes "ck_signer c = Some s" "k < n" "n < 2 ^ 63" "\<forall>c \<in> set sig. printable c" "length sig \<le> 900"
    and "rdata (ck_br c) = lead @ frame_header n sig @ d" "length d = k" "lead = [] \<or> lead = [13, 10]"
  shows "chunk_body T c = (d, ErrPayload # end_error (ck_br c), ck_trailers c)"
  using chunk_next_frame[OF assms(1,3,4,5,6,8)] assms(2,7)
  by (simp add: chunk_body.simps[of T c] Let_def whole_chunk_def end_error_def)

section \<open>The body a handler reads\<close>

definition chunked_body ::
  "time_lib \<Rightarrow> (nat \<Rightarrow> nat \<times> nat) \<Rightarrow> reader \<Rightarrow> chunk_signer option \<Rightarrow> reader \<times> multimap" where
  "chunked_body T ks body signer = (case drain T ks 0 (newChunkedReader body signer) of
      (p, e, c) \<Rightarrow> (\<lparr>rdata = p, rerr = if e = [EOF] then None else Some e\<rparr>, ck_trailers c))"

lemma chunked_body_eq:
  "chunked_body T ks body signer = (case chunk_body T (newChunkedReader body signer) of
     (p, e, hs) \<Rightarrow> (\<lparr>rdata = p, rerr = if e = [EOF] then None else Some e\<rparr>, hs))"
  using drain_eq_rest[of "newChunkedReader body signer" T ks 0]
  by (auto simp: chunked_body_def newChunkedReader_def body_rest_def split: prod.splits)

lemma chunked_frames_body:
  assumes "\<forall>d \<in> set ds. d \<noteq> [] \<and> length d < 2 ^ 63"
    and "rdata body = frames T s ds @ chunk_frame (chunk_signature T (signer_after T s ds) []) []"
  shows "chunked_body T ks body (Some s) = (bytes_NewReader (concat ds), [])"
proof -
  let ?c = "newChunkedReader body (Some s)"
  obtain c' lead' where "chunk_body T ?c = (case chunk_body T c' of (q, e, hs) \<Rightarrow> (concat ds @ q, e, hs))"
      "rdata (ck_br c') = lead' @ chunk_frame (chunk_signature T (signer_after T s ds) []) []"
      "lead' = [] \<or> lead' = [13, 10]" "ck_signer c' = Some (signer_after T s ds)"
    using chunk_body_frames[of ?c s ds "[]" T] assms by (auto simp: newChunkedReader_def)
  then show ?thesis using chunk_body_last[of c' "signer_after T s ds" lead' T]
    by (simp add: chunked_body_eq bytes_NewReader_def)
qed

text \<open>
  C26. What a signed chunked body yields at its clean end was signed.  If the reader reaches the end of
  the body without an error, what it yielded is a sequence of non-empty chunks that a holder of the
  key signed in this order, followed by the signed empty chunk that ends the body: nothing was
  changed, left out, repeated or reordered, and every signature stands on the wire.
\<close>

theorem chunked_signed:
  assumes "chunked_body T ks body (Some s) = (r, hs)" and "rerr r = None"
  shows "\<exists>ds sigs. rdata r = concat ds \<and> [] \<notin> set ds \<and> signed_chain T s (ds @ [[]]) sigs \<and>
    (\<forall>g \<in> set sigs. sublist g (string_of_bytes (rdata body)))"
proof -
  obtain p where "chunk_body T (newChunkedReader body (Some s)) = (p, [EOF], hs)" "rdata r = p"
    using assms by (auto simp: chunked_body_eq split: prod.splits if_splits)
  then show ?thesis using chunk_body_signed[of T "newChunkedReader body (Some s)" p hs s]
    by (simp add: newChunkedReader_def)
qed

text \<open>
  C29. Chunked framing round trip.  A body framed into signed chunks by a holder of the key reads back
  as the concatenation of the chunks with a clean end, whatever the sizes of the buffers it is read
  into and of the bursts the connection delivers.
\<close>

theorem chunked_roundtrip:
  assumes "\<forall>d \<in> set ds. d \<noteq> [] \<and> length d < 2 ^ 63"
    and "rdata body = frames T s ds @ chunk_frame (chunk_signature T (signer_after T s ds) []) []"
  shows "chunked_body T ks body (Some s) = (bytes_NewReader (concat ds), [])"
  using assms by (rule chunked_frames_body)

definition stub_time :: time_lib where
  "stub_time = \<lparr>tl_Format = \<lambda>layout t. if layout = amz_layout then ''20250101T000000Z'' else ''20250101'',
     tl_Parse = \<lambda>layout raw. if raw = ''20250101T000000Z'' then Some 0 else None, tl_ParseTime = \<lambda>raw. None\<rparr>"

definition demo_signer :: chunk_signer where
  "demo_signer = \<lparr>sg_key = [1, 2], sg_date = 0, sg_scope = ''20250101/r/s3/aws4_request'', sg_prev = ''seed''\<rparr>"

definition demo_chunks :: "bytes list" where
  "demo_chunks = [[1, 2, 3], [4]]"

definition demo_wire :: bytes where
  "demo_wire = frames stub_time demo_signer demo_chunks
     @ chunk_frame (chunk_signature stub_time (signer_after stub_time demo_signer demo_chunks) []) []"

theorem chunked_roundtrip_witness:
  "chunked_body stub_time (\<lambda>i. (i, 1)) (bytes_NewReader demo_wire) (Some demo_signer) = (bytes_NewReader [1, 2, 3, 4], [])"
  using chunked_roundtrip[of demo_chunks "bytes_NewReader demo_wire" stub_time demo_signer "\<lambda>i. (i, 1)"]
  by (simp add: demo_chunks_def demo_wire_def)

theorem chunked_signed_witness:
  "\<exists>ds sigs. [1, 2, 3, 4] = concat ds \<and> [] \<notin> set ds \<and> signed_chain stub_time demo_signer (ds @ [[]]) sigs \<and>
    (\<forall>g \<in> set sigs. sublist g (string_of_bytes demo_wire))"
proof -
  have "chunked_body stub_time (\<lambda>i. (i, 1)) (bytes_NewReader demo_wire) (Some demo_signer) = (bytes_NewReader [1, 2, 3, 4], [])"
    using chunked_frames_body[of demo_chunks "bytes_NewReader demo_wire" stub_time demo_signer "\<lambda>i. (i, 1)"]
    by (simp add: demo_chunks_def demo_wire_def)
  from chunked_signed[OF this] show ?thesis by simp
qed

text \<open>
  A body that stops in the middle of a chunk yields the bytes there were, whatever signature their
  chunk declares, and an error that wraps the end of file below it.
\<close>

lemma chunked_cut_body:
  assumes "\<forall>d \<in> set ds. d \<noteq> [] \<and> length d < 2 ^ 63" and "length d < n" "n < 2 ^ 63"
    and "\<forall>c \<in> set sig. printable c" "length sig \<le> 900"
    and "rdata body = frames T s ds @ frame_header n sig @ d"
  shows "chunked_body T ks body (Some s) =
    (\<lparr>rdata = concat ds @ d, rerr = Some (ErrPayload # end_error body)\<rparr>, [])"
proof -
  let ?c = "newChunkedReader body (Some s)"
  obtain c' lead' where c': "chunk_body T ?c = (case chunk_body T c' of (q, e, hs) \<Rightarrow> (concat ds @ q, e, hs))"
      "rdata (ck_br c') = lead' @ frame_header n sig @ d" "lead' = [] \<or> lead' = [13, 10]"
      "ck_signer c' = Some (signer_after T s ds)" "rerr (ck_br c') = rerr body" "ck_trailers c' = []"
    using chunk_body_frames[of ?c s ds "[]" T] assms by (auto simp: newChunkedReader_def)
  then have "chunk_body T c' = (d, ErrPayload # end_error body, [])"
    using chunk_body_cut[OF c'(4) assms(2,3,4,5) c'(2) refl c'(3)] by (simp add: end_error_def)
  then show ?thesis using c'(1) by (simp add: chunked_body_eq)
qed

end
