(* ===== verification/Quorum.thy ===== *)
theory Quorum
  imports Coordinator
begin

text \<open>
  What an acknowledged write means: the copies, or shards, that are on distinct disks by then, and
  the manifest that names them.
\<close>

section \<open>Coordinators that exist\<close>

text \<open>
  What configuration and membership changes keep: the quorum is within 1 and N, the code is usable
  or absent, the node is in its own membership, and the ring is the one that membership gives.
\<close>

definition coord_wf :: "coord \<Rightarrow> bool" where
  "coord_wf c \<longleftrightarrow> 1 \<le> c_quorum c \<and> c_quorum c \<le> Replicas \<and>
     (c_scheme c = zero_scheme \<or> Valid (c_scheme c)) \<and>
     map_of (mb_peers (c_live c)) (c_self c) = Some (c_addr c) \<and>
     (\<forall>nd a. map_of (mb_peers (c_live c)) nd = Some a \<longrightarrow> map_of (mb_known (c_live c)) nd = Some a) \<and>
     mb_ring (c_live c) = ring_New (sort (remdups (map fst (mb_peers (c_live c))))) DefaultVNodes"

lemma coord_wf_ring [simp]: "coord_wf c \<Longrightarrow> sorted_ring (mb_ring (c_live c))"
  by (simp add: coord_wf_def sorted_ring_New)

lemma SetMembers_wf:
  assumes "1 \<le> c_quorum c" "c_quorum c \<le> Replicas" "c_scheme c = zero_scheme \<or> Valid (c_scheme c)"
  shows "coord_wf (SetMembers c peers)"
  using assms by (auto simp: coord_wf_def SetMembers_def Let_def update_conv' map_add_def split: option.splits)

text \<open>
  Every coordinator the program can build is well formed: a new one, and one after any change
  of membership, quorum or code, accepted or refused.  In particular a node is always in its own
  ring, and no address is forgotten when a node leaves.
\<close>

theorem coord_wf_preserved:
  "coord_wf (cluster_New self addr M chunkSize) \<and>
   (coord_wf c \<longrightarrow> c_self c \<in> ring_nodes (mb_ring (c_live c)) \<and>
      coord_wf (SetMembers c peers) \<and> coord_wf (fst (AcknowledgeAt c n)) \<and> coord_wf (fst (EncodeWith c s)) \<and>
      (\<forall>nd. map_of (mb_known (c_live c)) nd \<noteq> None \<longrightarrow>
         map_of (mb_known (c_live (SetMembers c peers))) nd \<noteq> None))"
proof -
  have known: "map_of (mb_known (c_live c)) nd \<noteq> None \<Longrightarrow>
      map_of (mb_known (c_live (SetMembers c peers))) nd \<noteq> None" for nd
    by (cases "map_of (AList.update (c_self c) (c_addr c) peers) nd")
      (auto simp: SetMembers_def Let_def map_add_def map_of_filter_key split: option.splits)
  have "coord_wf c \<Longrightarrow> c_self c \<in> ring_nodes (mb_ring (c_live c))"
    by (auto simp: coord_wf_def ring_nodes_New DefaultVNodes_def dest: map_of_SomeD intro: rev_image_eqI)
  moreover have "coord_wf (cluster_New self addr M chunkSize)"
    unfolding cluster_New_def by (rule SetMembers_wf) (simp_all add: DefaultWriteQuorum_def Replicas_def)
  moreover have "coord_wf c \<Longrightarrow> coord_wf (SetMembers c peers)"
    by (rule SetMembers_wf) (simp_all add: coord_wf_def)
  moreover have "coord_wf c \<Longrightarrow> coord_wf (fst (AcknowledgeAt c n)) \<and> coord_wf (fst (EncodeWith c s))"
    by (auto simp: coord_wf_def AcknowledgeAt_def EncodeWith_def)
  ultimately show ?thesis using known by blast
qed

definition example_coord :: coord where
  "example_coord = SetMembers (cluster_New ''n1'' ''a1'' example_meta 2) [(''n2'', ''a2'')]"

theorem coord_wf_preserved_witness:
  "coord_wf (cluster_New ''n1'' ''a1'' example_meta 2) \<and> coord_wf example_coord"
  using coord_wf_preserved[of "''n1''" "''a1''" example_meta 2
      "cluster_New ''n1'' ''a1'' example_meta 2" "[(''n2'', ''a2'')]" 1 zero_scheme]
  by (simp add: example_coord_def)

section \<open>Where a chunk goes\<close>

definition route :: "'s sys \<Rightarrow> coord \<Rightarrow> membership \<Rightarrow> string \<Rightarrow> string option" where
  "route X c live ow =
     (if ow = c_self c then Some ow else ev_addr (sy_env X) (addr_of (mb_peers live) ow))"

definition placed :: "'s sys \<Rightarrow> coord \<Rightarrow> membership \<Rightarrow> string \<Rightarrow> disks \<Rightarrow> string \<Rightarrow> bytes option" where
  "placed X c live ow D x = (case route X c live ow of None \<Rightarrow> None | Some n \<Rightarrow> chunk_data (D n) x)"

lemma store_at_self:
  "ow = c_self c \<Longrightarrow> store_at X c live ow D x r crc n =
    (D(ow := fst (local_put (ev_faults (sy_env X) ow x) (ev_now (sy_env X)) x (D ow) x r crc n)),
     snd (local_put (ev_faults (sy_env X) ow x) (ev_now (sy_env X)) x (D ow) x r crc n))"
  by (simp add: store_at_def Let_def split: prod.splits)

lemma store_at_peer:
  "ow \<noteq> c_self c \<Longrightarrow> store_at X c live ow D x r crc n =
    peer_put (sy_env X) (addr_of (mb_peers live) ow) D x r crc n"
  by (simp add: store_at_def Let_def peer_put_def)

lemma placed_self: "ow = c_self c \<Longrightarrow> placed X c live ow D x = chunk_data (D ow) x"
  by (simp add: placed_def route_def)

lemma placed_peer:
  "ow \<noteq> c_self c \<Longrightarrow> placed X c live ow D x = peer_content (sy_env X) (addr_of (mb_peers live) ow) D x"
  by (simp add: placed_def route_def peer_content_def)

interpretation owner: chunk_sink "store_at X c live ow" "placed X c live ow"
  for X :: "'s sys" and c live ow
proof (cases "ow = c_self c")
  case True
  show "chunk_sink (store_at X c live ow) (placed X c live ow)"
  proof (unfold_locales, goal_cases)
    case (1 D x r crc n D')
    let ?p = "local_put (ev_faults (sy_env X) ow x) (ev_now (sy_env X)) x (D ow) x r crc n"
    have "?p = (fst ?p, None)" using 1 by (simp add: store_at_self[OF True] prod_eq_iff)
    from disk.put_ok[OF this] show ?case using 1 by (auto simp: store_at_self[OF True] placed_self[OF True])
  next
    case (2 D x r crc n D' res y)
    let ?p = "local_put (ev_faults (sy_env X) ow x) (ev_now (sy_env X)) x (D ow) x r crc n"
    have "?p = (fst ?p, snd ?p)" by simp
    from disk.put_other[OF this 2(2)] show ?case
      using 2(1) by (auto simp: store_at_self[OF True] placed_self[OF True])
  next
    case (3 D x r crc n D' res)
    let ?p = "local_put (ev_faults (sy_env X) ow x) (ev_now (sy_env X)) x (D ow) x r crc n"
    have "?p = (fst ?p, snd ?p)" by simp
    from disk.put_whole[OF this] show ?case
      using 3 by (auto simp: store_at_self[OF True] placed_self[OF True])
  qed
next
  case False
  have "store_at X c live ow = peer_put (sy_env X) (addr_of (mb_peers live) ow)"
    by (intro ext store_at_peer[OF False])
  moreover have "placed X c live ow = peer_content (sy_env X) (addr_of (mb_peers live) ow)"
    by (intro ext placed_peer[OF False])
  ultimately show "chunk_sink (store_at X c live ow) (placed X c live ow)"
    using remote.chunk_sink_axioms by simp
qed

text \<open>
  The addresses in the membership are right: whoever answers at an owner's address is that owner.
\<close>

definition addresses_right :: "'s sys \<Rightarrow> coord \<Rightarrow> membership \<Rightarrow> bool" where
  "addresses_right X c live \<longleftrightarrow>
     (\<forall>ow n. ow \<noteq> c_self c \<longrightarrow> ev_addr (sy_env X) (addr_of (mb_peers live) ow) = Some n \<longrightarrow> n = ow)"

lemma route_right: "addresses_right X c live \<Longrightarrow> route X c live ow = Some n \<Longrightarrow> n = ow"
  by (auto simp: addresses_right_def route_def split: if_splits)

lemma store_at_elsewhere:
  assumes "store_at X c live ow D x r crc n = (D', res)" "route X c live ow \<noteq> Some nd"
  shows "D' nd = D nd"
proof (cases "ow = c_self c")
  case True
  then show ?thesis using assms by (auto simp: store_at_self route_def)
next
  case False
  then show ?thesis using assms
    by (auto simp: store_at_peer peer_put_def PushChunk_def route_def split: option.splits prod.splits)
qed

text \<open>One step of placing: a success is a good copy on that owner, and nothing else changes.\<close>

lemma store_at_step:
  assumes "addresses_right X c live" "store_at X c live ow D x r crc n = (D', res)"
  shows "res = None \<Longrightarrow> good (chunk_data (D' ow) x) crc n"
    and "nd \<noteq> ow \<Longrightarrow> D' nd = D nd"
    and "y \<noteq> x \<Longrightarrow> chunk_data (D' nd) y = chunk_data (D nd) y"
    and "good (chunk_data (D nd) x) crc n \<Longrightarrow> good (chunk_data (D' nd) x) crc n"
proof -
  have elsewhere: "D' nd = D nd" if "nd \<noteq> ow" for nd
    using store_at_elsewhere[OF assms(2)] route_right[OF assms(1)] that by blast
  have unrouted: "D' nd = D nd" if "route X c live ow = None" for nd
    using store_at_elsewhere[OF assms(2)] that by simp
  show "good (chunk_data (D' ow) x) crc n" if "res = None"
  proof -
    have "good (placed X c live ow D' x) crc n" using owner.put_ok assms(2) that by blast
    then show ?thesis using route_right[OF assms(1), of ow]
      by (auto simp: placed_def good_def split: option.splits)
  qed
  show "nd \<noteq> ow \<Longrightarrow> D' nd = D nd" by (rule elsewhere)
  show "chunk_data (D' nd) y = chunk_data (D nd) y" if "y \<noteq> x"
  proof (cases "nd = ow \<and> route X c live ow \<noteq> None")
    case True
    then have "route X c live ow = Some ow" using route_right[OF assms(1)] by blast
    then show ?thesis using owner.put_other[OF assms(2) that] True by (simp add: placed_def)
  qed (use elsewhere unrouted in \<open>metis\<close>)
  show "good (chunk_data (D' nd) x) crc n" if "good (chunk_data (D nd) x) crc n"
  proof (cases "nd = ow \<and> route X c live ow \<noteq> None")
    case True
    then have "route X c live ow = Some ow" using route_right[OF assms(1)] by blast
    then show ?thesis using owner.put_keeps_good[OF assms(2)] that True by (simp add: placed_def)
  qed (use elsewhere unrouted that in \<open>metis\<close>)
qed

section \<open>Counting acknowledgements\<close>

text \<open>A family of stores, one per job, each on its own disk and with its own id.\<close>

definition store_family ::
  "('o \<Rightarrow> disks \<Rightarrow> disks \<times> error option) \<Rightarrow> ('o \<Rightarrow> string) \<Rightarrow> ('o \<Rightarrow> string) \<Rightarrow> ('o \<Rightarrow> uint32) \<Rightarrow> ('o \<Rightarrow> int) \<Rightarrow> bool"
  where
  "store_family f at xid crc sz \<longleftrightarrow> (\<forall>j D D' res. f j D = (D', res) \<longrightarrow>
     (res = None \<longrightarrow> good (chunk_data (D' (at j)) (xid j)) (crc j) (sz j)) \<and>
     (\<forall>nd y. nd \<noteq> at j \<or> y \<noteq> xid j \<longrightarrow> chunk_data (D' nd) y = chunk_data (D nd) y))"

lemma store_familyD:
  assumes "store_family f at xid crc sz" "f j D = (D', res)"
  shows "res = None \<Longrightarrow> good (chunk_data (D' (at j)) (xid j)) (crc j) (sz j)"
    and "nd \<noteq> at j \<or> y \<noteq> xid j \<Longrightarrow> chunk_data (D' nd) y = chunk_data (D nd) y"
  using assms unfolding store_family_def by blast+

lemma store_each_frame:
  assumes "store_family f at xid crc sz"
  shows "store_each f js D = (D', errs) \<Longrightarrow> (\<forall>j \<in> set js. nd \<noteq> at j \<or> y \<noteq> xid j) \<Longrightarrow>
    chunk_data (D' nd) y = chunk_data (D nd) y"
proof (induction js arbitrary: D errs)
  case (Cons j js)
  obtain D1 e where f: "f j D = (D1, e)" by fastforce
  with Cons.prems obtain errs' where "store_each f js D1 = (D', errs')" by (auto split: prod.splits)
  from Cons.IH[OF this] Cons.prems(2) store_familyD(2)[OF assms f, of nd y] show ?case by simp
qed simp

lemma store_each_acks:
  assumes "store_family f at xid crc sz"
  shows "store_each f js D = (D', errs) \<Longrightarrow> distinct (map (\<lambda>j. (at j, xid j)) js) \<Longrightarrow>
    acks errs \<le> int (card {j \<in> set js. good (chunk_data (D' (at j)) (xid j)) (crc j) (sz j)})"
proof (induction js arbitrary: D errs)
  case Nil
  then show ?case by (simp add: acks_def)
next
  case (Cons j js)
  let ?G = "\<lambda>D j. good (chunk_data (D (at j)) (xid j)) (crc j) (sz j)"
  obtain D1 e where f: "f j D = (D1, e)" by fastforce
  with Cons.prems obtain errs' where r: "store_each f js D1 = (D', errs')" "errs = e # errs'"
    by (auto split: prod.splits)
  have IH: "acks errs' \<le> int (card {j \<in> set js. ?G D' j})" using Cons.IH[OF r(1)] Cons.prems(2) by simp
  have fresh: "\<forall>j' \<in> set js. at j \<noteq> at j' \<or> xid j \<noteq> xid j'" using Cons.prems(2) by force
  then have "j \<notin> set js" by blast
  show ?case
  proof (cases e)
    case None
    have "?G D1 j" using store_familyD(1)[OF assms f] None by simp
    then have "?G D' j" using store_each_frame[OF assms r(1) fresh] by simp
    then have "{j' \<in> set (j # js). ?G D' j'} = insert j {j' \<in> set js. ?G D' j'}" by auto
    then show ?thesis using IH r(2) None \<open>j \<notin> set js\<close> by (simp add: acks_def)
  next
    case (Some x)
    have "card {j' \<in> set js. ?G D' j'} \<le> card {j' \<in> set (j # js). ?G D' j'}"
      by (rule card_mono) auto
    then show ?thesis using IH r(2) Some by (simp add: acks_def)
  qed
qed

lemma storeChunk_family:
  assumes "addresses_right X c live"
  shows "store_family (storeChunk X c live ref data) (\<lambda>ow. ow) (\<lambda>_. cr_ID ref) (\<lambda>_. cr_CRC ref) (\<lambda>_. cr_Size ref)"
  unfolding store_family_def storeChunk_def using store_at_step[OF assms] by metis

lemma storeShard_family:
  assumes "addresses_right X c live"
  shows "store_family (storeShard X c live ref) (\<lambda>(i, ow, b). ow) (\<lambda>(i, ow, b). ShardID ref i)
    (\<lambda>(i, ow, b). cr_Shards ref ! i) (\<lambda>(i, ow, b). int (length b))"
  unfolding store_family_def storeShard_def using store_at_step[OF assms] by (auto; metis)


section \<open>Ids of one write\<close>

definition touched :: "chunk_ref \<Rightarrow> string \<Rightarrow> bool" where
  "touched ref x \<longleftrightarrow> x = cr_ID ref \<or> (\<exists>i. x = ShardID ref i)"

lemma digits_then_s:
  assumes "\<forall>ch \<in> set a. is_digit ch" "\<forall>ch \<in> set b. is_digit ch"
  shows "a @ CHR ''s'' # u = b @ CHR ''s'' # v \<longleftrightarrow> a = b \<and> u = v"
proof -
  have "\<not> is_digit (CHR ''s'')" by (simp add: is_digit_def less_eq_char_def)
  then have tw: "takeWhile is_digit (a @ CHR ''s'' # w) = a" "takeWhile is_digit (b @ CHR ''s'' # w) = b" for w
    using assms by (simp_all add: takeWhile_append2)
  show ?thesis
  proof
    assume eq: "a @ CHR ''s'' # u = b @ CHR ''s'' # v"
    then have "a = b" using tw by metis
    with eq show "a = b \<and> u = v" by simp
  qed simp
qed

lemma digits_not_s: "\<forall>ch \<in> set a. is_digit ch \<Longrightarrow> a \<noteq> b @ CHR ''s'' # v"
  by (auto simp: is_digit_def less_eq_char_def)

lemma touched_disjoint:
  assumes "describes pre i ref d" "describes pre j ref' d'" "i \<noteq> j" "touched ref x"
  shows "\<not> touched ref' x"
proof -
  have i: "cr_ID ref = pre @ fmt_0d indexWidth i" and j: "cr_ID ref' = pre @ fmt_0d indexWidth j"
    using assms(1,2) by (simp_all add: describes_def)
  note digs = fmt_0d_digits
  show ?thesis
    using assms(3,4) digits_then_s[OF digs digs] digits_not_s[OF digs]
    by (auto simp: touched_def ShardID_def i j) (metis append_Cons)+
qed

lemma ShardID_inj: "ShardID ref i = ShardID ref j \<longleftrightarrow> i = j"
  by (simp add: ShardID_def)

section \<open>A chunk that is safe\<close>

definition copies :: "disks \<Rightarrow> string list \<Rightarrow> chunk_ref \<Rightarrow> string set" where
  "copies D nodes ref = {ow \<in> set nodes. good (chunk_data (D ow) (cr_ID ref)) (cr_CRC ref) (cr_Size ref)}"

definition shards_held :: "disks \<Rightarrow> string list \<Rightarrow> chunk_ref \<Rightarrow> nat set" where
  "shards_held D nodes ref = {i. i < length nodes \<and> i < length (cr_Shards ref) \<and>
     (\<exists>b. chunk_data (D (nodes ! i)) (ShardID ref i) = Some b \<and> CRC32C b = cr_Shards ref ! i)}"

definition chunk_safe :: "coord \<Rightarrow> string list \<Rightarrow> disks \<Rightarrow> chunk_ref \<Rightarrow> bool" where
  "chunk_safe c nodes D ref \<longleftrightarrow>
     (if c_scheme c = zero_scheme then c_quorum c \<le> int (card (copies D nodes ref))
      else min (sc_Data (c_scheme c) + 1) (Shards (c_scheme c)) \<le> int (card (shards_held D nodes ref)))"

lemma chunk_safe_cong:
  assumes "\<And>nd x. touched ref x \<Longrightarrow> chunk_data (D' nd) x = chunk_data (D nd) x"
  shows "chunk_safe c nodes D' ref \<longleftrightarrow> chunk_safe c nodes D ref"
proof -
  have "copies D' nodes ref = copies D nodes ref"
    using assms by (simp add: copies_def touched_def)
  moreover have "shards_held D' nodes ref = shards_held D nodes ref"
    using assms by (simp add: shards_held_def touched_def) metis
  ultimately show ?thesis by (simp add: chunk_safe_def)
qed

lemma replicate_chunk_safe:
  assumes "addresses_right X c live" "distinct owners"
    "replicate_chunk X c live owners ref data D = (D', None)"
  shows "c_quorum c \<le> int (card (copies D' owners ref))"
    and "\<not> touched ref x \<Longrightarrow> chunk_data (D' nd) x = chunk_data (D nd) x"
proof -
  obtain errs where r: "store_each (storeChunk X c live ref data) owners D = (D', errs)"
    and ok: "\<not> acks errs < c_quorum c"
    using assms(3) by (auto simp: replicate_chunk_def split: prod.splits if_splits)
  note fam = storeChunk_family[OF assms(1), of ref data]
  have dist: "distinct (map (\<lambda>j. (j, cr_ID ref)) owners)"
    using assms(2) by (simp add: distinct_map inj_on_def)
  show "c_quorum c \<le> int (card (copies D' owners ref))"
    using store_each_acks[OF fam r dist] ok by (simp add: copies_def)
  show "chunk_data (D' nd) x = chunk_data (D nd) x" if "\<not> touched ref x"
    using store_each_frame[OF fam r, of nd x] that by (auto simp: touched_def)
qed

lemma cluster_encode_safe:
  assumes "addresses_right X c live" "distinct owners"
    "cluster_encode X c live owners ref data D = (D', Inr ref')"
  shows "\<exists>sums. ref' = ref\<lparr>cr_Shards := sums\<rparr>"
    and "min (sc_Data (c_scheme c) + 1) (Shards (c_scheme c)) \<le> int (card (shards_held D' owners ref'))"
    and "\<not> touched ref x \<Longrightarrow> chunk_data (D' nd) x = chunk_data (D nd) x"
proof -
  obtain shards errs where e: "Encode (sy_rs X) (c_scheme c) data = Inr shards"
    and ref': "ref' = ref\<lparr>cr_Shards := map CRC32C shards\<rparr>"
    and r: "store_each (storeShard X c live ref') (zip [0..<length shards] (zip owners shards)) D = (D', errs)"
    and ok: "\<not> acks errs < min (sc_Data (c_scheme c) + 1) (Shards (c_scheme c))"
    using assms(3) by (auto simp: cluster_encode_def Let_def split: prod.splits if_splits sum.splits)
  let ?jobs = "zip [0..<length shards] (zip owners shards)"
  note fam = storeShard_family[OF assms(1), of ref']
  show "\<exists>sums. ref' = ref\<lparr>cr_Shards := sums\<rparr>" using ref' by blast
  have jobs: "j \<in> set ?jobs \<Longrightarrow> \<exists>i < min (length owners) (length shards). j = (i, owners ! i, shards ! i)" for j
    by (auto simp: set_zip)
  have "distinct (map fst ?jobs)" by (simp add: map_fst_zip_take)
  then have dist: "distinct (map (\<lambda>j. ((\<lambda>(i, ow, b). ow) j, (\<lambda>(i, ow, b). ShardID ref' i) j)) ?jobs)"
    unfolding distinct_map inj_on_def by (auto simp: ShardID_inj dest!: jobs)
  let ?good = "{j \<in> set ?jobs. good (chunk_data (D' ((\<lambda>(i, ow, b). ow) j)) ((\<lambda>(i, ow, b). ShardID ref' i) j))
      ((\<lambda>(i, ow, b). cr_Shards ref' ! i) j) ((\<lambda>(i, ow, b). int (length b)) j)}"
  have inj: "inj_on fst ?good"
    by (rule inj_on_subset[of fst "set ?jobs"]) (use \<open>distinct (map fst ?jobs)\<close> in \<open>auto simp: distinct_map\<close>)
  have sub: "fst ` ?good \<subseteq> shards_held D' owners ref'"
  proof
    fix i assume "i \<in> fst ` ?good"
    then obtain j where j: "j \<in> ?good" "i = fst j" by blast
    then obtain k where k: "k < min (length owners) (length shards)" "j = (k, owners ! k, shards ! k)"
      using jobs[of j] by blast
    then have "good (chunk_data (D' (owners ! k)) (ShardID ref' k)) (cr_Shards ref' ! k) (int (length (shards ! k)))"
      using j(1) by simp
    then show "i \<in> shards_held D' owners ref'"
      using j(2) k ref' by (simp add: shards_held_def good_def split: option.splits)
  qed
  have "finite (shards_held D' owners ref')" by (simp add: shards_held_def)
  then have "card ?good \<le> card (shards_held D' owners ref')"
    using card_mono[OF _ sub] card_image[OF inj] by simp
  then show "min (sc_Data (c_scheme c) + 1) (Shards (c_scheme c)) \<le> int (card (shards_held D' owners ref'))"
    using store_each_acks[OF fam r dist] ok by linarith
  show "chunk_data (D' nd) x = chunk_data (D nd) x" if "\<not> touched ref x"
    using store_each_frame[OF fam r, of nd x] that ref'
    by (auto simp: touched_def ShardID_def split: prod.splits)
qed


section \<open>Through the whole write\<close>

lemma place_chunk_safe:
  assumes "addresses_right X c live" "distinct owners"
    "place_chunk X c live owners ref data D = (D', Inr ref')"
  shows "\<exists>sums. ref' = ref\<lparr>cr_Shards := sums\<rparr>"
    and "chunk_safe c owners D' ref'"
    and "\<not> touched ref x \<Longrightarrow> chunk_data (D' nd) x = chunk_data (D nd) x"
proof -
  have "(\<exists>sums. ref' = ref\<lparr>cr_Shards := sums\<rparr>) \<and> chunk_safe c owners D' ref' \<and>
      (\<not> touched ref x \<longrightarrow> chunk_data (D' nd) x = chunk_data (D nd) x)" for x nd
  proof (cases "c_scheme c = zero_scheme")
    case True
    then have "replicate_chunk X c live owners ref data D = (D', None)" "ref' = ref"
      using assms(3) by (auto simp: place_chunk_def split: prod.splits option.splits)
    moreover have "ref = ref\<lparr>cr_Shards := cr_Shards ref\<rparr>" by simp
    ultimately show ?thesis
      using replicate_chunk_safe[OF assms(1,2)] True unfolding chunk_safe_def by metis
  next
    case False
    then have "cluster_encode X c live owners ref data D = (D', Inr ref')"
      using assms(3) by (simp add: place_chunk_def)
    from cluster_encode_safe[OF assms(1,2) this] show ?thesis using False by (simp add: chunk_safe_def)
  qed
  then show "\<exists>sums. ref' = ref\<lparr>cr_Shards := sums\<rparr>" "chunk_safe c owners D' ref'"
    "\<not> touched ref x \<Longrightarrow> chunk_data (D' nd) x = chunk_data (D nd) x" by blast+
qed

lemma writingKey_not_object [simp]: "writingKey M i \<noteq> meta_key M k" "meta_key M k \<noteq> writingKey M i"
  by (simp_all add: writingKey_def writingPrefix_def meta_key_def objects_prefix_def join_def)

lemma committed_writing [simp]:
  "committed M (kv_put v (writingKey M i) x) = committed M v"
  "committed M (kv_drop v (\<lambda>y. y = writingKey M i)) = committed M v"
  by (auto simp: committed_def fun_eq_iff)

context etcd_client
begin

lemma MarkWriting_committed:
  "MarkWriting E M s i n = (s', r) \<Longrightarrow> committed M (view s') = committed M (view s)"
  using et_unit_any[of s "EPut (writingKey M i) (SString n)" s' r]
  by (auto simp: MarkWriting_def split: if_splits)

lemma DoneWriting_committed:
  "committed M (view (fst (DoneWriting E M s i))) = committed M (view s)"
proof -
  obtain s' r where d: "DoneWriting E M s i = (s', r)" by fastforce
  with et_unit_any[of s "EDelete (writingKey M i)" s' r] show ?thesis by (auto simp: DoneWriting_def)
qed

end

lemma stopWriting_disks [simp]: "w_disks (stopWriting X c w i) = w_disks w"
  by (simp add: stopWriting_def)

lemma stopWriting_committed:
  "etcd_client (sy_etcd X) view \<Longrightarrow>
    committed (c_meta c) (view (w_kv (stopWriting X c w i))) = committed (c_meta c) (view (w_kv w))"
  by (simp add: stopWriting_def etcd_client.DoneWriting_committed)

lemma announce_spec:
  assumes "announce X c st ref data = (st1, err)"
  shows "w_disks (ws_world st1) = w_disks (ws_world st)" "ws_hashed st1 = ws_hashed st"
    and "etcd_client (sy_etcd X) view \<Longrightarrow>
      committed (c_meta c) (view (w_kv (ws_world st1))) = committed (c_meta c) (view (w_kv (ws_world st)))"
  using assms
  by (auto simp: announce_def Let_def etcd_client.MarkWriting_committed split: if_splits prod.splits)

text \<open>What committing one chunk guarantees.\<close>

lemma commit_chunk_safe:
  assumes "addresses_right X c live" "distinct owners"
    "commit_chunk X c live owners st ref data = (st', Inr ref')"
  shows "\<exists>sums. ref' = ref\<lparr>cr_Shards := sums\<rparr>"
    and "chunk_safe c owners (w_disks (ws_world st')) ref'"
    and "\<not> touched ref x \<Longrightarrow>
      chunk_data (w_disks (ws_world st') nd) x = chunk_data (w_disks (ws_world st) nd) x"
    and "ws_hashed st' = ws_hashed st @ data"
    and "etcd_client (sy_etcd X) view \<Longrightarrow>
      committed (c_meta c) (view (w_kv (ws_world st'))) = committed (c_meta c) (view (w_kv (ws_world st)))"
proof -
  obtain st1 D' where a: "announce X c st ref data = (st1, None)"
    and p: "place_chunk X c live owners ref data (w_disks (ws_world st1)) = (D', Inr ref')"
    and st': "st' = st1\<lparr>ws_hashed := ws_hashed st1 @ data, ws_world := (ws_world st1)\<lparr>w_disks := D'\<rparr>\<rparr>"
    using assms(3) by (auto simp: commit_chunk_def split: prod.splits option.splits)
  note an = announce_spec[OF a] and pl = place_chunk_safe[OF assms(1,2) p]
  show "\<exists>sums. ref' = ref\<lparr>cr_Shards := sums\<rparr>" "chunk_safe c owners (w_disks (ws_world st')) ref'"
    "\<not> touched ref x \<Longrightarrow> chunk_data (w_disks (ws_world st') nd) x = chunk_data (w_disks (ws_world st) nd) x"
    "ws_hashed st' = ws_hashed st @ data"
    "etcd_client (sy_etcd X) view \<Longrightarrow>
      committed (c_meta c) (view (w_kv (ws_world st'))) = committed (c_meta c) (view (w_kv (ws_world st)))"
    using pl an st' by simp_all
qed

lemma commit_chunk_keeps_ref:
  assumes "addresses_right X c live" "distinct owners"
  shows "keeps_ref (commit_chunk X c live owners)"
  using commit_chunk_safe(1)[OF assms] unfolding keeps_ref_def by fastforce

text \<open>Every chunk committed so far stays safe while the later ones are placed.\<close>

lemma commit_all_safe:
  assumes "addresses_right X c live" "distinct owners"
  shows "commit_all pre (commit_chunk X c live owners) i m ds st = (st', Inr m') \<Longrightarrow>
    (\<forall>k < length (m_Chunks m). \<exists>j < i. \<exists>d. describes pre j (m_Chunks m ! k) d) \<Longrightarrow>
    (\<forall>ref \<in> set (m_Chunks m). chunk_safe c owners (w_disks (ws_world st)) ref) \<Longrightarrow>
    (\<forall>ref \<in> set (m_Chunks m'). chunk_safe c owners (w_disks (ws_world st')) ref) \<and>
    ws_hashed st' = ws_hashed st @ concat ds \<and>
    (etcd_client (sy_etcd X) view \<longrightarrow>
      committed (c_meta c) (view (w_kv (ws_world st'))) = committed (c_meta c) (view (w_kv (ws_world st))))"
proof (induction ds arbitrary: i m st)
  case (Cons d ds)
  obtain st1 res where cc: "commit_chunk X c live owners st (new_ref pre i d) d = (st1, res)" by fastforce
  with Cons.prems(1) obtain ref where res: "res = Inr ref" by (cases res) auto
  let ?m = "m\<lparr>m_Chunks := m_Chunks m @ [ref], m_Size := m_Size m + cr_Size ref\<rparr>"
  have run: "commit_all pre (commit_chunk X c live owners) (i + 1) ?m ds st1 = (st', Inr m')"
    using Cons.prems(1) cc res by simp
  note safe = commit_chunk_safe[OF assms cc[unfolded res]]
  have ref: "describes pre i ref d" using safe(1) by (auto simp: describes_def new_ref_def)
  have new: "describes pre i (new_ref pre i d) d" by (simp add: describes_def new_ref_def)
  have frame: "chunk_data (w_disks (ws_world st1) nd) x = chunk_data (w_disks (ws_world st) nd) x"
    if old: "old \<in> set (m_Chunks m)" and tx: "touched old x" for old nd x
  proof -
    obtain k where "k < length (m_Chunks m)" "old = m_Chunks m ! k"
      using old unfolding in_set_conv_nth by blast
    then obtain j d' where j: "j < i" "describes pre j old d'" using Cons.prems(2) by blast
    then have "\<not> touched (new_ref pre i d) x" using touched_disjoint[OF j(2) new _ tx] by simp
    then show ?thesis by (rule safe(3))
  qed
  have "\<forall>old \<in> set (m_Chunks m). chunk_safe c owners (w_disks (ws_world st1)) old"
  proof
    fix old assume old: "old \<in> set (m_Chunks m)"
    have "chunk_safe c owners (w_disks (ws_world st1)) old \<longleftrightarrow> chunk_safe c owners (w_disks (ws_world st)) old"
      by (rule chunk_safe_cong) (rule frame[OF old])
    then show "chunk_safe c owners (w_disks (ws_world st1)) old" using Cons.prems(3) old by blast
  qed
  then have all: "\<forall>old \<in> set (m_Chunks ?m). chunk_safe c owners (w_disks (ws_world st1)) old"
    using safe(2) by simp
  have idx: "\<forall>k < length (m_Chunks ?m). \<exists>j < i + 1. \<exists>d. describes pre j (m_Chunks ?m ! k) d"
  proof (intro allI impI)
    fix k assume k: "k < length (m_Chunks ?m)"
    show "\<exists>j < i + 1. \<exists>d. describes pre j (m_Chunks ?m ! k) d"
    proof (cases "k < length (m_Chunks m)")
      case True
      then obtain j d' where "j < i" "describes pre j (m_Chunks m ! k) d'" using Cons.prems(2) by blast
      then show ?thesis using True by (intro exI[of _ j]) (auto simp: nth_append)
    next
      case False
      then have "m_Chunks ?m ! k = ref" using k by (simp add: nth_append less_Suc_eq)
      then show ?thesis using ref by (intro exI[of _ i]) auto
    qed
  qed
  from Cons.IH[OF run idx all] safe(4,5) show ?case by simp
qed simp

text \<open>What \<^verbatim>\<open>write\<close> hands back: a manifest that describes the body and whose chunks are safe.\<close>

definition writes :: "coord \<Rightarrow> string \<Rightarrow> string \<Rightarrow> bytes \<Rightarrow> disks \<Rightarrow> manifest \<Rightarrow> bool" where
  "writes c key pre data D m \<longleftrightarrow>
     m_Nodes m = Owners (mb_ring (c_live c)) (PartitionFor key) (width c) \<and>
     m_Coding m = c_scheme c \<and> m_Size m = int (length data) \<and>
     length (m_Chunks m) = length (cuts (nat (c_chunkSize c)) data) \<and>
     (\<forall>k < length (m_Chunks m).
        describes pre k (m_Chunks m ! k) (cuts (nat (c_chunkSize c)) data ! k) \<and>
        chunk_safe c (m_Nodes m) D (m_Chunks m ! k))"

lemma cluster_write_ok:
  assumes "addresses_right X c (c_live c)" "0 < c_chunkSize c" "coord_wf c"
    "cluster_write X c w key body expect pre = (w1, Inr (m, writing))"
  shows "writes c key pre (rdata body) (w_disks w1) m \<and> m_ETag m = hex_encode (md5 (rdata body)) \<and>
    m_CRC32C m = Some (CRC32C (rdata body)) \<and> m_CRC32 m = Some (CRC32 (rdata body)) \<and>
    m_CRC64NVME m = Some (CRC64NVME (rdata body)) \<and>
    (etcd_client (sy_etcd X) view \<longrightarrow>
       committed (c_meta c) (view (w_kv w1)) = committed (c_meta c) (view (w_kv w)))"
proof -
  let ?owners = "Owners (mb_ring (c_live c)) (PartitionFor key) (width c)"
  let ?commit = "commit_chunk X c (c_live c) ?owners"
  let ?st = "\<lparr>ws_world = w, ws_writing = [], ws_hashed = []\<rparr>"
  let ?n = "nat (c_chunkSize c)"
  have dist: "distinct ?owners" using assms(3) by (intro distinct_Owners) simp
  obtain st mw where run: "Write body (c_chunkSize c) expect pre ?commit ?st = (st, Inr mw)"
    and w1: "w1 = ws_world st"
    and m: "m = mw\<lparr>m_Nodes := ?owners, m_Coding := c_scheme c,
        m_ETag := hex_encode (md5 (ws_hashed st)), m_CRC32C := Some (CRC32C (ws_hashed st)),
        m_CRC32 := Some (CRC32 (ws_hashed st)), m_CRC64NVME := Some (CRC64NVME (ws_hashed st)),
        m_Modified := truncate_second (ev_now (sy_env X))\<rparr>"
    using assms(4) by (auto simp: cluster_write_def Let_def split: if_splits prod.splits sum.splits)
  have all: "commit_all pre ?commit 0 zero_manifest (whole_pieces ?n body) ?st = (st, Inr mw)"
    and src: "source_error body = None"
    using run unfolding Write_chunks_spec[OF assms(2)]
    by (auto split: prod.splits sum.splits option.splits)
  note safe = commit_all_safe[OF assms(1) dist all, where view = view]
  have "whole_pieces ?n body = cuts ?n (rdata body)" using src by (simp add: whole_pieces_def)
  then have hashed: "ws_hashed st = rdata body" using safe assms(2) by (simp add: zero_manifest_def)
  note shape = Write_manifest_shape[OF assms(2) commit_chunk_keeps_ref[OF assms(1) dist] run]
  show ?thesis using safe shape hashed m w1 by (simp add: writes_def zero_manifest_def)
qed

lemma commit_manifest_ok:
  assumes "etcd_client (sy_etcd X) view" "commit_manifest X c kv key m writing = (kv', None)"
  shows "committed (c_meta c) (view kv') = (committed (c_meta c) (view kv))(key \<mapsto> m)"
proof (cases "writing = []")
  case True
  then show ?thesis using assms(2) etcd_client.et_unit_ok[OF assms(1)]
    by (simp add: commit_manifest_def meta_Commit_def)
next
  case False
  then show ?thesis using assms(2) etcd_client.CommitWhileWriting_spec[OF assms(1)]
    by (fastforce simp: commit_manifest_def)
qed

lemma cluster_Put_ok:
  assumes "cluster_Put X c w key body opts pre = (w', Inr m)"
  obtains w1 m0 writing kv' where "cluster_write X c w key body (po_Size opts) pre = (w1, Inr (m0, writing))"
    "put_checks m0 opts = None"
    "m = m0\<lparr>m_ETag := cmp_Or (po_ETag opts) (m_ETag m0), m_ContentType := po_ContentType opts,
        m_Meta := po_Meta opts\<rparr>"
    "commit_manifest X c (w_kv w1) key m writing = (kv', None)"
    "w' = stopWriting X c (w1\<lparr>w_kv := kv'\<rparr>) writing"
  using assms by (auto simp: cluster_Put_def Let_def split: prod.splits sum.splits option.splits)

lemma Put_acked:
  assumes "etcd_client (sy_etcd X) view"
    and "addresses_right X c (c_live c)"
    and "0 < c_chunkSize c" and "coord_wf c"
    and "cluster_Put X c w key body opts pre = (w', Inr m)"
  shows "committed (c_meta c) (view (w_kv w')) = (committed (c_meta c) (view (w_kv w)))(key \<mapsto> m) \<and>
    distinct (m_Nodes m) \<and>
    m_Nodes m = Owners (mb_ring (c_live c)) (PartitionFor key) (width c) \<and>
    m_Coding m = c_scheme c \<and> m_Size m = int (length (rdata body)) \<and>
    length (m_Chunks m) = length (cuts (nat (c_chunkSize c)) (rdata body)) \<and>
    (\<forall>k < length (m_Chunks m).
       describes pre k (m_Chunks m ! k) (cuts (nat (c_chunkSize c)) (rdata body) ! k) \<and>
       chunk_safe c (m_Nodes m) (w_disks w') (m_Chunks m ! k))"
proof -
  obtain w1 m0 writing kv' where wr: "cluster_write X c w key body (po_Size opts) pre = (w1, Inr (m0, writing))"
    and m: "m = m0\<lparr>m_ETag := cmp_Or (po_ETag opts) (m_ETag m0), m_ContentType := po_ContentType opts,
        m_Meta := po_Meta opts\<rparr>"
    and com: "commit_manifest X c (w_kv w1) key m writing = (kv', None)"
    and w': "w' = stopWriting X c (w1\<lparr>w_kv := kv'\<rparr>) writing"
    using cluster_Put_ok[OF assms(5)] by metis
  note ok = cluster_write_ok[OF assms(2-4) wr, where view = view]
  have "distinct (m_Nodes m)" using ok m assms(4) by (auto simp: writes_def intro: distinct_Owners)
  moreover have "committed (c_meta c) (view (w_kv w')) = (committed (c_meta c) (view (w_kv w)))(key \<mapsto> m)"
    using commit_manifest_ok[OF assms(1) com] stopWriting_committed[OF assms(1)] w' ok assms(1) by simp
  moreover have "writes c key pre (rdata body) (w_disks w') m" using ok m w' by (auto simp: writes_def)
  ultimately show ?thesis unfolding writes_def by blast
qed

text \<open>
  C1. An acknowledged write is durable and named.  When \<^verbatim>\<open>Put\<close> returns a manifest, that manifest is
  committed under the key and no other key changed, it describes the body exactly (length, and
  every chunk's length and checksum), its placement is the distinct owners of the key's partition,
  and every chunk is safe: good copies on at least \<^verbatim>\<open>W\<close> of the owners, or for an erasure-coded
  object good shards on at least \<^verbatim>\<open>Data + 1\<close> of them.
\<close>

theorem Put_acknowledged:
  assumes "etcd_client (sy_etcd X) view"
    and "addresses_right X c (c_live c)"
    and "0 < c_chunkSize c" and "coord_wf c"
    and "cluster_Put X c w key body opts pre = (w', Inr m)"
  shows "committed (c_meta c) (view (w_kv w')) = (committed (c_meta c) (view (w_kv w)))(key \<mapsto> m) \<and>
    distinct (m_Nodes m) \<and>
    m_Nodes m = Owners (mb_ring (c_live c)) (PartitionFor key) (width c) \<and>
    m_Coding m = c_scheme c \<and> m_Size m = int (length (rdata body)) \<and>
    length (m_Chunks m) = length (cuts (nat (c_chunkSize c)) (rdata body)) \<and>
    (\<forall>k < length (m_Chunks m).
       describes pre k (m_Chunks m ! k) (cuts (nat (c_chunkSize c)) (rdata body) ! k) \<and>
       chunk_safe c (m_Nodes m) (w_disks w') (m_Chunks m ! k))"
  using assms by (rule Put_acked)

section \<open>Refused writes\<close>

lemma commit_all_keeps:
  assumes "\<And>s ref d. P s \<Longrightarrow> P (fst (commit s ref d))"
  shows "P s \<Longrightarrow> P (fst (commit_all pre commit i m ds s))"
proof (induction ds arbitrary: i m s)
  case (Cons d ds)
  have "P (fst (commit s (new_ref pre i d) d))" using assms Cons.prems by blast
  then show ?case using Cons.IH by (auto split: prod.splits sum.splits)
qed simp

lemma Write_keeps:
  assumes "\<And>s ref d. P s \<Longrightarrow> P (fst (commit s ref d))" "P s"
  shows "P (fst (Write r cs expect pre commit s))"
proof (cases "0 < cs")
  case True
  have "P (fst (commit_all pre commit 0 zero_manifest (whole_pieces (nat cs) r) s))"
    using assms by (rule commit_all_keeps)
  then show ?thesis unfolding Write_chunks_spec[OF True]
    by (auto split: prod.splits sum.splits)
qed (use assms in \<open>simp add: Write_def\<close>)

lemma commit_chunk_committed:
  assumes "etcd_client (sy_etcd X) view"
  shows "committed (c_meta c) (view (w_kv (ws_world (fst (commit_chunk X c live owners st ref data))))) =
    committed (c_meta c) (view (w_kv (ws_world st)))"
proof -
  obtain st1 err where a: "announce X c st ref data = (st1, err)" by fastforce
  note announce_spec(3)[OF a assms]
  then show ?thesis using a by (auto simp: commit_chunk_def split: option.splits prod.splits)
qed

lemma cluster_write_committed:
  assumes "etcd_client (sy_etcd X) view"
  shows "committed (c_meta c) (view (w_kv (fst (cluster_write X c w key body expect pre)))) =
    committed (c_meta c) (view (w_kv w))"
proof -
  let ?P = "\<lambda>st. committed (c_meta c) (view (w_kv (ws_world st))) = committed (c_meta c) (view (w_kv w))"
  have "?P (fst (Write body (c_chunkSize c) expect pre (commit_chunk X c (c_live c) owners)
      \<lparr>ws_world = w, ws_writing = [], ws_hashed = []\<rparr>))" for owners
    by (rule Write_keeps[where P = ?P]) (simp_all add: commit_chunk_committed[OF assms])
  then show ?thesis
    by (auto simp: cluster_write_def Let_def stopWriting_committed[OF assms] split: prod.splits sum.splits)
      (metis fst_conv)+
qed

lemma commit_manifest_err:
  assumes "etcd_client (sy_etcd X) view" "commit_manifest X c kv key m writing = (kv', Some e)"
  shows "committed (c_meta c) (view kv') = committed (c_meta c) (view kv) \<or>
    (\<exists>msg. e = [Other msg]) \<and> committed (c_meta c) (view kv') = (committed (c_meta c) (view kv))(key \<mapsto> m)"
proof -
  have foreign: "et_call (sy_etcd X) s q = (s', Inl e) \<Longrightarrow> \<exists>msg. e = [Other msg]" for s q s'
    using etcd_client.call_foreign[OF assms(1)] by blast
  show ?thesis
  proof (cases "writing = []")
    case True
    then have c: "et_unit (sy_etcd X) kv (EPut (meta_key (c_meta c) key) (SManifest m)) = (kv', Some e)"
      using assms(2) by (simp add: commit_manifest_def meta_Commit_def)
    then have "\<exists>msg. e = [Other msg]" using foreign by (auto simp: et_unit_def split: prod.splits sum.splits)
    then show ?thesis using etcd_client.et_unit_any[OF assms(1) c] by auto
  next
    case False
    let ?q = "ETxn [CmpExists (writingKey (c_meta c) writing)] (meta_key (c_meta c) key) (SManifest m)"
    obtain res where t: "et_txn (sy_etcd X) kv ?q = (kv', res)"
      using assms(2) False
      by (auto simp: commit_manifest_def CommitWhileWriting_def whileWriting_def split: prod.splits sum.splits)
    show ?thesis
    proof (cases res)
      case (Inl e')
      then have "e = e'" using assms(2) False t
        by (simp add: commit_manifest_def CommitWhileWriting_def whileWriting_def)
      moreover have "\<exists>msg. e' = [Other msg]"
        using t Inl foreign[unfolded \<open>e = e'\<close>]
        by (auto simp: et_txn_def split: prod.splits sum.splits etcd_resp.splits)
      ultimately show ?thesis using etcd_client.et_txn_err[OF assms(1) t[unfolded Inl]] by auto
    next
      case (Inr b)
      then have "\<not> b" using assms(2) False t
        by (auto simp: commit_manifest_def CommitWhileWriting_def whileWriting_def)
      then show ?thesis using etcd_client.et_txn_ok[OF assms(1) t[unfolded Inr]] by simp
    qed
  qed
qed

lemma Put_unacked:
  assumes "etcd_client (sy_etcd X) view"
    and "cluster_Put X c w key body opts pre = (w', Inl e)"
  shows "committed (c_meta c) (view (w_kv w')) = committed (c_meta c) (view (w_kv w)) \<or>
    (\<exists>msg m. e = [Other msg] \<and>
       committed (c_meta c) (view (w_kv w')) = (committed (c_meta c) (view (w_kv w)))(key \<mapsto> m))"
proof -
  obtain w1 res where wr: "cluster_write X c w key body (po_Size opts) pre = (w1, res)" by fastforce
  have same: "committed (c_meta c) (view (w_kv w1)) = committed (c_meta c) (view (w_kv w))"
    using cluster_write_committed[OF assms(1), of c w key body "po_Size opts" pre] wr by simp
  show ?thesis
  proof (cases res)
    case (Inl e')
    then show ?thesis using assms(2) wr same by (simp add: cluster_Put_def)
  next
    case (Inr mw)
    obtain m0 writing where mw: "mw = (m0, writing)" by (cases mw)
    show ?thesis
    proof (cases "put_checks m0 opts")
      case (Some e')
      then have "w' = stopWriting X c w1 writing" using assms(2) wr Inr mw by (simp add: cluster_Put_def)
      then show ?thesis using same stopWriting_committed[OF assms(1)] by simp
    next
      case None
      let ?m = "m0\<lparr>m_ETag := cmp_Or (po_ETag opts) (m_ETag m0), m_ContentType := po_ContentType opts,
          m_Meta := po_Meta opts\<rparr>"
      obtain kv' err where com: "commit_manifest X c (w_kv w1) key ?m writing = (kv', err)" by fastforce
      then have "err = Some e" and w': "w' = stopWriting X c (w1\<lparr>w_kv := kv'\<rparr>) writing"
        using assms(2) wr Inr mw None by (auto simp: cluster_Put_def Let_def split: option.splits)
      then show ?thesis
        using commit_manifest_err[OF assms(1) com[unfolded \<open>err = Some e\<close>]] same
          stopWriting_committed[OF assms(1)] by auto
    qed
  qed
qed


end
