(* ===== verification/Availability.thy ===== *)
theory Availability
  imports Quorum
begin

text \<open>
  That writes go through: with enough owners healthy, an etcd that answers, a source that ends
  cleanly and no digest that contradicts the body, \<^verbatim>\<open>Put\<close> returns a manifest.
\<close>

section \<open>Healthy owners\<close>

text \<open>
  An owner that can be reached and whose disk works: no system call of a write fails, the body
  arrives as it was sent and the answer comes back.
\<close>

definition healthy :: "'s sys \<Rightarrow> coord \<Rightarrow> membership \<Rightarrow> string \<Rightarrow> bool" where
  "healthy X c live ow \<longleftrightarrow>
     (let V = sy_env X; addr = addr_of (mb_peers live) ow in
      (\<forall>x. \<not> write_faults (ev_faults V ow x)) \<and>
      (ow = c_self c \<or>
       ev_addr V addr = Some ow \<and> (\<forall>x r. ev_up V addr x r = r) \<and> (\<forall>x. ev_reply V addr x)))"

lemma local_put_healthy:
  assumes "\<not> write_faults F" "validateID x = None"
  shows "snd (local_put F now t s x (bytes_NewReader d) (CRC32C d) (int (length d))) = None"
proof -
  obtain u res where run: "fs_run (WriteChunkVerified F now t x (bytes_NewReader d) (CRC32C d) (int (length d))) s = (u, res)"
    by fastforce
  have "snd (fs_run (WriteChunkVerified F now t x (bytes_NewReader d) (CRC32C d) (int (length d))) s) = Inr ()"
    using assms by (simp add: WriteChunkVerified_succeeds)
  then have "res = Inr ()" using run by simp
  then show ?thesis using run by (simp add: local_put_def)
qed

lemma store_at_healthy:
  assumes "healthy X c live ow" "validateID x = None"
  shows "snd (store_at X c live ow D x (bytes_NewReader d) (CRC32C d) (int (length d))) = None"
proof (cases "ow = c_self c")
  case True
  then show ?thesis using local_put_healthy assms by (simp add: store_at_self healthy_def Let_def)
next
  case False
  let ?V = "sy_env X" and ?addr = "addr_of (mb_peers live) ow"
  have h: "ev_addr ?V ?addr = Some ow" "ev_up ?V ?addr x (bytes_NewReader d) = bytes_NewReader d"
    "ev_reply ?V ?addr x" "\<not> write_faults (ev_faults ?V ow x)"
    using assms(1) False by (auto simp: healthy_def Let_def)
  have "snd (local_put (ev_faults ?V ow x) (ev_now ?V) x (D ow) x (bytes_NewReader d) (CRC32C d) (int (length d))) = None"
    using local_put_healthy[OF h(4) assms(2)] .
  then show ?thesis using h False
    by (auto simp: store_at_peer peer_put_def PushChunk_def putChunk_def split: prod.splits option.splits)
qed

lemma store_each_healthy:
  assumes "\<And>j D. H j \<Longrightarrow> snd (f j D) = None"
  shows "int (length (filter H js)) \<le> acks (snd (store_each f js D))"
proof (induction js arbitrary: D)
  case (Cons j js)
  obtain D' err where f: "f j D = (D', err)" by fastforce
  have "H j \<Longrightarrow> err = None" using assms[of j D] f by simp
  then show ?case using Cons[of D'] f by (auto simp: acks_def split: prod.splits)
qed (simp add: acks_def)

lemma replicate_chunk_healthy:
  assumes "c_quorum c \<le> int (length (filter (healthy X c live) owners))"
    and "validateID (cr_ID ref) = None" "cr_CRC ref = CRC32C d" "cr_Size ref = int (length d)"
  shows "snd (replicate_chunk X c live owners ref d D) = None"
proof -
  have "snd (storeChunk X c live ref d ow D) = None" if "healthy X c live ow" for ow D
    using store_at_healthy[OF that assms(2)] assms(3,4) by (simp add: storeChunk_def)
  from store_each_healthy[of "healthy X c live", OF this] assms(1)
  have "c_quorum c \<le> acks (snd (store_each (storeChunk X c live ref d) owners D))"
    by (meson order.trans)
  then show ?thesis by (auto simp: replicate_chunk_def split: prod.splits)
qed

section \<open>Ids\<close>

definition id_char :: "char \<Rightarrow> bool" where
  "id_char ch \<longleftrightarrow> ch \<noteq> CHR ''/'' \<and> ch \<noteq> CHR 0x5C \<and> ch \<noteq> CHR ''.''"

text \<open>\<^verbatim>\<open>rand.Text\<close> gives letters and digits, and not none of them.\<close>

definition good_prefix :: "string \<Rightarrow> bool" where
  "good_prefix pre \<longleftrightarrow> pre \<noteq> [] \<and> list_all id_char pre"

lemma digit_id_char: "is_digit ch \<Longrightarrow> id_char ch"
  by (auto simp: is_digit_def id_char_def less_eq_char_def)

lemma length_fmt_0d: "w \<le> length (fmt_0d w n)"
  by (simp add: fmt_0d_def Let_def)

lemma new_ref_id:
  assumes "good_prefix pre"
  shows "list_all id_char (pre @ fmt_0d indexWidth i)" and "6 < length (pre @ fmt_0d indexWidth i)"
proof -
  show "list_all id_char (pre @ fmt_0d indexWidth i)"
    using assms fmt_0d_digits[of indexWidth i] digit_id_char by (auto simp: good_prefix_def list_all_iff)
  have "0 < length pre" using assms by (simp add: good_prefix_def)
  moreover have "6 \<le> length (fmt_0d indexWidth i)" using length_fmt_0d[of 6 i] by (simp add: indexWidth_def)
  ultimately show "6 < length (pre @ fmt_0d indexWidth i)" unfolding length_append by linarith
qed

lemma validateID_new_ref: "good_prefix pre \<Longrightarrow> validateID (cr_ID (new_ref pre i d)) = None"
  using new_ref_id[of pre i] by (auto simp: validateID_def new_ref_def list_all_iff id_char_def)

lemma WriteID_new_ref:
  assumes "good_prefix pre"
  shows "WriteID (cr_ID (new_ref pre i d)) \<noteq> [] \<and> CHR ''/'' \<notin> set (WriteID (cr_ID (new_ref pre i d)))"
proof -
  let ?x = "pre @ fmt_0d indexWidth i"
  have x: "list_all id_char ?x" "6 < length ?x" using new_ref_id[OF assms] by blast+
  have "WriteID ?x = take (length ?x - 6) ?x" using x(2) by (simp add: WriteID_def indexWidth_def)
  moreover have "CHR ''/'' \<notin> set ?x" using x(1) by (auto simp: list_all_iff id_char_def)
  ultimately show ?thesis using x(2) by (auto simp: new_ref_def dest: in_set_takeD)
qed

section \<open>Through the whole write\<close>

definition etcd_up :: "'s etcd \<Rightarrow> bool" where
  "etcd_up E \<longleftrightarrow> (\<forall>s q. \<exists>s' r. et_call E s q = (s', Inr r))"

lemma et_unit_up: "etcd_up E \<Longrightarrow> snd (et_unit E s q) = None"
proof -
  assume "etcd_up E"
  then obtain s' r where "et_call E s q = (s', Inr r)" unfolding etcd_up_def by blast
  then show ?thesis by (simp add: et_unit_def)
qed

text \<open>While the write runs, the record it took out is there.\<close>

definition recorded :: "'s sys \<Rightarrow> ('s \<Rightarrow> kvs) \<Rightarrow> coord \<Rightarrow> 's wstate \<Rightarrow> bool" where
  "recorded X view c st \<longleftrightarrow>
     (ws_writing st \<noteq> [] \<longrightarrow> kv_lookup (view (w_kv (ws_world st))) (writingKey (c_meta c) (ws_writing st)) \<noteq> None)"

lemma announce_up:
  assumes "etcd_client (sy_etcd X) view" "etcd_up (sy_etcd X)" "good_prefix pre" "recorded X view c st"
  shows "\<exists>st1. announce X c st (new_ref pre i d) data = (st1, None) \<and> recorded X view c st1"
proof (cases "ws_writing st = [] \<and> int (length data) = c_chunkSize c")
  case True
  let ?wid = "WriteID (cr_ID (new_ref pre i d))"
  let ?q = "EPut (writingKey (c_meta c) ?wid) (SString (c_self c))"
  obtain kv' err where u: "et_unit (sy_etcd X) (w_kv (ws_world st)) ?q = (kv', err)" by fastforce
  then have "err = None" using et_unit_up[OF assms(2)] by (metis snd_conv)
  moreover have "MarkWriting (sy_etcd X) (c_meta c) (w_kv (ws_world st)) ?wid (c_self c) = (kv', err)"
    using WriteID_new_ref[OF assms(3)] u by (simp add: MarkWriting_def)
  moreover have "view kv' = kv_put (view (w_kv (ws_world st))) (writingKey (c_meta c) ?wid) (SString (c_self c))"
    using etcd_client.et_unit_ok[OF assms(1)] u \<open>err = None\<close> by fastforce
  ultimately show ?thesis using True by (simp add: announce_def Let_def recorded_def)
next
  case False
  then have "announce X c st (new_ref pre i d) data = (st, None)" unfolding announce_def by (simp only: if_False)
  then show ?thesis using assms(4) by blast
qed

lemma commit_all_up:
  assumes "etcd_client (sy_etcd X) view" "etcd_up (sy_etcd X)" "good_prefix pre"
    "c_scheme c = zero_scheme" "c_quorum c \<le> int (length (filter (healthy X c live) owners))"
  shows "recorded X view c st \<Longrightarrow>
    \<exists>st' m'. commit_all pre (commit_chunk X c live owners) i m ds st = (st', Inr m') \<and> recorded X view c st'"
proof (induction ds arbitrary: i m st)
  case (Cons d ds)
  obtain st1 where a: "announce X c st (new_ref pre i d) d = (st1, None)" "recorded X view c st1"
    using announce_up[OF assms(1-3) Cons.prems] by blast
  obtain D' err where r: "replicate_chunk X c live owners (new_ref pre i d) d (w_disks (ws_world st1)) = (D', err)"
    by fastforce
  have "err = None"
    using replicate_chunk_healthy[OF assms(5) validateID_new_ref[OF assms(3)], of i d d "w_disks (ws_world st1)"] r
    by (simp add: new_ref_def)
  let ?st2 = "st1\<lparr>ws_hashed := ws_hashed st1 @ d, ws_world := (ws_world st1)\<lparr>w_disks := D'\<rparr>\<rparr>"
  have "commit_chunk X c live owners st (new_ref pre i d) d = (?st2, Inr (new_ref pre i d))"
    using a(1) r \<open>err = None\<close> assms(4) by (simp add: commit_chunk_def place_chunk_def)
  moreover have "recorded X view c ?st2" using a(2) by (simp add: recorded_def)
  ultimately show ?case using Cons.IH by fastforce
qed auto

lemma commit_manifest_up:
  assumes "etcd_client (sy_etcd X) view" "etcd_up (sy_etcd X)"
    "writing \<noteq> [] \<longrightarrow> kv_lookup (view kv) (writingKey (c_meta c) writing) \<noteq> None"
  shows "snd (commit_manifest X c kv key m writing) = None"
proof (cases "writing = []")
  case True
  then show ?thesis using et_unit_up[OF assms(2)] by (simp add: commit_manifest_def meta_Commit_def)
next
  case False
  let ?q = "ETxn [CmpExists (writingKey (c_meta c) writing)] (meta_key (c_meta c) key) (SManifest m)"
  obtain s' r where call: "et_call (sy_etcd X) kv ?q = (s', Inr r)" using assms(2) unfolding etcd_up_def by blast
  have "(view s', r) = etcd_apply (view kv) ?q" using etcd_client.call_ok[OF assms(1) call] .
  then have "r = RTxn True" using assms(3) False by simp
  then show ?thesis using False call
    by (simp add: commit_manifest_def CommitWhileWriting_def whileWriting_def et_txn_def)
qed

lemma write_up:
  assumes "etcd_client (sy_etcd X) view" "etcd_up (sy_etcd X)" "good_prefix pre"
    "c_scheme c = zero_scheme" "coord_wf c" "0 < c_chunkSize c"
    "owners = Owners (mb_ring (c_live c)) (PartitionFor key) (width c)"
    "c_quorum c \<le> int (length (filter (healthy X c (c_live c)) owners))"
    "source_error body = None"
  obtains w1 m writing where "cluster_write X c w key body expect pre = (w1, Inr (m, writing))"
    "writing \<noteq> [] \<longrightarrow> kv_lookup (view (w_kv w1)) (writingKey (c_meta c) writing) \<noteq> None"
proof -
  let ?st = "\<lparr>ws_world = w, ws_writing = [], ws_hashed = []\<rparr>"
  let ?commit = "commit_chunk X c (c_live c) owners"
  have "recorded X view c ?st" by (simp add: recorded_def)
  then obtain st mw where all: "commit_all pre ?commit 0 zero_manifest (whole_pieces (nat (c_chunkSize c)) body) ?st = (st, Inr mw)"
    and rec: "recorded X view c st"
    using commit_all_up[OF assms(1-4,8)] by blast
  have run: "Write body (c_chunkSize c) expect pre ?commit ?st = (st, Inr mw)"
    unfolding Write_chunks_spec[OF assms(6)] all using assms(9) by simp
  have len: "c_quorum c \<le> int (length owners)"
    using assms(8) length_filter_le[of "healthy X c (c_live c)" owners] by linarith
  moreover have "1 \<le> c_quorum c" using assms(5) by (simp add: coord_wf_def)
  ultimately have "owners \<noteq> []" by auto
  have "\<exists>m. cluster_write X c w key body expect pre = (ws_world st, Inr (m, ws_writing st))"
    using run len \<open>owners \<noteq> []\<close> assms(4) by (simp add: cluster_write_def Let_def assms(7)[symmetric])
  then show thesis using that rec by (auto simp: recorded_def)
qed

lemma Put_up:
  assumes "etcd_client (sy_etcd X) view" "etcd_up (sy_etcd X)" "good_prefix pre"
    "c_scheme c = zero_scheme" "coord_wf c" "0 < c_chunkSize c"
    "owners = Owners (mb_ring (c_live c)) (PartitionFor key) (width c)"
    "c_quorum c \<le> int (length (filter (healthy X c (c_live c)) owners))"
    "source_error body = None"
    "\<And>m. m_ETag m = hex_encode (md5 (rdata body)) \<Longrightarrow> m_CRC32C m = Some (CRC32C (rdata body)) \<Longrightarrow>
      m_CRC32 m = Some (CRC32 (rdata body)) \<Longrightarrow> m_CRC64NVME m = Some (CRC64NVME (rdata body)) \<Longrightarrow>
      put_checks m opts = None"
    "addresses_right X c (c_live c)"
  shows "\<exists>w' m. cluster_Put X c w key body opts pre = (w', Inr m)"
proof -
  obtain w1 m writing where wr: "cluster_write X c w key body (po_Size opts) pre = (w1, Inr (m, writing))"
    and rec: "writing \<noteq> [] \<longrightarrow> kv_lookup (view (w_kv w1)) (writingKey (c_meta c) writing) \<noteq> None"
    by (rule write_up[OF assms(1-9)])
  have "put_checks m opts = None"
    using cluster_write_ok[OF assms(11,6,5) wr] assms(10) by blast
  moreover have "snd (commit_manifest X c (w_kv w1) key m' writing) = None" for m'
    using commit_manifest_up[OF assms(1,2) rec] .
  ultimately show ?thesis using wr by (simp add: cluster_Put_def Let_def split: prod.splits option.splits) (metis snd_conv option.distinct(1))
qed

section \<open>Properties\<close>


section \<open>A cluster of two nodes\<close>

definition example_env :: env where
  "example_env = \<lparr>ev_now = 5, ev_faults = \<lambda>_ _. no_faults,
     ev_addr = \<lambda>a. if a = ''a1'' then Some ''n1'' else if a = ''a2'' then Some ''n2'' else None,
     ev_up = \<lambda>_ _ r. r, ev_down = \<lambda>_ _ r. r, ev_reply = \<lambda>_ _. True\<rparr>"

definition example_sys :: "kvs sys" where
  "example_sys = \<lparr>sy_etcd = mem_etcd, sy_rs = xor_rs, sy_env = example_env\<rparr>"

definition example_world :: "kvs world" where
  "example_world = \<lparr>w_disks = \<lambda>_. fresh_store, w_kv = empty_kvs\<rparr>"

lemma example_coord_simps [simp]:
  "c_self example_coord = ''n1''" "c_quorum example_coord = 2" "c_scheme example_coord = zero_scheme"
  "c_chunkSize example_coord = 2" "c_meta example_coord = example_meta"
  "mb_peers (c_live example_coord) = [(''n2'', ''a2''), (''n1'', ''a1'')]"
  by (simp_all add: example_coord_def SetMembers_def cluster_New_def Let_def DefaultWriteQuorum_def)

lemma example_coord_wf: "coord_wf example_coord"
  unfolding example_coord_def cluster_New_def
  by (intro SetMembers_wf) (simp_all add: SetMembers_def Let_def DefaultWriteQuorum_def Replicas_def)

lemma example_ring: "ring_nodes (mb_ring (c_live example_coord)) = {''n1'', ''n2''}"
proof -
  have "mb_ring (c_live example_coord) =
      ring_New (sort (remdups (map fst (mb_peers (c_live example_coord))))) DefaultVNodes"
    using example_coord_wf by (simp only: coord_wf_def)
  then show ?thesis by (auto simp: ring_nodes_New DefaultVNodes_def)
qed

lemma example_addresses: "addresses_right example_sys example_coord (c_live example_coord)"
  by (auto simp: addresses_right_def example_sys_def example_env_def addr_of_def split: if_splits)

lemma example_healthy:
  "ow \<in> {''n1'', ''n2''} \<Longrightarrow> healthy example_sys example_coord (c_live example_coord) ow"
  by (auto simp: healthy_def Let_def example_sys_def example_env_def addr_of_def write_faults_def no_faults_def)

lemma example_quorum:
  "c_quorum example_coord \<le> int (length (filter (healthy example_sys example_coord (c_live example_coord))
     (Owners (mb_ring (c_live example_coord)) p (width example_coord))))"
proof -
  let ?r = "mb_ring (c_live example_coord)" and ?w = "width example_coord"
  have r: "sorted_ring ?r" using example_coord_wf by simp
  have "filter (healthy example_sys example_coord (c_live example_coord)) (Owners ?r p ?w) = Owners ?r p ?w"
    using Owners_subset[OF r, of p ?w] example_healthy by (auto simp: example_ring filter_id_conv)
  moreover have "length (Owners ?r p ?w) = 2"
    unfolding length_Owners[OF r] example_ring by (simp add: width_def Replicas_def)
  ultimately show ?thesis by simp
qed

lemma example_etcd: "etcd_client (sy_etcd example_sys) (\<lambda>s. s)" "etcd_up (sy_etcd example_sys)"
  using mem.etcd_client_axioms
  by (auto simp: example_sys_def etcd_up_def mem_etcd_def split: prod.splits)

lemma example_prefix: "good_prefix ''AB''"
  by (simp add: good_prefix_def id_char_def)

lemma zero_options_checks: "put_checks m zero_options = None"
  by (simp add: put_checks_def zero_options_def checkCRC32C_def checkCRC32_def checkCRC64NVME_def
      check_declared_def)

lemma example_clean: "source_error (bytes_NewReader d) = None"
  by (simp add: source_error_def)

lemma example_chunk: "0 < c_chunkSize example_coord"
  by simp

lemmas example_facts = example_etcd example_prefix example_coord_simps(3) example_coord_wf
  example_chunk example_quorum example_clean zero_options_checks example_addresses

lemma example_put:
  obtains w' m where "cluster_Put example_sys example_coord example_world ''a'' (bytes_NewReader [1, 2, 3])
      zero_options ''AB'' = (w', Inr m)"
  using Put_up[OF example_etcd example_prefix example_coord_simps(3) example_coord_wf example_chunk refl
      example_quorum example_clean zero_options_checks example_addresses] by blast


theorem Put_acknowledged_witness:
  "\<exists>w' m. cluster_Put example_sys example_coord example_world ''a'' (bytes_NewReader [1, 2, 3])
      zero_options ''AB'' = (w', Inr m) \<and> m_Size m = 3 \<and>
      committed example_meta (w_kv w') = (committed example_meta empty_kvs)(''a'' \<mapsto> m)"
proof -
  obtain w' m where p: "cluster_Put example_sys example_coord example_world ''a'' (bytes_NewReader [1, 2, 3])
      zero_options ''AB'' = (w', Inr m)" by (rule example_put)
  from Put_acknowledged[OF example_etcd(1) example_addresses example_chunk example_coord_wf p]
  show ?thesis using p by (auto simp: example_world_def)
qed


end
