(* ===== verification/Reading.thy ===== *)
theory Reading
  imports Availability
begin

text \<open>
  Reading objects back: what a read that succeeds has delivered, and how many lost copies or shards
  it survives.
\<close>

section \<open>Reads that go through\<close>

text \<open>A sink with room for the whole window, and a source that is clean, make a window succeed.\<close>

lemma hb_release_room:
  assumes "hb_held h \<Longrightarrow> 1 \<le> sk_room (hb_w h)"
  shows "\<exists>h'. hb_release h = (h', None) \<and> \<not> hb_held h' \<and>
    sk_room (hb_w h') = sk_room (hb_w h) - (if hb_held h then 1 else 0)"
  using assms by (auto simp: hb_release_def sink_Write_def)

lemma hb_Write_room:
  assumes "p \<noteq> []" "length p + (if hb_held h then 1 else 0) \<le> sk_room (hb_w h)"
  shows "\<exists>h' n. hb_Write h p = (h', n, None) \<and> hb_held h' \<and>
    sk_room (hb_w h') = sk_room (hb_w h) - (if hb_held h then 1 else 0) - (length p - 1)"
proof -
  obtain h1 where h1: "hb_release h = (h1, None)" "\<not> hb_held h1"
    "sk_room (hb_w h1) = sk_room (hb_w h) - (if hb_held h then 1 else 0)"
    using hb_release_room[of h] assms by (auto split: if_splits)
  have "length p = 1 \<or> 1 < length p" using assms(1) by (cases p) auto
  then show ?thesis using assms h1 by (auto simp: hb_Write_def sink_Write_def)
qed

lemma copy_held_room:
  assumes "[] \<notin> set ps" "length (concat ps) + (if hb_held h then 1 else 0) \<le> sk_room (hb_w h)"
  shows "\<exists>h' n. copy_held h ps = (h', n, None) \<and>
    sk_room (hb_w h') = sk_room (hb_w h) + (if hb_held h' then 1 else 0) - (if hb_held h then 1 else 0) - length (concat ps)"
  using assms
proof (induction ps arbitrary: h)
  case (Cons p ps)
  obtain h1 n1 where h1: "hb_Write h p = (h1, n1, None)" "hb_held h1"
    "sk_room (hb_w h1) = sk_room (hb_w h) - (if hb_held h then 1 else 0) - (length p - 1)"
    using hb_Write_room[of p h] Cons.prems by auto
  have "0 < length p" using Cons.prems(1) by auto
  then have "length (concat ps) + (if hb_held h1 then 1 else 0) \<le> sk_room (hb_w h1)"
    using h1(2,3) Cons.prems(2) by (cases "hb_held h"; simp; linarith)
  from Cons.IH[OF _ this] Cons.prems(1) obtain h2 n2 where "copy_held h1 ps = (h2, n2, None)"
    "sk_room (hb_w h2) = sk_room (hb_w h1) + (if hb_held h2 then 1 else 0) - (if hb_held h1 then 1 else 0) - length (concat ps)"
    by auto
  then show ?case using h1 \<open>0 < length p\<close> Cons.prems(2) by (auto simp: algebra_simps)
qed auto

lemma readWindow_room:
  assumes "0 < bs" "rerr rc = None" "nat skip + nat tk \<le> length (rdata rc)" "nat tk \<le> sk_room w"
  shows "\<exists>w' n. readWindow bs w rc skip tk = (w', n, None) \<and> sk_room w' = sk_room w - nat tk"
proof -
  let ?win = "take (nat tk) (drop (nat skip) (rdata rc))"
  let ?h = "\<lparr>hb_w = w, hb_last = 0, hb_held = False\<rparr>"
  have "[] \<notin> set (cuts bs ?win)" using cut_pieces[OF assms(1)] by blast
  moreover have len: "length ?win = nat tk" using assms(3) by simp
  ultimately obtain h n where h: "copy_held ?h (cuts bs ?win) = (h, n, None)"
    "sk_room (hb_w h) = sk_room w + (if hb_held h then 1 else 0) - nat tk"
    using copy_held_room[of "cuts bs ?win" ?h] assms(1,4) by auto
  moreover have "hb_held h \<Longrightarrow> 1 \<le> sk_room (hb_w h)" using h(2) assms(4) by simp
  ultimately obtain h' where "hb_release h = (h', None)"
    "sk_room (hb_w h') = sk_room (hb_w h) - (if hb_held h then 1 else 0)"
    using hb_release_room[of h] by blast
  then show ?thesis using h assms(2,3)
    by (simp add: readWindow_def CopyN_discard_def CopyN_held_def)
qed

lemma read_chunks_room:
  assumes "0 < bs" "0 \<le> off"
  shows "list_all2 (\<lambda>c d. cr_Size c = int (length d) \<and> fetch c = Inr (bytes_NewReader d)) cs ds \<Longrightarrow>
    0 \<le> at \<Longrightarrow> nat (fin - max off at) \<le> sk_room w \<Longrightarrow>
    \<exists>w' tot'. read_chunks bs fetch off fin cs at tot w = (w', tot', None)"
proof (induction cs arbitrary: ds at tot w)
  case (Cons c cs)
  then obtain d ds' where d: "cr_Size c = int (length d)" "fetch c = Inr (bytes_NewReader d)"
    and rest: "list_all2 (\<lambda>c d. cr_Size c = int (length d) \<and> fetch c = Inr (bytes_NewReader d)) cs ds'"
    by (auto simp: list_all2_Cons1)
  let ?nxt = "at + cr_Size c" and ?skip = "max (off - at) 0"
  let ?tk = "min ?nxt fin - (at + ?skip)"
  show ?case
  proof (cases "?nxt \<le> off \<or> fin \<le> at")
    case True
    moreover have "nat (fin - max off ?nxt) \<le> sk_room w" using Cons.prems(3) d(1) by linarith
    ultimately show ?thesis using Cons.IH[OF rest, of ?nxt w tot] Cons.prems(2) d(1) by (simp add: Let_def)
  next
    case False
    have "nat ?skip + nat ?tk \<le> length d" using False d(1) assms(2) by linarith
    moreover have "nat ?tk \<le> sk_room w" using Cons.prems(3) False by linarith
    ultimately obtain w1 n where w1: "readWindow bs w (bytes_NewReader d) ?skip ?tk = (w1, n, None)"
      "sk_room w1 = sk_room w - nat ?tk"
      using readWindow_room[OF assms(1), of "bytes_NewReader d" ?skip ?tk w] by auto
    have "nat (fin - max off ?nxt) \<le> sk_room w1" using Cons.prems(3) w1(2) False d(1) by linarith
    then show ?thesis using Cons.IH[OF rest, of ?nxt w1 "tot + n"] w1(1) d False Cons.prems(2) by (simp add: Let_def)
  qed
qed simp

lemma Read_available:
  assumes "0 < bs" "list_all2 (\<lambda>c d. cr_Size c = int (length d) \<and> fetch c = Inr (bytes_NewReader d)) (m_Chunks m) ds"
    and "m_Size m = int (length (concat ds))" "in_i64 (m_Size m)" "length (concat ds) \<le> sk_room w"
  shows "\<exists>w'. Read bs m w fetch = (w', None) \<and> sk_data w' = sk_data w @ concat ds"
proof -
  have v: "verified_fetch fetch (m_Chunks m) ds"
    using assms(2) unfolding verified_fetch_def by (rule list_all2_mono) auto
  obtain w' tot where rc: "read_chunks bs fetch 0 (m_Size m) (m_Chunks m) 0 0 w = (w', tot, None)"
    using read_chunks_room[OF assms(1) _ assms(2), of 0 0 "m_Size m" w 0] assms(3,5) by auto
  have win: "window 0 (m_Size m) 0 (concat ds) = concat ds" using assms(3) by (simp add: window_def)
  have "sk_data w' = sk_data w @ concat ds \<and> tot = m_Size m"
    using read_chunks_ok[OF assms(1) _ _ rc v] win assms(3) by simp
  then show ?thesis using rc assms(3,4) by (simp add: Read_def ReadRange_def)
qed

section \<open>Fetching from whichever node has it\<close>

lemma set_localFirst: "set (localFirst c nodes) = set nodes"
proof -
  have "index_of x xs = Some i \<Longrightarrow> i < length xs" for x :: string and xs i
    by (induction xs arbitrary: i) (auto split: if_splits)
  then have "index_of (c_self c) nodes = Some (Suc i) \<Longrightarrow> set (nodes[0 := nodes ! Suc i, Suc i := nodes ! 0]) = set nodes" for i
    by (intro set_swap) fastforce+
  then show ?thesis by (auto simp: localFirst_def split: option.splits nat.splits)
qed

lemma fetch_first_from:
  "fetch_first f ns errs = Inr rc \<Longrightarrow> \<exists>nd \<in> set ns. f nd = Inr rc"
  by (induction ns arbitrary: errs) (auto split: sum.splits)

lemma fetch_first_finds:
  "nd \<in> set ns \<Longrightarrow> f nd = Inr rc \<Longrightarrow> \<exists>rc'. fetch_first f ns errs = Inr rc'"
  by (induction ns arbitrary: errs) (auto split: sum.splits)

text \<open>A reader any node hands out ends cleanly only if its bytes have the checksum asked for.\<close>

lemma fetch_from_verified:
  assumes "fetch_from X c D nd cid crc = Inr rc" "rerr rc = None"
  shows "CRC32C (rdata rc) = crc"
proof (cases "nd = c_self c")
  case True
  then show ?thesis using assms disk.get_ok by (simp add: fetch_from_def Let_def)
next
  case False
  then show ?thesis using assms remote.get_ok
    by (auto simp: fetch_from_def Let_def split: if_splits)
qed

lemma cluster_chunk_verified:
  assumes "cluster_chunk X c D m ref = Inr rc" "rerr rc = None"
  shows "CRC32C (rdata rc) = cr_CRC ref"
proof (cases "m_Coding m = zero_scheme")
  case True
  then show ?thesis using assms fetch_first_from fetch_from_verified
    by (fastforce simp: cluster_chunk_def cluster_fetch_def)
next
  case False
  then show ?thesis using assms
    by (auto simp: cluster_chunk_def cluster_decode_def Let_def split: sum.splits if_splits)
qed

section \<open>What a read delivers\<close>

text \<open>
  A checksum tells the bytes that were written from the bytes that arrived: whatever this read is
  handed for a chunk, if it is not the chunk, its checksum differs.
\<close>

definition crc_detects :: "'s sys \<Rightarrow> coord \<Rightarrow> disks \<Rightarrow> manifest \<Rightarrow> chunk_ref \<Rightarrow> bytes \<Rightarrow> bool" where
  "crc_detects X c D m ref d \<longleftrightarrow>
     (\<forall>rc. cluster_chunk X c D m ref = Inr rc \<longrightarrow> rdata rc \<noteq> d \<longrightarrow> CRC32C (rdata rc) \<noteq> CRC32C d)"

lemma cluster_verified_fetch:
  assumes "list_all2 (\<lambda>ref d. cr_Size ref = int (length d) \<and> cr_CRC ref = CRC32C d \<and>
      crc_detects X c D m ref d) (m_Chunks m) ds"
  shows "verified_fetch (cluster_chunk X c D m) (m_Chunks m) ds"
  unfolding verified_fetch_def
proof (rule list_all2_mono[OF assms])
  fix ref d
  assume r: "cr_Size ref = int (length d) \<and> cr_CRC ref = CRC32C d \<and> crc_detects X c D m ref d"
  have "rdata rc = d" if "cluster_chunk X c D m ref = Inr rc" "rerr rc = None" for rc
    using cluster_chunk_verified[OF that] r that(1) unfolding crc_detects_def by metis
  then show "cr_Size ref = int (length d) \<and>
      (\<forall>rc. cluster_chunk X c D m ref = Inr rc \<longrightarrow> rerr rc = None \<longrightarrow> rdata rc = d)"
    using r by blast
qed

text \<open>
  C4. What was written is what is read.  If \<^verbatim>\<open>Put\<close> acknowledged a body with a manifest, then a
  later \<^verbatim>\<open>Stream\<close> of that manifest, by any node, with any surroundings and whatever has happened to
  the disks since, that reports success has delivered exactly the body; one that reports an error
  has delivered less than the body.  The only assumption is that the checksum of a chunk detects
  what corruption there is.
\<close>

theorem Put_then_Stream:
  assumes "etcd_client (sy_etcd X) view" and "addresses_right X c (c_live c)"
    and "0 < c_chunkSize c" and "coord_wf c" and "0 < bs" and "in_i64 (int (length (rdata body)))"
    and "cluster_Put X c w key body opts pre = (w', Inr m)"
    and "\<forall>k < length (m_Chunks m). crc_detects X2 c2 (w_disks w2) m (m_Chunks m ! k)
           (cuts (nat (c_chunkSize c)) (rdata body) ! k)"
    and "Stream X2 c2 bs w2 m out = (out', err)"
  shows "if err = None then sk_data out' = sk_data out @ rdata body
    else \<exists>d. sk_data out' = sk_data out @ d \<and> (d = [] \<or> length d < length (rdata body))"
proof -
  let ?ds = "cuts (nat (c_chunkSize c)) (rdata body)" and ?fetch = "cluster_chunk X2 c2 (w_disks w2) m"
  note ack = Put_acked[OF assms(1-4,7)]
  have refs: "\<forall>k < length (m_Chunks m). describes pre k (m_Chunks m ! k) (?ds ! k)"
    and len: "length (m_Chunks m) = length ?ds" and sz: "m_Size m = int (length (rdata body))"
    using ack by blast+
  have v: "verified_fetch ?fetch (m_Chunks m) ?ds"
    by (rule cluster_verified_fetch) (use refs len assms(8) in \<open>auto simp: list_all2_conv_all_nth describes_def\<close>)
  have run: "ReadRange bs m out 0 (int (length (rdata body))) ?fetch = (out', err)"
    using assms(9) sz by (simp add: Stream_def Read_def)
  have zero: "in_i64 0" by (simp add: in_i64_def)
  show ?thesis
  proof (cases err)
    case None
    then show ?thesis using ReadRange_delivers[OF assms(5) zero assms(6) v run[unfolded None]] assms(3) by simp
  next
    case (Some e)
    then show ?thesis
      using ReadRange_fails_short[OF assms(5) zero assms(6) verified_fetch_sizes[OF v] run[unfolded Some]]
      by (auto split: if_splits)
  qed
qed

section \<open>What a read survives\<close>

text \<open>A shard that is on its node, reachable and intact, fetches as itself.\<close>

lemma gather_nth:
  assumes "i < length shards"
  shows "gather X c D ref nodes s from til shards ! i =
    (if from \<le> i \<and> i < til \<and> shards ! i = None
     then (case fetchShard X c D ref nodes i (shardSize (cr_Size ref) s) of Inl e \<Rightarrow> None | Inr b \<Rightarrow> Some b)
     else shards ! i)"
  using assms by (simp add: gather_def)

lemma length_gather [simp]: "length (gather X c D ref nodes s from til shards) = length shards"
  by (simp add: gather_def)

definition fetched :: "'s sys \<Rightarrow> coord \<Rightarrow> disks \<Rightarrow> chunk_ref \<Rightarrow> string list \<Rightarrow> scheme \<Rightarrow> nat \<Rightarrow> bytes option" where
  "fetched X c D ref nodes s i =
     (case fetchShard X c D ref nodes i (shardSize (cr_Size ref) s) of Inl e \<Rightarrow> None | Inr b \<Rightarrow> Some b)"

text \<open>
  What \<^verbatim>\<open>decode\<close> tries to reconstruct from is every shard that can be fetched: the parity slots are
  empty after the first round, so the second round always runs.
\<close>

lemma decode_slots:
  fixes X :: "'s sys" and c D ref nodes s
  assumes "0 \<le> sc_Data s" "sc_Data s < Shards s"
  defines "slots \<equiv> gather X c D ref nodes s 0 (nat (sc_Data s)) (replicate (nat (Shards s)) None)"
  shows "None \<in> set slots"
    and "gather X c D ref nodes s (nat (sc_Data s)) (nat (Shards s)) slots =
      map (fetched X c D ref nodes s) [0..<nat (Shards s)]"
proof -
  have n: "length slots = nat (Shards s)" by (simp add: slots_def)
  have nth: "slots ! i = (if i < nat (sc_Data s) then fetched X c D ref nodes s i else None)"
    if "i < nat (Shards s)" for i
    using that by (simp add: slots_def gather_nth fetched_def)
  have "nat (sc_Data s) < nat (Shards s)" using assms by simp
  with nth n show "None \<in> set slots" by (metis less_irrefl nth_mem)
  show "gather X c D ref nodes s (nat (sc_Data s)) (nat (Shards s)) slots =
      map (fetched X c D ref nodes s) [0..<nat (Shards s)]"
    by (rule nth_equalityI) (auto simp: n gather_nth nth fetched_def split: sum.splits)
qed

lemma cluster_decode_available:
  assumes "reed_solomon (sy_rs X) s" "d \<noteq> []" "Encode (sy_rs X) s d = Inr full"
    "cr_Size ref = int (length d)" "cr_CRC ref = CRC32C d" "cr_Shards ref = map CRC32C full"
    "int (length nodes) = Shards s"
    "\<forall>i < length full. fetched X c D ref nodes s i \<in> {None, Some (full ! i)}"
    "sc_Data s \<le> int (card {i. i < length full \<and> fetched X c D ref nodes s i \<noteq> None})"
  shows "cluster_decode X c D ref nodes s = Inr d"
proof -
  let ?slots = "map (fetched X c D ref nodes s) [0..<nat (Shards s)]"
  have valid: "0 \<le> sc_Data s" "sc_Data s < Shards s"
    using reed_solomon.valid[OF assms(1)] by (auto simp: Valid_def Shards_def)
  obtain full' where "Encode (sy_rs X) s d = Inr full'" "int (length full') = Shards s"
    using reed_solomon.Encode_shape[OF assms(1,2)] by metis
  then have len: "int (length full) = Shards s" using assms(3) by simp
  have slots: "slots_of full ?slots"
    using assms(8) len by (auto simp: slots_of_def list_all2_conv_all_nth)
  have "present ?slots = length (filter (\<lambda>i. fetched X c D ref nodes s i \<noteq> None) [0..<nat (Shards s)])"
    by (simp add: present_def filter_map o_def)
  also have "\<dots> = card {i. i < length full \<and> fetched X c D ref nodes s i \<noteq> None}"
    by (subst length_filter_card) (use len in \<open>auto intro!: arg_cong[where f = card]\<close>)
  finally have "nat (sc_Data s) \<le> present ?slots" using assms(9) by linarith
  from reed_solomon.Reconstruct_Encode[OF assms(1-3) slots this]
  have "Reconstruct (sy_rs X) s ?slots (cr_Size ref) = Inr (d, map Some full)" using assms(4) by simp
  then show ?thesis
    using assms(5-7) len decode_slots[OF valid, of X c D ref nodes] by (simp add: cluster_decode_def Let_def)
qed

text \<open>
  A chunk that can be had.  Replicated: some node answers, and those that answer have the chunk.
  Erasure-coded: at least \<^verbatim>\<open>Data\<close> of the shards can be fetched, and those that can are right.
\<close>

definition obtainable :: "'s sys \<Rightarrow> coord \<Rightarrow> disks \<Rightarrow> manifest \<Rightarrow> chunk_ref \<Rightarrow> bytes \<Rightarrow> bool" where
  "obtainable X c D m ref d \<longleftrightarrow> cr_Size ref = int (length d) \<and>
     (if m_Coding m = zero_scheme
      then (\<forall>nd \<in> set (m_Nodes m). \<forall>rc. fetch_from X c D nd (cr_ID ref) (cr_CRC ref) = Inr rc \<longrightarrow>
              rc = bytes_NewReader d) \<and>
           (\<exists>nd \<in> set (m_Nodes m). \<exists>rc. fetch_from X c D nd (cr_ID ref) (cr_CRC ref) = Inr rc)
      else cr_CRC ref = CRC32C d \<and> d \<noteq> [] \<and> int (length (m_Nodes m)) = Shards (m_Coding m) \<and>
           (\<exists>full. Encode (sy_rs X) (m_Coding m) d = Inr full \<and> cr_Shards ref = map CRC32C full \<and>
              (\<forall>i < length full. fetched X c D ref (m_Nodes m) (m_Coding m) i \<in> {None, Some (full ! i)}) \<and>
              sc_Data (m_Coding m) \<le>
                int (card {i. i < length full \<and> fetched X c D ref (m_Nodes m) (m_Coding m) i \<noteq> None})))"

lemma obtainable_chunk:
  assumes "m_Coding m \<noteq> zero_scheme \<longrightarrow> reed_solomon (sy_rs X) (m_Coding m)" "obtainable X c D m ref d"
  shows "cluster_chunk X c D m ref = Inr (bytes_NewReader d)"
proof (cases "m_Coding m = zero_scheme")
  case True
  let ?f = "\<lambda>nd. fetch_from X c D nd (cr_ID ref) (cr_CRC ref)"
  have all: "\<forall>nd \<in> set (m_Nodes m). \<forall>rc. ?f nd = Inr rc \<longrightarrow> rc = bytes_NewReader d"
    and "\<exists>nd \<in> set (m_Nodes m). \<exists>rc. ?f nd = Inr rc"
    using assms(2) True by (auto simp: obtainable_def)
  then obtain nd rc where "nd \<in> set (localFirst c (m_Nodes m))" "?f nd = Inr rc" by (auto simp: set_localFirst)
  then obtain rc' where rc': "fetch_first ?f (localFirst c (m_Nodes m)) [] = Inr rc'"
    using fetch_first_finds[where f = ?f] by blast
  with all have "rc' = bytes_NewReader d" using fetch_first_from[OF rc'] by (auto simp: set_localFirst)
  then show ?thesis using rc' True by (simp add: cluster_chunk_def cluster_fetch_def)
next
  case False
  then have "cluster_decode X c D ref (m_Nodes m) (m_Coding m) = Inr d"
    using assms cluster_decode_available[of X "m_Coding m" d _ ref "m_Nodes m" c D]
    by (auto simp: obtainable_def)
  then show ?thesis using False by (simp add: cluster_chunk_def)
qed

lemma Stream_delivers:
  assumes "0 < bs" and "m_Coding m \<noteq> zero_scheme \<longrightarrow> reed_solomon (sy_rs X) (m_Coding m)"
    and "list_all2 (obtainable X c (w_disks w) m) (m_Chunks m) ds"
    and "m_Size m = int (length (concat ds))" and "in_i64 (m_Size m)"
    and "length (concat ds) \<le> sk_room out"
  shows "\<exists>out'. Stream X c bs w m out = (out', None) \<and> sk_data out' = sk_data out @ concat ds"
  unfolding Stream_def
proof (rule Read_available[OF assms(1) _ assms(4-6)])
  show "list_all2 (\<lambda>ref d. cr_Size ref = int (length d) \<and>
      cluster_chunk X c (w_disks w) m ref = Inr (bytes_NewReader d)) (m_Chunks m) ds"
  proof (rule list_all2_mono[OF assms(3)])
    fix ref d assume "obtainable X c (w_disks w) m ref d"
    then show "cr_Size ref = int (length d) \<and> cluster_chunk X c (w_disks w) m ref = Inr (bytes_NewReader d)"
      using obtainable_chunk[OF assms(2)] by (simp add: obtainable_def)
  qed
qed


section \<open>Two nodes with copies\<close>

definition holding :: "(string \<times> bytes) list \<Rightarrow> store" where
  "holding cs = fresh_store\<lparr>st_chunks :=
     map (\<lambda>(x, d). (x, \<lparr>f_data = d, f_synced = True, f_mtime = 0\<rparr>)) cs\<rparr>"

lemma chunk_data_holding [simp]: "chunk_data (holding cs) x = map_of cs x"
  by (induction cs) (auto simp: chunk_data_def chunk_file_def holding_def)

lemma example_fetch_from:
  assumes "nd \<in> {''n1'', ''n2''}" "validateID x = None" "chunk_data (D nd) x = Some d"
  shows "fetch_from example_sys example_coord D nd x (CRC32C d) = Inr (bytes_NewReader d)"
proof -
  have "ReadChunk no_faults s x (CRC32C d) = Inr (bytes_NewReader d)" if "chunk_data s x = Some d" for s
    using that assms(2) by (simp add: ReadChunk_def no_faults_def Verify_def)
  then show ?thesis using assms
    by (auto simp: fetch_from_def Let_def readAddr_def addr_of_def FetchChunk_def getChunk_def Verify_def
        example_sys_def example_env_def)
qed

lemma example_owners:
  assumes "m_Nodes m = Owners (mb_ring (c_live example_coord)) p (width example_coord)"
  shows "set (m_Nodes m) = {''n1'', ''n2''}"
proof -
  have r: "sorted_ring (mb_ring (c_live example_coord))" using example_coord_wf by simp
  have "card (set (m_Nodes m)) = 2"
    unfolding assms distinct_card[OF distinct_Owners[OF r]] length_Owners[OF r] example_ring
    by (simp add: width_def Replicas_def)
  moreover have "set (m_Nodes m) \<subseteq> {''n1'', ''n2''}"
    using Owners_subset[OF r, of p "width example_coord"] assms by (simp add: example_ring)
  ultimately show ?thesis by (intro card_subset_eq) auto
qed

definition example_ds :: "bytes list" where
  "example_ds = [[1, 2], [3]]"

definition example_read :: "kvs world" where
  "example_read = example_world\<lparr>w_disks := \<lambda>_. holding [(''AB'' @ fmt_0d indexWidth 0, [1, 2]), (''AB'' @ fmt_0d indexWidth 1, [3])]\<rparr>"

lemma example_cuts: "cuts (nat (c_chunkSize example_coord)) [1, 2, 3 :: byte] = example_ds"
  by (simp add: cut_step example_ds_def)

lemma example_validID: "validateID (''AB'' @ fmt_0d indexWidth k) = None"
  using validateID_new_ref[OF example_prefix, of k "[]"] by (simp add: new_ref_def)

lemma example_obtainable:
  assumes "m_Coding m = zero_scheme" "set (m_Nodes m) = {''n1'', ''n2''}" "k < 2"
    "describes ''AB'' k ref (example_ds ! k)"
  shows "obtainable example_sys example_coord (w_disks example_read) m ref (example_ds ! k)"
proof -
  have x: "cr_ID ref = ''AB'' @ fmt_0d indexWidth k" "cr_CRC ref = CRC32C (example_ds ! k)"
    "cr_Size ref = int (length (example_ds ! k))"
    using assms(4) by (simp_all add: describes_def)
  have "chunk_data (w_disks example_read nd) (cr_ID ref) = Some (example_ds ! k)" for nd
    using assms(3) x(1) by (auto simp: example_read_def example_ds_def less_Suc_eq numeral_2_eq_2)
  then have "fetch_from example_sys example_coord (w_disks example_read) nd (cr_ID ref) (cr_CRC ref) =
      Inr (bytes_NewReader (example_ds ! k))" if "nd \<in> {''n1'', ''n2''}" for nd
    using example_fetch_from[OF that] example_validID[of k] x by simp
  then show ?thesis using assms(1,2) x(3) by (auto simp: obtainable_def)
qed

theorem Put_then_Stream_witness:
  "\<exists>w' m out'. cluster_Put example_sys example_coord example_world ''a'' (bytes_NewReader [1, 2, 3])
      zero_options ''AB'' = (w', Inr m) \<and>
    Stream example_sys example_coord 2 example_read m \<lparr>sk_data = [], sk_room = 9\<rparr> = (out', None) \<and>
    sk_data out' = [1, 2, 3]"
proof -
  let ?out = "\<lparr>sk_data = [], sk_room = 9\<rparr>" and ?b = "bytes_NewReader [1, 2, 3]"
  obtain w' m where p: "cluster_Put example_sys example_coord example_world ''a'' ?b zero_options ''AB'' = (w', Inr m)"
    by (rule example_put)
  note ack = Put_acked[OF example_etcd(1) example_addresses example_chunk example_coord_wf p,
      unfolded bytes_NewReader_simps example_cuts]
  have m: "m_Coding m = zero_scheme" "set (m_Nodes m) = {''n1'', ''n2''}" "length (m_Chunks m) = 2"
    "m_Size m = 3"
    subgoal using ack by simp
    subgoal using ack example_owners by blast
    subgoal using ack by (simp add: example_ds_def)
    subgoal using ack by simp
    done
  have ob: "\<forall>k < length (m_Chunks m).
      obtainable example_sys example_coord (w_disks example_read) m (m_Chunks m ! k) (example_ds ! k)"
    using ack m(3) example_obtainable[OF m(1,2)] by simp
  then have "list_all2 (obtainable example_sys example_coord (w_disks example_read) m) (m_Chunks m) example_ds"
    using m(3) by (simp add: list_all2_conv_all_nth example_ds_def)
  then obtain out' where s: "Stream example_sys example_coord 2 example_read m ?out = (out', None)"
    using Stream_delivers[of 2 m example_sys example_coord example_read example_ds ?out] m
    by (auto simp: example_ds_def in_i64_def)
  have "\<forall>k < length (m_Chunks m). crc_detects example_sys example_coord (w_disks example_read) m
      (m_Chunks m ! k) (cuts (nat (c_chunkSize example_coord)) (rdata ?b) ! k)"
    unfolding bytes_NewReader_simps example_cuts crc_detects_def
    using ob obtainable_chunk m(1) by fastforce
  from Put_then_Stream[OF example_etcd(1) example_addresses example_chunk example_coord_wf _ _ p this s]
  show ?thesis using p s by (auto simp: in_i64_def)
qed

text \<open>A coded chunk of which one shard of three is on a node that is gone.\<close>

definition example_coded :: manifest where
  "example_coded = zero_manifest\<lparr>m_Size := 3, m_Coding := scheme_2_1, m_Nodes := [''n1'', ''n2'', ''n3''],
     m_Chunks := [(new_ref ''AB'' 0 [1, 2, 3])\<lparr>cr_Shards := map CRC32C [[1, 2], [3, 0], [2, 2]]\<rparr>]\<rparr>"

definition example_shards :: "kvs world" where
  "example_shards = example_world\<lparr>w_disks := \<lambda>_. holding
     [(''AB000000s00'', [1, 2]), (''AB000000s01'', [3, 0])]\<rparr>"

lemma example_fetched:
  "fetched example_sys example_coord (w_disks example_shards) (hd (m_Chunks example_coded))
     (m_Nodes example_coded) scheme_2_1 i =
     (if i = 0 then Some [1, 2] else if i = 1 then Some [3, 0] else None)"
proof -
  let ?ref = "hd (m_Chunks example_coded)"
  have f: "fmt_0d 6 0 = ''000000''" "fmt_0d 2 0 = ''00''" "fmt_0d 2 (Suc 0) = ''01''" by code_simp+
  have id: "ShardID ?ref 0 = ''AB000000s00''" "ShardID ?ref (Suc 0) = ''AB000000s01''"
    by (simp_all add: ShardID_def example_coded_def new_ref_def indexWidth_def f)
  have "fetch_from example_sys example_coord (w_disks example_shards) ''n1'' ''AB000000s00'' (CRC32C [1, 2]) =
      Inr (bytes_NewReader [1, 2])"
    "fetch_from example_sys example_coord (w_disks example_shards) ''n2'' ''AB000000s01'' (CRC32C [3, 0]) =
      Inr (bytes_NewReader [3, 0])"
    by (intro example_fetch_from; simp add: validateID_def example_shards_def)+
  moreover have "fetch_from example_sys example_coord D ''n3'' x crc = Inl [Other ''cluster: never been a member'']" for D x crc
    by (simp add: fetch_from_def Let_def readAddr_def addr_of_def example_coord_def SetMembers_def cluster_New_def)
  moreover have "shardSize (cr_Size ?ref) scheme_2_1 = 2"
    by (simp add: shardSize_def scheme_2_1_def example_coded_def new_ref_def)
  ultimately show ?thesis
    using id by (auto simp: fetched_def fetchShard_def example_coded_def ReadFull_def less_Suc_eq numeral_3_eq_3 numeral_2_eq_2)
qed


end
