(* ===== verification/Paging.thy ===== *)
theory Paging
  imports Meta
begin

text \<open>
  Loops over pages of a scan.  Several passes read the whole keyspace a page at a time, resuming
  after the last key of a page and stopping at an empty one; the loop is here once, with a bound on
  the number of pages.  \<open>None\<close> is a loop that is not done yet; a bound larger than the number of
  keys is always enough.
\<close>

section \<open>The loop\<close>

fun pages ::
  "nat \<Rightarrow> (string \<Rightarrow> 's \<Rightarrow> 's \<times> (error + 'a list)) \<Rightarrow> ('a \<Rightarrow> string) \<Rightarrow> ('acc \<Rightarrow> 'a \<Rightarrow> 'acc) \<Rightarrow>
    string \<Rightarrow> 'acc \<Rightarrow> 's \<Rightarrow> ('s \<times> (error + 'acc)) option" where
  "pages 0 page nxt f frm acc s = None"
| "pages (Suc fuel) page nxt f frm acc s = (case page frm s of
      (s', Inl e) \<Rightarrow> Some (s', Inl e)
    | (s', Inr []) \<Rightarrow> Some (s', Inr acc)
    | (s', Inr (x # xs)) \<Rightarrow> pages fuel page nxt f (nxt (last (x # xs))) (foldl f acc (x # xs)) s')"

section \<open>What a paged scan promises\<close>

text \<open>
  A page is the first \<open>n\<close> entries at or after where it starts, decoded; the next page starts after
  its last entry; and reading changes nothing.
\<close>

locale paged_scan =
  fixes page :: "string \<Rightarrow> 's \<Rightarrow> 's \<times> (error + 'a list)"
    and nxt :: "'a \<Rightarrow> string"
    and rest :: "'v \<Rightarrow> string \<Rightarrow> 'x list"
    and dec :: "'x \<Rightarrow> error + 'a"
    and view :: "'s \<Rightarrow> 'v"
    and n :: nat
  assumes n_pos: "0 < n"
    and page_view: "page frm s = (s', r) \<Longrightarrow> view s' = view s"
    and page_ok: "page frm s = (s', Inr xs) \<Longrightarrow> decode_all dec (take n (rest (view s) frm)) = Inr xs"
    and page_next: "decode_all dec (take n (rest v frm)) = Inr xs \<Longrightarrow> xs \<noteq> [] \<Longrightarrow>
      rest v (nxt (last xs)) = drop n (rest v frm)"

lemma length_decode_all: "decode_all f xs = Inr ys \<Longrightarrow> length ys = length xs"
  by (induction xs arbitrary: ys) (auto split: sum.splits)

lemma decode_all_append:
  "decode_all f xs = Inr ys \<Longrightarrow>
    decode_all f (xs @ zs) = (case decode_all f zs of Inl e \<Rightarrow> Inl e | Inr ws \<Rightarrow> Inr (ys @ ws))"
  by (induction xs arbitrary: ys) (auto split: sum.splits)

lemma decode_all_nth:
  "decode_all f xs = Inr ys \<Longrightarrow> i < length xs \<Longrightarrow> f (xs ! i) = Inr (ys ! i)"
  by (induction xs arbitrary: ys i) (auto simp: nth_Cons split: sum.splits nat.splits)

lemma decode_all_in: "decode_all f xs = Inr ys \<Longrightarrow> x \<in> set xs \<Longrightarrow> \<exists>y \<in> set ys. f x = Inr y"
  by (metis decode_all_nth in_set_conv_nth length_decode_all)

lemma decode_all_from: "decode_all f xs = Inr ys \<Longrightarrow> y \<in> set ys \<Longrightarrow> \<exists>x \<in> set xs. f x = Inr y"
  by (metis decode_all_nth in_set_conv_nth length_decode_all)

context paged_scan
begin

lemma pages_view: "pages fuel page nxt f frm acc s = Some (s', r) \<Longrightarrow> view s' = view s"
proof (induction fuel arbitrary: frm acc s)
  case (Suc fuel)
  obtain s1 r1 where p: "page frm s = (s1, r1)" by fastforce
  have "view s1 = view s" using page_view[OF p] .
  with Suc p show ?case by (cases r1) (auto split: list.splits)
qed simp

text \<open>A loop that ends without an error has gone through everything there was, once and in order.\<close>

lemma pages_all:
  "pages fuel page nxt f frm acc s = Some (s', Inr acc') \<Longrightarrow>
    \<exists>ys. decode_all dec (rest (view s) frm) = Inr ys \<and> acc' = foldl f acc ys"
proof (induction fuel arbitrary: frm acc s)
  case (Suc fuel)
  obtain s1 r1 where p: "page frm s = (s1, r1)" by fastforce
  then obtain xs where r1: "r1 = Inr xs" using Suc.prems by (cases r1) auto
  have d: "decode_all dec (take n (rest (view s) frm)) = Inr xs" using page_ok p r1 by blast
  have v: "view s1 = view s" using page_view[OF p] .
  show ?case
  proof (cases xs)
    case Nil
    then have "length (take n (rest (view s) frm)) = 0" using length_decode_all[OF d] by simp
    then have "rest (view s) frm = []" using n_pos by (simp only: length_0_conv take_eq_Nil) simp
    then show ?thesis using Suc.prems p r1 Nil by simp
  next
    case (Cons x xs')
    then have "xs \<noteq> []" by simp
    have "pages fuel page nxt f (nxt (last xs)) (foldl f acc xs) s1 = Some (s', Inr acc')"
      using Suc.prems p r1 Cons by simp
    from Suc.IH[OF this] obtain ys where ys: "decode_all dec (drop n (rest (view s) frm)) = Inr ys"
      "acc' = foldl f (foldl f acc xs) ys"
      unfolding v page_next[OF d \<open>xs \<noteq> []\<close>] by blast
    have "decode_all dec (rest (view s) frm) = Inr (xs @ ys)"
      using decode_all_append[OF d, of "drop n (rest (view s) frm)"] ys(1) by simp
    then show ?thesis using ys(2) by auto
  qed
qed simp

text \<open>A bound larger than the number of entries is enough for the loop to end.\<close>

lemma pages_ends:
  "length (rest (view s) frm) < fuel \<Longrightarrow> \<exists>r. pages fuel page nxt f frm acc s = Some r"
proof (induction fuel arbitrary: frm acc s)
  case (Suc fuel)
  obtain s1 r1 where p: "page frm s = (s1, r1)" by fastforce
  show ?case
  proof (cases r1)
    case (Inr xs)
    have d: "decode_all dec (take n (rest (view s) frm)) = Inr xs" using page_ok p Inr by blast
    show ?thesis
    proof (cases xs)
      case (Cons x xs')
      then have "xs \<noteq> []" by simp
      then have "0 < length (rest (view s) frm)" using length_decode_all[OF d] by auto
      then have "length (rest (view s1) (nxt (last xs))) < fuel"
        using Suc.prems n_pos page_next[OF d \<open>xs \<noteq> []\<close>] page_view[OF p] by (simp only: length_drop)
      then show ?thesis using Suc.IH p Inr Cons by simp
    qed (use p Inr in simp)
  qed (use p in simp)
qed simp

end

section \<open>The scans that are paged\<close>

definition object_rest :: "meta \<Rightarrow> string \<Rightarrow> kvs \<Rightarrow> string \<Rightarrow> (string \<times> kvd) list" where
  "object_rest M pre v frm = kv_select v (\<lambda>x. HasPrefix x (meta_key M pre) \<and> meta_key M frm \<le> x)"

lemma meta_key_After: "meta_key M (After k) = After (meta_key M k)"
  by (simp add: meta_key_def After_def)

lemma meta_key_trim: "HasPrefix x (meta_key M pre) \<Longrightarrow> meta_key M (TrimPrefix x (objects_prefix M)) = x"
proof -
  assume "HasPrefix x (meta_key M pre)"
  then obtain r where "x = objects_prefix M @ pre @ r" by (auto simp: HasPrefix_prefix prefix_def meta_key_def)
  then show ?thesis by (simp add: meta_key_def)
qed

text \<open>The entry a page ends with, in terms of the raw entries behind it.\<close>

lemma decode_all_last:
  assumes "decode_all dec ts = Inr xs" "xs \<noteq> []"
  shows "ts \<noteq> [] \<and> last ts \<in> set ts \<and> dec (last ts) = Inr (last xs)"
proof -
  have len: "length xs = length ts" using length_decode_all[OF assms(1)] .
  then have "ts \<noteq> []" using assms(2) by auto
  then show ?thesis
    using decode_all_nth[OF assms(1), of "length xs - 1"] assms(2) len by (simp add: last_conv_nth)
qed

lemma object_rest_next:
  assumes "decode_all dec (take n (object_rest M pre v frm)) = Inr xs" "xs \<noteq> []"
    and "\<And>k d y. dec (k, d) = Inr y \<Longrightarrow> key y = TrimPrefix k (objects_prefix M)"
  shows "object_rest M pre v (After (key (last xs))) = drop n (object_rest M pre v frm)"
proof -
  let ?t = "take n (object_rest M pre v frm)"
  note l = decode_all_last[OF assms(1,2)]
  obtain k d where kd: "last ?t = (k, d)" by (cases "last ?t")
  have "key (last xs) = TrimPrefix k (objects_prefix M)" using assms(3)[of k d "last xs"] kd l by simp
  moreover have "HasPrefix k (meta_key M pre)"
    using l kd by (auto simp: object_rest_def set_kv_select dest: in_set_takeD)
  ultimately have "meta_key M (After (key (last xs))) = After k"
    by (simp add: meta_key_After meta_key_trim)
  then show ?thesis
    using kv_select_after[of n v "\<lambda>x. HasPrefix x (meta_key M pre)" "meta_key M frm" k] l kd
    by (simp add: object_rest_def)
qed

text \<open>
  The range of \<^verbatim>\<open>ScanParts\<close> ends with the prefix of uploads and begins after a key it is given, which
  it does not check to be in the range.
\<close>

definition part_rest :: "meta \<Rightarrow> kvs \<Rightarrow> string \<Rightarrow> (string \<times> kvd) list" where
  "part_rest M v frm = kv_select v (\<lambda>x. (HasPrefix x (uploads_prefix M) \<or> x < uploads_prefix M) \<and>
     (if frm \<noteq> '''' then After frm else uploads_prefix M) \<le> x)"

lemma decode_part_ref_key: "decode_part_ref (k, d) = Inr y \<Longrightarrow> pr_Key y = k"
  by (auto split: if_splits sum.splits)

lemma part_rest_next:
  assumes "decode_all decode_part_ref (take n (part_rest M v frm)) = Inr xs" "xs \<noteq> []"
  shows "part_rest M v (pr_Key (last xs)) = drop n (part_rest M v frm)"
proof -
  let ?t = "take n (part_rest M v frm)" and ?start = "if frm \<noteq> '''' then After frm else uploads_prefix M"
  note l = decode_all_last[OF assms]
  obtain k d where kd: "last ?t = (k, d)" by (cases "last ?t")
  have "decode_part_ref (k, d) = Inr (last xs)" using l unfolding kd by blast
  then have k: "pr_Key (last xs) = k" by (rule decode_part_ref_key)
  have "(k, d) \<in> set (part_rest M v frm)" using l kd by (metis in_set_takeD)
  then have "?start \<le> k" unfolding part_rest_def set_kv_select by (rule conjunct2[OF conjunct1])
  moreover have "?start \<noteq> ''''" by (simp add: After_def uploads_prefix_def)
  ultimately have "k \<noteq> ''''" by auto
  then show ?thesis
    using kv_select_after[of n v "\<lambda>x. HasPrefix x (uploads_prefix M) \<or> x < uploads_prefix M" ?start k] l kd k
    by (simp add: part_rest_def)
qed

context etcd_client
begin

lemma scan_view: "scan E M s pre frm limit = (s', r) \<Longrightarrow> view s' = view s"
  by (auto simp: scan_def Let_def dest!: et_kvs_view split: if_splits prod.splits sum.splits)

lemma ScanObjects_view: "ScanObjects E M s pre frm limit = (s', r) \<Longrightarrow> view s' = view s"
  by (auto simp: ScanObjects_def dest!: scan_view split: prod.splits sum.splits)

lemma ScanEntries_view: "ScanEntries E M s pre frm limit = (s', r) \<Longrightarrow> view s' = view s"
  by (auto simp: ScanEntries_def dest!: scan_view split: prod.splits sum.splits)

lemma ScanObjects_page:
  assumes "ScanObjects E M s pre frm limit = (s', Inr xs)" "0 < limit"
  shows "decode_all (decode_obj M) (take (nat limit) (object_rest M pre (view s) frm)) = Inr xs"
  using assms scan_page[of M s pre frm limit]
  by (auto simp: ScanObjects_def object_rest_def split: prod.splits sum.splits)

lemma ScanEntries_page:
  assumes "ScanEntries E M s pre frm limit = (s', Inr xs)" "0 < limit"
  shows "decode_all (decode_entry M) (take (nat limit) (object_rest M pre (view s) frm)) = Inr xs"
  using assms scan_page[of M s pre frm limit]
  by (auto simp: ScanEntries_def object_rest_def split: prod.splits sum.splits)

lemma ScanParts_view: "ScanParts E M s frm limit = (s', r) \<Longrightarrow> view s' = view s"
  by (auto simp: ScanParts_def Let_def dest!: et_kvs_view split: if_splits prod.splits sum.splits)

lemma ScanParts_page:
  assumes "ScanParts E M s frm limit = (s', Inr xs)" "0 < limit"
  shows "decode_all decode_part_ref (take (nat limit) (part_rest M (view s) frm)) = Inr xs"
proof -
  let ?start = "if frm \<noteq> '''' then After frm else uploads_prefix M"
  let ?fin = "et_prefixEnd E (uploads_prefix M)"
  have range: "(uploads_prefix M \<le> x \<and> x < ?fin) \<longleftrightarrow> HasPrefix x (uploads_prefix M)" for x
    by (rule prefix_end) (auto simp: uploads_prefix_def)
  have "uploads_prefix M < ?fin" using range[of "uploads_prefix M"] HasPrefix_append[of "uploads_prefix M" "[]"] by simp
  then have sel: "x < ?fin \<longleftrightarrow> HasPrefix x (uploads_prefix M) \<or> x < uploads_prefix M" for x
    using range[of x] by (meson linorder_not_less order.strict_trans)
  have rest: "part_rest M (view s) frm = kv_select (view s) (\<lambda>x. ?start \<le> x \<and> x < ?fin)"
    unfolding part_rest_def sel by (rule arg_cong[where f = "kv_select (view s)"]) auto
  show ?thesis
  proof (cases "?start \<ge> ?fin")
    case True
    then have "kv_select (view s) (\<lambda>x. ?start \<le> x \<and> x < ?fin) = []"
      by (intro kv_select_none) (metis leD order.trans)
    then show ?thesis using assms True rest by (simp add: ScanParts_def Let_def)
  next
    case False
    then obtain kv mr where c: "et_kvs E s (ERange ?start ?fin limit) = (s', Inr (kv, mr))"
      and d: "decode_all decode_part_ref kv = Inr xs"
      using assms by (auto simp: ScanParts_def Let_def split: prod.splits sum.splits)
    have "snd (etcd_apply (view s) (ERange ?start ?fin limit)) = RKvs kv mr"
      using et_kvs_ok[OF c] by simp
    then have "kv = take (nat limit) (kv_select (view s) (\<lambda>x. ?start \<le> x \<and> x < ?fin))"
      using assms(2) by (simp only: etcd_apply.simps Let_def snd_conv if_True etcd_resp.inject)
    then show ?thesis using d rest by simp
  qed
qed

end

sublocale etcd_client \<subseteq> object_pages: paged_scan
  "\<lambda>frm s. ScanObjects E M s pre frm (int (Suc k))" "\<lambda>b. After (ob_Key b)" "object_rest M pre" "decode_obj M" view "Suc k"
  for M pre k
proof (unfold_locales, goal_cases)
  case (2 frm s s' r)
  then show ?case by (rule ScanObjects_view)
next
  case (3 frm s s' xs)
  then show ?case using ScanObjects_page[of M s pre frm "int (Suc k)" s' xs] by (simp only: nat_int)
next
  case (4 v frm xs)
  then show ?case by (rule object_rest_next) (auto split: sum.splits)
qed simp

sublocale etcd_client \<subseteq> part_pages: paged_scan
  "\<lambda>frm s. ScanParts E M s frm (int (Suc k))" pr_Key "part_rest M" decode_part_ref view "Suc k"
  for M k
proof (unfold_locales, goal_cases)
  case (2 frm s s' r)
  then show ?case by (rule ScanParts_view)
next
  case (3 frm s s' xs)
  then show ?case using ScanParts_page[of M s frm "int (Suc k)" s' xs] by (simp only: nat_int)
next
  case (4 v frm xs)
  then show ?case by (rule part_rest_next)
qed simp

text \<open>The facts of both scans under their own names, for use where etcd is given by its contract.\<close>

context etcd_client
begin

lemma all_objects:
  assumes "pages fuel (\<lambda>frm s. ScanObjects E M s pre frm (int (Suc k))) (\<lambda>b. After (ob_Key b)) f frm acc s = Some (s', r)"
  shows "view s' = view s"
    and "r = Inr acc' \<Longrightarrow> \<exists>ys. decode_all (decode_obj M) (object_rest M pre (view s) frm) = Inr ys \<and> acc' = foldl f acc ys"
proof -
  show "view s' = view s" using object_pages.pages_view[OF assms] .
  assume "r = Inr acc'"
  from object_pages.pages_all[OF assms[unfolded this]]
  show "\<exists>ys. decode_all (decode_obj M) (object_rest M pre (view s) frm) = Inr ys \<and> acc' = foldl f acc ys" .
qed

lemma all_parts:
  assumes "pages fuel (\<lambda>frm s. ScanParts E M s frm (int (Suc k))) pr_Key f frm acc s = Some (s', r)"
  shows "view s' = view s"
    and "r = Inr acc' \<Longrightarrow> \<exists>ys. decode_all decode_part_ref (part_rest M (view s) frm) = Inr ys \<and> acc' = foldl f acc ys"
proof -
  show "view s' = view s" using part_pages.pages_view[OF assms] .
  assume "r = Inr acc'"
  from part_pages.pages_all[OF assms[unfolded this]]
  show "\<exists>ys. decode_all decode_part_ref (part_rest M (view s) frm) = Inr ys \<and> acc' = foldl f acc ys" .
qed

lemma scans_end:
  assumes "length (kvs_Keys (view s)) < fuel"
  shows "\<exists>r. pages fuel (\<lambda>frm s. ScanObjects E M s pre frm (int (Suc k))) (\<lambda>b. After (ob_Key b)) f frm acc s = Some r"
    and "\<exists>r. pages fuel (\<lambda>frm s. ScanParts E M s frm (int (Suc k))) pr_Key g frm acc' s = Some r"
proof -
  have "length (object_rest M pre (view s) frm) < fuel" "length (part_rest M (view s) frm) < fuel"
    using assms length_kv_select unfolding object_rest_def part_rest_def by (meson order.strict_trans1)+
  note len = this
  show "\<exists>r. pages fuel (\<lambda>frm s. ScanObjects E M s pre frm (int (Suc k))) (\<lambda>b. After (ob_Key b)) f frm acc s = Some r"
    using len(1) by (rule object_pages.pages_ends)
  show "\<exists>r. pages fuel (\<lambda>frm s. ScanParts E M s frm (int (Suc k))) pr_Key g frm acc' s = Some r"
    using len(2) by (rule part_pages.pages_ends)
qed

end

end
