(* ===== verification/Collect.thy ===== *)
theory Collect
  imports Reading Paging
begin

text \<open>
  Reclaiming the chunks no manifest references any more, \<^verbatim>\<open>internal/cluster/collect.go\<close>: one pass
  over one slice of the chunk id space of one node.

  Both scans of \<^verbatim>\<open>referenced\<close> are loops over pages (\<open>pages\<close> of \<open>Paging\<close>), with a bound on the number of
  pages that is enough when it is larger than the number of keys.
\<close>

section \<open>Constants\<close>

definition collectTask :: string where
  "collectTask = ''collect''"

definition idAlphabet :: string where
  "idAlphabet = ''ABCDEFGHIJKLMNOPQRSTUVWXYZ234567''"

definition CollectSlices :: nat where
  "CollectSlices = length idAlphabet"

definition scanPage :: int where
  "scanPage = 256"

record collect_stats =
  cs_Slice :: string
  cs_Referenced :: int
  cs_Examined :: int
  cs_Collected :: int
  cs_BytesCollected :: int
  cs_Young :: int
  cs_Writing :: int

definition zero_collect :: collect_stats where
  "zero_collect = \<lparr>cs_Slice = '''', cs_Referenced = 0, cs_Examined = 0, cs_Collected = 0,
     cs_BytesCollected = 0, cs_Young = 0, cs_Writing = 0\<rparr>"

section \<open>What is referenced\<close>

definition positionsOf :: "string list \<Rightarrow> string \<Rightarrow> nat list" where
  "positionsOf nodes nd = filter (\<lambda>i. nodes ! i = nd) [0..<length nodes]"

definition reference :: "coord \<Rightarrow> string list \<Rightarrow> string \<Rightarrow> manifest \<Rightarrow> char \<Rightarrow> string list" where
  "reference c refs key m sl =
     (let want = (if key \<noteq> '''' then Owners (mb_ring (c_live c)) (PartitionFor key) (redundancy m) else []);
          mine = positionsOf (m_Nodes m) (c_self c) @ positionsOf want (c_self c)
      in if mine = [] then refs
         else refs @ concat (map (\<lambda>ref.
                if cr_ID ref = '''' \<or> hd (cr_ID ref) \<noteq> sl then []
                else if m_Coding m = zero_scheme then [cr_ID ref]
                else map (ShardID ref) mine) (m_Chunks m)))"

fun in_flight_loop ::
  "'s sys \<Rightarrow> coord \<Rightarrow> (string \<times> string) list \<Rightarrow> string list \<Rightarrow> 's \<Rightarrow> 's \<times> (error + string list)" where
  "in_flight_loop X c [] ids s = (s, Inr ids)"
| "in_flight_loop X c ((i, nd) # ws) ids s =
     (if map_of (mb_peers (c_live c)) nd \<noteq> None \<or> mb_peers (c_live c) = []
      then in_flight_loop X c ws (ids @ [i]) s
      else case DoneWriting (sy_etcd X) (c_meta c) s i of
             (s', Some e) \<Rightarrow> (s', Inl e)
           | (s', None) \<Rightarrow> in_flight_loop X c ws ids s')"

definition writesInFlight :: "'s sys \<Rightarrow> coord \<Rightarrow> 's \<Rightarrow> 's \<times> (error + string list)" where
  "writesInFlight X c s = (case Writing (sy_etcd X) (c_meta c) s of
      (s', Inl e) \<Rightarrow> (s', Inl e)
    | (s', Inr running) \<Rightarrow> in_flight_loop X c running [] s')"

definition inFlight :: "string list \<Rightarrow> string \<Rightarrow> bool" where
  "inFlight writing cid \<longleftrightarrow> list_ex (HasPrefix cid) writing"

definition referenced ::
  "nat \<Rightarrow> 's sys \<Rightarrow> coord \<Rightarrow> char \<Rightarrow> 's \<Rightarrow> ('s \<times> (error + string list \<times> string list)) option" where
  "referenced fuel X c sl s = (case writesInFlight X c s of
      (s1, Inl e) \<Rightarrow> Some (s1, Inl e)
    | (s1, Inr writing) \<Rightarrow>
        (case pages fuel (\<lambda>from s. ScanParts (sy_etcd X) (c_meta c) s from scanPage) pr_Key
                (\<lambda>refs p. reference c refs '''' (pr_Manifest p) sl) '''' [] s1 of
           None \<Rightarrow> None
         | Some (s2, Inl e) \<Rightarrow> Some (s2, Inl e)
         | Some (s2, Inr refs) \<Rightarrow>
             (case pages fuel (\<lambda>from s. ScanObjects (sy_etcd X) (c_meta c) s '''' from scanPage) (\<lambda>b. After (ob_Key b))
                     (\<lambda>refs b. reference c refs (ob_Key b) (ob_Manifest b) sl) '''' refs s2 of
                None \<Rightarrow> None
              | Some (s3, Inl e) \<Rightarrow> Some (s3, Inl e)
              | Some (s3, Inr refs') \<Rightarrow> Some (s3, Inr (refs', writing)))))"

section \<open>The sweep\<close>

text \<open>The slice a cursor names; one that names none starts over.\<close>

definition slice_index :: "string \<Rightarrow> nat" where
  "slice_index at = (if length at = 1
     then (case index_of (hd at) idAlphabet of Some found \<Rightarrow> found | None \<Rightarrow> 0) else 0)"

definition nextSlice :: "'s sys \<Rightarrow> coord \<Rightarrow> 's \<Rightarrow> 's \<times> (error + char)" where
  "nextSlice X c s = (case Cursor (sy_etcd X) (c_meta c) s collectTask (c_self c) of
      (s1, Inl e) \<Rightarrow> (s1, Inl e)
    | (s1, Inr at) \<Rightarrow>
        (let i = slice_index at; nxt = idAlphabet ! ((i + 1) mod length idAlphabet)
         in case SaveCursor (sy_etcd X) (c_meta c) s1 collectTask (c_self c) [nxt] of
              (s2, Some e) \<Rightarrow> (s2, Inl e)
            | (s2, None) \<Rightarrow> (s2, Inr (idAlphabet ! i))))"

text \<open>The visitor's state: the statistics, how many removals failed, and the first error.\<close>

definition collect_visit ::
  "env \<Rightarrow> string \<Rightarrow> string list \<Rightarrow> string list \<Rightarrow> int \<Rightarrow> (collect_stats \<times> int \<times> error option) visitor" where
  "collect_visit V self refs writing cutoff a ci = (case a of (s, st, failed, first) \<Rightarrow>
     (let st1 = st\<lparr>cs_Examined := cs_Examined st + 1\<rparr> in
      if ci_ID ci \<in> set refs
      then ((s, st1\<lparr>cs_Referenced := cs_Referenced st1 + 1\<rparr>, failed, first), None)
      else if inFlight writing (ci_ID ci)
      then ((s, st1\<lparr>cs_Writing := cs_Writing st1 + 1\<rparr>, failed, first), None)
      else if ci_Modified ci > cutoff
      then ((s, st1\<lparr>cs_Young := cs_Young st1 + 1\<rparr>, failed, first), None)
      else case RemoveChunk (ev_faults V self (ci_ID ci)) s (ci_ID ci) of
             (s', Inl e) \<Rightarrow> ((s', st1, failed + 1, if first = None then Some e else first), None)
           | (s', Inr _) \<Rightarrow>
               ((s', st1\<lparr>cs_Collected := cs_Collected st1 + 1,
                         cs_BytesCollected := cs_BytesCollected st1 + ci_Size ci\<rparr>, failed, first), None)))"

definition cluster_Collect ::
  "nat \<Rightarrow> 's sys \<Rightarrow> coord \<Rightarrow> 's world \<Rightarrow> int \<Rightarrow> ('s world \<times> collect_stats \<times> error option) option" where
  "cluster_Collect fuel X c w grace = (case nextSlice X c (w_kv w) of
      (s1, Inl e) \<Rightarrow> Some (w\<lparr>w_kv := s1\<rparr>, zero_collect, Some e)
    | (s1, Inr sl) \<Rightarrow>
        (let V = sy_env X; self = c_self c; st = zero_collect\<lparr>cs_Slice := [sl]\<rparr>;
             cutoff = ev_now V - grace
         in case referenced fuel X c sl s1 of
              None \<Rightarrow> None
            | Some (s2, Inl e) \<Rightarrow> Some (w\<lparr>w_kv := s2\<rparr>, st, Some e)
            | Some (s2, Inr (refs, writing)) \<Rightarrow>
                (case ScanChunks (ev_faults V self [sl]) [sl] (collect_visit V self refs writing cutoff)
                        (w_disks w self, st, 0, None) of
                   ((d, st', failed, first), err) \<Rightarrow>
                     (let w' = w\<lparr>w_kv := s2, w_disks := (w_disks w)(self := d)\<rparr>
                      in case err of
                           Some e \<Rightarrow> Some (w', st', Some e)
                         | None \<Rightarrow> if failed > 0
                                   then Some (w', st', Some (Other ''collect: could not be removed'' #
                                          (case first of None \<Rightarrow> [] | Some e \<Rightarrow> e)))
                                   else Some (w', st', None)))))"

section \<open>What a manifest wants of this node\<close>

text \<open>
  The chunks a manifest, under its key, says this node holds, or will hold once a move to the
  ring's placement is committed.  A part of an upload has no key.
\<close>

definition places :: "coord \<Rightarrow> string \<Rightarrow> manifest \<Rightarrow> nat set" where
  "places c key m = {i. i < length (m_Nodes m) \<and> m_Nodes m ! i = c_self c} \<union>
     (let want = Owners (mb_ring (c_live c)) (PartitionFor key) (redundancy m)
      in {i. key \<noteq> '''' \<and> i < length want \<and> want ! i = c_self c})"

definition wanted :: "coord \<Rightarrow> string \<Rightarrow> manifest \<Rightarrow> string \<Rightarrow> bool" where
  "wanted c key m x \<longleftrightarrow> (\<exists>ref \<in> set (m_Chunks m).
     if m_Coding m = zero_scheme then x = cr_ID ref \<and> places c key m \<noteq> {}
     else \<exists>i \<in> places c key m. x = ShardID ref i)"

lemma reference_wanted:
  assumes "sl \<noteq> CHR ''s''" "HasPrefix x [sl]"
  shows "x \<in> set (reference c refs key m sl) \<longleftrightarrow> x \<in> set refs \<or> wanted c key m x"
proof -
  let ?want = "if key \<noteq> '''' then Owners (mb_ring (c_live c)) (PartitionFor key) (redundancy m) else []"
  let ?mine = "positionsOf (m_Nodes m) (c_self c) @ positionsOf ?want (c_self c)"
  have mine: "set ?mine = places c key m" by (auto simp: places_def positionsOf_def Let_def)
  then have ne: "?mine = [] \<longleftrightarrow> places c key m = {}" by (metis set_empty)
  obtain r where x: "x = sl # r" using assms(2) by (cases x) (auto simp: HasPrefix_def)
  have shard: "x = ShardID ref i \<Longrightarrow> cr_ID ref \<noteq> '''' \<and> hd (cr_ID ref) = sl" for ref i
    using assms(1) x by (cases "cr_ID ref") (auto simp: ShardID_def)
  have plain: "x = cr_ID ref \<Longrightarrow> cr_ID ref \<noteq> '''' \<and> hd (cr_ID ref) = sl" for ref
    using x by (metis list.sel(1) list.distinct(1))
  show ?thesis
  proof (cases "places c key m = {}")
    case True
    then show ?thesis using ne by (auto simp: reference_def Let_def wanted_def)
  next
    case False
    then have r: "reference c refs key m sl = refs @ concat (map (\<lambda>ref.
        if cr_ID ref = '''' \<or> hd (cr_ID ref) \<noteq> sl then []
        else if m_Coding m = zero_scheme then [cr_ID ref] else map (ShardID ref) ?mine) (m_Chunks m))"
      using ne unfolding reference_def Let_def by (simp only: if_False)
    have "set (reference c refs key m sl) = set refs \<union> (\<Union>ref \<in> set (m_Chunks m).
        if cr_ID ref = '''' \<or> hd (cr_ID ref) \<noteq> sl then {}
        else if m_Coding m = zero_scheme then {cr_ID ref} else ShardID ref ` places c key m)"
      unfolding r set_append set_concat set_map mine[symmetric] by (auto split: if_splits)
    then have "x \<in> set (reference c refs key m sl) \<longleftrightarrow> x \<in> set refs \<or> (\<exists>ref \<in> set (m_Chunks m).
        (cr_ID ref \<noteq> '''' \<and> hd (cr_ID ref) = sl) \<and>
        (if m_Coding m = zero_scheme then x = cr_ID ref else \<exists>i \<in> places c key m. x = ShardID ref i))"
      by (cases "m_Coding m = zero_scheme"; simp; blast)
    moreover have "(cr_ID ref \<noteq> '''' \<and> hd (cr_ID ref) = sl) \<and>
        (if m_Coding m = zero_scheme then x = cr_ID ref else \<exists>i \<in> places c key m. x = ShardID ref i) \<longleftrightarrow>
        (if m_Coding m = zero_scheme then x = cr_ID ref \<and> places c key m \<noteq> {}
         else \<exists>i \<in> places c key m. x = ShardID ref i)" for ref
      using shard[of ref] plain[of ref] False by (cases "m_Coding m = zero_scheme") (simp, metis, simp, metis)
    ultimately show ?thesis unfolding wanted_def by simp
  qed
qed

lemma foldl_reference:
  assumes "sl \<noteq> CHR ''s''" "HasPrefix x [sl]"
  shows "x \<in> set (foldl (\<lambda>refs y. reference c refs (key y) (man y) sl) refs ys) \<longleftrightarrow>
    x \<in> set refs \<or> (\<exists>y \<in> set ys. wanted c (key y) (man y) x)"
  by (induction ys arbitrary: refs) (auto simp: reference_wanted[OF assms])

section \<open>What the scans find\<close>

text \<open>The manifests of parts of uploads under way.\<close>

definition part_of_upload :: "meta \<Rightarrow> kvs \<Rightarrow> manifest \<Rightarrow> bool" where
  "part_of_upload M v m \<longleftrightarrow> (\<exists>k d. kv_lookup v k = Some d \<and> HasPrefix k (uploads_prefix M) \<and>
     Contains k ''/parts/'' \<and> decode_manifest (kd_Value d) = Inr m)"

lemma not_wanted_zero [simp]: "\<not> wanted c '''' zero_manifest x"
  by (simp add: wanted_def zero_manifest_def)

lemma parts_found:
  assumes "decode_all decode_part_ref (part_rest M v '''') = Inr ys"
  shows "(\<exists>y \<in> set ys. wanted c '''' (pr_Manifest y) x) \<longleftrightarrow> (\<exists>m. part_of_upload M v m \<and> wanted c '''' m x)"
proof -
  have raw: "(k, d) \<in> set (part_rest M v '''') \<longleftrightarrow> HasPrefix k (uploads_prefix M) \<and> kv_lookup v k = Some d" for k d
  proof -
    have "HasPrefix k (uploads_prefix M) \<Longrightarrow> uploads_prefix M \<le> k"
      by (auto simp: HasPrefix_prefix prefix_def)
    then show ?thesis by (auto simp: part_rest_def set_kv_select)
  qed
  show ?thesis
  proof
    assume "\<exists>y \<in> set ys. wanted c '''' (pr_Manifest y) x"
    then obtain y k d where y: "wanted c '''' (pr_Manifest y) x" "(k, d) \<in> set (part_rest M v '''')"
      "decode_part_ref (k, d) = Inr y"
      using decode_all_from[OF assms] by (metis surj_pair)
    then show "\<exists>m. part_of_upload M v m \<and> wanted c '''' m x"
      using raw[of k d] unfolding part_of_upload_def
      by (cases "Contains k ''/parts/''"; cases "decode_manifest (kd_Value d)") fastforce+
  next
    assume "\<exists>m. part_of_upload M v m \<and> wanted c '''' m x"
    then obtain m k d where m: "wanted c '''' m x" "(k, d) \<in> set (part_rest M v '''')"
      "Contains k ''/parts/''" "decode_manifest (kd_Value d) = Inr m"
      using raw by (auto simp: part_of_upload_def)
    from decode_all_in[OF assms m(2)] m show "\<exists>y \<in> set ys. wanted c '''' (pr_Manifest y) x" by force
  qed
qed

lemma objects_found:
  assumes "decode_all (decode_obj M) (object_rest M '''' v '''') = Inr ys"
  shows "(\<exists>y \<in> set ys. wanted c (ob_Key y) (ob_Manifest y) x) \<longleftrightarrow>
    (\<exists>key m. committed M v key = Some m \<and> wanted c key m x)"
proof -
  have raw: "(k, d) \<in> set (object_rest M '''' v '''') \<longleftrightarrow> HasPrefix k (meta_key M '''') \<and> kv_lookup v k = Some d" for k d
  proof -
    have "HasPrefix k (meta_key M '''') \<Longrightarrow> meta_key M '''' \<le> k"
      by (auto simp: HasPrefix_prefix prefix_def)
    then show ?thesis by (auto simp: object_rest_def set_kv_select)
  qed
  show ?thesis
  proof
    assume "\<exists>y \<in> set ys. wanted c (ob_Key y) (ob_Manifest y) x"
    then obtain y k d where y: "wanted c (ob_Key y) (ob_Manifest y) x" "(k, d) \<in> set (object_rest M '''' v '''')"
      "decode_obj M (k, d) = Inr y"
      using decode_all_from[OF assms] by (metis surj_pair)
    then have "committed M v (ob_Key y) = Some (ob_Manifest y)"
      using raw[of k d] meta_key_trim[of k M "''''"] by (auto simp: committed_def split: sum.splits)
    then show "\<exists>key m. committed M v key = Some m \<and> wanted c key m x" using y(1) by blast
  next
    assume "\<exists>key m. committed M v key = Some m \<and> wanted c key m x"
    then obtain key m where "committed M v key = Some m" and w: "wanted c key m x" by blast
    then obtain d where "kv_lookup v (meta_key M key) = Some d" "decode_manifest (kd_Value d) = Inr m"
      by (cases "kv_lookup v (meta_key M key)") (auto simp: committed_def split: sum.splits)
    note m = w this
    have "(meta_key M key, d) \<in> set (object_rest M '''' v '''')"
      unfolding raw using m(2) by (simp add: meta_key_def)
    from decode_all_in[OF assms this] m show "\<exists>y \<in> set ys. wanted c (ob_Key y) (ob_Manifest y) x"
      by (force simp: meta_key_def)
  qed
qed

section \<open>What is running\<close>

text \<open>The records of writes whose coordinating node is a member (all of them, before the first view).\<close>

definition running :: "coord \<Rightarrow> kvs \<Rightarrow> string \<Rightarrow> bool" where
  "running c v i \<longleftrightarrow> (\<exists>k d. kv_lookup v k = Some d \<and> HasPrefix k (writingPrefix (c_meta c)) \<and> i = path_Base k \<and>
     (map_of (mb_peers (c_live c)) (stored_string (kd_Value d)) \<noteq> None \<or> mb_peers (c_live c) = []))"

text \<open>Nothing but records of writes is dropped.\<close>

definition only_records :: "meta \<Rightarrow> kvs \<Rightarrow> kvs \<Rightarrow> bool" where
  "only_records M v v' \<longleftrightarrow> (\<forall>k. \<not> HasPrefix k (writingPrefix M) \<longrightarrow> kv_lookup v' k = kv_lookup v k) \<and>
     length (kvs_Keys v') \<le> length (kvs_Keys v)"

lemma only_records_refl [simp]: "only_records M v v" by (simp add: only_records_def)

lemma only_records_trans: "only_records M u v \<Longrightarrow> only_records M v w \<Longrightarrow> only_records M u w"
  by (simp add: only_records_def)

lemma prefixes_apart [simp]:
  "HasPrefix k (uploads_prefix M) \<Longrightarrow> \<not> HasPrefix k (writingPrefix M)"
  "\<not> HasPrefix (meta_key M y) (writingPrefix M)"
  "\<not> HasPrefix (cursorKey M a b) (writingPrefix M)"
  by (auto simp: HasPrefix_prefix prefix_def uploads_prefix_def writingPrefix_def join_def meta_key_def
      objects_prefix_def cursorKey_def)

lemma only_records_committed: "only_records M v v' \<Longrightarrow> committed M v' = committed M v"
  by (simp add: only_records_def committed_def fun_eq_iff)

lemma only_records_parts: "only_records M v v' \<Longrightarrow> part_of_upload M v' = part_of_upload M v"
  unfolding part_of_upload_def only_records_def fun_eq_iff using prefixes_apart(1) by metis

lemma only_records_drop: "HasPrefix k (writingPrefix M) \<Longrightarrow> only_records M v (kv_drop v (\<lambda>x. x = k))"
proof -
  assume "HasPrefix k (writingPrefix M)"
  moreover have "length (kvs_Keys (kv_drop v (\<lambda>x. x = k))) \<le> length (kvs_Keys v)"
    by (simp add: kv_drop_def)
  ultimately show ?thesis by (auto simp: only_records_def)
qed

lemma DoneWriting_only_records:
  assumes "etcd_client E view" "DoneWriting E M s i = (s', r)"
  shows "only_records M (view s) (view s')"
  using etcd_client.et_unit_any[OF assms(1), of s "EDelete (writingKey M i)" s' r] assms(2)
    only_records_drop[of "writingKey M i" M "view s"]
  by (auto simp: DoneWriting_def writingKey_def)

lemma in_flight_loop_spec:
  assumes "etcd_client (sy_etcd X) view"
  shows "in_flight_loop X c ws ids s = (s', r) \<Longrightarrow> only_records (c_meta c) (view s) (view s') \<and>
    (\<forall>out. r = Inr out \<longrightarrow> set out = set ids \<union> {i. \<exists>nd. (i, nd) \<in> set ws \<and>
       (map_of (mb_peers (c_live c)) nd \<noteq> None \<or> mb_peers (c_live c) = [])})"
proof (induction ws arbitrary: ids s)
  case (Cons w ws)
  obtain i nd where w: "w = (i, nd)" by (cases w)
  let ?alive = "map_of (mb_peers (c_live c)) nd \<noteq> None \<or> mb_peers (c_live c) = []"
  show ?case
  proof (cases ?alive)
    case True
    then have "in_flight_loop X c ws (ids @ [i]) s = (s', r)" using Cons.prems w by simp
    from Cons.IH[OF this] True w show ?thesis by auto
  next
    case False
    obtain s1 r1 where d: "DoneWriting (sy_etcd X) (c_meta c) s i = (s1, r1)" by fastforce
    note o1 = DoneWriting_only_records[OF assms d]
    show ?thesis
    proof (cases r1)
      case None
      then have "in_flight_loop X c ws ids s1 = (s', r)" using Cons.prems w False d by auto
      from Cons.IH[OF this] False w only_records_trans[OF o1] show ?thesis by auto
    next
      case (Some e)
      then show ?thesis using Cons.prems w False d o1 by auto
    qed
  qed
qed auto

lemma writesInFlight_spec:
  assumes "etcd_client (sy_etcd X) view" "writesInFlight X c s = (s', r)"
  shows "only_records (c_meta c) (view s) (view s')"
    and "r = Inr out \<Longrightarrow> set out = {i. running c (view s) i}"
proof -
  obtain s1 r1 where w: "Writing (sy_etcd X) (c_meta c) s = (s1, r1)" by fastforce
  have v1: "view s1 = view s"
    using w by (auto simp: Writing_def dest!: etcd_client.et_kvs_view[OF assms(1)] split: prod.splits sum.splits)
  have "only_records (c_meta c) (view s) (view s') \<and> (r = Inr out \<longrightarrow> set out = {i. running c (view s) i})"
  proof (cases r1)
    case (Inl e)
    then show ?thesis using assms(2) w v1 by (auto simp: writesInFlight_def)
  next
    case (Inr ws)
    obtain kv mr where k: "et_kvs (sy_etcd X) s (EGetPrefix (writingPrefix (c_meta c))) = (s1, Inr (kv, mr))"
      and ws: "ws = map (\<lambda>(k, d). (path_Base k, stored_string (kd_Value d))) kv"
      using w Inr by (auto simp: Writing_def split: prod.splits sum.splits)
    have kv: "kv = kv_select (view s) (\<lambda>x. HasPrefix x (writingPrefix (c_meta c)))"
      using etcd_client.et_kvs_ok[OF assms(1) k] by simp
    have "in_flight_loop X c ws [] s1 = (s', r)" using assms(2) w Inr by (simp add: writesInFlight_def)
    note loop = in_flight_loop_spec[OF assms(1) this, unfolded v1]
    have ws_iff: "(i, nd) \<in> set ws \<longleftrightarrow> (\<exists>k d. kv_lookup (view s) k = Some d \<and>
        HasPrefix k (writingPrefix (c_meta c)) \<and> i = path_Base k \<and> nd = stored_string (kd_Value d))" for i nd
      unfolding ws kv by (force simp: set_kv_select)
    have "{i. running c (view s) i} = {i. \<exists>nd. (i, nd) \<in> set ws \<and>
        (map_of (mb_peers (c_live c)) nd \<noteq> None \<or> mb_peers (c_live c) = [])}"
      unfolding running_def ws_iff by blast
    then show ?thesis using loop by simp
  qed
  then show "only_records (c_meta c) (view s) (view s')" "r = Inr out \<Longrightarrow> set out = {i. running c (view s) i}"
    by blast+
qed

section \<open>What the sweep spares\<close>

definition spared :: "coord \<Rightarrow> kvs \<Rightarrow> int \<Rightarrow> string \<Rightarrow> cfile \<Rightarrow> bool" where
  "spared c v cutoff x f \<longleftrightarrow>
     (\<exists>m. part_of_upload (c_meta c) v m \<and> wanted c '''' m x) \<or>
     (\<exists>key m. committed (c_meta c) v key = Some m \<and> wanted c key m x) \<or>
     (\<exists>i. running c v i \<and> HasPrefix x i) \<or> cutoff < f_mtime f"

lemma scanPage_Suc: "scanPage = int (Suc 255)"
  by (simp add: scanPage_def)

lemma referenced_spec:
  assumes "etcd_client (sy_etcd X) view" "referenced fuel X c sl s = Some (s', r)"
  shows "only_records (c_meta c) (view s) (view s')"
    and "r = Inr (refs, writing) \<Longrightarrow> sl \<noteq> CHR ''s'' \<Longrightarrow> HasPrefix x [sl] \<Longrightarrow>
      (x \<in> set refs \<or> inFlight writing x \<or> cutoff < f_mtime f) = spared c (view s) cutoff x f"
proof -
  let ?M = "c_meta c"
  obtain s1 r1 where w: "writesInFlight X c s = (s1, r1)" by fastforce
  note o1 = writesInFlight_spec[OF assms(1) w]
  have "only_records ?M (view s) (view s') \<and> (\<forall>refs writing. r = Inr (refs, writing) \<longrightarrow> sl \<noteq> CHR ''s'' \<longrightarrow> HasPrefix x [sl] \<longrightarrow>
      (x \<in> set refs \<or> inFlight writing x \<or> cutoff < f_mtime f) = spared c (view s) cutoff x f)"
  proof (cases r1)
    case (Inl e)
    then show ?thesis using assms(2) w o1(1) by (auto simp: referenced_def)
  next
    case (Inr ws)
    let ?ref = "\<lambda>refs p. reference c refs '''' (pr_Manifest p) sl"
    obtain s2 r2 where p: "pages fuel (\<lambda>frm s. ScanParts (sy_etcd X) ?M s frm (int (Suc 255))) pr_Key ?ref '''' [] s1 = Some (s2, r2)"
      using assms(2) w Inr by (auto simp: referenced_def scanPage_Suc split: option.splits)
    note p2 = etcd_client.all_parts[OF assms(1) p]
    show ?thesis
    proof (cases r2)
      case (Inl e)
      then show ?thesis using assms(2) w Inr p o1(1) p2(1) by (auto simp: referenced_def scanPage_Suc)
    next
      case r2: (Inr refs0)
      let ?obj = "\<lambda>refs b. reference c refs (ob_Key b) (ob_Manifest b) sl"
      obtain s3 r3 where q: "pages fuel (\<lambda>frm s. ScanObjects (sy_etcd X) ?M s '''' frm (int (Suc 255))) (\<lambda>b. After (ob_Key b)) ?obj '''' refs0 s2 = Some (s3, r3)"
        using assms(2) w Inr p r2 by (auto simp: referenced_def scanPage_Suc split: option.splits)
      note q2 = etcd_client.all_objects[OF assms(1) q]
      have fin: "s' = s3" "r3 = Inl e \<Longrightarrow> r = Inl e" "r3 = Inr rs \<Longrightarrow> r = Inr (rs, ws)" for e rs
        using assms(2) w Inr p r2 q by (auto simp: referenced_def scanPage_Suc split: sum.splits)
      have v: "view s2 = view s1" "view s' = view s1" using p2(1) q2(1) fin(1) by simp_all
      have "(x \<in> set rs \<or> inFlight ws x \<or> cutoff < f_mtime f) = spared c (view s) cutoff x f"
        if r3: "r3 = Inr rs" and sl: "sl \<noteq> CHR ''s''" "HasPrefix x [sl]" for rs
      proof -
        obtain ps where ps: "decode_all decode_part_ref (part_rest ?M (view s1) '''') = Inr ps" "refs0 = foldl ?ref [] ps"
          using p2(2) r2 by blast
        obtain os where os: "decode_all (decode_obj ?M) (object_rest ?M '''' (view s1) '''') = Inr os" "rs = foldl ?obj refs0 os"
          using q2(2) r3 v(1) by auto
        have "x \<in> set rs \<longleftrightarrow> (\<exists>y \<in> set ps. wanted c '''' (pr_Manifest y) x) \<or> (\<exists>y \<in> set os. wanted c (ob_Key y) (ob_Manifest y) x)"
          unfolding os(2) ps(2) foldl_reference[OF sl] by simp
        then show ?thesis
          unfolding parts_found[OF ps(1)] objects_found[OF os(1)] spared_def
          using o1(2)[of ws] Inr only_records_committed[OF o1(1)] only_records_parts[OF o1(1)]
          by (auto simp: inFlight_def list_ex_iff)
      qed
      then show ?thesis using o1(1) v(2) fin(2,3) by (cases r3) auto
    qed
  qed
  then show "only_records ?M (view s) (view s')"
    "r = Inr (refs, writing) \<Longrightarrow> sl \<noteq> CHR ''s'' \<Longrightarrow> HasPrefix x [sl] \<Longrightarrow>
      (x \<in> set refs \<or> inFlight writing x \<or> cutoff < f_mtime f) = spared c (view s) cutoff x f"
    by blast+
qed

lemma referenced_ends:
  assumes "etcd_client (sy_etcd X) view" "length (kvs_Keys (view s)) < fuel"
  shows "\<exists>r. referenced fuel X c sl s = Some r"
proof -
  let ?M = "c_meta c" and ?ref = "\<lambda>refs p. reference c refs '''' (pr_Manifest p) sl"
    and ?obj = "\<lambda>refs b. reference c refs (ob_Key b) (ob_Manifest b) sl"
  obtain s1 r1 where w: "writesInFlight X c s = (s1, r1)" by fastforce
  have l1: "length (kvs_Keys (view s1)) < fuel"
    using writesInFlight_spec(1)[OF assms(1) w] assms(2) by (simp add: only_records_def)
  obtain s2 r2 where p: "pages fuel (\<lambda>frm s. ScanParts (sy_etcd X) ?M s frm (int (Suc 255))) pr_Key ?ref '''' [] s1 = Some (s2, r2)"
    using etcd_client.scans_end(2)[OF assms(1) l1] by (metis surj_pair)
  have l2: "length (kvs_Keys (view s2)) < fuel" using l1 etcd_client.all_parts(1)[OF assms(1) p] by simp
  have "\<exists>r. pages fuel (\<lambda>frm s. ScanObjects (sy_etcd X) ?M s '''' frm (int (Suc 255))) (\<lambda>b. After (ob_Key b)) ?obj '''' refs s2 = Some r" for refs
    by (rule etcd_client.scans_end(1)[OF assms(1) l2])
  then show ?thesis using w p by (auto simp: referenced_def scanPage_Suc split: sum.splits option.splits) (metis option.distinct(1))
qed

section \<open>The sweep itself\<close>

definition dead :: "string list \<Rightarrow> string list \<Rightarrow> int \<Rightarrow> chunk_info \<Rightarrow> bool" where
  "dead refs writing cutoff i \<longleftrightarrow> ci_ID i \<notin> set refs \<and> \<not> inFlight writing (ci_ID i) \<and> \<not> cutoff < ci_Modified i"

lemma RemoveChunk_ok: "RemoveChunk F s x = (s', Inr u) \<Longrightarrow> chunk_file s' = (chunk_file s)(x := None)"
  by (auto simp: RemoveChunk_def chunk_file_def delete_conv' fun_eq_iff split: option.splits if_splits)

lemma RemoveChunk_err: "RemoveChunk F s x = (s', Inl e) \<Longrightarrow> s' = s"
  by (auto simp: RemoveChunk_def split: option.splits if_splits)

lemma collect_visit_cases:
  obtains (spare) st1 where "\<not> dead refs writing cutoff i"
    "collect_visit V self refs writing cutoff (s, st, failed, fst_err) i = ((s, st1, failed, fst_err), None)"
  | (removed) s1 st1 where "dead refs writing cutoff i" "chunk_file s1 = (chunk_file s)(ci_ID i := None)"
    "collect_visit V self refs writing cutoff (s, st, failed, fst_err) i = ((s1, st1, failed, fst_err), None)"
  | (stuck) st1 e1 where "dead refs writing cutoff i"
    "collect_visit V self refs writing cutoff (s, st, failed, fst_err) i = ((s, st1, failed + 1, e1), None)"
proof (cases "dead refs writing cutoff i")
  case False
  then have "\<exists>st1. collect_visit V self refs writing cutoff (s, st, failed, fst_err) i = ((s, st1, failed, fst_err), None)"
    unfolding dead_def collect_visit_def by (auto simp: Let_def)
  then show ?thesis using spare False by blast
next
  case True
  obtain s1 r where rm: "RemoveChunk (ev_faults V self (ci_ID i)) s (ci_ID i) = (s1, r)" by fastforce
  show ?thesis
  proof (cases r)
    case (Inl e)
    then have "\<exists>st1 e1. collect_visit V self refs writing cutoff (s, st, failed, fst_err) i = ((s, st1, failed + 1, e1), None)"
      using True rm RemoveChunk_err[of _ s] unfolding dead_def collect_visit_def by (auto simp: Let_def)
    then show ?thesis using stuck True by blast
  next
    case (Inr u)
    then have "chunk_file s1 = (chunk_file s)(ci_ID i := None)" using RemoveChunk_ok rm by blast
    moreover have "\<exists>st1. collect_visit V self refs writing cutoff (s, st, failed, fst_err) i = ((s1, st1, failed, fst_err), None)"
      using True rm Inr unfolding dead_def collect_visit_def by (auto simp: Let_def)
    ultimately show ?thesis using removed True by blast
  qed
qed

lemma run_collect:
  assumes "run_visits (collect_visit V self refs writing cutoff) (s, st, failed, fe) is = ((s', st', failed', fe'), e)"
  shows "failed \<le> failed' \<and> (failed' = failed \<longrightarrow> chunk_file s' =
    (\<lambda>x. if \<exists>i \<in> set is. ci_ID i = x \<and> dead refs writing cutoff i then None else chunk_file s x))"
  using assms
proof (induction "is" arbitrary: s st failed fe)
  case (Cons i "is")
  show ?case
  proof (cases rule: collect_visit_cases[of refs writing cutoff i V self s st failed fe])
    case (spare st1)
    then show ?thesis using Cons by auto
  next
    case (removed s1 st1)
    then have "run_visits (collect_visit V self refs writing cutoff) (s1, st1, failed, fe) is = ((s', st', failed', fe'), e)"
      using Cons.prems by simp
    from Cons.IH[OF this] removed(1,2) show ?thesis by (auto simp: fun_eq_iff)
  next
    case (stuck st1 e1)
    then have "run_visits (collect_visit V self refs writing cutoff) (s, st1, failed + 1, e1) is = ((s', st', failed', fe'), e)"
      using Cons.prems by simp
    from Cons.IH[OF this] show ?thesis by auto
  qed
qed auto

lemma local_collect: "local_visit (collect_visit V self refs writing cutoff)"
  unfolding local_visit_def
proof (intro allI impI)
  fix a :: "store \<times> collect_stats \<times> int \<times> error option" and i :: chunk_info and x assume "x \<noteq> ci_ID i"
  obtain s st failed fe where a: "a = (s, st, failed, fe)" by (metis prod_cases4)
  show "chunk_file (fst (fst (collect_visit V self refs writing cutoff a i))) x = chunk_file (fst a) x"
    unfolding a by (cases rule: collect_visit_cases[of refs writing cutoff i V self s st failed fe])
      (use \<open>x \<noteq> ci_ID i\<close> in simp_all)
qed

text \<open>A sweep that reports no error met no fault.\<close>

lemma scan_files_clean:
  "scan_files F pre visit xs a = (a', None) \<Longrightarrow> scan_files no_faults pre visit xs a = (a', None)"
  by (induction xs arbitrary: a) (auto simp: no_faults_def split: if_splits option.splits prod.splits)

lemma scan_dirs_clean:
  "scan_dirs F pre visit ds a = (a', None) \<Longrightarrow> scan_dirs no_faults pre visit ds a = (a', None)"
proof (induction ds arbitrary: a)
  case (Cons d ds)
  show ?case
  proof (cases "within d pre")
    case True
    with Cons.prems obtain a1 where "scan_files F pre visit (dir_files (fst a) d) a = (a1, None)"
      "scan_dirs F pre visit ds a1 = (a', None)"
      by (auto split: if_splits option.splits prod.splits)
    then show ?thesis using True Cons.IH scan_files_clean by (simp add: no_faults_def) fastforce
  qed (use Cons in simp)
qed simp

lemma ScanChunks_clean:
  assumes "ScanChunks F pre visit a = (a', None)" "local_visit visit"
  shows "run_visits visit a (scan_infos (fst a) pre) = (a', None)"
proof -
  have "ScanChunks no_faults pre visit a = (a', None)"
    using assms(1) scan_dirs_clean[of F pre visit "chunk_dirs (fst a)" a a']
    by (auto simp: ScanChunks_def no_faults_def split: if_splits)
  then show ?thesis using ScanChunks_run[OF assms(2), of no_faults pre a] by (simp add: no_faults_def)
qed

text \<open>However the sweep ends, a chunk that is gone was dead and in the slice.\<close>

lemma sweep_safe:
  assumes "ScanChunks F [sl] (collect_visit V self refs writing cutoff) (s0, st, 0, None) = ((s', st', failed', fe'), err)"
  shows "chunk_file s' x = chunk_file s0 x \<or> chunk_file s' x = None \<and> HasPrefix x [sl] \<and>
    (\<exists>f. chunk_file s0 x = Some f \<and> dead refs writing cutoff (chunk_info_of x f))"
proof -
  define P :: "store \<times> collect_stats \<times> int \<times> error option \<Rightarrow> bool" where
    "P a \<longleftrightarrow> (\<forall>x. chunk_file (fst a) x = chunk_file s0 x \<or> chunk_file (fst a) x = None \<and> HasPrefix x [sl] \<and>
      (\<exists>f. chunk_file s0 x = Some f \<and> dead refs writing cutoff (chunk_info_of x f)))" for a
  have "visit_keeps P [sl] (collect_visit V self refs writing cutoff)"
    unfolding visit_keeps_def
  proof (intro allI impI)
    fix a y f assume a: "P a" "HasPrefix y [sl]" "chunk_file (fst a) y = Some f"
    obtain s st failed fe where aa: "a = (s, st, failed, fe)" by (metis prod_cases4)
    have y: "chunk_file s0 y = Some f" using a unfolding P_def aa by (metis fst_conv option.distinct(1))
    have "ci_ID (chunk_info_of y f) = y" by (simp add: chunk_info_of_def)
    then show "P (fst (collect_visit V self refs writing cutoff a (chunk_info_of y f)))"
      unfolding aa by (cases rule: collect_visit_cases[of refs writing cutoff "chunk_info_of y f" V self s st failed fe])
        (use a y in \<open>auto simp: P_def aa\<close>)
  qed
  from ScanChunks_keeps[OF this, of "(s0, st, 0, None)" F] assms show ?thesis by (simp add: P_def)
qed

lemma sweep_complete:
  assumes "ScanChunks F [sl] (collect_visit V self refs writing cutoff) (s0, st, 0, None) = ((s', st', 0, fe'), None)"
    and "store_wf s0" "HasPrefix x [sl]"
  shows "chunk_file s' x = (case chunk_file s0 x of None \<Rightarrow> None
    | Some f \<Rightarrow> if dead refs writing cutoff (chunk_info_of x f) then None else Some f)"
proof -
  note run = ScanChunks_clean[OF assms(1) local_collect]
  have "chunk_file s' x = (if \<exists>i \<in> set (scan_infos s0 [sl]). ci_ID i = x \<and> dead refs writing cutoff i
      then None else chunk_file s0 x)"
    using run_collect[OF run] by simp
  then show ?thesis using assms(3) set_scan_infos[OF assms(2), of _ "[sl]"]
    by (cases "chunk_file s0 x") (auto simp: chunk_info_of_def)
qed

section \<open>A whole pass\<close>

lemma index_of_less: "index_of x xs = Some i \<Longrightarrow> i < length xs"
  by (induction xs arbitrary: i) (auto split: if_splits)

lemma nextSlice_spec:
  assumes "etcd_client (sy_etcd X) view" "nextSlice X c s = (s', r)"
  shows "\<exists>z. view s' = view s \<or> view s' = kv_put (view s) (cursorKey (c_meta c) collectTask (c_self c)) z"
    and "r = Inr sl \<Longrightarrow> sl \<in> set idAlphabet"
proof -
  obtain s1 r1 where cur: "Cursor (sy_etcd X) (c_meta c) s collectTask (c_self c) = (s1, r1)" by fastforce
  have v1: "view s1 = view s"
    using cur by (auto simp: Cursor_def dest!: etcd_client.et_kvs_view[OF assms(1)]
        split: prod.splits sum.splits list.splits)
  have len: "0 < length idAlphabet" by (simp add: idAlphabet_def)
  have "(\<exists>z. view s' = view s \<or> view s' = kv_put (view s) (cursorKey (c_meta c) collectTask (c_self c)) z) \<and>
    (r = Inr sl \<longrightarrow> sl \<in> set idAlphabet)"
  proof (cases r1)
    case (Inl e)
    then show ?thesis using assms(2) cur v1 by (auto simp: nextSlice_def)
  next
    case (Inr at)
    let ?i = "slice_index at"
    have i: "?i < length idAlphabet"
      using index_of_less[of "hd at" idAlphabet] len by (auto simp: slice_index_def split: option.splits)
    let ?z = "[idAlphabet ! ((?i + 1) mod length idAlphabet)]"
    obtain s2 r2 where save: "SaveCursor (sy_etcd X) (c_meta c) s1 collectTask (c_self c) ?z = (s2, r2)" by fastforce
    have "s' = s2 \<and> (r = Inr sl \<longrightarrow> sl = idAlphabet ! ?i)"
      using assms(2) cur Inr save by (auto simp: nextSlice_def Let_def split: option.splits)
    then show ?thesis
      using etcd_client.et_unit_any[OF assms(1) save[unfolded SaveCursor_def]] v1 i by auto
  qed
  then show "\<exists>z. view s' = view s \<or> view s' = kv_put (view s) (cursorKey (c_meta c) collectTask (c_self c)) z"
    "r = Inr sl \<Longrightarrow> sl \<in> set idAlphabet" by blast+
qed

text \<open>The cursor is nobody's manifest and nobody's record.\<close>

lemma cursor_apart [simp]:
  "meta_key M k \<noteq> cursorKey M a b" "\<not> HasPrefix (cursorKey M a b) (uploads_prefix M)"
  by (auto simp: meta_key_def objects_prefix_def cursorKey_def join_def HasPrefix_prefix prefix_def uploads_prefix_def)

lemma cursor_frame:
  assumes "v' = kv_put v (cursorKey M a b) z"
  shows "committed M v' = committed M v" "part_of_upload M v' = part_of_upload M v"
    "M = c_meta c \<Longrightarrow> running c v' = running c v"
proof -
  have up: "kv_lookup v' k = kv_lookup v k" if "HasPrefix k (uploads_prefix M)" for k using that assms by auto
  have wr: "kv_lookup v' k = kv_lookup v k" if "HasPrefix k (writingPrefix M)" for k
    using that assms prefixes_apart(3) by auto
  show "committed M v' = committed M v" using assms by (simp add: committed_def fun_eq_iff)
  show "part_of_upload M v' = part_of_upload M v"
    unfolding part_of_upload_def by (intro ext iff_exI) (metis up)
  show "running c v' = running c v" if "M = c_meta c"
    unfolding running_def that[symmetric] by (intro ext iff_exI) (metis wr)
qed

lemma sweep_slice:
  assumes "ScanChunks F [sl] (collect_visit V self refs writing cutoff) (s0, st, 0, None) = ((s', st', failed', fe'), err)"
  shows "cs_Slice st' = cs_Slice st"
proof -
  have "cs_Slice (fst (snd (fst (collect_visit V self refs writing cutoff a i)))) = cs_Slice (fst (snd a))" for a i
    by (cases a) (auto simp: collect_visit_def Let_def split: prod.splits sum.splits)
  then have "visit_keeps (\<lambda>a. cs_Slice (fst (snd a)) = cs_Slice st) [sl] (collect_visit V self refs writing cutoff)"
    by (simp add: visit_keeps_def)
  from ScanChunks_keeps[OF this, of "(s0, st, 0, None)" F] assms show ?thesis by simp
qed

lemma cluster_Collect_cases:
  assumes "etcd_client (sy_etcd X) view" "cluster_Collect fuel X c w grace = Some (w', st, err)"
  obtains (idle) kv where "w' = w\<lparr>w_kv := kv\<rparr>" "err \<noteq> None" "committed (c_meta c) (view kv) = committed (c_meta c) (view (w_kv w))"
  | (swept) kv sl refs writing d st' failed fe serr where "sl \<in> set idAlphabet" "cs_Slice st = [sl]"
    "w' = w\<lparr>w_kv := kv, w_disks := (w_disks w)(c_self c := d)\<rparr>"
    "committed (c_meta c) (view kv) = committed (c_meta c) (view (w_kv w))"
    "ScanChunks (ev_faults (sy_env X) (c_self c) [sl]) [sl] (collect_visit (sy_env X) (c_self c) refs writing
        (ev_now (sy_env X) - grace)) (w_disks w (c_self c), zero_collect\<lparr>cs_Slice := [sl]\<rparr>, 0, None) = ((d, st', failed, fe), serr)"
    "err = None \<longleftrightarrow> serr = None \<and> failed \<le> 0"
    "\<And>x f. HasPrefix x [sl] \<Longrightarrow> dead refs writing (ev_now (sy_env X) - grace) (chunk_info_of x f) \<longleftrightarrow>
        \<not> spared c (view (w_kv w)) (ev_now (sy_env X) - grace) x f"
proof -
  let ?V = "sy_env X" and ?M = "c_meta c"
  obtain s1 r1 where nx: "nextSlice X c (w_kv w) = (s1, r1)" by fastforce
  obtain z where z: "view s1 = view (w_kv w) \<or> view s1 = kv_put (view (w_kv w)) (cursorKey ?M collectTask (c_self c)) z"
    using nextSlice_spec(1)[OF assms(1) nx] by blast
  have same: "committed ?M (view s1) = committed ?M (view (w_kv w))"
    "part_of_upload ?M (view s1) = part_of_upload ?M (view (w_kv w))" "running c (view s1) = running c (view (w_kv w))"
    using z cursor_frame(1,2)[of "view s1" "view (w_kv w)" ?M collectTask "c_self c" z]
      cursor_frame(3)[of "view s1" "view (w_kv w)" ?M collectTask "c_self c" z c] by auto
  show ?thesis
  proof (cases r1)
    case (Inl e)
    then have "w' = w\<lparr>w_kv := s1\<rparr>" "err \<noteq> None" using assms(2) nx by (auto simp: cluster_Collect_def)
    then show ?thesis using idle same(1) by blast
  next
    case (Inr sl)
    have sl: "sl \<in> set idAlphabet" using nextSlice_spec(2)[OF assms(1) nx] Inr by blast
    then have "sl \<noteq> CHR ''s''" by (auto simp: idAlphabet_def)
    obtain s2 r2 where ref: "referenced fuel X c sl s1 = Some (s2, r2)"
      using assms(2) nx Inr by (auto simp: cluster_Collect_def Let_def split: option.splits)
    note rs = referenced_spec[OF assms(1) ref]
    have com: "committed ?M (view s2) = committed ?M (view (w_kv w))"
      using only_records_committed[OF rs(1)] same(1) by simp
    show ?thesis
    proof (cases r2)
      case (Inl e)
      then have "w' = w\<lparr>w_kv := s2\<rparr>" "err \<noteq> None" using assms(2) nx Inr ref by (auto simp: cluster_Collect_def Let_def)
      then show ?thesis using idle com by blast
    next
      case r2: (Inr rw)
      obtain refs writing where rw: "rw = (refs, writing)" by (cases rw)
      let ?visit = "collect_visit ?V (c_self c) refs writing (ev_now ?V - grace)"
      obtain d st' failed fe serr where sc: "ScanChunks (ev_faults ?V (c_self c) [sl]) [sl] ?visit
          (w_disks w (c_self c), zero_collect\<lparr>cs_Slice := [sl]\<rparr>, 0, None) = ((d, st', failed, fe), serr)"
        by (metis prod_cases4 surj_pair)
      have res: "w' = w\<lparr>w_kv := s2, w_disks := (w_disks w)(c_self c := d)\<rparr>" "st = st'" "err = None \<longleftrightarrow> serr = None \<and> failed \<le> 0"
        using assms(2) nx Inr ref r2 rw sc
        by (auto simp: cluster_Collect_def Let_def split: option.splits if_splits)
      have slice: "cs_Slice st' = [sl]" using sweep_slice[OF sc] by simp
      have "dead refs writing (ev_now ?V - grace) (chunk_info_of x f) \<longleftrightarrow>
          \<not> spared c (view (w_kv w)) (ev_now ?V - grace) x f" if "HasPrefix x [sl]" for x f
        using rs(2)[of refs writing x "ev_now ?V - grace" f] r2 rw \<open>sl \<noteq> CHR ''s''\<close> that same
        by (auto simp: dead_def chunk_info_of_def spared_def)
      then show ?thesis using swept[OF sl _ res(1) com sc res(3)] slice res(2) by simp
    qed
  qed
qed

lemma cluster_Collect_ends:
  assumes "etcd_client (sy_etcd X) view" "length (kvs_Keys (view (w_kv w))) + 1 < fuel"
  shows "\<exists>r. cluster_Collect fuel X c w grace = Some r"
proof -
  obtain s1 r1 where nx: "nextSlice X c (w_kv w) = (s1, r1)" by fastforce
  have "length (AList.update k x kv) \<le> Suc (length kv)" for k :: string and x :: kvd and kv
    by (induction kv) auto
  then have "length (kvs_Keys (view s1)) < fuel"
    using nextSlice_spec(1)[OF assms(1) nx] assms(2) by (auto simp: kv_put_def) (metis Suc_lessD less_trans_Suc not_less_eq order_le_less_trans)
  from referenced_ends[OF assms(1) this] show ?thesis
    using nx by (cases r1) (auto simp: cluster_Collect_def Let_def split: option.splits sum.splits prod.splits)
qed

section \<open>Properties of the collector\<close>

text \<open>
  C11. A collection pass deletes only garbage.  However it ends, it changes no manifest and no other
  node's disk, and a chunk of this node that is gone was not wanted by any committed manifest or
  part of an upload, did not belong to a write in flight, and was older than the grace period when
  the scan began.
\<close>

theorem Collect_safe:
  assumes "etcd_client (sy_etcd X) view"
    and "cluster_Collect fuel X c w grace = Some (w', st, err)"
  shows "committed (c_meta c) (view (w_kv w')) = committed (c_meta c) (view (w_kv w)) \<and>
    (\<forall>nd. nd \<noteq> c_self c \<longrightarrow> w_disks w' nd = w_disks w nd) \<and>
    (\<forall>x. chunk_file (w_disks w' (c_self c)) x = chunk_file (w_disks w (c_self c)) x \<or>
       (\<exists>f. chunk_file (w_disks w (c_self c)) x = Some f \<and> chunk_file (w_disks w' (c_self c)) x = None \<and>
          \<not> spared c (view (w_kv w)) (ev_now (sy_env X) - grace) x f))"
proof (cases rule: cluster_Collect_cases[OF assms])
  case (1 kv)
  then show ?thesis by simp
next
  case (2 kv sl refs writing d st' failed fe serr)
  have "chunk_file d x = chunk_file (w_disks w (c_self c)) x \<or>
      (\<exists>f. chunk_file (w_disks w (c_self c)) x = Some f \<and> chunk_file d x = None \<and>
        \<not> spared c (view (w_kv w)) (ev_now (sy_env X) - grace) x f)" for x
    using sweep_safe[OF 2(5), of x] 2(7)[of x] by blast
  then show ?thesis using 2(4) by (simp add: 2(3))
qed

lemma Collect_swept:
  assumes "etcd_client (sy_etcd X) view"
    and "store_wf (w_disks w (c_self c))"
    and "cluster_Collect fuel X c w grace = Some (w', st, None)"
    and "HasPrefix x (cs_Slice st)"
  shows "chunk_file (w_disks w' (c_self c)) x =
    (case chunk_file (w_disks w (c_self c)) x of None \<Rightarrow> None
     | Some f \<Rightarrow> if spared c (view (w_kv w)) (ev_now (sy_env X) - grace) x f then Some f else None)"
proof (cases rule: cluster_Collect_cases[OF assms(1,3)])
  case (1 kv)
  then show ?thesis by simp
next
  case (2 kv sl refs writing d st' failed fe serr)
  have "failed \<ge> 0" using run_collect ScanChunks_clean[OF _ local_collect] 2(5,6) by (metis (no_types, lifting) order_refl)
  then have "ScanChunks (ev_faults (sy_env X) (c_self c) [sl]) [sl] (collect_visit (sy_env X) (c_self c) refs writing
      (ev_now (sy_env X) - grace)) (w_disks w (c_self c), zero_collect\<lparr>cs_Slice := [sl]\<rparr>, 0, None) = ((d, st', 0, fe), None)"
    using 2(5,6) by simp
  from sweep_complete[OF this assms(2)] show ?thesis using 2(2,3,7) assms(4) by (auto split: option.splits)
qed

text \<open>
  A collection pass that reports success leaves no garbage in its slice: afterwards a chunk of
  the slice is on the disk exactly if it was and is spared.  With a bound larger than the number of
  keys the pass always ends.
\<close>

theorem Collect_complete:
  assumes "etcd_client (sy_etcd X) view"
    and "store_wf (w_disks w (c_self c))"
    and "cluster_Collect fuel X c w grace = Some (w', st, None)"
    and "HasPrefix x (cs_Slice st)"
  shows "chunk_file (w_disks w' (c_self c)) x =
    (case chunk_file (w_disks w (c_self c)) x of None \<Rightarrow> None
     | Some f \<Rightarrow> if spared c (view (w_kv w)) (ev_now (sy_env X) - grace) x f then Some f else None)"
  by (rule Collect_swept[OF assms])

text \<open>
  A collection pass ends: with a bound on the pages larger than the number of keys, whatever
  etcd and the disk answer.
\<close>

theorem Collect_terminates:
  assumes "etcd_client (sy_etcd X) view" and "length (kvs_Keys (view (w_kv w))) + 1 < fuel"
  shows "\<exists>w' st err. cluster_Collect fuel X c w grace = Some (w', st, err)"
  using cluster_Collect_ends[OF assms] by (metis prod_cases3)

section \<open>A pass over one old chunk\<close>

definition example_garbage :: store where
  "example_garbage = \<lparr>st_tmp = [], st_chunks = [(''AB000000'', \<lparr>f_data = [1], f_synced = True, f_mtime = 0\<rparr>)],
     st_disk = [], st_dirs = [''AB''], st_ddirs = [''AB'']\<rparr>"

definition example_sweep :: "kvs world" where
  "example_sweep = \<lparr>w_disks = \<lambda>_. example_garbage, w_kv = empty_kvs\<rparr>"

lemma example_nextSlice:
  "\<exists>s. nextSlice example_sys example_coord empty_kvs = (s, Inr (CHR ''A'')) \<and>
    kvs_Keys s = [(cursorKey example_meta collectTask ''n1'', \<lparr>kd_Value = SString ''B'', kd_ModRev = 2\<rparr>)]"
proof -
  have "idAlphabet ! 0 = CHR ''A''" "idAlphabet ! Suc 0 = CHR ''B''" "length idAlphabet = 32" by code_simp+
  then show ?thesis
    by (simp add: nextSlice_def Cursor_def et_kvs_def example_sys_def mem_etcd_def kv_select_def empty_kvs_def
        slice_index_def SaveCursor_def et_unit_def kv_put_def)
qed

lemma example_referenced:
  assumes "kvs_Keys s = [(cursorKey example_meta collectTask ''n1'', d)]"
  shows "referenced 3 example_sys example_coord sl s = Some (s, Inr ([], []))"
proof -
  let ?M = example_meta and ?ck = "cursorKey example_meta collectTask ''n1''"
  have none: "kv_select s P = []" if "\<not> P ?ck" for P using that assms by (simp add: kv_select_def)
  have "\<not> (p \<le> ?ck \<and> ?ck < bump p)" if "\<not> HasPrefix ?ck p" "CHR ''/'' \<in> set p" for p
    using bump_range[of p ?ck] that by auto
  then have out: "\<not> (uploads_prefix ?M \<le> ?ck \<and> ?ck < bump (uploads_prefix ?M))"
    "\<not> (meta_key ?M '''' \<le> ?ck \<and> ?ck < bump (meta_key ?M ''''))"
    by (simp_all add: uploads_prefix_def meta_key_def objects_prefix_def join_def cursorKey_def HasPrefix_def)
  have "Writing mem_etcd ?M s = (s, Inr [])"
    by (simp add: Writing_def et_kvs_def mem_etcd_def none)
  moreover have "ScanParts mem_etcd ?M s '''' scanPage = (s, Inr [])"
    using none[of "\<lambda>x. uploads_prefix ?M \<le> x \<and> x < bump (uploads_prefix ?M)"] out(1)
    by (simp add: ScanParts_def Let_def et_kvs_def mem_etcd_def scanPage_def)
  moreover have "ScanObjects mem_etcd ?M s '''' '''' scanPage = (s, Inr [])"
    using none[of "\<lambda>x. meta_key ?M '''' \<le> x \<and> x < bump (meta_key ?M '''')"] out(2)
    by (simp add: ScanObjects_def scan_def Let_def et_kvs_def mem_etcd_def scanPage_def)
  ultimately show ?thesis
    by (simp add: referenced_def writesInFlight_def example_sys_def numeral_3_eq_3)
qed

lemma example_collect:
  obtains w' st where "cluster_Collect 3 example_sys example_coord example_sweep 1 = Some (w', st, None)"
    "cs_Slice st = ''A''"
proof -
  obtain s d where s: "nextSlice example_sys example_coord empty_kvs = (s, Inr (CHR ''A''))"
    "kvs_Keys s = [(cursorKey example_meta collectTask ''n1'', d)]"
    using example_nextSlice by blast
  have "\<exists>w' st. cluster_Collect 3 example_sys example_coord example_sweep 1 = Some (w', st, None) \<and> cs_Slice st = ''A''"
    using s(1) example_referenced[OF s(2), of "CHR ''A''"]
    by (simp add: cluster_Collect_def example_sweep_def Let_def ScanChunks_def chunk_dirs_def example_garbage_def
        within_def HasPrefix_def dir_files_def chunk_dir_def chunk_file_def collect_visit_def chunk_info_of_def
        inFlight_def RemoveChunk_def validateID_def example_sys_def example_env_def no_faults_def zero_collect_def)
  then show ?thesis using that by blast
qed

lemma example_sweep_bound: "length (kvs_Keys (w_kv example_sweep)) + 1 < 3"
  by (simp add: example_sweep_def empty_kvs_def)

lemma example_not_spared:
  "\<not> spared c empty_kvs 4 ''AB000000'' \<lparr>f_data = [1], f_synced = True, f_mtime = 0\<rparr>"
  by (simp add: spared_def part_of_upload_def committed_def running_def kv_lookup_def empty_kvs_def)

theorem Collect_safe_witness:
  "\<exists>w' st. cluster_Collect 3 example_sys example_coord example_sweep 1 = Some (w', st, None) \<and>
    w_disks w' ''n2'' = example_garbage"
proof -
  obtain w' st where c: "cluster_Collect 3 example_sys example_coord example_sweep 1 = Some (w', st, None)"
    by (rule example_collect)
  from Collect_safe[OF example_etcd(1) c] show ?thesis using c by (auto simp: example_sweep_def)
qed

theorem Collect_complete_witness:
  "\<exists>w' st. cluster_Collect 3 example_sys example_coord example_sweep 1 = Some (w', st, None) \<and>
    chunk_file (w_disks w' ''n1'') ''AB000000'' = None"
proof -
  obtain w' st where c: "cluster_Collect 3 example_sys example_coord example_sweep 1 = Some (w', st, None)"
    and sl: "cs_Slice st = ''A''" by (rule example_collect)
  have wf: "store_wf (w_disks example_sweep (c_self example_coord))"
    by (simp add: store_wf_def example_sweep_def example_garbage_def validateID_def chunk_dir_def)
  have "HasPrefix ''AB000000'' (cs_Slice st)" by (simp add: sl HasPrefix_def)
  from Collect_complete[OF example_etcd(1) wf c this] show ?thesis using c example_not_spared
    by (auto simp: example_sweep_def example_garbage_def chunk_file_def example_sys_def example_env_def)
qed

theorem Collect_terminates_witness:
  "\<exists>w' st err. cluster_Collect 3 example_sys example_coord example_sweep 1 = Some (w', st, err)"
  using Collect_terminates[OF example_etcd(1) example_sweep_bound] .

end
