(* ===== verification/Repair.thy ===== *)
theory Repair
  imports Collect
begin

text \<open>
  Restoring missing copies, \<^verbatim>\<open>internal/cluster/repair.go\<close>, and the walk over all objects that repair,
  rebalancing and scrubbing share.

  A pass is a loop over pages with a bound on their number, \<open>None\<close> being a loop that is not done yet.
  The error of a visit is logged and the walk goes on, so the model drops it.  The waits of the
  pacer, which \<open>Loops\<close> models, and the cancellation of the context are left out: they only delay a pass
  or end it early.
\<close>

section \<open>The walk\<close>

type_synonym ('s, 'acc) visit = "obj \<Rightarrow> 's world \<times> 'acc \<Rightarrow> ('s world \<times> 'acc) \<times> error option"

fun walk_pages ::
  "nat \<Rightarrow> 's sys \<Rightarrow> coord \<Rightarrow> string \<Rightarrow> ('s, 'acc) visit \<Rightarrow> string \<Rightarrow> 's world \<times> 'acc \<Rightarrow>
    (('s world \<times> 'acc) \<times> error option) option" where
  "walk_pages 0 X c task visit cursor a = None"
| "walk_pages (Suc fuel) X c task visit cursor (w, acc) =
     (case ScanObjects (sy_etcd X) (c_meta c) (w_kv w) '''' (if cursor \<noteq> '''' then After cursor else '''') scanPage of
        (s, Inl e) \<Rightarrow> Some ((w\<lparr>w_kv := s\<rparr>, acc), Some e)
      | (s, Inr []) \<Rightarrow> (case SaveCursor (sy_etcd X) (c_meta c) s task (c_self c) '''' of
            (s', err) \<Rightarrow> Some ((w\<lparr>w_kv := s'\<rparr>, acc), err))
      | (s, Inr (b # bs)) \<Rightarrow>
          (case foldl (\<lambda>a b. fst (visit b a)) (w\<lparr>w_kv := s\<rparr>, acc) (b # bs) of
             (w1, acc1) \<Rightarrow>
               (let cursor' = ob_Key (last (b # bs))
                in case SaveCursor (sy_etcd X) (c_meta c) (w_kv w1) task (c_self c) cursor' of
                     (s', Some e) \<Rightarrow> Some ((w1\<lparr>w_kv := s'\<rparr>, acc1), Some e)
                   | (s', None) \<Rightarrow> walk_pages fuel X c task visit cursor' (w1\<lparr>w_kv := s'\<rparr>, acc1))))"

definition walk ::
  "nat \<Rightarrow> 's sys \<Rightarrow> coord \<Rightarrow> string \<Rightarrow> ('s, 'acc) visit \<Rightarrow> 's world \<times> 'acc \<Rightarrow>
    (('s world \<times> 'acc) \<times> error option) option" where
  "walk fuel X c task visit a = (case a of (w, acc) \<Rightarrow>
     (case Cursor (sy_etcd X) (c_meta c) (w_kv w) task (c_self c) of
        (s, Inl e) \<Rightarrow> Some ((w\<lparr>w_kv := s\<rparr>, acc), Some e)
      | (s, Inr cursor) \<Rightarrow> walk_pages fuel X c task visit cursor (w\<lparr>w_kv := s\<rparr>, acc)))"

section \<open>Repair\<close>

record stats =
  rs_Objects :: int
  rs_CopiesChecked :: int
  rs_Restored :: int
  rs_BytesRestored :: int
  rs_Unrepairable :: int

definition zero_stats :: stats where
  "zero_stats = \<lparr>rs_Objects = 0, rs_CopiesChecked = 0, rs_Restored = 0, rs_BytesRestored = 0, rs_Unrepairable = 0\<rparr>"

definition is_member :: "membership \<Rightarrow> string \<Rightarrow> bool" where
  "is_member live nd \<longleftrightarrow> map_of (mb_peers live) nd \<noteq> None"

definition restore ::
  "'s sys \<Rightarrow> coord \<Rightarrow> membership \<Rightarrow> string \<Rightarrow> chunk_ref \<Rightarrow> string list \<Rightarrow> disks \<Rightarrow> disks \<times> error option" where
  "restore X c live nd ref nodes D = (case cluster_fetch X c D ref nodes of
      Inl e \<Rightarrow> (D, Some e)
    | Inr src \<Rightarrow> store_at X c live nd D (cr_ID ref) src (cr_CRC ref) (cr_Size ref))"

text \<open>
  The survey, as the list of ids each node said it holds: an error at this node ends it, an error at
  another node counts as nothing held.
\<close>

definition survey_one :: "'s sys \<Rightarrow> coord \<Rightarrow> membership \<Rightarrow> disks \<Rightarrow> string \<Rightarrow> string list \<Rightarrow> error + string list" where
  "survey_one X c live D nd ids =
     (if nd = c_self c then HasChunks (ev_faults (sy_env X) nd '''') (D nd) ids
      else case peer_HasChunks (sy_env X) D (addr_of (mb_peers live) nd) ids of
             Inl e \<Rightarrow> Inr []
           | Inr have_ids \<Rightarrow> Inr have_ids)"

fun surveyNodes ::
  "'s sys \<Rightarrow> coord \<Rightarrow> membership \<Rightarrow> disks \<Rightarrow> string list \<Rightarrow> string list \<Rightarrow> (string \<times> string list) list \<Rightarrow>
    error + (string \<times> string list) list" where
  "surveyNodes X c live D [] ids result = Inr result"
| "surveyNodes X c live D (nd # nds) ids result =
     (if \<not> is_member live nd then surveyNodes X c live D nds ids result
      else case survey_one X c live D nd ids of
             Inl e \<Rightarrow> Inl e
           | Inr held \<Rightarrow> surveyNodes X c live D nds ids (AList.update nd held result))"

definition held_ids :: "(string \<times> string list) list \<Rightarrow> string \<Rightarrow> string list" where
  "held_ids held nd = (case map_of held nd of None \<Rightarrow> [] | Some ids \<Rightarrow> ids)"

text \<open>One copy of one chunk: what is held is left alone, what is not is restored.\<close>

definition repair_copy ::
  "'s sys \<Rightarrow> coord \<Rightarrow> membership \<Rightarrow> string list \<Rightarrow> (string \<times> string list) list \<Rightarrow> disks \<times> stats \<times> error \<Rightarrow>
    chunk_ref \<times> string \<Rightarrow> disks \<times> stats \<times> error" where
  "repair_copy X c live nodes held a rn = (case (a, rn) of ((D, st, errs), (ref, nd)) \<Rightarrow>
     (if \<not> is_member live nd then a
      else let st1 = st\<lparr>rs_CopiesChecked := rs_CopiesChecked st + 1\<rparr> in
           if cr_ID ref \<in> set (held_ids held nd) then (D, st1, errs)
           else case restore X c live nd ref nodes D of
                  (D', Some e) \<Rightarrow> (D', st1\<lparr>rs_Unrepairable := rs_Unrepairable st1 + 1\<rparr>, errs @ Other ''repair'' # e)
                | (D', None) \<Rightarrow> (D', st1\<lparr>rs_Restored := rs_Restored st1 + 1,
                     rs_BytesRestored := rs_BytesRestored st1 + cr_Size ref\<rparr>, errs)))"

definition joined :: "error \<Rightarrow> error option" where
  "joined errs = (if errs = [] then None else Some errs)"

definition repair_copies ::
  "'s sys \<Rightarrow> coord \<Rightarrow> membership \<Rightarrow> manifest \<Rightarrow> (string \<times> string list) list \<Rightarrow> disks \<times> stats \<times> error \<Rightarrow>
    disks \<times> stats \<times> error" where
  "repair_copies X c live m held a =
     foldl (repair_copy X c live (m_Nodes m) held) a (List.product (m_Chunks m) (m_Nodes m))"

text \<open>
  Erasure-coded: node \<open>i\<close> answers for its shard of every chunk, and any error of the survey counts as
  nothing held.
\<close>

definition survey_shards :: "'s sys \<Rightarrow> coord \<Rightarrow> membership \<Rightarrow> disks \<Rightarrow> manifest \<Rightarrow> string list list" where
  "survey_shards X c live D m = map (\<lambda>(i, nd).
     if \<not> is_member live nd then []
     else case survey_one X c live D nd (map (\<lambda>ref. ShardID ref i) (m_Chunks m)) of
            Inl e \<Rightarrow> [] | Inr ids \<Rightarrow> ids) (zip [0..<length (m_Nodes m)] (m_Nodes m))"

definition repair_chunk ::
  "'s sys \<Rightarrow> coord \<Rightarrow> membership \<Rightarrow> manifest \<Rightarrow> string list list \<Rightarrow> disks \<times> stats \<times> error \<Rightarrow> chunk_ref \<Rightarrow>
    disks \<times> stats \<times> error" where
  "repair_chunk X c live m held a ref = (case a of (D, st, errs) \<Rightarrow>
     (let nodes = m_Nodes m;
          mine = filter (\<lambda>i. is_member live (nodes ! i)) [0..<length nodes];
          missing = filter (\<lambda>i. ShardID ref i \<notin> set (held ! i)) mine;
          st1 = st\<lparr>rs_CopiesChecked := rs_CopiesChecked st + int (length mine)\<rparr>
      in if missing = [] then (D, st1, errs)
         else case restoreShards X c live ref nodes nodes missing (m_Coding m) D of
                (D', Some e) \<Rightarrow> (D', st1\<lparr>rs_Unrepairable := rs_Unrepairable st1 + int (length missing)\<rparr>,
                   errs @ Other ''repair'' # e)
              | (D', None) \<Rightarrow> (D', st1\<lparr>rs_Restored := rs_Restored st1 + int (length missing),
                   rs_BytesRestored := rs_BytesRestored st1 + int (length missing) * shardSize (cr_Size ref) (m_Coding m)\<rparr>, errs)))"

definition repairShards ::
  "'s sys \<Rightarrow> coord \<Rightarrow> membership \<Rightarrow> manifest \<Rightarrow> disks \<times> stats \<Rightarrow> (disks \<times> stats) \<times> error option" where
  "repairShards X c live m a = (case a of (D, st) \<Rightarrow>
     (case foldl (repair_chunk X c live m (survey_shards X c live D m)) (D, st, []) (m_Chunks m) of
        (D', st', errs) \<Rightarrow> ((D', st'), joined errs)))"

text \<open>The rule that one node works on an object: the first owner of its partition.\<close>

definition responsible :: "coord \<Rightarrow> string \<Rightarrow> bool" where
  "responsible c key \<longleftrightarrow> (case Owners (mb_ring (c_live c)) (PartitionFor key) 1 of
      [] \<Rightarrow> False | ow # _ \<Rightarrow> ow = c_self c)"

definition repair_disks ::
  "'s sys \<Rightarrow> coord \<Rightarrow> obj \<Rightarrow> disks \<times> stats \<Rightarrow> (disks \<times> stats) \<times> error option" where
  "repair_disks X c b a = (case a of (D, st) \<Rightarrow>
     (let live = c_live c; m = ob_Manifest b; st1 = st\<lparr>rs_Objects := rs_Objects st + 1\<rparr> in
      if \<not> responsible c (ob_Key b) then (a, None)
      else if m_Coding m \<noteq> zero_scheme then repairShards X c live m (D, st1)
      else case surveyNodes X c live D (m_Nodes m) (map cr_ID (m_Chunks m)) [] of
             Inl e \<Rightarrow> ((D, st1), Some e)
           | Inr held \<Rightarrow> (case repair_copies X c live m held (D, st1, []) of
               (D', st', errs) \<Rightarrow> ((D', st'), joined errs))))"

definition repairObject :: "'s sys \<Rightarrow> coord \<Rightarrow> ('s, stats) visit" where
  "repairObject X c b a = (case a of (w, st) \<Rightarrow>
     (case repair_disks X c b (w_disks w, st) of ((D', st'), err) \<Rightarrow> ((w\<lparr>w_disks := D'\<rparr>, st'), err)))"

definition cluster_Repair ::
  "nat \<Rightarrow> 's sys \<Rightarrow> coord \<Rightarrow> 's world \<Rightarrow> ('s world \<times> stats \<times> error option) option" where
  "cluster_Repair fuel X c w = (case walk fuel X c ''repair'' (repairObject X c) (w, zero_stats) of
      None \<Rightarrow> None
    | Some ((w', st), Some e) \<Rightarrow> Some (w', st, Some e)
    | Some ((w', st), None) \<Rightarrow>
        Some (w', st, if rs_Unrepairable st > 0 then Some [ErrUnrepairable] else None))"

section \<open>Folds that heal\<close>

lemma foldl_rel:
  assumes "\<And>a. R a a" "\<And>a b c. R a b \<Longrightarrow> R b c \<Longrightarrow> R a c" "\<And>a x. x \<in> set xs \<Longrightarrow> R a (f a x)"
  shows "R a (foldl f a xs)"
  using assms(3)
proof (induction xs arbitrary: a)
  case (Cons x xs)
  then have "R a (f a x)" "R (f a x) (foldl f (f a x) xs)" by simp_all
  then show ?case using assms(2) by simp
qed (simp add: assms(1))

text \<open>
  If a step that does not raise the count of failures establishes \<open>Q\<close> for its element, and \<open>Q\<close> lasts,
  then a fold that raised no failure has established it for all of them.
\<close>

lemma foldl_done:
  fixes U :: "'a \<Rightarrow> int"
  assumes "\<And>a. R a a" "\<And>a b c. R a b \<Longrightarrow> R b c \<Longrightarrow> R a c" "\<And>a x. x \<in> set xs \<Longrightarrow> R a (f a x)"
    and "\<And>a b. R a b \<Longrightarrow> U a \<le> U b"
    and "\<And>a x. x \<in> set xs \<Longrightarrow> U (f a x) = U a \<Longrightarrow> Q x (f a x)"
    and "\<And>a b x. R a b \<Longrightarrow> Q x a \<Longrightarrow> Q x b"
  shows "U (foldl f a xs) = U a \<Longrightarrow> x \<in> set xs \<Longrightarrow> Q x (foldl f a xs)"
  using assms(3,5)
proof (induction xs arbitrary: a)
  case (Cons y ys)
  let ?b = "f a y"
  have step: "R a ?b" using Cons.prems(3) by simp
  have rest: "R ?b (foldl f ?b ys)" by (rule foldl_rel[of R, OF assms(1,2)]) (use Cons.prems(3) in simp_all)
  have "U a \<le> U ?b" "U ?b \<le> U (foldl f ?b ys)" using assms(4) step rest by blast+
  then have eq: "U ?b = U a" "U (foldl f ?b ys) = U ?b" using Cons.prems(1) by simp_all
  show ?case
  proof (cases "x = y")
    case True
    then show ?thesis using Cons.prems(4)[of y a] eq(1) assms(6)[OF rest] by simp
  next
    case False
    then show ?thesis using Cons.IH[of ?b] eq(2) Cons.prems by simp
  qed
qed simp

section \<open>Changes a manifest vouches for\<close>

lemma good_iff: "good v c n \<longleftrightarrow> (\<exists>b. v = Some b \<and> CRC32C b = c \<and> int (length b) = n)"
  by (auto simp: good_def split: option.splits)

text \<open>Bytes that are a chunk, or a shard, the manifest names: they match its checksum.\<close>

definition sound :: "manifest \<Rightarrow> string \<Rightarrow> bytes option \<Rightarrow> bool" where
  "sound m x v \<longleftrightarrow> (\<exists>ref \<in> set (m_Chunks m).
     if m_Coding m = zero_scheme then x = cr_ID ref \<and> good v (cr_CRC ref) (cr_Size ref)
     else \<exists>i b. x = ShardID ref i \<and> v = Some b \<and> CRC32C b = cr_Shards ref ! i)"

definition patched :: "manifest \<Rightarrow> disks \<Rightarrow> disks \<Rightarrow> bool" where
  "patched m D D' \<longleftrightarrow> (\<forall>nd x. chunk_data (D' nd) x = chunk_data (D nd) x \<or> sound m x (chunk_data (D' nd) x))"

lemma patched_refl [simp]: "patched m D D"
  by (simp add: patched_def)

lemma patched_trans: "patched m D D' \<Longrightarrow> patched m D' D'' \<Longrightarrow> patched m D D''"
  unfolding patched_def by metis

lemma sound_present: "sound m x v \<Longrightarrow> v \<noteq> None"
  by (auto simp: sound_def good_iff split: if_splits)

lemma patched_present: "patched m D D' \<Longrightarrow> chunk_data (D nd) x \<noteq> None \<Longrightarrow> chunk_data (D' nd) x \<noteq> None"
  using sound_present unfolding patched_def by metis

lemma patched_sound: "patched m D D' \<Longrightarrow> sound m x (chunk_data (D nd) x) \<Longrightarrow> sound m x (chunk_data (D' nd) x)"
  unfolding patched_def by metis

lemma store_at_patch:
  assumes "addresses_right X c live" "store_at X c live ow D x r crc n = (D', res)"
  shows "chunk_data (D' nd) y = chunk_data (D nd) y \<or> nd = ow \<and> y = x \<and> good (chunk_data (D' nd) y) crc n"
proof (cases "nd = ow \<and> y = x")
  case True
  show ?thesis
  proof (cases "route X c live ow")
    case None
    then have "D' ow = D ow" using store_at_elsewhere[OF assms(2)] by simp
    then show ?thesis using True by simp
  next
    case (Some k)
    then have "route X c live ow = Some ow" using route_right[OF assms(1)] by blast
    then show ?thesis using owner.put_whole[OF assms(2)] True by (simp add: placed_def)
  qed
next
  case False
  then show ?thesis using store_at_step(2,3)[OF assms] by metis
qed

lemma store_at_patched:
  assumes "addresses_right X c live" "store_at X c live ow D x r crc n = (D', res)"
    and "\<And>v. good v crc n \<Longrightarrow> sound m x v"
  shows "patched m D D'" and "res = None \<Longrightarrow> sound m x (chunk_data (D' ow) x)"
proof -
  show "patched m D D'" unfolding patched_def using store_at_patch[OF assms(1,2)] assms(3) by blast
  assume "res = None"
  then have "good (chunk_data (D' ow) x) crc n" using store_at_step(1)[OF assms(1,2)] by blast
  then show "sound m x (chunk_data (D' ow) x)" by (rule assms(3))
qed

lemma restore_patched:
  assumes "addresses_right X c live" "restore X c live nd ref nodes D = (D', res)"
    and "ref \<in> set (m_Chunks m)" "m_Coding m = zero_scheme"
  shows "patched m D D'" and "res = None \<Longrightarrow> sound m (cr_ID ref) (chunk_data (D' nd) (cr_ID ref))"
proof -
  have s: "good v (cr_CRC ref) (cr_Size ref) \<Longrightarrow> sound m (cr_ID ref) v" for v
    using assms(3,4) by (auto simp: sound_def)
  have "patched m D D' \<and> (res = None \<longrightarrow> sound m (cr_ID ref) (chunk_data (D' nd) (cr_ID ref)))"
  proof (cases "cluster_fetch X c D ref nodes")
    case (Inl e)
    then show ?thesis using assms(2) by (auto simp: restore_def)
  next
    case (Inr src)
    then have "store_at X c live nd D (cr_ID ref) src (cr_CRC ref) (cr_Size ref) = (D', res)"
      using assms(2) by (simp add: restore_def)
    from store_at_patched[OF assms(1) this s] show ?thesis by blast
  qed
  then show "patched m D D'" "res = None \<Longrightarrow> sound m (cr_ID ref) (chunk_data (D' nd) (cr_ID ref))" by blast+
qed

text \<open>Placing shards: every success is a shard on its node, and stays one.\<close>

lemma storeShard_patched:
  assumes "addresses_right X c live" "storeShard X c live ref (i, ow, b) D = (D', res)"
    and "ref \<in> set (m_Chunks m)" "m_Coding m \<noteq> zero_scheme"
  shows "patched m D D'" and "res = None \<Longrightarrow> sound m (ShardID ref i) (chunk_data (D' ow) (ShardID ref i))"
proof -
  have s: "good v (cr_Shards ref ! i) (int (length b)) \<Longrightarrow> sound m (ShardID ref i) v" for v
    using assms(3,4) by (auto simp: sound_def good_iff)
  show "patched m D D'" "res = None \<Longrightarrow> sound m (ShardID ref i) (chunk_data (D' ow) (ShardID ref i))"
    using store_at_patched[OF assms(1) _ s] assms(2) by (auto simp: storeShard_def)
qed

lemma store_shards_patched:
  assumes "addresses_right X c live" "ref \<in> set (m_Chunks m)" "m_Coding m \<noteq> zero_scheme"
  shows "store_each (storeShard X c live ref) js D = (D', errs) \<Longrightarrow> patched m D D' \<and>
    (list_all (\<lambda>e. e = None) errs \<longrightarrow> (\<forall>(i, ow, b) \<in> set js. sound m (ShardID ref i) (chunk_data (D' ow) (ShardID ref i))))"
proof (induction js arbitrary: D errs)
  case (Cons j js)
  obtain i ow b where j: "j = (i, ow, b)" by (metis prod_cases3)
  obtain D1 e where f: "storeShard X c live ref (i, ow, b) D = (D1, e)" by fastforce
  with Cons.prems j obtain errs' where r: "store_each (storeShard X c live ref) js D1 = (D', errs')" "errs = e # errs'"
    by (auto split: prod.splits)
  note here = storeShard_patched[OF assms(1) f assms(2,3)]
  note IH = Cons.IH[OF r(1)]
  show ?case using patched_trans[OF here(1)] here(2) IH r(2) j patched_sound by fastforce
qed simp

lemma restoreShards_patched:
  assumes "addresses_right X c live" "restoreShards X c live ref from dest missing s D = (D', res)"
    and "ref \<in> set (m_Chunks m)" "m_Coding m \<noteq> zero_scheme"
  shows "patched m D D'" and "res = None \<Longrightarrow> i \<in> set missing \<Longrightarrow> sound m (ShardID ref i) (chunk_data (D' (dest ! i)) (ShardID ref i))"
proof -
  have "patched m D D' \<and> (res = None \<longrightarrow> (\<forall>i \<in> set missing. sound m (ShardID ref i) (chunk_data (D' (dest ! i)) (ShardID ref i))))"
  proof (cases "Reconstruct (sy_rs X) s (gather X c D ref from s 0 (nat (Shards s)) (replicate (nat (Shards s)) None)) (cr_Size ref)")
    case (Inl e)
    then show ?thesis using assms(2) by (auto simp: restoreShards_def)
  next
    case (Inr cf)
    obtain chunk full where cf: "cf = (chunk, full)" by (cases cf)
    let ?js = "map (\<lambda>i. (i, dest ! i, (case full ! i of None \<Rightarrow> [] | Some b \<Rightarrow> b))) missing"
    obtain errs where r: "store_each (storeShard X c live ref) ?js D = (D', errs)"
      "res = (if list_all (\<lambda>e. e = None) errs then None else Some (errors_Join errs))"
      using assms(2) Inr cf by (auto simp: restoreShards_def split: prod.splits)
    from store_shards_patched[OF assms(1,3,4) r(1)] show ?thesis using r(2) by auto
  qed
  then show "patched m D D'" "res = None \<Longrightarrow> i \<in> set missing \<Longrightarrow> sound m (ShardID ref i) (chunk_data (D' (dest ! i)) (ShardID ref i))"
    by blast+
qed

section \<open>What a survey says is true\<close>

lemma HasChunks_held:
  "HasChunks F s ids = Inr have_ids \<Longrightarrow> x \<in> set have_ids \<Longrightarrow> chunk_data s x \<noteq> None"
proof (induction ids arbitrary: have_ids)
  case (Cons i ids)
  have one: "HasChunk F s i = Inr True \<Longrightarrow> chunk_data s i \<noteq> None"
    by (auto simp: HasChunk_def chunk_data_def split: option.splits if_splits)
  from Cons show ?case using one by (auto split: sum.splits if_splits)
qed simp

lemma survey_one_held:
  assumes "addresses_right X c live" "survey_one X c live D nd ids = Inr held" "x \<in> set held"
  shows "chunk_data (D nd) x \<noteq> None"
proof (cases "nd = c_self c")
  case True
  then show ?thesis using assms(2,3) HasChunks_held by (auto simp: survey_one_def)
next
  case False
  let ?addr = "addr_of (mb_peers live) nd"
  obtain node' h where n: "ev_addr (sy_env X) ?addr = Some node'"
    "HasChunks (ev_faults (sy_env X) node' '''') (D node') ids = Inr h" "x \<in> set h"
    using assms(2,3) False
    by (auto simp: survey_one_def peer_HasChunks_def checkChunks_def split: sum.splits option.splits if_splits)
  have "node' = nd" using assms(1) False n(1) by (auto simp: addresses_right_def)
  then show ?thesis using HasChunks_held[OF n(2,3)] by simp
qed

lemma surveyNodes_held:
  assumes "addresses_right X c live"
  shows "surveyNodes X c live D nds ids result = Inr held \<Longrightarrow>
    (\<And>nd x. x \<in> set (held_ids result nd) \<Longrightarrow> chunk_data (D nd) x \<noteq> None) \<Longrightarrow>
    x \<in> set (held_ids held nd) \<Longrightarrow> chunk_data (D nd) x \<noteq> None"
proof (induction nds arbitrary: result)
  case (Cons n nds)
  show ?case
  proof (cases "is_member live n")
    case True
    then obtain h where h: "survey_one X c live D n ids = Inr h"
      "surveyNodes X c live D nds ids (AList.update n h result) = Inr held"
      using Cons.prems(1) by (auto split: sum.splits)
    show ?thesis
    proof (rule Cons.IH[OF h(2) _ Cons.prems(3)])
      fix nd y assume "y \<in> set (held_ids (AList.update n h result) nd)"
      then show "chunk_data (D nd) y \<noteq> None"
        using Cons.prems(2)[of y nd] survey_one_held[OF assms h(1), of y]
        by (auto simp: held_ids_def update_conv' split: if_splits)
    qed
  qed (use Cons in auto)
qed auto

section \<open>What one object gets\<close>

definition missing_ok :: "coord \<Rightarrow> manifest \<Rightarrow> disks \<Rightarrow> bool" where
  "missing_ok c m D \<longleftrightarrow> (\<forall>ref \<in> set (m_Chunks m). \<forall>i < length (m_Nodes m). is_member (c_live c) (m_Nodes m ! i) \<longrightarrow>
     chunk_data (D (m_Nodes m ! i)) (if m_Coding m = zero_scheme then cr_ID ref else ShardID ref i) \<noteq> None)"

lemma missing_ok_patched: "patched m' D D' \<Longrightarrow> missing_ok c m D \<Longrightarrow> missing_ok c m D'"
  unfolding missing_ok_def using patched_present by blast

definition heals :: "manifest \<Rightarrow> disks \<times> stats \<times> error \<Rightarrow> disks \<times> stats \<times> error \<Rightarrow> bool" where
  "heals m a a' \<longleftrightarrow> patched m (fst a) (fst a') \<and> rs_Unrepairable (fst (snd a)) \<le> rs_Unrepairable (fst (snd a'))"

lemma heals_refl: "heals m a a" by (simp add: heals_def)

lemma heals_trans: "heals m a b \<Longrightarrow> heals m b d \<Longrightarrow> heals m a d"
  unfolding heals_def using patched_trans by fastforce

lemma repair_copy_step:
  assumes "addresses_right X c live" "ref \<in> set (m_Chunks m)" "m_Coding m = zero_scheme"
  shows "heals m a (repair_copy X c live nodes held a (ref, nd)) \<and>
    (rs_Unrepairable (fst (snd (repair_copy X c live nodes held a (ref, nd)))) = rs_Unrepairable (fst (snd a)) \<longrightarrow>
     is_member live nd \<longrightarrow> cr_ID ref \<in> set (held_ids held nd) \<or>
       chunk_data (fst (repair_copy X c live nodes held a (ref, nd)) nd) (cr_ID ref) \<noteq> None)"
proof -
  obtain D st errs where a: "a = (D, st, errs)" by (metis prod_cases3)
  obtain D' res where r: "restore X c live nd ref nodes D = (D', res)" by fastforce
  note p = restore_patched[OF assms(1) r assms(2,3)] and present = sound_present[OF restore_patched(2)[OF assms(1) r assms(2,3)]]
  consider "\<not> is_member live nd" | "is_member live nd" "cr_ID ref \<in> set (held_ids held nd)"
    | "is_member live nd" "cr_ID ref \<notin> set (held_ids held nd)" by blast
  then show ?thesis
    by cases (use p present r in \<open>auto simp: a repair_copy_def heals_def Let_def split: option.splits\<close>)
qed

lemma repair_copies_done:
  assumes "addresses_right X c live" "m_Coding m = zero_scheme" "repair_copies X c live m held a = b"
  shows "heals m a b"
    and "rs_Unrepairable (fst (snd b)) = rs_Unrepairable (fst (snd a)) \<Longrightarrow> ref \<in> set (m_Chunks m) \<Longrightarrow> nd \<in> set (m_Nodes m) \<Longrightarrow>
      is_member live nd \<Longrightarrow> cr_ID ref \<in> set (held_ids held nd) \<or> chunk_data (fst b nd) (cr_ID ref) \<noteq> None"
proof -
  let ?f = "repair_copy X c live (m_Nodes m) held" and ?xs = "List.product (m_Chunks m) (m_Nodes m)"
  let ?Q = "\<lambda>(ref, nd) (a :: disks \<times> stats \<times> error). is_member live nd \<longrightarrow>
      cr_ID ref \<in> set (held_ids held nd) \<or> chunk_data (fst a nd) (cr_ID ref) \<noteq> None"
  have b: "b = foldl ?f a ?xs" using assms(3) by (simp add: repair_copies_def)
  have step: "heals m a (?f a x)" "rs_Unrepairable (fst (snd (?f a x))) = rs_Unrepairable (fst (snd a)) \<Longrightarrow> ?Q x (?f a x)"
    if mem: "x \<in> set ?xs" for a x
  proof -
    obtain ref nd where x: "x = (ref, nd)" "ref \<in> set (m_Chunks m)" using mem by auto
    from repair_copy_step[OF assms(1) x(2) assms(2), of a "m_Nodes m" held nd]
    show "heals m a (?f a x)" "rs_Unrepairable (fst (snd (?f a x))) = rs_Unrepairable (fst (snd a)) \<Longrightarrow> ?Q x (?f a x)"
      unfolding x(1) by simp_all
  qed
  show "heals m a b" unfolding b by (rule foldl_rel) (use step(1) heals_refl heals_trans in blast)+
  show "cr_ID ref \<in> set (held_ids held nd) \<or> chunk_data (fst b nd) (cr_ID ref) \<noteq> None"
    if u: "rs_Unrepairable (fst (snd b)) = rs_Unrepairable (fst (snd a))" "ref \<in> set (m_Chunks m)" "nd \<in> set (m_Nodes m)" "is_member live nd"
  proof -
    have "?Q (ref, nd) (foldl ?f a ?xs)"
    proof (rule foldl_done[of "heals m" ?xs ?f "\<lambda>a. rs_Unrepairable (fst (snd a))" ?Q])
      show "heals m a b \<Longrightarrow> ?Q x a \<Longrightarrow> ?Q x b" for a b x
        unfolding heals_def using patched_present by (auto split: prod.splits)
    qed (use u b step heals_refl heals_trans in \<open>auto simp: heals_def\<close>)
    then show ?thesis using b u(4) by simp
  qed
qed

lemma repair_chunk_step:
  assumes "addresses_right X c live" "ref \<in> set (m_Chunks m)" "m_Coding m \<noteq> zero_scheme"
  shows "heals m a (repair_chunk X c live m held a ref) \<and>
    (rs_Unrepairable (fst (snd (repair_chunk X c live m held a ref))) = rs_Unrepairable (fst (snd a)) \<longrightarrow>
     (\<forall>i < length (m_Nodes m). is_member live (m_Nodes m ! i) \<longrightarrow> ShardID ref i \<in> set (held ! i) \<or>
       chunk_data (fst (repair_chunk X c live m held a ref) (m_Nodes m ! i)) (ShardID ref i) \<noteq> None))"
proof -
  obtain D st errs where a: "a = (D, st, errs)" by (metis prod_cases3)
  define missing where "missing = filter (\<lambda>i. ShardID ref i \<notin> set (held ! i))
    (filter (\<lambda>i. is_member live (m_Nodes m ! i)) [0..<length (m_Nodes m)])"
  obtain D' res where r: "restoreShards X c live ref (m_Nodes m) (m_Nodes m) missing (m_Coding m) D = (D', res)" by fastforce
  note p = restoreShards_patched(1)[OF assms(1) r assms(2,3)] sound_present[OF restoreShards_patched(2)[OF assms(1) r assms(2,3)]]
  have in_missing: "i \<in> set missing \<longleftrightarrow> i < length (m_Nodes m) \<and> is_member live (m_Nodes m ! i) \<and> ShardID ref i \<notin> set (held ! i)" for i
    by (auto simp: missing_def)
  let ?st = "st\<lparr>rs_CopiesChecked := rs_CopiesChecked st + int (length (filter (\<lambda>i. is_member live (m_Nodes m ! i)) [0..<length (m_Nodes m)]))\<rparr>"
  have run: "repair_chunk X c live m held a ref = (if missing = [] then (D, ?st, errs)
      else case res of
             Some e \<Rightarrow> (D', ?st\<lparr>rs_Unrepairable := rs_Unrepairable ?st + int (length missing)\<rparr>, errs @ Other ''repair'' # e)
           | None \<Rightarrow> (D', ?st\<lparr>rs_Restored := rs_Restored ?st + int (length missing),
               rs_BytesRestored := rs_BytesRestored ?st + int (length missing) * shardSize (cr_Size ref) (m_Coding m)\<rparr>, errs))"
    unfolding a repair_chunk_def Let_def missing_def[symmetric] by (simp only: prod.case r)
  show ?thesis
  proof (cases "missing = []")
    case True
    then show ?thesis using in_missing unfolding run by (auto simp: a heals_def)
  next
    case False
    then show ?thesis using p in_missing unfolding run by (cases res) (auto simp: a heals_def)
  qed
qed

lemma survey_shards_held:
  assumes "addresses_right X c live" "i < length (m_Nodes m)" "x \<in> set (survey_shards X c live D m ! i)"
  shows "chunk_data (D (m_Nodes m ! i)) x \<noteq> None"
proof -
  let ?nd = "m_Nodes m ! i"
  obtain ids where "survey_one X c live D ?nd (map (\<lambda>ref. ShardID ref i) (m_Chunks m)) = Inr ids" "x \<in> set ids"
    using assms(2,3)
    by (cases "survey_one X c live D ?nd (map (\<lambda>ref. ShardID ref i) (m_Chunks m))")
      (auto simp: survey_shards_def split: if_splits)
  then show ?thesis by (rule survey_one_held[OF assms(1)])
qed

lemma repairShards_done:
  assumes "addresses_right X c (c_live c)" "m_Coding m \<noteq> zero_scheme"
    "repairShards X c (c_live c) m (D, st) = ((D', st'), err)"
  shows "patched m D D' \<and> rs_Unrepairable st \<le> rs_Unrepairable st' \<and>
    (rs_Unrepairable st' = rs_Unrepairable st \<longrightarrow> missing_ok c m D')"
proof -
  let ?live = "c_live c" and ?held = "survey_shards X c (c_live c) D m"
  let ?f = "repair_chunk X c ?live m ?held" and ?xs = "m_Chunks m"
  let ?U = "\<lambda>a :: disks \<times> stats \<times> error. rs_Unrepairable (fst (snd a))"
  let ?Q = "\<lambda>ref (a :: disks \<times> stats \<times> error). \<forall>i < length (m_Nodes m). is_member ?live (m_Nodes m ! i) \<longrightarrow>
      ShardID ref i \<in> set (?held ! i) \<or> chunk_data (fst a (m_Nodes m ! i)) (ShardID ref i) \<noteq> None"
  let ?b = "foldl ?f (D, st, []) ?xs"
  have b: "fst ?b = D'" "fst (snd ?b) = st'"
    using assms(3) by (auto simp: repairShards_def split: prod.splits)
  have step: "heals m a (?f a x)" "?U (?f a x) = ?U a \<Longrightarrow> ?Q x (?f a x)" if "x \<in> set ?xs" for a x
    using repair_chunk_step[OF assms(1) that assms(2), of a ?held] by blast+
  have h: "heals m (D, st, []) ?b" by (rule foldl_rel) (use step(1) heals_refl heals_trans in blast)+
  then have p: "patched m D D'" using b by (simp add: heals_def)
  have "missing_ok c m D'" if "?U ?b = ?U (D, st, [])"
    unfolding missing_ok_def
  proof (intro ballI allI impI)
    fix ref i assume ri: "ref \<in> set (m_Chunks m)" "i < length (m_Nodes m)" "is_member ?live (m_Nodes m ! i)"
    have "?Q ref ?b"
    proof (rule foldl_done[of "heals m" ?xs ?f ?U ?Q])
      show "heals m a b \<Longrightarrow> ?Q x a \<Longrightarrow> ?Q x b" for a b x
        unfolding heals_def using patched_present by blast
    qed (use that ri step heals_refl heals_trans in \<open>auto simp: heals_def\<close>)
    then show "chunk_data (D' (m_Nodes m ! i)) (if m_Coding m = zero_scheme then cr_ID ref else ShardID ref i) \<noteq> None"
      using ri b survey_shards_held[OF assms(1) ri(2)] patched_present[OF p] assms(2) by auto
  qed
  then show ?thesis using h b p by (auto simp: heals_def)
qed

lemma HasChunks_answers: "\<not> fl_stat F \<Longrightarrow> \<exists>r. HasChunks F s ids = Inr r"
proof (induction ids)
  case (Cons i ids)
  then obtain r where "HasChunks F s ids = Inr r" by blast
  then show ?case using Cons.prems
    by (auto simp: HasChunk_def errors_Is_def validateID_def split: option.splits if_splits)
qed simp

lemma surveyNodes_answers:
  "\<not> fl_stat (ev_faults (sy_env X) (c_self c) '''') \<Longrightarrow> \<exists>r. surveyNodes X c live D nds ids result = Inr r"
proof (induction nds arbitrary: result)
  case (Cons n nds)
  have "\<exists>h. survey_one X c live D n ids = Inr h"
    using HasChunks_answers[OF Cons.prems, of "D (c_self c)" ids]
    by (cases "peer_HasChunks (sy_env X) D (addr_of (mb_peers live) n) ids") (auto simp: survey_one_def)
  then obtain h where "survey_one X c live D n ids = Inr h" by blast
  then show ?case using Cons by auto
qed simp

lemma repair_disks_done:
  assumes "addresses_right X c (c_live c)" "repair_disks X c b (D, st) = ((D', st'), err)"
  shows "patched (ob_Manifest b) D D' \<and> rs_Unrepairable st \<le> rs_Unrepairable st' \<and>
    (responsible c (ob_Key b) \<longrightarrow> \<not> fl_stat (ev_faults (sy_env X) (c_self c) '''') \<longrightarrow>
     rs_Unrepairable st' = rs_Unrepairable st \<longrightarrow> missing_ok c (ob_Manifest b) D')"
proof -
  let ?m = "ob_Manifest b" and ?live = "c_live c" and ?st = "st\<lparr>rs_Objects := rs_Objects st + 1\<rparr>"
  consider "\<not> responsible c (ob_Key b)" | "responsible c (ob_Key b)" "m_Coding ?m \<noteq> zero_scheme"
    | "responsible c (ob_Key b)" "m_Coding ?m = zero_scheme" by blast
  then show ?thesis
  proof cases
    case 1
    then show ?thesis using assms(2) by (auto simp: repair_disks_def Let_def)
  next
    case 2
    then have "repairShards X c ?live ?m (D, ?st) = ((D', st'), err)" using assms(2) by (simp add: repair_disks_def)
    from repairShards_done[OF assms(1) 2(2) this] show ?thesis by simp
  next
    case 3
    show ?thesis
    proof (cases "surveyNodes X c ?live D (m_Nodes ?m) (map cr_ID (m_Chunks ?m)) []")
      case (Inl e)
      then have "fl_stat (ev_faults (sy_env X) (c_self c) '''')"
        using surveyNodes_answers[of X c ?live D "m_Nodes ?m" "map cr_ID (m_Chunks ?m)" "[]"] by auto
      then show ?thesis using assms(2) 3 Inl by (auto simp: repair_disks_def Let_def)
    next
      case (Inr held)
      obtain errs where r: "repair_copies X c ?live ?m held (D, ?st, []) = (D', st', errs)"
        using assms(2) 3 Inr by (auto simp: repair_disks_def Let_def split: prod.splits)
      note d = repair_copies_done[OF assms(1) 3(2) r]
      have "missing_ok c ?m D'" if "rs_Unrepairable st' = rs_Unrepairable st"
      proof -
        have "chunk_data (D' nd) (cr_ID ref) \<noteq> None"
          if rn: "ref \<in> set (m_Chunks ?m)" "nd \<in> set (m_Nodes ?m)" "is_member ?live nd" for ref nd
          using d(2)[OF _ rn] \<open>rs_Unrepairable st' = rs_Unrepairable st\<close>
            surveyNodes_held[OF assms(1) Inr, of "cr_ID ref" nd] patched_present[of ?m D D' nd "cr_ID ref"] d(1)
          by (auto simp: heals_def held_ids_def)
        then show ?thesis using 3(2) by (simp add: missing_ok_def)
      qed
      then show ?thesis using d(1) by (auto simp: heals_def)
    qed
  qed
qed

section \<open>The walk visits every object\<close>

lemma object_rest_cong:
  assumes "\<And>x. HasPrefix x (meta_key M pre) \<Longrightarrow> meta_key M frm \<le> x \<Longrightarrow> kv_lookup v' x = kv_lookup v x"
  shows "object_rest M pre v' frm = object_rest M pre v frm"
proof (rule sorted_fst_unique)
  show "set (object_rest M pre v' frm) = set (object_rest M pre v frm)"
    using assms by (auto simp: object_rest_def set_kv_select)
qed (simp_all add: object_rest_def sorted_kv_select)

text \<open>A visit may change the entry of the object it visits, and no other object's.\<close>

definition other_objects :: "meta \<Rightarrow> string set \<Rightarrow> kvs \<Rightarrow> kvs \<Rightarrow> bool" where
  "other_objects M ks v v' \<longleftrightarrow> (\<forall>k. k \<notin> ks \<longrightarrow> kv_lookup v' (meta_key M k) = kv_lookup v (meta_key M k))"

lemma other_objects_refl [simp]: "other_objects M ks v v" by (simp add: other_objects_def)

lemma other_objects_trans: "other_objects M ks v v' \<Longrightarrow> other_objects M ks' v' v'' \<Longrightarrow> other_objects M (ks \<union> ks') v v''"
  by (simp add: other_objects_def)

lemma other_objects_mono: "other_objects M ks v v' \<Longrightarrow> ks \<subseteq> ks' \<Longrightarrow> other_objects M ks' v v'"
  by (auto simp: other_objects_def)

lemma SaveCursor_others:
  assumes "etcd_client E view" "SaveCursor E M s task nd k = (s', r)"
  shows "other_objects M {} (view s) (view s')"
  using etcd_client.et_unit_any[OF assms(1) assms(2)[unfolded SaveCursor_def]]
  by (auto simp: other_objects_def)

lemma object_rest_others:
  assumes "other_objects M ks v v'" "\<And>k. k \<in> ks \<Longrightarrow> k < frm"
  shows "object_rest M '''' v' frm = object_rest M '''' v frm"
proof (rule object_rest_cong)
  fix x assume x: "HasPrefix x (meta_key M '''')" "meta_key M frm \<le> x"
  then obtain k where k: "x = meta_key M k" using meta_key_trim by metis
  then have "frm \<le> k" using x(2) by (simp add: meta_key_def)
  then have "k \<notin> ks" using assms(2) by fastforce
  then show "kv_lookup v' x = kv_lookup v x" using assms(1) k by (simp add: other_objects_def)
qed

text \<open>The keys of a page are at most its last one's.\<close>

lemma page_keys:
  assumes "decode_all (decode_obj M) (take n (object_rest M '''' v frm)) = Inr bs" "b \<in> set bs"
  shows "ob_Key b \<le> ob_Key (last bs)" "kv_lookup v (meta_key M (ob_Key b)) \<noteq> None"
proof -
  let ?t = "take n (object_rest M '''' v frm)"
  have dec: "HasPrefix k (meta_key M '''') \<and> meta_key M (ob_Key y) = k" if "(k, d) \<in> set ?t" "decode_obj M (k, d) = Inr y" for k d y
  proof -
    have "HasPrefix k (meta_key M '''')" using that(1) by (auto simp: object_rest_def set_kv_select dest: in_set_takeD)
    moreover have "ob_Key y = TrimPrefix k (objects_prefix M)" using that(2) by (auto split: sum.splits)
    ultimately show ?thesis using meta_key_trim by metis
  qed
  obtain k d where kd: "(k, d) \<in> set ?t" "decode_obj M (k, d) = Inr b"
    using decode_all_from[OF assms] by (metis surj_pair)
  have ne: "bs \<noteq> []" using assms(2) by auto
  obtain k' d' where kd': "last ?t = (k', d')" by (cases "last ?t")
  note l = decode_all_last[OF assms(1) ne]
  have sorted: "sorted (map fst ?t)"
    using sorted_kv_select[of v] by (simp add: object_rest_def take_map[symmetric] strict_sorted_imp_sorted sorted_wrt_take)
  have "fst (k, d) \<in> set (map fst ?t)" using kd(1) by (metis image_eqI list.set_map)
  then have "k \<le> last (map fst ?t)" using sorted_le_last[OF sorted] by simp
  moreover have "last (map fst ?t) = k'" using l kd' by (simp add: last_map)
  ultimately have "k \<le> k'" by simp
  moreover have "meta_key M (ob_Key b) = k" "meta_key M (ob_Key (last bs)) = k'"
    using dec[OF kd] dec[of k' d' "last bs"] l kd' by auto
  ultimately show "ob_Key b \<le> ob_Key (last bs)" by (metis append_le_append meta_key_def)
  show "kv_lookup v (meta_key M (ob_Key b)) \<noteq> None"
    using kd(1) \<open>meta_key M (ob_Key b) = k\<close> by (auto simp: object_rest_def set_kv_select dest: in_set_takeD)
qed

text \<open>What the objects of a walk are, from where its cursor stands.\<close>

definition walk_rest :: "meta \<Rightarrow> kvs \<Rightarrow> string \<Rightarrow> (string \<times> kvd) list" where
  "walk_rest M v cursor = object_rest M '''' v (if cursor \<noteq> '''' then After cursor else '''')"

text \<open>
  One round of the walk: the page, the visits, the cursor.  No object has the empty key, whose cursor
  would mean the start.
\<close>

definition keeps_others :: "meta \<Rightarrow> ('s \<Rightarrow> kvs) \<Rightarrow> ('s, 'acc) visit \<Rightarrow> bool" where
  "keeps_others M view visit \<longleftrightarrow> (\<forall>b w acc w' acc' err. visit b (w, acc) = ((w', acc'), err) \<longrightarrow>
     other_objects M {ob_Key b} (view (w_kv w)) (view (w_kv w')))"

lemma visits_others:
  assumes "keeps_others M view visit"
  shows "foldl (\<lambda>a b. fst (visit b a)) (w, acc) bs = (w', acc') \<Longrightarrow>
    other_objects M (ob_Key ` set bs) (view (w_kv w)) (view (w_kv w'))"
proof (induction bs arbitrary: w acc)
  case (Cons b bs)
  obtain w1 acc1 e where v: "visit b (w, acc) = ((w1, acc1), e)" by (metis surj_pair)
  then have "other_objects M {ob_Key b} (view (w_kv w)) (view (w_kv w1))"
    using assms unfolding keeps_others_def by blast
  from other_objects_trans[OF this Cons.IH[of w1 acc1]] Cons.prems v show ?case by simp
qed simp

lemma walk_round:
  assumes "etcd_client (sy_etcd X) view" "keeps_others (c_meta c) view visit"
    "kv_lookup (view (w_kv w)) (meta_key (c_meta c) '''') = None"
    "ScanObjects (sy_etcd X) (c_meta c) (w_kv w) '''' (if cursor \<noteq> '''' then After cursor else '''') scanPage = (s, Inr (b # bs))"
    "foldl (\<lambda>a b. fst (visit b a)) (w\<lparr>w_kv := s\<rparr>, acc) (b # bs) = (w1, acc1)"
    "SaveCursor (sy_etcd X) (c_meta c) (w_kv w1) task nd (ob_Key (last (b # bs))) = (s', r)"
  shows "kv_lookup (view s') (meta_key (c_meta c) '''') = None"
    and "walk_rest (c_meta c) (view s') (ob_Key (last (b # bs))) = drop 256 (walk_rest (c_meta c) (view (w_kv w)) cursor)"
    and "decode_all (decode_obj (c_meta c)) (take 256 (walk_rest (c_meta c) (view (w_kv w)) cursor)) = Inr (b # bs)"
proof -
  let ?M = "c_meta c" and ?xs = "b # bs" and ?frm = "if cursor \<noteq> '''' then After cursor else ''''"
  have sc: "view s = view (w_kv w)" using etcd_client.ScanObjects_view[OF assms(1,4)] .
  have page: "decode_all (decode_obj ?M) (take 256 (object_rest ?M '''' (view (w_kv w)) ?frm)) = Inr ?xs"
    using etcd_client.ScanObjects_page[OF assms(1,4)] by (simp add: scanPage_def)
  then show "decode_all (decode_obj ?M) (take 256 (walk_rest ?M (view (w_kv w)) cursor)) = Inr ?xs"
    by (simp add: walk_rest_def)
  note keys = page_keys[OF page]
  have ne: "ob_Key y \<noteq> ''''" if "y \<in> set ?xs" for y using keys(2)[OF that] assms(3) by metis
  have last: "last ?xs \<in> set ?xs" by simp
  have "other_objects ?M (ob_Key ` set ?xs) (view s) (view (w_kv w1))"
    using visits_others[OF assms(2) assms(5)] by simp
  from other_objects_trans[OF this SaveCursor_others[OF assms(1,6)]]
  have others: "other_objects ?M (ob_Key ` set ?xs) (view (w_kv w)) (view s')" using sc by simp
  then show "kv_lookup (view s') (meta_key ?M '''') = None"
    using assms(3) ne unfolding other_objects_def by (metis imageE)
  have "object_rest ?M '''' (view s') (After (ob_Key (last ?xs))) = object_rest ?M '''' (view (w_kv w)) (After (ob_Key (last ?xs)))"
  proof (rule object_rest_others[OF others])
    fix k assume "k \<in> ob_Key ` set ?xs"
    then have "k \<le> ob_Key (last ?xs)" using keys(1) by blast
    then show "k < After (ob_Key (last ?xs))" by (meson After_le leD not_le_imp_less order.strict_trans1)
  qed
  also have "\<dots> = drop 256 (object_rest ?M '''' (view (w_kv w)) ?frm)"
    by (rule object_rest_next[OF page]) (auto split: sum.splits)
  finally show "walk_rest ?M (view s') (ob_Key (last ?xs)) = drop 256 (walk_rest ?M (view (w_kv w)) cursor)"
    using ne[OF last] by (simp add: walk_rest_def)
qed

text \<open>A walk ends: every round but the last takes at least one object off the rest.\<close>

lemma walk_pages_ends:
  assumes "etcd_client (sy_etcd X) view" "keeps_others (c_meta c) view visit"
  shows "kv_lookup (view (w_kv w)) (meta_key (c_meta c) '''') = None \<Longrightarrow>
    length (walk_rest (c_meta c) (view (w_kv w)) cursor) < fuel \<Longrightarrow>
    walk_pages fuel X c task visit cursor (w, acc) \<noteq> None"
proof (induction fuel arbitrary: cursor w acc)
  case (Suc fuel)
  let ?M = "c_meta c"
  obtain s r where sc: "ScanObjects (sy_etcd X) ?M (w_kv w) '''' (if cursor \<noteq> '''' then After cursor else '''') scanPage = (s, r)"
    by fastforce
  show ?case
  proof (cases "\<exists>b bs. r = Inr (b # bs)")
    case True
    then obtain b bs where r: "r = Inr (b # bs)" by blast
    obtain w1 acc1 where vis: "foldl (\<lambda>a b. fst (visit b a)) (w\<lparr>w_kv := s\<rparr>, acc) (b # bs) = (w1, acc1)" by fastforce
    obtain s' r' where sv: "SaveCursor (sy_etcd X) ?M (w_kv w1) task (c_self c) (ob_Key (last (b # bs))) = (s', r')" by fastforce
    note round = walk_round[OF assms Suc.prems(1) sc[unfolded r] vis sv]
    have "take 256 (walk_rest ?M (view (w_kv w)) cursor) \<noteq> []" using round(3) by auto
    then have "length (walk_rest ?M (view s') (ob_Key (last (b # bs)))) < fuel"
      using Suc.prems(2) unfolding round(2) by (cases "walk_rest ?M (view (w_kv w)) cursor") auto
    with Suc.IH[of "w1\<lparr>w_kv := s'\<rparr>" "ob_Key (last (b # bs))" acc1] round(1)
    show ?thesis using sc r vis sv by (cases r') (simp_all add: Let_def)
  next
    case False
    then show ?thesis using sc by (cases r) (auto split: prod.splits list.splits)
  qed
qed simp

lemma walk_ends:
  assumes "etcd_client (sy_etcd X) view" "keeps_others (c_meta c) view visit"
    and "kv_lookup (view (w_kv w)) (meta_key (c_meta c) '''') = None"
    and "length (kvs_Keys (view (w_kv w))) < fuel"
  shows "walk fuel X c task visit (w, acc) \<noteq> None"
proof -
  obtain s r where cur: "Cursor (sy_etcd X) (c_meta c) (w_kv w) task (c_self c) = (s, r)" by fastforce
  have v: "view s = view (w_kv w)"
    using cur by (auto simp: Cursor_def dest!: etcd_client.et_kvs_view[OF assms(1)]
        split: prod.splits sum.splits list.splits)
  show ?thesis
  proof (cases r)
    case (Inr cursor)
    have "length (walk_rest (c_meta c) (view (w_kv w)) cursor) \<le> length (kvs_Keys (view (w_kv w)))"
      unfolding walk_rest_def object_rest_def by (rule length_kv_select)
    then show ?thesis
      using walk_pages_ends[OF assms(1,2), of "w\<lparr>w_kv := s\<rparr>" cursor fuel task acc] assms(3,4) cur Inr v
      by (simp add: walk_def)
  qed (use cur in \<open>simp add: walk_def\<close>)
qed

text \<open>
  What a pass over the objects is to achieve: a relation \<open>R\<close> every visit of a valid object and every
  write of the cursor stays within, a count \<open>U\<close> of failures that never falls, and a result \<open>Q\<close> a visit
  that does not raise the count has for its object, and which lasts.
\<close>

definition entries_valid :: "meta \<Rightarrow> kvs \<Rightarrow> (obj \<Rightarrow> bool) \<Rightarrow> bool" where
  "entries_valid M v V \<longleftrightarrow> (\<forall>k d b. kv_lookup v (meta_key M k) = Some d \<longrightarrow> decode_obj M (meta_key M k, d) = Inr b \<longrightarrow> V b)"

locale healing_pass =
  fixes M :: meta and view :: "'s \<Rightarrow> kvs" and visit :: "('s, 'acc) visit" and V :: "obj \<Rightarrow> bool"
    and R :: "'s world \<times> 'acc \<Rightarrow> 's world \<times> 'acc \<Rightarrow> bool" and U :: "'s world \<times> 'acc \<Rightarrow> int"
    and Q :: "obj \<Rightarrow> 's world \<times> 'acc \<Rightarrow> bool"
  assumes others: "keeps_others M view visit"
    and R_refl: "R a a" and R_trans: "R a b \<Longrightarrow> R b d \<Longrightarrow> R a d"
    and R_visit: "V x \<Longrightarrow> R a (fst (visit x a))"
    and R_kv: "other_objects M {} (view (w_kv w)) (view s) \<Longrightarrow> R (w, acc) (w\<lparr>w_kv := s\<rparr>, acc)"
    and U_mono: "R a b \<Longrightarrow> U a \<le> U b"
    and Q_visit: "V x \<Longrightarrow> U (fst (visit x a)) = U a \<Longrightarrow> Q x (fst (visit x a))"
    and Q_stays: "R a b \<Longrightarrow> Q x a \<Longrightarrow> Q x b"
begin

lemma walk_pages_done:
  assumes "etcd_client (sy_etcd X) view" "c_meta c = M"
  shows "walk_pages fuel X c task visit cursor (w, acc) = Some (a', err) \<Longrightarrow>
    kv_lookup (view (w_kv w)) (meta_key M '''') = None \<Longrightarrow>
    \<forall>e \<in> set (walk_rest M (view (w_kv w)) cursor). \<forall>b. decode_obj M e = Inr b \<longrightarrow> V b \<Longrightarrow> R (w, acc) a' \<and>
    (err = None \<longrightarrow> (\<exists>ys. decode_all (decode_obj M) (walk_rest M (view (w_kv w)) cursor) = Inr ys \<and>
       (U a' = U (w, acc) \<longrightarrow> (\<forall>b \<in> set ys. Q b a'))))"
proof (induction fuel arbitrary: cursor w acc)
  case (Suc fuel)
  let ?M = M and ?frm = "if cursor \<noteq> '''' then After cursor else ''''"
  obtain s r where sc: "ScanObjects (sy_etcd X) ?M (w_kv w) '''' ?frm scanPage = (s, r)" by fastforce
  have r0: "R (w, acc) (w\<lparr>w_kv := s\<rparr>, acc)"
    by (rule R_kv) (simp add: etcd_client.ScanObjects_view[OF assms(1) sc])
  show ?case
  proof (cases r)
    case (Inl e)
    then show ?thesis using Suc.prems sc r0 assms(2) by auto
  next
    case (Inr xs)
    show ?thesis
    proof (cases xs)
      case Nil
      have "decode_all (decode_obj ?M) (take 256 (object_rest ?M '''' (view (w_kv w)) ?frm)) = Inr []"
        using etcd_client.ScanObjects_page[OF assms(1) sc[unfolded Inr Nil]] by (simp add: scanPage_def)
      from length_decode_all[OF this, symmetric] have "take 256 (walk_rest ?M (view (w_kv w)) cursor) = []"
        by (simp only: walk_rest_def length_0_conv list.size(3))
      then have "walk_rest ?M (view (w_kv w)) cursor = []" by simp
      moreover obtain s' err' where sv: "SaveCursor (sy_etcd X) ?M s task (c_self c) '''' = (s', err')" by fastforce
      moreover have "R (w, acc) (w\<lparr>w_kv := s'\<rparr>, acc)" using R_trans[OF r0, of "(w\<lparr>w_kv := s'\<rparr>, acc)"] R_kv[of "w\<lparr>w_kv := s\<rparr>" s' acc]
          SaveCursor_others[OF assms(1) sv] by simp
      ultimately show ?thesis using Suc.prems(1) sc Inr Nil assms(2) by auto
    next
      case (Cons b bs)
      obtain w1 acc1 where vis: "foldl (\<lambda>a b. fst (visit b a)) (w\<lparr>w_kv := s\<rparr>, acc) (b # bs) = (w1, acc1)" by fastforce
      obtain s' r' where sv: "SaveCursor (sy_etcd X) ?M (w_kv w1) task (c_self c) (ob_Key (last (b # bs))) = (s', r')" by fastforce
      note round = walk_round[OF assms(1) others[folded assms(2)] Suc.prems(2)[folded assms(2)] sc[unfolded Inr Cons, folded assms(2)] vis sv[folded assms(2)], unfolded assms(2)]
      let ?a1 = "(w1, acc1)" and ?a2 = "(w1\<lparr>w_kv := s'\<rparr>, acc1)"
      have valid: "V y" if "y \<in> set (b # bs)" for y
        using decode_all_from[OF round(3) that] Suc.prems(3) by (meson in_set_takeD)
      have k2: "R ?a1 ?a2" by (rule R_kv[OF SaveCursor_others[OF assms(1) sv]])
      have r1: "R (w\<lparr>w_kv := s\<rparr>, acc) ?a1"
        unfolding vis[symmetric] by (rule foldl_rel[of R]) (use R_refl R_trans R_visit valid in blast)+
      have r12: "R (w, acc) ?a2" using R_trans[OF r0 R_trans[OF r1 k2]] .
      have here: "Q y ?a1" if "U ?a1 = U (w\<lparr>w_kv := s\<rparr>, acc)" "y \<in> set (b # bs)" for y
        using foldl_done[of R "b # bs" "\<lambda>a b. fst (visit b a)" U Q "(w\<lparr>w_kv := s\<rparr>, acc)" y] R_refl R_trans R_visit U_mono Q_visit Q_stays valid that
        unfolding vis by blast
      show ?thesis
      proof (cases r')
        case (Some e)
        then have "a' = ?a2" "err = Some e" using Suc.prems(1) sc Inr Cons vis sv assms(2) by (simp_all add: Let_def)
        then show ?thesis using r12 by simp
      next
        case None
        then have w: "walk_pages fuel X c task visit (ob_Key (last (b # bs))) ?a2 = Some (a', err)"
          using Suc.prems(1) sc Inr Cons vis sv assms(2) by (simp add: Let_def)
        have z: "kv_lookup (view (w_kv (w1\<lparr>w_kv := s'\<rparr>))) (meta_key ?M '''') = None" using round(1) by simp
        have ent: "\<forall>e \<in> set (walk_rest ?M (view (w_kv (w1\<lparr>w_kv := s'\<rparr>))) (ob_Key (last (b # bs)))). \<forall>b. decode_obj ?M e = Inr b \<longrightarrow> V b"
          using Suc.prems(3) round(2) by (auto dest: in_set_dropD)
        note IH = Suc.IH[OF w z ent]
        have r2: "R ?a2 a'" using IH by blast
        have "\<exists>ys. decode_all (decode_obj ?M) (walk_rest ?M (view (w_kv w)) cursor) = Inr ys \<and>
            (U a' = U (w, acc) \<longrightarrow> (\<forall>b \<in> set ys. Q b a'))" if none: "err = None"
        proof -
          obtain ys where ys: "decode_all (decode_obj ?M) (drop 256 (walk_rest ?M (view (w_kv w)) cursor)) = Inr ys"
            "U a' = U ?a2 \<longrightarrow> (\<forall>b \<in> set ys. Q b a')"
            using IH none round(2) by auto
          have "decode_all (decode_obj ?M) (walk_rest ?M (view (w_kv w)) cursor) = Inr ((b # bs) @ ys)"
            using decode_all_append[OF round(3), of "drop 256 (walk_rest ?M (view (w_kv w)) cursor)"] ys(1)
            by (simp only: append_take_drop_id sum.case)
          moreover have "\<forall>y \<in> set ((b # bs) @ ys). Q y a'" if "U a' = U (w, acc)"
          proof -
            have u: "U (w, acc) \<le> U (w\<lparr>w_kv := s\<rparr>, acc)" "U (w\<lparr>w_kv := s\<rparr>, acc) \<le> U ?a1" "U ?a1 \<le> U ?a2" "U ?a2 \<le> U a'"
              using U_mono r0 r1 k2 r2 by blast+
            then have eq: "U ?a1 = U (w\<lparr>w_kv := s\<rparr>, acc)" "U a' = U ?a2" using that by linarith+
            have "R ?a1 a'" using R_trans[OF k2 r2] .
            then show ?thesis using here[OF eq(1)] Q_stays[OF \<open>R ?a1 a'\<close>] ys(2) eq(2) by (metis Un_iff set_append)
          qed
          ultimately show ?thesis by blast
        qed
        then show ?thesis using R_trans[OF r12 r2] by blast
      qed
    qed
  qed
qed simp

lemma walk_done:
  assumes "etcd_client (sy_etcd X) view" "c_meta c = M"
    and "kv_lookup (view (w_kv w)) (meta_key M '''') = None"
    and valid: "entries_valid M (view (w_kv w)) V"
    and run: "walk fuel X c task visit (w, acc) = Some (a', err)"
  shows "R (w, acc) a'"
    and "err = None \<Longrightarrow> U a' = U (w, acc) \<Longrightarrow>
      snd (Cursor (sy_etcd X) M (w_kv w) task (c_self c)) = Inr '''' \<Longrightarrow>
      kv_lookup (view (w_kv w)) (meta_key M k) = Some d \<Longrightarrow>
      decode_obj M (meta_key M k, d) = Inr b \<Longrightarrow> Q b a'"
proof -
  let ?M = M and ?v = "view (w_kv w)"
  obtain s r where cur: "Cursor (sy_etcd X) ?M (w_kv w) task (c_self c) = (s, r)" by fastforce
  have v: "view s = ?v"
    using cur by (auto simp: Cursor_def dest!: etcd_client.et_kvs_view[OF assms(1)]
        split: prod.splits sum.splits list.splits)
  have r0: "R (w, acc) (w\<lparr>w_kv := s\<rparr>, acc)" by (rule R_kv) (simp add: v)
  have entries: "V b" if "e \<in> set (walk_rest ?M ?v cursor)" "decode_obj ?M e = Inr b" for e b cursor
  proof -
    obtain k d where e: "e = (k, d)" by (cases e)
    have k: "HasPrefix k (meta_key ?M '''')" "kv_lookup ?v k = Some d"
      using that(1) e by (auto simp: walk_rest_def object_rest_def set_kv_select)
    then have "k = meta_key ?M (TrimPrefix k (objects_prefix ?M))" using meta_key_trim by metis
    then show ?thesis using valid k(2) that(2) e unfolding entries_valid_def by metis
  qed
  have "R (w, acc) a' \<and> (err = None \<longrightarrow> U a' = U (w, acc) \<longrightarrow> r = Inr '''' \<longrightarrow>
      kv_lookup ?v (meta_key ?M k) = Some d \<longrightarrow> decode_obj ?M (meta_key ?M k, d) = Inr b \<longrightarrow> Q b a')"
  proof (cases r)
    case (Inl e)
    then show ?thesis using run cur r0 assms(2) by (auto simp: walk_def)
  next
    case (Inr cursor)
    let ?w = "w\<lparr>w_kv := s\<rparr>"
    have w: "walk_pages fuel X c task visit cursor (?w, acc) = Some (a', err)"
      using run cur Inr assms(2) by (simp add: walk_def)
    have z: "kv_lookup (view (w_kv ?w)) (meta_key ?M '''') = None" using assms(3) v by simp
    have ent: "\<forall>e \<in> set (walk_rest ?M (view (w_kv ?w)) cursor). \<forall>b. decode_obj ?M e = Inr b \<longrightarrow> V b"
      using entries v by auto
    note d = walk_pages_done[OF assms(1,2) w z ent]
    have u: "U (w, acc) \<le> U (?w, acc)" "U (?w, acc) \<le> U a'"
      using U_mono[OF r0] U_mono[OF conjunct1[OF d]] .
    have "Q b a'" if h: "err = None" "U a' = U (w, acc)" "cursor = ''''" "kv_lookup ?v (meta_key ?M k) = Some d"
      "decode_obj ?M (meta_key ?M k, d) = Inr b"
    proof -
      obtain ys where ys: "decode_all (decode_obj ?M) (walk_rest ?M ?v '''') = Inr ys"
        "U a' = U (?w, acc) \<longrightarrow> (\<forall>b \<in> set ys. Q b a')"
        using d h(1,3) v by auto
      have "(meta_key ?M k, d) \<in> set (walk_rest ?M ?v '''')"
        using h(4) by (simp add: walk_rest_def object_rest_def set_kv_select) (simp add: meta_key_def)
      then have "b \<in> set ys" using decode_all_in[OF ys(1)] h(5) by force
      then show ?thesis using ys(2) u h(2) by simp
    qed
    then show ?thesis using d R_trans[OF r0] Inr by blast
  qed
  then show "R (w, acc) a'" "err = None \<Longrightarrow> U a' = U (w, acc) \<Longrightarrow>
      snd (Cursor (sy_etcd X) ?M (w_kv w) task (c_self c)) = Inr '''' \<Longrightarrow>
      kv_lookup ?v (meta_key ?M k) = Some d \<Longrightarrow> decode_obj ?M (meta_key ?M k, d) = Inr b \<Longrightarrow> Q b a'"
    using cur by auto
qed

end

section \<open>Properties of repair\<close>

text \<open>The disks after, as some committed manifest vouches for every chunk that is not as it was.\<close>

definition vouched :: "meta \<Rightarrow> kvs \<Rightarrow> disks \<Rightarrow> disks \<Rightarrow> bool" where
  "vouched M v D D' \<longleftrightarrow> (\<forall>nd x. chunk_data (D' nd) x = chunk_data (D nd) x \<or>
     (\<exists>k m. committed M v k = Some m \<and> sound m x (chunk_data (D' nd) x)))"

lemma vouched_refl [simp]: "vouched M v D D" by (simp add: vouched_def)

lemma vouched_trans: "vouched M v D D' \<Longrightarrow> vouched M v D' D'' \<Longrightarrow> vouched M v D D''"
  unfolding vouched_def by metis

lemma patched_vouched: "patched m D D' \<Longrightarrow> committed M v k = Some m \<Longrightarrow> vouched M v D D'"
  unfolding patched_def vouched_def by blast

lemma vouched_present: "vouched M v D D' \<Longrightarrow> chunk_data (D nd) x \<noteq> None \<Longrightarrow> chunk_data (D' nd) x \<noteq> None"
  unfolding vouched_def using sound_present by metis

lemma decode_obj_committed:
  assumes "kv_lookup v (meta_key M k) = Some d" "decode_obj M (meta_key M k, d) = Inr b"
  shows "ob_Key b = k" "committed M v k = Some (ob_Manifest b)"
  using assms by (auto simp: committed_def meta_key_def split: sum.splits)

lemma committed_decode_obj:
  assumes "committed M v k = Some m"
  obtains d b where "kv_lookup v (meta_key M k) = Some d" "decode_obj M (meta_key M k, d) = Inr b" "ob_Manifest b = m" "ob_Key b = k"
  using assms by (fastforce simp: committed_def meta_key_def split: option.splits sum.splits)

text \<open>Repair as a healing pass, given that the addresses in the membership are right.\<close>

definition valid_object :: "coord \<Rightarrow> kvs \<Rightarrow> obj \<Rightarrow> bool" where
  "valid_object c v b \<longleftrightarrow> committed (c_meta c) v (ob_Key b) = Some (ob_Manifest b)"

definition repair_rel :: "'s sys \<Rightarrow> coord \<Rightarrow> kvs \<Rightarrow> 's world \<times> stats \<Rightarrow> 's world \<times> stats \<Rightarrow> bool" where
  "repair_rel X c v a b \<longleftrightarrow> addresses_right X c (c_live c) \<longrightarrow>
     vouched (c_meta c) v (w_disks (fst a)) (w_disks (fst b)) \<and> rs_Unrepairable (snd a) \<le> rs_Unrepairable (snd b)"

definition repair_fails :: "'s sys \<Rightarrow> coord \<Rightarrow> 's world \<times> stats \<Rightarrow> int" where
  "repair_fails X c a = (if addresses_right X c (c_live c) then rs_Unrepairable (snd a) else 0)"

definition repair_goal :: "'s sys \<Rightarrow> coord \<Rightarrow> obj \<Rightarrow> 's world \<times> stats \<Rightarrow> bool" where
  "repair_goal X c b a \<longleftrightarrow> addresses_right X c (c_live c) \<longrightarrow> responsible c (ob_Key b) \<longrightarrow>
     \<not> fl_stat (ev_faults (sy_env X) (c_self c) '''') \<longrightarrow> missing_ok c (ob_Manifest b) (w_disks (fst a))"

lemma missing_ok_vouched: "vouched M v D D' \<Longrightarrow> missing_ok c m D \<Longrightarrow> missing_ok c m D'"
  unfolding missing_ok_def using vouched_present by blast

lemma repairObject_visit:
  assumes "valid_object c v b"
  shows "repair_rel X c v a (fst (repairObject X c b a))"
    and "repair_fails X c (fst (repairObject X c b a)) = repair_fails X c a \<Longrightarrow> repair_goal X c b (fst (repairObject X c b a))"
proof -
  obtain wa sa where a: "a = (wa, sa)" by (cases a)
  obtain D' st' e where r: "repair_disks X c b (w_disks wa, sa) = ((D', st'), e)" by (metis surj_pair)
  have run: "fst (repairObject X c b a) = (wa\<lparr>w_disks := D'\<rparr>, st')" by (simp add: a repairObject_def r)
  have "repair_rel X c v a (fst (repairObject X c b a)) \<and>
    (repair_fails X c (fst (repairObject X c b a)) = repair_fails X c a \<longrightarrow> repair_goal X c b (fst (repairObject X c b a)))"
  proof (cases "addresses_right X c (c_live c)")
    case True
    from repair_disks_done[OF True r] patched_vouched[OF _ assms[unfolded valid_object_def]] show ?thesis
      unfolding run by (auto simp: a repair_rel_def repair_fails_def repair_goal_def)
  qed (simp add: repair_rel_def repair_goal_def)
  then show "repair_rel X c v a (fst (repairObject X c b a))"
    "repair_fails X c (fst (repairObject X c b a)) = repair_fails X c a \<Longrightarrow> repair_goal X c b (fst (repairObject X c b a))"
    by blast+
qed

interpretation repair: healing_pass "c_meta c" view "repairObject X c" "valid_object c v" "repair_rel X c v"
  "repair_fails X c" "repair_goal X c"
  for X :: "'s sys" and c v view
proof (unfold_locales, goal_cases)
  case 1
  then show ?case by (auto simp: keeps_others_def repairObject_def split: prod.splits)
next
  case (2 a)
  then show ?case by (simp add: repair_rel_def)
next
  case (3 a b d)
  then show ?case using vouched_trans unfolding repair_rel_def by fastforce
next
  case (4 x a)
  then show ?case by (rule repairObject_visit)
next
  case (5 w acc s)
  then show ?case by (simp add: repair_rel_def)
next
  case (6 a b)
  then show ?case by (simp add: repair_rel_def repair_fails_def)
next
  case (7 x a)
  then show ?case by (rule repairObject_visit)
next
  case (8 a b x)
  then show ?case using missing_ok_vouched unfolding repair_rel_def repair_goal_def by blast
qed

lemma entries_valid_object: "entries_valid (c_meta c) v (valid_object c v)"
  unfolding entries_valid_def valid_object_def using decode_obj_committed by metis

text \<open>
  C13. Repair never spreads corruption and never loses a copy: however the pass ends, every chunk or
  shard on every node is as it was, or is now one whose bytes match the checksum in a committed
  manifest that names it.
\<close>

theorem Repair_safe:
  assumes "etcd_client (sy_etcd X) view" and "addresses_right X c (c_live c)"
    and "kv_lookup (view (w_kv w)) (meta_key (c_meta c) '''') = None"
    and "cluster_Repair fuel X c w = Some (w', st, err)"
  shows "\<forall>nd x. chunk_data (w_disks w' nd) x = chunk_data (w_disks w nd) x \<or>
    (\<exists>k m. committed (c_meta c) (view (w_kv w)) k = Some m \<and> sound m x (chunk_data (w_disks w' nd) x))"
proof -
  obtain e where "walk fuel X c ''repair'' (repairObject X c) (w, zero_stats) = Some ((w', st), e)"
    using assms(4) by (auto simp: cluster_Repair_def split: option.splits prod.splits)
  from repair.walk_done(1)[OF assms(1) refl assms(3) entries_valid_object this]
  show ?thesis using assms(2) by (simp add: repair_rel_def vouched_def)
qed


section \<open>One node, one object\<close>

definition lone_coord :: coord where
  "lone_coord = cluster_New ''n1'' ''a1'' example_meta 2"

lemma lone_simps [simp]:
  "c_self lone_coord = ''n1''" "c_meta lone_coord = example_meta" "c_quorum lone_coord = 2"
  "mb_peers (c_live lone_coord) = [(''n1'', ''a1'')]"
  "mb_ring (c_live lone_coord) = ring_New [''n1''] DefaultVNodes"
  by (simp_all add: lone_coord_def cluster_New_def SetMembers_def Let_def DefaultWriteQuorum_def)

lemma lone_owners: "0 < n \<Longrightarrow> Owners (mb_ring (c_live lone_coord)) p n = [''n1'']"
proof -
  assume "0 < n"
  let ?o = "Owners (mb_ring (c_live lone_coord)) p n"
  have r: "sorted_ring (mb_ring (c_live lone_coord))" by (simp add: sorted_ring_New)
  have "length ?o = 1" unfolding length_Owners[OF r] using \<open>0 < n\<close> by (simp add: ring_nodes_New DefaultVNodes_def)
  moreover have "set ?o \<subseteq> {''n1''}" using Owners_subset[OF r, of p n] by (simp add: ring_nodes_New DefaultVNodes_def)
  ultimately show ?thesis by (cases ?o) auto
qed

lemma lone_responsible: "responsible lone_coord k"
  using lone_owners[of 1 "PartitionFor k"] by (simp add: responsible_def)

lemma lone_addresses: "addresses_right example_sys lone_coord (c_live lone_coord)"
  by (auto simp: addresses_right_def addr_of_def example_sys_def example_env_def)

definition lone_manifest :: manifest where
  "lone_manifest = zero_manifest\<lparr>m_Size := 1, m_Nodes := [''n1''],
     m_Chunks := [\<lparr>cr_ID = ''AB000000'', cr_Size = 1, cr_CRC = 0, cr_Shards = []\<rparr>]\<rparr>"

definition lone_kvs :: kvs where
  "lone_kvs = \<lparr>kvs_Rev = 2, kvs_Keys = [(''kavo/objects/a'', \<lparr>kd_Value = SManifest lone_manifest, kd_ModRev = 2\<rparr>)]\<rparr>"

definition lone_world :: "kvs world" where
  "lone_world = \<lparr>w_disks = \<lambda>_. example_garbage, w_kv = lone_kvs\<rparr>"

text \<open>The store with a cursor in it.\<close>

definition with_cursor :: "string \<Rightarrow> string \<Rightarrow> kvs \<Rightarrow> kvs" where
  "with_cursor task k s = kv_put s (cursorKey example_meta task ''n1'') (SString k)"

lemma lone_scan:
  "ScanObjects mem_etcd example_meta lone_kvs '''' '''' scanPage =
    (lone_kvs, Inr [\<lparr>ob_Key = ''a'', ob_Manifest = lone_manifest, ob_Revision = 2\<rparr>])"
  "ScanObjects mem_etcd example_meta (with_cursor ''repair'' ''a'' lone_kvs) '''' (After ''a'') scanPage =
    (with_cursor ''repair'' ''a'' lone_kvs, Inr [])"
  by code_simp+

lemma lone_cursor: "Cursor mem_etcd example_meta lone_kvs ''repair'' ''n1'' = (lone_kvs, Inr '''')"
  by code_simp

lemma SaveCursor_mem: "SaveCursor mem_etcd example_meta s task ''n1'' k = (with_cursor task k s, None)"
  by (simp add: SaveCursor_def et_unit_def mem_etcd_def with_cursor_def)

lemma lone_repair:
  "\<exists>w' st. cluster_Repair 3 example_sys lone_coord lone_world = Some (w', st, None)"
proof -
  let ?b = "\<lparr>ob_Key = ''a'', ob_Manifest = lone_manifest, ob_Revision = 2\<rparr>"
  let ?w = "lone_world\<lparr>w_kv := lone_kvs\<rparr>"
  have "\<exists>st. repairObject example_sys lone_coord ?b (lone_world, zero_stats) = ((lone_world, st), None) \<and> rs_Unrepairable st = 0"
    using lone_responsible[of "''a''"]
    by (simp add: repairObject_def repair_disks_def lone_manifest_def zero_manifest_def zero_scheme_def is_member_def
        survey_one_def HasChunk_def validateID_def lone_world_def example_garbage_def chunk_file_def repair_copies_def
        repair_copy_def held_ids_def joined_def zero_stats_def example_sys_def example_env_def no_faults_def Let_def)
  then obtain st where st: "repairObject example_sys lone_coord ?b (lone_world, zero_stats) = ((lone_world, st), None)"
    "rs_Unrepairable st = 0" by blast
  have w: "lone_world\<lparr>w_kv := lone_kvs\<rparr> = lone_world" by (simp add: lone_world_def)
  show ?thesis using st(2)
    by (simp add: cluster_Repair_def walk_def numeral_3_eq_3 lone_cursor lone_scan SaveCursor_mem st(1) w
        example_sys_def[THEN arg_cong[where f = sy_etcd], simplified] lone_world_def[THEN arg_cong[where f = w_kv], simplified])
qed

lemma lone_kv: "w_kv lone_world = lone_kvs"
  by (simp add: lone_world_def)

lemma lone_no_root: "kv_lookup (w_kv lone_world) (meta_key (c_meta lone_coord) '''') = None"
  by (simp add: lone_world_def lone_kvs_def kv_lookup_def meta_key_def objects_prefix_def join_def example_meta_def)

theorem Repair_safe_witness:
  "\<exists>w' st. cluster_Repair 3 example_sys lone_coord lone_world = Some (w', st, None) \<and>
    chunk_data (w_disks w' ''n1'') ''x'' = None"
proof -
  obtain w' st where r: "cluster_Repair 3 example_sys lone_coord lone_world = Some (w', st, None)"
    using lone_repair by blast
  have "committed example_meta lone_kvs k = Some m \<Longrightarrow> m = lone_manifest" for k m
    by (auto simp: committed_def lone_kvs_def kv_lookup_def split: option.splits if_splits)
  moreover have "\<not> sound lone_manifest ''x'' v" for v
    by (simp add: sound_def lone_manifest_def zero_manifest_def)
  ultimately have "\<not> (\<exists>k m. committed example_meta lone_kvs k = Some m \<and> sound m ''x'' v)" for v by blast
  moreover have "chunk_data (w_disks w' ''n1'') ''x'' = chunk_data (w_disks lone_world ''n1'') ''x'' \<or>
      (\<exists>k m. committed example_meta lone_kvs k = Some m \<and> sound m ''x'' (chunk_data (w_disks w' ''n1'') ''x''))"
    using Repair_safe[OF example_etcd(1) lone_addresses lone_no_root r] by (simp only: lone_simps lone_kv)
  moreover have "chunk_data (w_disks lone_world ''n1'') ''x'' = None"
    by (simp add: lone_world_def example_garbage_def chunk_data_def chunk_file_def)
  ultimately show ?thesis using r by auto
qed


end
