(* ===== verification/Rebalance.thy ===== *)
theory Rebalance
  imports Repair
begin

text \<open>
  Correcting placement, \<^verbatim>\<open>internal/cluster/rebalance.go\<close>: an object whose manifest does not name the
  current owners of its partition is copied to the owners that lack it, and only then re-committed,
  on condition that nobody changed it meanwhile.  The waits of the pacer are left out, as in
  \<open>Repair\<close>; the loop around passes is in \<open>Loops\<close>.
\<close>

section \<open>The pass\<close>

record rebalance_stats =
  rb_Objects :: int
  rb_Misplaced :: int
  rb_Moved :: int
  rb_Copies :: int
  rb_Bytes :: int
  rb_Raced :: int
  rb_Failed :: int

definition zero_rebalance :: rebalance_stats where
  "zero_rebalance = \<lparr>rb_Objects = 0, rb_Misplaced = 0, rb_Moved = 0, rb_Copies = 0, rb_Bytes = 0,
     rb_Raced = 0, rb_Failed = 0\<rparr>"

definition copyChunk ::
  "'s sys \<Rightarrow> coord \<Rightarrow> membership \<Rightarrow> manifest \<Rightarrow> chunk_ref \<Rightarrow> string \<Rightarrow> disks \<Rightarrow> disks \<times> error option" where
  "copyChunk X c live m ref nd D = (case cluster_fetch X c D ref (m_Nodes m) of
      Inl e \<Rightarrow> (D, Some (Other ''cluster: no source for chunk'' # e))
    | Inr src \<Rightarrow> (case store_at X c live nd D (cr_ID ref) src (cr_CRC ref) (cr_Size ref) of
        (D', Some e) \<Rightarrow> (D', Some (Other ''cluster: move chunk'' # e))
      | (D', None) \<Rightarrow> (D', None)))"

text \<open>What a move has done so far: the disks, the copies made, the bytes moved and the errors.\<close>

type_synonym moved = "disks \<times> int \<times> int \<times> error list"

definition Join_errors :: "error list \<Rightarrow> error option" where
  "Join_errors errs = (if errs = [] then None else Some (concat errs))"

definition copy_one :: "'s sys \<Rightarrow> coord \<Rightarrow> membership \<Rightarrow> manifest \<Rightarrow> moved \<Rightarrow> chunk_ref \<times> string \<Rightarrow> moved" where
  "copy_one X c live m a rn = (case (a, rn) of ((D, made, bytes, errs), (ref, nd)) \<Rightarrow>
     (if nd \<in> set (m_Nodes m) then a
      else case copyChunk X c live m ref nd D of
             (D', Some e) \<Rightarrow> (D', made, bytes, errs @ [e])
           | (D', None) \<Rightarrow> (D', made + 1, bytes + cr_Size ref, errs)))"

definition misplaced :: "string list \<Rightarrow> string list \<Rightarrow> nat list" where
  "misplaced want nodes = filter (\<lambda>i. \<not> (i < length nodes \<and> nodes ! i = want ! i)) [0..<length want]"

definition move_chunk ::
  "'s sys \<Rightarrow> coord \<Rightarrow> membership \<Rightarrow> manifest \<Rightarrow> string list \<Rightarrow> nat list \<Rightarrow> moved \<Rightarrow> chunk_ref \<Rightarrow> moved" where
  "move_chunk X c live m want missing a ref = (case a of (D, made, bytes, errs) \<Rightarrow>
     (case restoreShards X c live ref (m_Nodes m) want missing (m_Coding m) D of
        (D', Some e) \<Rightarrow> (D', made, bytes, errs @ [e])
      | (D', None) \<Rightarrow> (D', made + int (length missing),
          bytes + int (length missing) * shardSize (cr_Size ref) (m_Coding m), errs)))"

definition moveShards :: "'s sys \<Rightarrow> coord \<Rightarrow> membership \<Rightarrow> manifest \<Rightarrow> string list \<Rightarrow> disks \<Rightarrow> moved" where
  "moveShards X c live m want D = (let missing = misplaced want (m_Nodes m) in
     if missing = [] then (D, 0, 0, [])
     else foldl (move_chunk X c live m want missing) (D, 0, 0, []) (m_Chunks m))"

definition copyToNewOwners :: "'s sys \<Rightarrow> coord \<Rightarrow> membership \<Rightarrow> manifest \<Rightarrow> string list \<Rightarrow> disks \<Rightarrow> moved" where
  "copyToNewOwners X c live m want D =
     (if m_Coding m \<noteq> zero_scheme then moveShards X c live m want D
      else foldl (copy_one X c live m) (D, 0, 0, []) (List.product (m_Chunks m) want))"

definition want_nodes :: "coord \<Rightarrow> string \<Rightarrow> manifest \<Rightarrow> string list" where
  "want_nodes c key m = Owners (mb_ring (c_live c)) (PartitionFor key) (redundancy m)"

definition rebalanceObject :: "'s sys \<Rightarrow> coord \<Rightarrow> ('s, rebalance_stats) visit" where
  "rebalanceObject X c b a = (case a of (w, st) \<Rightarrow>
     (let live = c_live c; m = ob_Manifest b; want = want_nodes c (ob_Key b) m;
          st1 = st\<lparr>rb_Objects := rb_Objects st + 1\<rparr>; st2 = st1\<lparr>rb_Misplaced := rb_Misplaced st1 + 1\<rparr> in
      if \<not> responsible c (ob_Key b) then ((w, st), None)
      else if length want < length (m_Nodes m) then ((w, st1), None)
      else if want = m_Nodes m then ((w, st1), None)
      else case copyToNewOwners X c live m want (w_disks w) of (D', made, bytes, errs) \<Rightarrow>
        (let st3 = st2\<lparr>rb_Copies := rb_Copies st2 + made, rb_Bytes := rb_Bytes st2 + bytes\<rparr> in
         case Join_errors errs of
           Some e \<Rightarrow> ((w\<lparr>w_disks := D'\<rparr>, st3), Some e)
         | None \<Rightarrow>
             (case CommitIfUnchanged (sy_etcd X) (c_meta c) (w_kv w) (ob_Key b) (m\<lparr>m_Nodes := want\<rparr>) (ob_Revision b) of
                (s', Some e) \<Rightarrow>
                  if errors_Is e ErrChanged
                  then ((w\<lparr>w_disks := D', w_kv := s'\<rparr>, st3\<lparr>rb_Raced := rb_Raced st3 + 1\<rparr>), None)
                  else ((w\<lparr>w_disks := D', w_kv := s'\<rparr>, st3), Some e)
              | (s', None) \<Rightarrow> ((w\<lparr>w_disks := D', w_kv := s'\<rparr>, st3\<lparr>rb_Moved := rb_Moved st3 + 1\<rparr>), None)))))"

definition rebalance_visit :: "'s sys \<Rightarrow> coord \<Rightarrow> ('s, rebalance_stats) visit" where
  "rebalance_visit X c b a = (case rebalanceObject X c b a of
      ((w', st'), Some e) \<Rightarrow> ((w', st'\<lparr>rb_Failed := rb_Failed st' + 1\<rparr>), Some e)
    | ((w', st'), None) \<Rightarrow> ((w', st'), None))"

definition cluster_Rebalance ::
  "nat \<Rightarrow> 's sys \<Rightarrow> coord \<Rightarrow> 's world \<Rightarrow> ('s world \<times> rebalance_stats \<times> error option) option" where
  "cluster_Rebalance fuel X c w = (case walk fuel X c ''rebalance'' (rebalance_visit X c) (w, zero_rebalance) of
      None \<Rightarrow> None
    | Some ((w', st), err) \<Rightarrow> Some (w', st, err))"

section \<open>What a move does to the disks\<close>

text \<open>
  The copies a placement needs that the old one does not have: for a replicated object the whole
  chunk at every new node, for a coded one the shard of every position that changes hands.
\<close>

definition needed :: "manifest \<Rightarrow> string list \<Rightarrow> (string \<times> string) set" where
  "needed m want = {(want ! i, if m_Coding m = zero_scheme then cr_ID ref else ShardID ref i) | ref i.
     ref \<in> set (m_Chunks m) \<and> i < length want \<and>
     (if m_Coding m = zero_scheme then want ! i \<notin> set (m_Nodes m)
      else \<not> (i < length (m_Nodes m) \<and> m_Nodes m ! i = want ! i))}"

definition progress :: "manifest \<Rightarrow> moved \<Rightarrow> moved \<Rightarrow> bool" where
  "progress m a a' \<longleftrightarrow> patched m (fst a) (fst a') \<and> length (snd (snd (snd a))) \<le> length (snd (snd (snd a')))"

definition failures :: "moved \<Rightarrow> int" where
  "failures a = int (length (snd (snd (snd a))))"

lemma progress_refl: "progress m a a" by (simp add: progress_def)

lemma progress_trans: "progress m a b \<Longrightarrow> progress m b d \<Longrightarrow> progress m a d"
  unfolding progress_def using patched_trans le_trans by blast

lemma progress_failures: "progress m a b \<Longrightarrow> failures a \<le> failures b"
  by (simp add: progress_def failures_def)

lemma copyChunk_patched:
  assumes "addresses_right X c live" "copyChunk X c live m ref nd D = (D', res)"
    and "ref \<in> set (m_Chunks m)" "m_Coding m = zero_scheme"
  shows "patched m D D'" and "res = None \<Longrightarrow> sound m (cr_ID ref) (chunk_data (D' nd) (cr_ID ref))"
proof -
  obtain r where r: "restore X c live nd ref (m_Nodes m) D = (D', r)" "res = None \<longrightarrow> r = None"
    using assms(2) by (auto simp: copyChunk_def restore_def split: sum.splits prod.splits option.splits)
  from restore_patched[OF assms(1) r(1) assms(3,4)] r(2)
  show "patched m D D'" "res = None \<Longrightarrow> sound m (cr_ID ref) (chunk_data (D' nd) (cr_ID ref))"
    by auto
qed

lemma copy_one_step:
  assumes "addresses_right X c live" "fst rn \<in> set (m_Chunks m)" "m_Coding m = zero_scheme"
  shows "progress m a (copy_one X c live m a rn) \<and> (failures (copy_one X c live m a rn) = failures a \<longrightarrow>
    snd rn \<notin> set (m_Nodes m) \<longrightarrow> sound m (cr_ID (fst rn)) (chunk_data (fst (copy_one X c live m a rn) (snd rn)) (cr_ID (fst rn))))"
proof -
  obtain D n k errs where a: "a = (D, n, k, errs)" by (metis prod_cases4)
  obtain ref nd where rn: "rn = (ref, nd)" by (cases rn)
  obtain D' res where r: "copyChunk X c live m ref nd D = (D', res)" by fastforce
  note p = copyChunk_patched[OF assms(1) r assms(2)[unfolded rn fst_conv] assms(3)]
  show ?thesis
    by (cases "nd \<in> set (m_Nodes m)"; cases res)
      (use p r in \<open>auto simp: a rn copy_one_def progress_def failures_def\<close>)
qed

lemma move_chunk_step:
  assumes "addresses_right X c live" "ref \<in> set (m_Chunks m)" "m_Coding m \<noteq> zero_scheme"
  shows "progress m a (move_chunk X c live m want missing a ref) \<and>
    (failures (move_chunk X c live m want missing a ref) = failures a \<longrightarrow> i \<in> set missing \<longrightarrow>
     sound m (ShardID ref i) (chunk_data (fst (move_chunk X c live m want missing a ref) (want ! i)) (ShardID ref i)))"
proof -
  obtain D n k errs where a: "a = (D, n, k, errs)" by (metis prod_cases4)
  obtain D' res where r: "restoreShards X c live ref (m_Nodes m) want missing (m_Coding m) D = (D', res)" by fastforce
  note p = restoreShards_patched[OF assms(1) r assms(2,3)]
  show ?thesis
    by (cases res) (use p r in \<open>auto simp: a move_chunk_def progress_def failures_def\<close>)
qed

lemma move_fold:
  assumes "\<And>a x. x \<in> set xs \<Longrightarrow> progress m a (f a x) \<and> (failures (f a x) = failures a \<longrightarrow> P x \<longrightarrow>
    sound m (y x) (chunk_data (fst (f a x) (nd x)) (y x)))"
  shows "progress m a (foldl f a xs)"
    and "failures (foldl f a xs) = failures a \<Longrightarrow> x \<in> set xs \<Longrightarrow> P x \<Longrightarrow> sound m (y x) (chunk_data (fst (foldl f a xs) (nd x)) (y x))"
proof -
  show "progress m a (foldl f a xs)"
    by (rule foldl_rel) (use assms progress_refl progress_trans in blast)+
  show "sound m (y x) (chunk_data (fst (foldl f a xs) (nd x)) (y x))"
    if "failures (foldl f a xs) = failures a" "x \<in> set xs" "P x"
  proof -
    have stays: "progress m b d \<Longrightarrow> P x \<longrightarrow> sound m (y x) (chunk_data (fst b (nd x)) (y x)) \<Longrightarrow>
      P x \<longrightarrow> sound m (y x) (chunk_data (fst d (nd x)) (y x))" for b d x
      using patched_sound unfolding progress_def by blast
    have "P x \<longrightarrow> sound m (y x) (chunk_data (fst (foldl f a xs) (nd x)) (y x))"
      by (rule foldl_done[of "progress m" xs f failures, OF progress_refl])
        (use assms that progress_trans progress_failures stays in blast)+
    then show ?thesis using that(3) by blast
  qed
qed

text \<open>A move that collected no error has put a sound copy everywhere one is needed.\<close>

lemma copyToNewOwners_done:
  assumes "addresses_right X c live" "copyToNewOwners X c live m want D = a"
  shows "patched m D (fst a)"
    and "snd (snd (snd a)) = [] \<Longrightarrow> (nd, x) \<in> needed m want \<Longrightarrow> sound m x (chunk_data (fst a nd) x)"
proof -
  have "progress m (D, 0, 0, []) a \<and> (failures a = 0 \<longrightarrow> (nd, x) \<in> needed m want \<longrightarrow> sound m x (chunk_data (fst a nd) x))"
  proof (cases "m_Coding m = zero_scheme")
    case True
    have step: "rn \<in> set (List.product (m_Chunks m) want) \<Longrightarrow> progress m a (copy_one X c live m a rn) \<and>
      (failures (copy_one X c live m a rn) = failures a \<longrightarrow> snd rn \<notin> set (m_Nodes m) \<longrightarrow>
       sound m (cr_ID (fst rn)) (chunk_data (fst (copy_one X c live m a rn) (snd rn)) (cr_ID (fst rn))))" for a rn
      by (rule copy_one_step[OF assms(1) _ True]) auto
    note f = move_fold[where f = "copy_one X c live m" and m = m and a = "(D, 0, 0, [])" and xs = "List.product (m_Chunks m) want", OF step]
    have a: "a = foldl (copy_one X c live m) (D, 0, 0, []) (List.product (m_Chunks m) want)"
      using assms(2) True by (simp add: copyToNewOwners_def)
    have z: "failures (D, 0, 0, []) = 0" by (simp add: failures_def)
    have "sound m x (chunk_data (fst a nd) x)" if h: "failures a = 0" "(nd, x) \<in> needed m want"
    proof -
      obtain ref where "ref \<in> set (m_Chunks m)" "nd \<in> set want" "nd \<notin> set (m_Nodes m)" "x = cr_ID ref"
        using h(2) True by (auto simp: needed_def)
      then show ?thesis using f(2)[where x = "(ref, nd)"] h(1) a z by simp
    qed
    then show ?thesis using f(1) a by simp
  next
    case False
    let ?ms = "misplaced want (m_Nodes m)"
    have n: "(nd, x) \<in> needed m want \<longleftrightarrow> (\<exists>ref i. ref \<in> set (m_Chunks m) \<and> i \<in> set ?ms \<and> nd = want ! i \<and> x = ShardID ref i)"
      using False by (auto simp: needed_def misplaced_def)
    show ?thesis
    proof (cases "?ms = []")
      case True
      then show ?thesis using assms(2) False n by (auto simp: copyToNewOwners_def moveShards_def progress_refl)
    next
      case ms: False
      then have a: "a = foldl (move_chunk X c live m want ?ms) (D, 0, 0, []) (m_Chunks m)"
        using assms(2) False by (simp add: copyToNewOwners_def moveShards_def)
      note f = move_fold[where f = "move_chunk X c live m want ?ms" and m = m and a = "(D, 0, 0, [])" and xs = "m_Chunks m",
          OF move_chunk_step[OF assms(1) _ False]]
      have z: "failures (D, 0, 0, []) = 0" by (simp add: failures_def)
      have "sound m x (chunk_data (fst a nd) x)" if h: "failures a = 0" "(nd, x) \<in> needed m want"
        using h(2) f(2) h(1) a z unfolding n by auto
      then show ?thesis using f(1) a by simp
    qed
  qed
  then show "patched m D (fst a)"
    "snd (snd (snd a)) = [] \<Longrightarrow> (nd, x) \<in> needed m want \<Longrightarrow> sound m x (chunk_data (fst a nd) x)"
    by (auto simp: failures_def progress_def)
qed

section \<open>What a pass does to the manifests\<close>

text \<open>A copy some committed manifest that names it vouches for.\<close>

definition backed :: "meta \<Rightarrow> kvs \<Rightarrow> disks \<Rightarrow> string \<times> string \<Rightarrow> bool" where
  "backed M v D nx = (case nx of (nd, x) \<Rightarrow> \<exists>k m. committed M v k = Some m \<and> sound m x (chunk_data (D nd) x))"

lemma backed_vouched: "vouched M v D D' \<Longrightarrow> backed M v D nx \<Longrightarrow> backed M v D' nx"
  unfolding vouched_def backed_def by (cases nx) (simp, metis)

text \<open>
  From \<open>v\<close> to \<open>v'\<close>, given that the pass began at \<open>v0\<close>: the entry of a key is as it was, or it is the
  manifest the pass began with on the nodes the ring wants, not fewer of them, all furnished.
\<close>

definition relocated :: "coord \<Rightarrow> kvs \<Rightarrow> disks \<Rightarrow> kvs \<Rightarrow> kvs \<Rightarrow> string \<Rightarrow> bool" where
  "relocated c v0 D' v v' k \<longleftrightarrow> kv_lookup v' (meta_key (c_meta c) k) = kv_lookup v (meta_key (c_meta c) k) \<or>
     (\<exists>m. committed (c_meta c) v0 k = Some m \<and>
        committed (c_meta c) v' k = Some (m\<lparr>m_Nodes := want_nodes c k m\<rparr>) \<and>
        length (m_Nodes m) \<le> length (want_nodes c k m) \<and>
        (\<forall>nx \<in> needed m (want_nodes c k m). backed (c_meta c) v0 D' nx))"

definition rebalance_rel ::
  "coord \<Rightarrow> ('s \<Rightarrow> kvs) \<Rightarrow> kvs \<Rightarrow> 's world \<times> rebalance_stats \<Rightarrow> 's world \<times> rebalance_stats \<Rightarrow> bool" where
  "rebalance_rel c view v0 a b \<longleftrightarrow>
     vouched (c_meta c) v0 (w_disks (fst a)) (w_disks (fst b)) \<and>
     (\<forall>k. relocated c v0 (w_disks (fst b)) (view (w_kv (fst a))) (view (w_kv (fst b))) k) \<and>
     rb_Failed (snd a) + rb_Raced (snd a) \<le> rb_Failed (snd b) + rb_Raced (snd b)"

definition rebalance_goal :: "coord \<Rightarrow> ('s \<Rightarrow> kvs) \<Rightarrow> kvs \<Rightarrow> obj \<Rightarrow> 's world \<times> rebalance_stats \<Rightarrow> bool" where
  "rebalance_goal c view v0 b a \<longleftrightarrow> valid_object c v0 b \<longrightarrow> responsible c (ob_Key b) \<longrightarrow>
     (let m = ob_Manifest b; want = want_nodes c (ob_Key b) m in
      length want < length (m_Nodes m) \<or> want = m_Nodes m \<or>
      committed (c_meta c) (view (w_kv (fst a))) (ob_Key b) = Some (m\<lparr>m_Nodes := want\<rparr>))"

lemma relocated_refl [simp]: "relocated c v0 D v v k"
  by (simp add: relocated_def)

lemma committed_cong: "kv_lookup v' (meta_key M k) = kv_lookup v (meta_key M k) \<Longrightarrow> committed M v' k = committed M v k"
  by (simp add: committed_def)

lemma relocated_trans:
  assumes "relocated c v0 D1 v v1 k" "relocated c v0 D2 v1 v2 k" "vouched (c_meta c) v0 D1 D2"
  shows "relocated c v0 D2 v v2 k"
proof (cases "kv_lookup v2 (meta_key (c_meta c) k) = kv_lookup v1 (meta_key (c_meta c) k)")
  case True
  then show ?thesis
    using assms(1) backed_vouched[OF assms(3)] committed_cong[OF True] unfolding relocated_def by metis
next
  case False
  then show ?thesis using assms(2) unfolding relocated_def by blast
qed

lemma rebalance_rel_trans:
  assumes "rebalance_rel c view v0 a b" "rebalance_rel c view v0 b d"
  shows "rebalance_rel c view v0 a d"
  using assms relocated_trans vouched_trans unfolding rebalance_rel_def by (meson order.trans)

lemma rebalance_goal_stays:
  assumes "rebalance_rel c view v0 a b" "rebalance_goal c view v0 x a"
  shows "rebalance_goal c view v0 x b"
proof -
  have "relocated c v0 (w_disks (fst b)) (view (w_kv (fst a))) (view (w_kv (fst b))) (ob_Key x)"
    using assms(1) by (simp add: rebalance_rel_def)
  then show ?thesis using assms(2) committed_cong[of "view (w_kv (fst b))" "c_meta c" "ob_Key x" "view (w_kv (fst a))"]
    unfolding rebalance_goal_def relocated_def valid_object_def Let_def by force
qed

context etcd_client
begin

lemma CommitIfUnchanged_put:
  assumes "CommitIfUnchanged E M s k m revision = (s', r)"
  shows "view s' = view s \<and> r \<noteq> None \<or> view s' = kv_put (view s) (meta_key M k) (SManifest m)"
proof -
  let ?q = "ETxn [CmpModRev (meta_key M k) revision] (meta_key M k) (SManifest m)"
  obtain res where t: "et_txn E s ?q = (s', res)" "r = (case res of Inl e \<Rightarrow> Some e | Inr b \<Rightarrow> if b then None else Some [ErrChanged])"
    using assms by (auto simp: CommitIfUnchanged_def split: prod.splits sum.splits)
  then show ?thesis
  proof (cases res)
    case (Inr b)
    then have "et_txn E s ?q = (s', Inr b)" using t by simp
    from et_txn_ok[OF this] show ?thesis using t Inr by auto
  next
    case (Inl e)
    then have "et_txn E s ?q = (s', Inl e)" using t by simp
    from et_txn_err[OF this] show ?thesis using t Inl by auto
  qed
qed

end

lemma committed_put_here:
  "committed M (kv_put v (meta_key M k) (SManifest m)) k = Some m"
  by (simp add: committed_def)

lemma put_others: "other_objects M {k} v (kv_put v (meta_key M k) x)"
  by (simp add: other_objects_def)

text \<open>The ways one visit can go: nothing to do, a move that failed, a move that reached its commit.\<close>

lemma rebalanceObject_cases:
  assumes "rebalanceObject X c b (w, st) = ((w', st'), e)"
  obtains (stay) "w' = w" "rb_Failed st' = rb_Failed st" "rb_Raced st' = rb_Raced st"
      "responsible c (ob_Key b) \<Longrightarrow> length (want_nodes c (ob_Key b) (ob_Manifest b)) < length (m_Nodes (ob_Manifest b)) \<or>
        want_nodes c (ob_Key b) (ob_Manifest b) = m_Nodes (ob_Manifest b)"
  | (failed) a where "copyToNewOwners X c (c_live c) (ob_Manifest b) (want_nodes c (ob_Key b) (ob_Manifest b)) (w_disks w) = a"
      "w' = w\<lparr>w_disks := fst a\<rparr>" "e \<noteq> None" "rb_Failed st' = rb_Failed st" "rb_Raced st' = rb_Raced st"
  | (commit) a s' r where "copyToNewOwners X c (c_live c) (ob_Manifest b) (want_nodes c (ob_Key b) (ob_Manifest b)) (w_disks w) = a"
      "snd (snd (snd a)) = []" "w' = w\<lparr>w_disks := fst a, w_kv := s'\<rparr>"
      "length (m_Nodes (ob_Manifest b)) \<le> length (want_nodes c (ob_Key b) (ob_Manifest b))"
      "CommitIfUnchanged (sy_etcd X) (c_meta c) (w_kv w) (ob_Key b)
         ((ob_Manifest b)\<lparr>m_Nodes := want_nodes c (ob_Key b) (ob_Manifest b)\<rparr>) (ob_Revision b) = (s', r)"
      "rb_Failed st' = rb_Failed st" "r = None \<longrightarrow> e = None \<and> rb_Raced st' = rb_Raced st"
      "r \<noteq> None \<longrightarrow> rb_Raced st' = rb_Raced st + 1 \<or> e \<noteq> None \<and> rb_Raced st' = rb_Raced st"
proof -
  let ?m = "ob_Manifest b" and ?want = "want_nodes c (ob_Key b) (ob_Manifest b)"
  show thesis
  proof (cases "\<not> responsible c (ob_Key b) \<or> length ?want < length (m_Nodes ?m) \<or> ?want = m_Nodes ?m")
    case True
    then show thesis using assms stay by (auto simp: rebalanceObject_def Let_def split: if_splits)
  next
    case False
    obtain D' made bytes errs where a: "copyToNewOwners X c (c_live c) ?m ?want (w_disks w) = (D', made, bytes, errs)"
      by (metis prod_cases4)
    obtain s' r where ci: "CommitIfUnchanged (sy_etcd X) (c_meta c) (w_kv w) (ob_Key b) (?m\<lparr>m_Nodes := ?want\<rparr>) (ob_Revision b) = (s', r)"
      by fastforce
    show thesis
    proof (cases "errs = []")
      case True
      then show thesis using assms False a ci commit[OF a _ _ _ ci]
        by (cases r) (auto simp: rebalanceObject_def Let_def Join_errors_def split: if_splits)
    next
      case nil: False
      then show thesis using assms False a failed[OF a]
        by (auto simp: rebalanceObject_def Let_def Join_errors_def)
    qed
  qed
qed

lemma rebalanceObject_step:
  assumes "etcd_client (sy_etcd X) view" "addresses_right X c (c_live c)" "valid_object c v0 b"
    and "rebalanceObject X c b (w, st) = ((w', st'), e)"
  shows "rebalance_rel c view v0 (w, st) (w', st')"
    and "other_objects (c_meta c) {ob_Key b} (view (w_kv w)) (view (w_kv w'))"
    and "e = None \<Longrightarrow> rb_Failed st' + rb_Raced st' = rb_Failed st + rb_Raced st \<Longrightarrow> rebalance_goal c view v0 b (w', st')"
proof -
  let ?M = "c_meta c" and ?m = "ob_Manifest b" and ?want = "want_nodes c (ob_Key b) (ob_Manifest b)"
  have com: "committed ?M v0 (ob_Key b) = Some ?m" using assms(3) by (simp add: valid_object_def)
  have "rebalance_rel c view v0 (w, st) (w', st') \<and> other_objects ?M {ob_Key b} (view (w_kv w)) (view (w_kv w')) \<and>
    (e = None \<longrightarrow> rb_Failed st' + rb_Raced st' = rb_Failed st + rb_Raced st \<longrightarrow> rebalance_goal c view v0 b (w', st'))"
    using assms(4)
  proof (cases rule: rebalanceObject_cases)
    case stay
    then show ?thesis by (auto simp: rebalance_rel_def rebalance_goal_def Let_def)
  next
    case (failed a)
    from patched_vouched[OF copyToNewOwners_done(1)[OF assms(2) failed(1)] com] show ?thesis
      using failed by (auto simp: rebalance_rel_def)
  next
    case (commit a s' r)
    note p = copyToNewOwners_done[OF assms(2) commit(1)]
    have v: "vouched ?M v0 (w_disks w) (w_disks w')" using patched_vouched[OF p(1) com] commit(3) by simp
    have furnished: "\<forall>nx \<in> needed ?m ?want. backed ?M v0 (w_disks w') nx"
      using p(2)[OF commit(2)] com commit(3) by (auto simp: backed_def)
    have put: "view s' = view (w_kv w) \<and> r \<noteq> None \<or>
        view s' = kv_put (view (w_kv w)) (meta_key ?M (ob_Key b)) (SManifest (?m\<lparr>m_Nodes := ?want\<rparr>))"
      by (rule etcd_client.CommitIfUnchanged_put[OF assms(1) commit(5)])
    then have others: "other_objects ?M {ob_Key b} (view (w_kv w)) (view s')" using put_others by auto
    have "relocated c v0 (w_disks w') (view (w_kv w)) (view s') k" for k
    proof (cases "k = ob_Key b")
      case True
      then show ?thesis using put com commit(4) furnished committed_put_here unfolding relocated_def by metis
    next
      case False
      then show ?thesis using others by (simp add: relocated_def other_objects_def)
    qed
    moreover have "committed ?M (view s') (ob_Key b) = Some (?m\<lparr>m_Nodes := ?want\<rparr>)" if "r = None"
      using put that committed_put_here by auto
    ultimately show ?thesis using v others commit(3,6,7,8)
      by (auto simp: rebalance_rel_def rebalance_goal_def Let_def)
  qed
  then show "rebalance_rel c view v0 (w, st) (w', st')"
    "other_objects (c_meta c) {ob_Key b} (view (w_kv w)) (view (w_kv w'))"
    "e = None \<Longrightarrow> rb_Failed st' + rb_Raced st' = rb_Failed st + rb_Raced st \<Longrightarrow> rebalance_goal c view v0 b (w', st')"
    by blast+
qed

lemma rebalance_visit_step:
  assumes "etcd_client (sy_etcd X) view" "addresses_right X c (c_live c)" "valid_object c v0 b"
  shows "rebalance_rel c view v0 a (fst (rebalance_visit X c b a))"
    and "rb_Failed (snd (fst (rebalance_visit X c b a))) + rb_Raced (snd (fst (rebalance_visit X c b a))) =
      rb_Failed (snd a) + rb_Raced (snd a) \<Longrightarrow> rebalance_goal c view v0 b (fst (rebalance_visit X c b a))"
proof -
  obtain w st where a: "a = (w, st)" by (cases a)
  obtain w' st' e where r: "rebalanceObject X c b (w, st) = ((w', st'), e)" by (metis surj_pair)
  note s = rebalanceObject_step[OF assms r]
  show "rebalance_rel c view v0 a (fst (rebalance_visit X c b a))"
    using s(1) r by (cases e) (auto simp: a rebalance_visit_def rebalance_rel_def)
  show "rb_Failed (snd (fst (rebalance_visit X c b a))) + rb_Raced (snd (fst (rebalance_visit X c b a))) =
      rb_Failed (snd a) + rb_Raced (snd a) \<Longrightarrow> rebalance_goal c view v0 b (fst (rebalance_visit X c b a))"
    using s(1,3) r by (cases e) (auto simp: a rebalance_visit_def rebalance_rel_def)
qed

lemma rebalance_visit_others:
  assumes "etcd_client (sy_etcd X) view"
  shows "keeps_others (c_meta c) view (rebalance_visit X c)"
  unfolding keeps_others_def
proof (intro allI impI)
  fix b w acc w' acc' err
  assume "rebalance_visit X c b (w, acc) = ((w', acc'), err)"
  then obtain st' where r: "rebalanceObject X c b (w, acc) = ((w', st'), err)"
    by (auto simp: rebalance_visit_def split: prod.splits option.splits)
  then show "other_objects (c_meta c) {ob_Key b} (view (w_kv w)) (view (w_kv w'))"
  proof (cases rule: rebalanceObject_cases)
    case (commit a s' r)
    from etcd_client.CommitIfUnchanged_put[OF assms commit(5)] show ?thesis
      using commit(3) put_others by auto
  qed simp_all
qed

lemma rebalance_pass:
  assumes "etcd_client (sy_etcd X) view" "addresses_right X c (c_live c)"
  shows "healing_pass (c_meta c) view (rebalance_visit X c) (valid_object c v0) (rebalance_rel c view v0)
    (\<lambda>a. rb_Failed (snd a) + rb_Raced (snd a)) (rebalance_goal c view v0)"
proof (unfold_locales, goal_cases)
  case 1
  then show ?case by (rule rebalance_visit_others[OF assms(1)])
next
  case (2 a)
  then show ?case by (simp add: rebalance_rel_def)
next
  case (3 a b d)
  then show ?case by (rule rebalance_rel_trans)
next
  case (4 x a)
  then show ?case by (rule rebalance_visit_step[OF assms])
next
  case (5 w s acc)
  then show ?case by (auto simp: rebalance_rel_def relocated_def other_objects_def)
next
  case (6 a b)
  then show ?case by (simp add: rebalance_rel_def)
next
  case (7 x a)
  then show ?case by (rule rebalance_visit_step[OF assms])
next
  case (8 a b x)
  then show ?case by (rule rebalance_goal_stays)
qed

section \<open>Properties\<close>

text \<open>
  C15. Rebalancing never names a node that lacks the data and never shrinks an object's redundancy:
  however a pass ends, the manifest of every object is the one it began with, or that manifest on
  the owners the ring wants, at least as many as before, where every copy the new placement needs
  and the old one did not have is on its disk with bytes that match a committed manifest naming it.
  No copy that was there is lost: every chunk on every node is as it was or matches its manifest.
\<close>

theorem Rebalance_safe:
  assumes "etcd_client (sy_etcd X) view" and "addresses_right X c (c_live c)"
    and "kv_lookup (view (w_kv w)) (meta_key (c_meta c) '''') = None"
    and "cluster_Rebalance fuel X c w = Some (w', st, err)"
  shows "(\<forall>k. committed (c_meta c) (view (w_kv w')) k = committed (c_meta c) (view (w_kv w)) k \<or>
       (\<exists>m. committed (c_meta c) (view (w_kv w)) k = Some m \<and>
          committed (c_meta c) (view (w_kv w')) k = Some (m\<lparr>m_Nodes := want_nodes c k m\<rparr>) \<and>
          length (m_Nodes m) \<le> length (want_nodes c k m) \<and>
          (\<forall>nx \<in> needed m (want_nodes c k m). backed (c_meta c) (view (w_kv w)) (w_disks w') nx))) \<and>
     (\<forall>nd x. chunk_data (w_disks w' nd) x = chunk_data (w_disks w nd) x \<or>
        backed (c_meta c) (view (w_kv w)) (w_disks w') (nd, x))"
proof -
  have "walk fuel X c ''rebalance'' (rebalance_visit X c) (w, zero_rebalance) = Some ((w', st), err)"
    using assms(4) by (auto simp: cluster_Rebalance_def split: option.splits)
  from healing_pass.walk_done(1)[OF rebalance_pass[OF assms(1,2)] assms(1) refl assms(3) entries_valid_object this]
  have r: "rebalance_rel c view (view (w_kv w)) (w, zero_rebalance) (w', st)" .
  show ?thesis
  proof (intro conjI allI)
    fix k show "committed (c_meta c) (view (w_kv w')) k = committed (c_meta c) (view (w_kv w)) k \<or>
       (\<exists>m. committed (c_meta c) (view (w_kv w)) k = Some m \<and>
          committed (c_meta c) (view (w_kv w')) k = Some (m\<lparr>m_Nodes := want_nodes c k m\<rparr>) \<and>
          length (m_Nodes m) \<le> length (want_nodes c k m) \<and>
          (\<forall>nx \<in> needed m (want_nodes c k m). backed (c_meta c) (view (w_kv w)) (w_disks w') nx))"
      using r committed_cong unfolding rebalance_rel_def relocated_def by (metis fst_conv)
  qed (use r in \<open>simp add: rebalance_rel_def vouched_def backed_def\<close>)
qed

text \<open>
  C16. A rebalance pass from the start of the keyspace that returns no error and counts no failure and
  no race has placed every object it is responsible for: each names exactly the owners the ring
  wants, unless the ring has fewer nodes than the object already names.
\<close>

theorem Rebalance_complete:
  assumes "etcd_client (sy_etcd X) view" and "addresses_right X c (c_live c)"
    and "kv_lookup (view (w_kv w)) (meta_key (c_meta c) '''') = None"
    and "snd (Cursor (sy_etcd X) (c_meta c) (w_kv w) ''rebalance'' (c_self c)) = Inr ''''"
    and "cluster_Rebalance fuel X c w = Some (w', st, None)" and "rb_Failed st = 0" and "rb_Raced st = 0"
    and "committed (c_meta c) (view (w_kv w)) k = Some m" and "responsible c k"
  shows "length (want_nodes c k m) < length (m_Nodes m) \<or>
    committed (c_meta c) (view (w_kv w')) k = Some (m\<lparr>m_Nodes := want_nodes c k m\<rparr>)"
proof -
  have run: "walk fuel X c ''rebalance'' (rebalance_visit X c) (w, zero_rebalance) = Some ((w', st), None)"
    using assms(5) by (auto simp: cluster_Rebalance_def split: option.splits)
  note wd = healing_pass.walk_done[OF rebalance_pass[OF assms(1,2)] assms(1) refl assms(3) entries_valid_object run]
  obtain d b where b: "kv_lookup (view (w_kv w)) (meta_key (c_meta c) k) = Some d"
    "decode_obj (c_meta c) (meta_key (c_meta c) k, d) = Inr b" "ob_Manifest b = m" "ob_Key b = k"
    using committed_decode_obj[OF assms(8)] .
  have "rebalance_goal c view (view (w_kv w)) b (w', st)"
    using wd(2)[OF refl _ assms(4) b(1,2)] assms(6,7) by (simp add: zero_rebalance_def)
  moreover have "valid_object c (view (w_kv w)) b" using b assms(8) by (simp add: valid_object_def)
  moreover have "relocated c (view (w_kv w)) (w_disks w') (view (w_kv w)) (view (w_kv w')) k"
    using wd(1) by (simp add: rebalance_rel_def)
  ultimately show ?thesis using assms(8,9) b(3,4) committed_cong[of "view (w_kv w')" "c_meta c" k "view (w_kv w)"]
    unfolding rebalance_goal_def relocated_def Let_def by force
qed

section \<open>A node whose only peer has left\<close>

definition left_coord :: coord where
  "left_coord = SetMembers (SetMembers lone_coord [(''n2'', ''a2'')]) []"

lemma left_simps [simp]:
  "c_self left_coord = ''n1''" "c_meta left_coord = example_meta"
  "mb_peers (c_live left_coord) = [(''n1'', ''a1'')]"
  "mb_known (c_live left_coord) = [(''n1'', ''a1''), (''n2'', ''a2'')]"
  "mb_ring (c_live left_coord) = mb_ring (c_live lone_coord)"
  by (simp_all add: left_coord_def SetMembers_def Let_def)
    (simp_all add: lone_coord_def cluster_New_def SetMembers_def Let_def)

lemma left_responsible: "responsible left_coord k"
  using lone_owners[of 1 "PartitionFor k"] by (simp add: responsible_def)

lemma left_want: "want_nodes left_coord k m = [''n1'']"
  using lone_owners[of "redundancy m" "PartitionFor k"]
  by (simp add: want_nodes_def redundancy_def Replicas_def Valid_def Shards_def)

lemma left_addresses: "addresses_right example_sys left_coord (c_live left_coord)"
  by (auto simp: addresses_right_def addr_of_def example_sys_def example_env_def)

definition left_ref :: chunk_ref where
  "left_ref = \<lparr>cr_ID = ''AB000000'', cr_Size = 1, cr_CRC = CRC32C [1], cr_Shards = []\<rparr>"

definition left_manifest :: manifest where
  "left_manifest = zero_manifest\<lparr>m_Size := 1, m_Nodes := [''n2''], m_Chunks := [left_ref]\<rparr>"

definition left_kvs :: kvs where
  "left_kvs = \<lparr>kvs_Rev = 2, kvs_Keys = [(''kavo/objects/a'', \<lparr>kd_Value = SManifest left_manifest, kd_ModRev = 2\<rparr>)]\<rparr>"

definition left_world :: "kvs world" where
  "left_world = \<lparr>w_disks = (\<lambda>nd. if nd = ''n2'' then holding [(''AB000000'', [1])] else fresh_store), w_kv = left_kvs\<rparr>"

definition left_moved :: kvs where
  "left_moved = kv_put left_kvs ''kavo/objects/a'' (SManifest (left_manifest\<lparr>m_Nodes := [''n1'']\<rparr>))"

lemma left_scan:
  "ScanObjects mem_etcd example_meta left_kvs '''' '''' scanPage =
    (left_kvs, Inr [\<lparr>ob_Key = ''a'', ob_Manifest = left_manifest, ob_Revision = 2\<rparr>])"
  "ScanObjects mem_etcd example_meta (with_cursor ''rebalance'' ''a'' left_moved) '''' (After ''a'') scanPage =
    (with_cursor ''rebalance'' ''a'' left_moved, Inr [])"
  by code_simp+

lemma left_cursor: "Cursor mem_etcd example_meta left_kvs ''rebalance'' ''n1'' = (left_kvs, Inr '''')"
  by code_simp

lemma left_commit:
  "CommitIfUnchanged mem_etcd example_meta left_kvs ''a'' (left_manifest\<lparr>m_Nodes := [''n1'']\<rparr>) 2 = (left_moved, None)"
  by code_simp

lemma left_copy:
  "\<exists>D'. copyToNewOwners example_sys left_coord (c_live left_coord) left_manifest [''n1''] (w_disks left_world) = (D', 1, 1, [])"
proof -
  have id_ok: "validateID ''AB000000'' = None" by code_simp
  have f: "cluster_fetch example_sys left_coord (w_disks left_world) left_ref [''n2''] = Inr (bytes_NewReader [1])"
    by (simp add: cluster_fetch_def localFirst_def fetch_from_def Let_def readAddr_def addr_of_def FetchChunk_def getChunk_def
        ReadChunk_def Verify_def left_ref_def id_ok left_world_def example_sys_def example_env_def no_faults_def)
  have h: "healthy example_sys left_coord (c_live left_coord) ''n1''"
    by (auto simp: healthy_def Let_def example_sys_def example_env_def addr_of_def write_faults_def no_faults_def)
  obtain D' where "store_at example_sys left_coord (c_live left_coord) ''n1'' (w_disks left_world) ''AB000000''
      (bytes_NewReader [1]) (CRC32C [1]) 1 = (D', None)"
    using store_at_healthy[OF h id_ok, of "w_disks left_world" "[1]"]
    by (cases "store_at example_sys left_coord (c_live left_coord) ''n1'' (w_disks left_world) ''AB000000''
      (bytes_NewReader [1]) (CRC32C [1]) 1") simp
  then show ?thesis using f
    by (auto simp: copyToNewOwners_def left_manifest_def zero_manifest_def copy_one_def copyChunk_def)
      (simp_all add: left_ref_def)
qed

lemma left_run:
  "\<exists>w' st. cluster_Rebalance 3 example_sys left_coord left_world = Some (w', st, None) \<and> rb_Failed st = 0 \<and> rb_Raced st = 0"
proof -
  let ?b = "\<lparr>ob_Key = ''a'', ob_Manifest = left_manifest, ob_Revision = 2\<rparr>"
  have w: "w_kv left_world = left_kvs" "left_world\<lparr>w_kv := left_kvs\<rparr> = left_world" by (simp_all add: left_world_def)
  have e: "sy_etcd example_sys = mem_etcd" by (simp add: example_sys_def)
  obtain D' where D': "copyToNewOwners example_sys left_coord (c_live left_coord) left_manifest [''n1''] (w_disks left_world) = (D', 1, 1, [])"
    using left_copy by blast
  have "\<exists>st. rebalance_visit example_sys left_coord ?b (left_world, zero_rebalance) =
      ((left_world\<lparr>w_disks := D', w_kv := left_moved\<rparr>, st), None) \<and> rb_Failed st = 0 \<and> rb_Raced st = 0"
    using left_responsible[of "''a''"]
    by (simp add: rebalance_visit_def rebalanceObject_def Let_def left_want D' Join_errors_def e w left_commit zero_rebalance_def)
      (simp add: left_manifest_def zero_manifest_def)
  then show ?thesis
    by (auto simp: cluster_Rebalance_def walk_def numeral_3_eq_3 e w left_cursor left_scan SaveCursor_mem)
qed

lemma left_no_root: "kv_lookup (w_kv left_world) (meta_key (c_meta left_coord) '''') = None"
  by (simp add: left_world_def left_kvs_def kv_lookup_def meta_key_def objects_prefix_def join_def example_meta_def)

lemma left_committed: "committed (c_meta left_coord) (w_kv left_world) ''a'' = Some left_manifest"
  by (simp add: committed_def left_world_def left_kvs_def kv_lookup_def meta_key_def objects_prefix_def join_def example_meta_def)

theorem Rebalance_safe_witness:
  "\<exists>w' st m. cluster_Rebalance 3 example_sys left_coord left_world = Some (w', st, None) \<and>
    committed example_meta (w_kv w') ''a'' = Some m \<and> 1 \<le> length (m_Nodes m)"
proof -
  obtain w' st where r: "cluster_Rebalance 3 example_sys left_coord left_world = Some (w', st, None)"
    using left_run by blast
  have "committed example_meta (w_kv w') ''a'' = Some left_manifest \<or>
      committed example_meta (w_kv w') ''a'' = Some (left_manifest\<lparr>m_Nodes := [''n1'']\<rparr>)"
    using conjunct1[OF Rebalance_safe[OF example_etcd(1) left_addresses left_no_root r], rule_format, of "''a''"] left_committed
    by (auto simp: left_want)
  then show ?thesis using r by (auto simp: left_manifest_def)
qed

theorem Rebalance_complete_witness:
  "\<exists>w' st m. cluster_Rebalance 3 example_sys left_coord left_world = Some (w', st, None) \<and>
    committed example_meta (w_kv w') ''a'' = Some m \<and> m_Nodes m = [''n1'']"
proof -
  obtain w' st where r: "cluster_Rebalance 3 example_sys left_coord left_world = Some (w', st, None)"
    "rb_Failed st = 0" "rb_Raced st = 0" using left_run by blast
  have cur: "snd (Cursor (sy_etcd example_sys) (c_meta left_coord) (w_kv left_world) ''rebalance'' (c_self left_coord)) = Inr ''''"
    using left_cursor by (simp add: example_sys_def left_world_def)
  from Rebalance_complete[OF example_etcd(1) left_addresses left_no_root cur r left_committed left_responsible]
  show ?thesis using r(1) by (auto simp: left_want left_manifest_def)
qed

end
