(* ===== verification/Scrub.thy ===== *)
theory Scrub
  imports Rebalance
begin

text \<open>
  Replacing rotted copies, \<^verbatim>\<open>internal/cluster/scrub.go\<close>: every node re-reads its own copy of every
  chunk a manifest names and replaces those whose bytes no longer match, a replica from a peer and a
  shard by decoding.  The waits of the pacer are left out, as in \<open>Repair\<close>; the loop around
  passes is in \<open>Loops\<close>.
\<close>

section \<open>The pass\<close>

record scrub_stats =
  sb_CopiesRead :: int
  sb_BytesRead :: int
  sb_Rotted :: int
  sb_Rebuilt :: int
  sb_Unrecovered :: int

definition zero_scrub :: scrub_stats where
  "zero_scrub = \<lparr>sb_CopiesRead = 0, sb_BytesRead = 0, sb_Rotted = 0, sb_Rebuilt = 0, sb_Unrecovered = 0\<rparr>"

definition verifyLocal :: "'s sys \<Rightarrow> coord \<Rightarrow> disks \<Rightarrow> chunk_ref \<Rightarrow> error option" where
  "verifyLocal X c D ref =
     (case ReadChunk (ev_faults (sy_env X) (c_self c) (cr_ID ref)) (D (c_self c)) (cr_ID ref) (cr_CRC ref) of
        Inl e \<Rightarrow> Some e
      | Inr rc \<Rightarrow> rerr rc)"

text \<open>\<open>store_at\<close> at this node is a verified write to its own store.\<close>

fun rebuildFromPeers ::
  "'s sys \<Rightarrow> coord \<Rightarrow> membership \<Rightarrow> chunk_ref \<Rightarrow> string list \<Rightarrow> error list \<Rightarrow> disks \<Rightarrow> disks \<times> error option" where
  "rebuildFromPeers X c live ref [] errs D =
     (D, Some (if errs = [] then [Other ''no other node has ever held chunk'']
               else Other ''no peer could supply a good copy'' # concat errs))"
| "rebuildFromPeers X c live ref (nd # nds) errs D =
     (let addr = readAddr live nd in
      if nd = c_self c \<or> addr = '''' then rebuildFromPeers X c live ref nds errs D
      else case FetchChunk (sy_env X) D addr (cr_ID ref) (cr_CRC ref) of
             Inl e \<Rightarrow> rebuildFromPeers X c live ref nds (errs @ [e]) D
           | Inr src \<Rightarrow> (case store_at X c live (c_self c) D (cr_ID ref) src (cr_CRC ref) (cr_Size ref) of
               (D', None) \<Rightarrow> (D', None)
             | (D', Some e) \<Rightarrow> rebuildFromPeers X c live ref nds (errs @ [e]) D'))"

type_synonym scrubbed = "disks \<times> scrub_stats \<times> error list"

definition scrub_copy :: "'s sys \<Rightarrow> coord \<Rightarrow> membership \<Rightarrow> manifest \<Rightarrow> scrubbed \<Rightarrow> chunk_ref \<Rightarrow> scrubbed" where
  "scrub_copy X c live m a ref = (case a of (D, st, errs) \<Rightarrow>
     (case HasChunk (ev_faults (sy_env X) (c_self c) (cr_ID ref)) (D (c_self c)) (cr_ID ref) of
        Inl e \<Rightarrow> (D, st, errs @ [e])
      | Inr False \<Rightarrow> (D, st, errs)
      | Inr True \<Rightarrow>
          (let st1 = st\<lparr>sb_CopiesRead := sb_CopiesRead st + 1, sb_BytesRead := sb_BytesRead st + cr_Size ref\<rparr>;
               st2 = st1\<lparr>sb_Rotted := sb_Rotted st1 + 1\<rparr> in
           case verifyLocal X c D ref of
             None \<Rightarrow> (D, st1, errs)
           | Some e \<Rightarrow>
               if \<not> errors_Is e ErrChecksumMismatch then (D, st1, errs @ [e])
               else (case rebuildFromPeers X c live ref (m_Nodes m) [] D of
                   (D', Some e) \<Rightarrow> (D', st2\<lparr>sb_Unrecovered := sb_Unrecovered st2 + 1\<rparr>, errs @ [Other ''scrub'' # e])
                 | (D', None) \<Rightarrow> (D', st2\<lparr>sb_Rebuilt := sb_Rebuilt st2 + 1\<rparr>, errs)))))"

definition check_shard ::
  "'s sys \<Rightarrow> coord \<Rightarrow> disks \<Rightarrow> chunk_ref \<Rightarrow> scrub_stats \<times> error list \<times> nat list \<Rightarrow> nat \<Rightarrow> scrub_stats \<times> error list \<times> nat list" where
  "check_shard X c D ref a i = (case a of (st, errs, rotted) \<Rightarrow>
     (case verifyLocalShard X c D ref i of (held, n, err) \<Rightarrow>
        if \<not> held then (st, (case err of None \<Rightarrow> errs | Some e \<Rightarrow> errs @ [e]), rotted)
        else let st1 = st\<lparr>sb_CopiesRead := sb_CopiesRead st + 1, sb_BytesRead := sb_BytesRead st + n\<rparr> in
             case err of
               None \<Rightarrow> (st1, errs, rotted)
             | Some e \<Rightarrow>
                 if errors_Is e ErrChecksumMismatch then (st1\<lparr>sb_Rotted := sb_Rotted st1 + 1\<rparr>, errs, rotted @ [i])
                 else (st1, errs @ [e], rotted)))"

definition scrub_chunk :: "'s sys \<Rightarrow> coord \<Rightarrow> membership \<Rightarrow> manifest \<Rightarrow> scrubbed \<Rightarrow> chunk_ref \<Rightarrow> scrubbed" where
  "scrub_chunk X c live m a ref = (case a of (D, st, errs) \<Rightarrow>
     (case foldl (check_shard X c D ref) (st, errs, [])
             (filter (\<lambda>i. m_Nodes m ! i = c_self c) [0..<length (m_Nodes m)]) of
        (st1, errs1, rotted) \<Rightarrow>
          if rotted = [] then (D, st1, errs1)
          else (case restoreShards X c live ref (m_Nodes m) (m_Nodes m) rotted (m_Coding m) D of
              (D', Some e) \<Rightarrow> (D', st1\<lparr>sb_Unrecovered := sb_Unrecovered st1 + int (length rotted)\<rparr>, errs1 @ [Other ''scrub'' # e])
            | (D', None) \<Rightarrow> (D', st1\<lparr>sb_Rebuilt := sb_Rebuilt st1 + int (length rotted)\<rparr>, errs1))))"

definition scrubShards :: "'s sys \<Rightarrow> coord \<Rightarrow> membership \<Rightarrow> manifest \<Rightarrow> disks \<times> scrub_stats \<Rightarrow> scrubbed" where
  "scrubShards X c live m a = (case a of (D, st) \<Rightarrow> foldl (scrub_chunk X c live m) (D, st, []) (m_Chunks m))"

definition scrub_disks :: "'s sys \<Rightarrow> coord \<Rightarrow> manifest \<Rightarrow> disks \<times> scrub_stats \<Rightarrow> scrubbed" where
  "scrub_disks X c m a = (case a of (D, st) \<Rightarrow>
     if m_Coding m \<noteq> zero_scheme then scrubShards X c (c_live c) m (D, st)
     else foldl (scrub_copy X c (c_live c) m) (D, st, []) (m_Chunks m))"

definition scrubObject :: "'s sys \<Rightarrow> coord \<Rightarrow> ('s, scrub_stats) visit" where
  "scrubObject X c b a = (case a of (w, st) \<Rightarrow>
     (case scrub_disks X c (ob_Manifest b) (w_disks w, st) of
        (D', st', errs) \<Rightarrow> ((w\<lparr>w_disks := D'\<rparr>, st'), Join_errors errs)))"

definition cluster_Scrub ::
  "nat \<Rightarrow> 's sys \<Rightarrow> coord \<Rightarrow> 's world \<Rightarrow> ('s world \<times> scrub_stats \<times> error option) option" where
  "cluster_Scrub fuel X c w = (case walk fuel X c ''scrub'' (scrubObject X c) (w, zero_scrub) of
      None \<Rightarrow> None
    | Some ((w', st), Some e) \<Rightarrow> Some (w', st, Some e)
    | Some ((w', st), None) \<Rightarrow>
        Some (w', st, if sb_Unrecovered st > 0 then Some [ErrRotUnrecovered] else None))"

section \<open>What a scrub does to the disks\<close>

text \<open>Bytes that are what the manifest's checksum says, the size apart: scrubbing reads no size.\<close>

definition intact :: "manifest \<Rightarrow> string \<Rightarrow> bytes option \<Rightarrow> bool" where
  "intact m x v \<longleftrightarrow> (\<exists>ref \<in> set (m_Chunks m). \<exists>b. v = Some b \<and>
     (if m_Coding m = zero_scheme then x = cr_ID ref \<and> CRC32C b = cr_CRC ref
      else \<exists>i. x = ShardID ref i \<and> CRC32C b = cr_Shards ref ! i))"

lemma sound_intact: "sound m x v \<Longrightarrow> intact m x v"
  by (auto simp: sound_def intact_def good_iff split: if_splits)

lemma patched_intact: "patched m D D' \<Longrightarrow> intact m x (chunk_data (D nd) x) \<Longrightarrow> intact m x (chunk_data (D' nd) x)"
  unfolding patched_def using sound_intact by metis

text \<open>A change to this node's disk only, that the manifest vouches for.\<close>

definition local_patch :: "coord \<Rightarrow> manifest \<Rightarrow> disks \<Rightarrow> disks \<Rightarrow> bool" where
  "local_patch c m D D' \<longleftrightarrow> patched m D D' \<and> (\<forall>nd. nd \<noteq> c_self c \<longrightarrow> D' nd = D nd)"

lemma local_patch_refl [simp]: "local_patch c m D D"
  by (simp add: local_patch_def)

lemma local_patch_trans: "local_patch c m D D' \<Longrightarrow> local_patch c m D' D'' \<Longrightarrow> local_patch c m D D''"
  unfolding local_patch_def using patched_trans by metis

lemma store_at_local:
  assumes "addresses_right X c live" "store_at X c live (c_self c) D x r crc n = (D', res)"
    and "\<And>v. good v crc n \<Longrightarrow> sound m x v"
  shows "local_patch c m D D'" and "res = None \<Longrightarrow> sound m x (chunk_data (D' (c_self c)) x)"
proof -
  have "D' nd = D nd" if "nd \<noteq> c_self c" for nd
    using assms(2) that by (auto simp: store_at_def Let_def split: prod.splits)
  then show "local_patch c m D D'" unfolding local_patch_def using store_at_patched(1)[OF assms] by blast
  show "res = None \<Longrightarrow> sound m x (chunk_data (D' (c_self c)) x)" using store_at_patched(2)[OF assms] by blast
qed

lemma rebuildFromPeers_patch:
  assumes "addresses_right X c live" "ref \<in> set (m_Chunks m)" "m_Coding m = zero_scheme"
  shows "rebuildFromPeers X c live ref nds errs D = (D', res) \<Longrightarrow>
    local_patch c m D D' \<and> (res = None \<longrightarrow> sound m (cr_ID ref) (chunk_data (D' (c_self c)) (cr_ID ref)))"
proof (induction nds arbitrary: errs D)
  case (Cons nd nds)
  have s: "good v (cr_CRC ref) (cr_Size ref) \<Longrightarrow> sound m (cr_ID ref) v" for v
    using assms(2,3) by (auto simp: sound_def)
  show ?case
  proof (cases "nd = c_self c \<or> readAddr live nd = ''''")
    case True
    then have "rebuildFromPeers X c live ref nds errs D = (D', res)" using Cons.prems by (simp add: Let_def)
    then show ?thesis by (rule Cons.IH)
  next
    case False
    show ?thesis
    proof (cases "FetchChunk (sy_env X) D (readAddr live nd) (cr_ID ref) (cr_CRC ref)")
      case (Inl e)
      then show ?thesis using Cons False by (auto simp: Let_def)
    next
      case (Inr src)
      obtain D1 r where st: "store_at X c live (c_self c) D (cr_ID ref) src (cr_CRC ref) (cr_Size ref) = (D1, r)" by fastforce
      note p = store_at_local[OF assms(1) st s]
      show ?thesis
      proof (cases r)
        case None
        then show ?thesis using Cons.prems False Inr st p by (auto simp: Let_def)
      next
        case (Some e)
        then have "rebuildFromPeers X c live ref nds (errs @ [e]) D1 = (D', res)"
          using Cons.prems False Inr st by (simp add: Let_def)
        from Cons.IH[OF this] show ?thesis using local_patch_trans[OF p(1)] by blast
      qed
    qed
  qed
qed auto

lemma store_shards_local:
  "store_each (storeShard X c live ref) js D = (D', errs) \<Longrightarrow> \<forall>(i, ow, b) \<in> set js. ow = c_self c \<Longrightarrow>
    nd \<noteq> c_self c \<Longrightarrow> D' nd = D nd"
proof (induction js arbitrary: D errs)
  case (Cons j js)
  obtain i b where j: "j = (i, c_self c, b)" using Cons.prems(2) by auto
  obtain D1 e where f: "storeShard X c live ref j D = (D1, e)" by fastforce
  then have "D1 nd = D nd"
    using Cons.prems(3) j by (auto simp: storeShard_def store_at_def Let_def split: prod.splits)
  moreover obtain errs' where "store_each (storeShard X c live ref) js D1 = (D', errs')"
    using Cons.prems(1) f by (auto split: prod.splits)
  ultimately show ?case using Cons.IH Cons.prems(2,3) by auto
qed simp

lemma restoreShards_local:
  assumes "addresses_right X c live" "restoreShards X c live ref frm dest missing s D = (D', res)"
    and "ref \<in> set (m_Chunks m)" "m_Coding m \<noteq> zero_scheme" "\<forall>i \<in> set missing. dest ! i = c_self c"
  shows "local_patch c m D D'"
proof -
  have "D' nd = D nd" if nd: "nd \<noteq> c_self c" for nd
  proof (cases "Reconstruct (sy_rs X) s (gather X c D ref frm s 0 (nat (Shards s)) (replicate (nat (Shards s)) None)) (cr_Size ref)")
    case (Inl e)
    then show ?thesis using assms(2) by (auto simp: restoreShards_def)
  next
    case (Inr cf)
    obtain chunk full where cf: "cf = (chunk, full)" by (cases cf)
    let ?js = "map (\<lambda>i. (i, dest ! i, (case full ! i of None \<Rightarrow> [] | Some b \<Rightarrow> b))) missing"
    obtain errs where r: "store_each (storeShard X c live ref) ?js D = (D', errs)"
      using assms(2) Inr cf by (auto simp: restoreShards_def split: prod.splits)
    show ?thesis by (rule store_shards_local[OF r _ nd]) (use assms(5) in auto)
  qed
  then show ?thesis unfolding local_patch_def using restoreShards_patched(1)[OF assms(1-4)] by blast
qed

section \<open>What one object gets\<close>

text \<open>No stat and no open of this node's store fails during the pass.\<close>

definition readable_disk :: "'s sys \<Rightarrow> coord \<Rightarrow> bool" where
  "readable_disk X c \<longleftrightarrow> (\<forall>x. \<not> fl_stat (ev_faults (sy_env X) (c_self c) x) \<and> \<not> fl_open (ev_faults (sy_env X) (c_self c) x))"

definition scrubs :: "coord \<Rightarrow> manifest \<Rightarrow> scrubbed \<Rightarrow> scrubbed \<Rightarrow> bool" where
  "scrubs c m a a' \<longleftrightarrow> local_patch c m (fst a) (fst a') \<and> sb_Unrecovered (fst (snd a)) \<le> sb_Unrecovered (fst (snd a'))"

lemma scrubs_refl: "scrubs c m a a" by (simp add: scrubs_def)

lemma scrubs_trans: "scrubs c m a b \<Longrightarrow> scrubs c m b d \<Longrightarrow> scrubs c m a d"
  unfolding scrubs_def using local_patch_trans by fastforce

text \<open>The ids under which this node keeps its copies of one chunk.\<close>

definition own_ids :: "coord \<Rightarrow> manifest \<Rightarrow> chunk_ref \<Rightarrow> string set" where
  "own_ids c m ref = (if m_Coding m = zero_scheme then {cr_ID ref}
     else {ShardID ref i | i. i < length (m_Nodes m) \<and> m_Nodes m ! i = c_self c})"

definition clean :: "coord \<Rightarrow> manifest \<Rightarrow> chunk_ref \<Rightarrow> disks \<Rightarrow> bool" where
  "clean c m ref D \<longleftrightarrow> (\<forall>x \<in> own_ids c m ref. validateID x = None \<longrightarrow> chunk_data (D (c_self c)) x \<noteq> None \<longrightarrow>
     intact m x (chunk_data (D (c_self c)) x))"

lemma scrub_copy_step:
  assumes "addresses_right X c live" "ref \<in> set (m_Chunks m)" "m_Coding m = zero_scheme"
  shows "scrubs c m a (scrub_copy X c live m a ref)"
    and "readable_disk X c \<Longrightarrow> sb_Unrecovered (fst (snd (scrub_copy X c live m a ref))) = sb_Unrecovered (fst (snd a)) \<Longrightarrow>
      clean c m ref (fst (scrub_copy X c live m a ref))"
proof -
  obtain D st errs where a: "a = (D, st, errs)" by (metis prod_cases3)
  obtain D' res where r: "rebuildFromPeers X c live ref (m_Nodes m) [] D = (D', res)" by fastforce
  note p = rebuildFromPeers_patch[OF assms r]
  let ?F = "ev_faults (sy_env X) (c_self c) (cr_ID ref)" and ?b = "scrub_copy X c live m a ref"
  have "scrubs c m a ?b \<and> (readable_disk X c \<longrightarrow> sb_Unrecovered (fst (snd ?b)) = sb_Unrecovered (fst (snd a)) \<longrightarrow> clean c m ref (fst ?b))"
  proof (cases "HasChunk ?F (D (c_self c)) (cr_ID ref)")
    case (Inl e)
    then show ?thesis using assms(3)
      by (auto simp: a scrub_copy_def scrubs_refl scrubs_def clean_def own_ids_def HasChunk_def readable_disk_def split: option.splits if_splits)
  next
    case (Inr h)
    show ?thesis
    proof (cases h)
      case False
      then show ?thesis using Inr assms(3)
        by (auto simp: a scrub_copy_def scrubs_def clean_def own_ids_def HasChunk_def chunk_data_def split: option.splits if_splits)
    next
      case True
      show ?thesis
      proof (cases "verifyLocal X c D ref")
        case None
        then show ?thesis using Inr True assms(2,3)
          by (auto simp: a scrub_copy_def scrubs_def clean_def own_ids_def verifyLocal_def ReadChunk_def Verify_def intact_def Let_def
              split: option.splits if_splits sum.splits)
      next
        case (Some e)
        show ?thesis
        proof (cases "errors_Is e ErrChecksumMismatch")
          case True
          then show ?thesis using Inr \<open>h\<close> Some p r assms(3) sound_intact
            by (cases res) (auto simp: a scrub_copy_def scrubs_def clean_def own_ids_def Let_def)
        next
          case False
          then have "\<not> readable_disk X c"
            using Some Inr \<open>h\<close> by (auto simp: verifyLocal_def ReadChunk_def Verify_def HasChunk_def chunk_data_def readable_disk_def
                errors_Is_def split: option.splits if_splits sum.splits)
          then show ?thesis using Inr \<open>h\<close> Some False by (auto simp: a scrub_copy_def scrubs_def Let_def)
        qed
      qed
    qed
  qed
  then show "scrubs c m a ?b" "readable_disk X c \<Longrightarrow> sb_Unrecovered (fst (snd ?b)) = sb_Unrecovered (fst (snd a)) \<Longrightarrow>
      clean c m ref (fst ?b)" by blast+
qed

definition shard_clean :: "coord \<Rightarrow> disks \<Rightarrow> chunk_ref \<Rightarrow> nat \<Rightarrow> bool" where
  "shard_clean c D ref i \<longleftrightarrow> validateID (ShardID ref i) = None \<longrightarrow>
     (\<forall>b. chunk_data (D (c_self c)) (ShardID ref i) = Some b \<longrightarrow> CRC32C b = cr_Shards ref ! i)"

lemma check_shard_step:
  assumes "check_shard X c D ref (st, errs, rotted) i = (st', errs', rotted')"
  shows "sb_Unrecovered st' = sb_Unrecovered st" "rotted' = rotted \<or> rotted' = rotted @ [i]"
    "readable_disk X c \<Longrightarrow> i \<in> set rotted' \<or> shard_clean c D ref i"
proof -
  have run: "(st', errs', rotted') = check_shard X c D ref (st, errs, rotted) i" using assms by simp
  let ?F = "ev_faults (sy_env X) (c_self c) (ShardID ref i)" and ?s = "D (c_self c)"
  have "sb_Unrecovered st' = sb_Unrecovered st \<and> (rotted' = rotted \<or> rotted' = rotted @ [i]) \<and>
    (readable_disk X c \<longrightarrow> i \<in> set rotted' \<or> shard_clean c D ref i)"
  proof (cases "HasChunk ?F ?s (ShardID ref i)")
    case (Inl e)
    then show ?thesis using run
      by (auto simp: check_shard_def verifyLocalShard_def Let_def HasChunk_def readable_disk_def shard_clean_def split: option.splits if_splits)
  next
    case (Inr h)
    show ?thesis
    proof (cases h)
      case False
      then show ?thesis using run Inr
        by (auto simp: check_shard_def verifyLocalShard_def Let_def HasChunk_def shard_clean_def chunk_data_def split: option.splits if_splits)
    next
      case True
      have h: "HasChunk ?F ?s (ShardID ref i) = Inr True" using Inr True by simp
      obtain b where b: "chunk_data ?s (ShardID ref i) = Some b" "validateID (ShardID ref i) = None"
        using h by (auto simp: HasChunk_def chunk_data_def split: option.splits if_splits)
      show ?thesis
        by (cases "fl_open ?F"; cases "CRC32C b = cr_Shards ref ! i")
          (use run h b in \<open>auto simp: check_shard_def verifyLocalShard_def Let_def ReadChunk_def Verify_def shard_clean_def
            readable_disk_def errors_Is_def\<close>)
    qed
  qed
  then show "sb_Unrecovered st' = sb_Unrecovered st" "rotted' = rotted \<or> rotted' = rotted @ [i]"
    "readable_disk X c \<Longrightarrow> i \<in> set rotted' \<or> shard_clean c D ref i" by blast+
qed

lemma check_shards:
  "foldl (check_shard X c D ref) (st, errs, rotted) js = (st', errs', rotted') \<Longrightarrow>
    sb_Unrecovered st' = sb_Unrecovered st \<and> set rotted \<subseteq> set rotted' \<and> set rotted' \<subseteq> set rotted \<union> set js \<and>
    (readable_disk X c \<longrightarrow> (\<forall>i \<in> set js. i \<in> set rotted' \<or> shard_clean c D ref i))"
proof (induction js arbitrary: st errs rotted)
  case (Cons j js)
  obtain st1 errs1 rotted1 where s: "check_shard X c D ref (st, errs, rotted) j = (st1, errs1, rotted1)"
    by (metis prod_cases3)
  with Cons.prems have "foldl (check_shard X c D ref) (st1, errs1, rotted1) js = (st', errs', rotted')" by simp
  from Cons.IH[OF this] check_shard_step[OF s] show ?case by auto
qed simp

lemma scrub_chunk_step:
  assumes "addresses_right X c live" "ref \<in> set (m_Chunks m)" "m_Coding m \<noteq> zero_scheme"
  shows "scrubs c m a (scrub_chunk X c live m a ref)"
    and "readable_disk X c \<Longrightarrow> sb_Unrecovered (fst (snd (scrub_chunk X c live m a ref))) = sb_Unrecovered (fst (snd a)) \<Longrightarrow>
      clean c m ref (fst (scrub_chunk X c live m a ref))"
proof -
  obtain D st errs where a: "a = (D, st, errs)" by (metis prod_cases3)
  let ?js = "filter (\<lambda>i. m_Nodes m ! i = c_self c) [0..<length (m_Nodes m)]" and ?b = "scrub_chunk X c live m a ref"
  obtain st1 errs1 rotted where ch: "foldl (check_shard X c D ref) (st, errs, []) ?js = (st1, errs1, rotted)"
    by (metis prod_cases3)
  note k = check_shards[OF ch]
  obtain D' res where r: "restoreShards X c live ref (m_Nodes m) (m_Nodes m) rotted (m_Coding m) D = (D', res)" by fastforce
  have own: "\<forall>i \<in> set rotted. m_Nodes m ! i = c_self c" using k by auto
  note loc = restoreShards_local[OF assms(1) r assms(2,3) own]
  have rebuilt: "res = None \<Longrightarrow> i \<in> set rotted \<Longrightarrow> sound m (ShardID ref i) (chunk_data (D' (c_self c)) (ShardID ref i))" for i
    using restoreShards_patched(2)[OF assms(1) r assms(2,3), of i] own by simp
  have intact: "shard_clean c D ref i \<Longrightarrow> validateID (ShardID ref i) = None \<Longrightarrow> chunk_data (D (c_self c)) (ShardID ref i) \<noteq> None \<Longrightarrow>
      intact m (ShardID ref i) (chunk_data (D (c_self c)) (ShardID ref i))" for i
    using assms(2,3) by (auto simp: shard_clean_def intact_def)
  have present: "clean c m ref D''" if "local_patch c m D D''" "readable_disk X c"
      "\<And>i. i \<in> set rotted \<Longrightarrow> sound m (ShardID ref i) (chunk_data (D'' (c_self c)) (ShardID ref i))" for D''
    unfolding clean_def
  proof (intro ballI impI)
    fix x assume x: "x \<in> own_ids c m ref" "validateID x = None" "chunk_data (D'' (c_self c)) x \<noteq> None"
    then obtain i where i: "x = ShardID ref i" "i \<in> set ?js" using assms(3) by (auto simp: own_ids_def)
    show "intact m x (chunk_data (D'' (c_self c)) x)"
    proof (cases "i \<in> set rotted")
      case True
      then show ?thesis using that(3) i sound_intact by simp
    next
      case False
      then have "shard_clean c D ref i" using k that(2) i(2) by blast
      then show ?thesis using intact x i(1) that(1) sound_intact unfolding local_patch_def patched_def by metis
    qed
  qed
  have "scrubs c m a ?b \<and> (readable_disk X c \<longrightarrow> sb_Unrecovered (fst (snd ?b)) = sb_Unrecovered (fst (snd a)) \<longrightarrow> clean c m ref (fst ?b))"
  proof (cases "rotted = []")
    case True
    then show ?thesis using ch k present[of D] by (simp add: a scrub_chunk_def scrubs_def)
  next
    case False
    show ?thesis
    proof (cases res)
      case None
      then show ?thesis using False ch k r loc present[OF loc _ rebuilt[OF None]]
        by (simp add: a scrub_chunk_def scrubs_def)
    next
      case (Some e)
      then show ?thesis using False ch k r loc by (auto simp: a scrub_chunk_def scrubs_def)
    qed
  qed
  then show "scrubs c m a ?b" "readable_disk X c \<Longrightarrow> sb_Unrecovered (fst (snd ?b)) = sb_Unrecovered (fst (snd a)) \<Longrightarrow>
      clean c m ref (fst ?b)" by blast+
qed

lemma clean_patch: "local_patch c m D D' \<Longrightarrow> clean c m ref D \<Longrightarrow> clean c m ref D'"
  unfolding clean_def local_patch_def patched_def using sound_intact by metis

lemma scrub_disks_done:
  assumes "addresses_right X c (c_live c)" "scrub_disks X c m (D, st) = a'"
  shows "scrubs c m (D, st, []) a'"
    and "readable_disk X c \<Longrightarrow> sb_Unrecovered (fst (snd a')) = sb_Unrecovered st \<Longrightarrow> ref \<in> set (m_Chunks m) \<Longrightarrow> clean c m ref (fst a')"
proof -
  obtain f where f: "a' = foldl f (D, st, []) (m_Chunks m)"
    "\<And>a ref. ref \<in> set (m_Chunks m) \<Longrightarrow> scrubs c m a (f a ref)"
    "\<And>a ref. ref \<in> set (m_Chunks m) \<Longrightarrow> readable_disk X c \<Longrightarrow>
      sb_Unrecovered (fst (snd (f a ref))) = sb_Unrecovered (fst (snd a)) \<Longrightarrow> clean c m ref (fst (f a ref))"
  proof (cases "m_Coding m = zero_scheme")
    case True
    with assms(2) show thesis
      using that[of "scrub_copy X c (c_live c) m"] scrub_copy_step[OF assms(1) _ True] by (simp add: scrub_disks_def)
  next
    case False
    with assms(2) show thesis
      using that[of "scrub_chunk X c (c_live c) m"] scrub_chunk_step[OF assms(1) _ False]
      by (simp add: scrub_disks_def scrubShards_def)
  qed
  show "scrubs c m (D, st, []) a'"
    unfolding f(1) by (rule foldl_rel) (use f(2) scrubs_refl scrubs_trans in blast)+
  show "clean c m ref (fst a')" if h: "readable_disk X c" "sb_Unrecovered (fst (snd a')) = sb_Unrecovered st" "ref \<in> set (m_Chunks m)"
    unfolding f(1)
  proof (rule foldl_done[of "scrubs c m" "m_Chunks m" f "\<lambda>a. sb_Unrecovered (fst (snd a))" "\<lambda>ref a. clean c m ref (fst a)"])
    show "scrubs c m a b \<Longrightarrow> clean c m x (fst a) \<Longrightarrow> clean c m x (fst b)" for a b x
      unfolding scrubs_def using clean_patch by blast
  qed (use h f scrubs_refl scrubs_trans in \<open>auto simp: scrubs_def\<close>)
qed

section \<open>What a pass does\<close>

definition scrub_rel :: "'s sys \<Rightarrow> coord \<Rightarrow> kvs \<Rightarrow> 's world \<times> scrub_stats \<Rightarrow> 's world \<times> scrub_stats \<Rightarrow> bool" where
  "scrub_rel X c v a b \<longleftrightarrow> addresses_right X c (c_live c) \<longrightarrow>
     vouched (c_meta c) v (w_disks (fst a)) (w_disks (fst b)) \<and>
     (\<forall>nd. nd \<noteq> c_self c \<longrightarrow> w_disks (fst b) nd = w_disks (fst a) nd) \<and>
     sb_Unrecovered (snd a) \<le> sb_Unrecovered (snd b)"

definition scrub_fails :: "'s sys \<Rightarrow> coord \<Rightarrow> 's world \<times> scrub_stats \<Rightarrow> int" where
  "scrub_fails X c a = (if addresses_right X c (c_live c) then sb_Unrecovered (snd a) else 0)"

text \<open>What is held under an id a manifest names is what a committed manifest says of that id.\<close>

definition attested :: "meta \<Rightarrow> kvs \<Rightarrow> string \<Rightarrow> bytes option \<Rightarrow> bool" where
  "attested M v x d \<longleftrightarrow> d = None \<or> (\<exists>k m. committed M v k = Some m \<and> intact m x d)"

definition scrub_goal :: "'s sys \<Rightarrow> coord \<Rightarrow> kvs \<Rightarrow> obj \<Rightarrow> 's world \<times> scrub_stats \<Rightarrow> bool" where
  "scrub_goal X c v b a \<longleftrightarrow> addresses_right X c (c_live c) \<longrightarrow> readable_disk X c \<longrightarrow>
     (\<forall>ref \<in> set (m_Chunks (ob_Manifest b)). \<forall>x \<in> own_ids c (ob_Manifest b) ref. validateID x = None \<longrightarrow>
        attested (c_meta c) v x (chunk_data (w_disks (fst a) (c_self c)) x))"

lemma attested_vouched:
  "vouched M v D D' \<Longrightarrow> attested M v x (chunk_data (D nd) x) \<Longrightarrow> attested M v x (chunk_data (D' nd) x)"
  unfolding vouched_def attested_def using sound_intact by metis

lemma scrubObject_visit:
  assumes "valid_object c v b"
  shows "scrub_rel X c v a (fst (scrubObject X c b a))"
    and "scrub_fails X c (fst (scrubObject X c b a)) = scrub_fails X c a \<Longrightarrow> scrub_goal X c v b (fst (scrubObject X c b a))"
proof -
  obtain w st where a: "a = (w, st)" by (cases a)
  obtain D' st' errs where r: "scrub_disks X c (ob_Manifest b) (w_disks w, st) = (D', st', errs)" by (metis prod_cases3)
  have run: "fst (scrubObject X c b a) = (w\<lparr>w_disks := D'\<rparr>, st')" by (simp add: a scrubObject_def r)
  have com: "committed (c_meta c) v (ob_Key b) = Some (ob_Manifest b)" using assms by (simp add: valid_object_def)
  have "scrub_rel X c v a (w\<lparr>w_disks := D'\<rparr>, st') \<and>
    (scrub_fails X c (w\<lparr>w_disks := D'\<rparr>, st') = scrub_fails X c a \<longrightarrow> scrub_goal X c v b (w\<lparr>w_disks := D'\<rparr>, st'))"
  proof (cases "addresses_right X c (c_live c)")
    case True
    note d = scrub_disks_done[OF True r]
    have "scrub_rel X c v a (w\<lparr>w_disks := D'\<rparr>, st')"
      using d(1) patched_vouched[OF _ com] by (auto simp: a scrub_rel_def scrubs_def local_patch_def)
    moreover have "scrub_goal X c v b (w\<lparr>w_disks := D'\<rparr>, st')" if "sb_Unrecovered st' = sb_Unrecovered st"
    proof -
      have "readable_disk X c \<longrightarrow> (\<forall>ref \<in> set (m_Chunks (ob_Manifest b)). clean c (ob_Manifest b) ref D')"
        using d(2) that by simp
      then show ?thesis using com unfolding scrub_goal_def clean_def attested_def by (simp, metis option.exhaust)
    qed
    ultimately show ?thesis using True by (simp add: scrub_fails_def a)
  qed (simp add: scrub_rel_def scrub_goal_def)
  then show "scrub_rel X c v a (fst (scrubObject X c b a))"
    "scrub_fails X c (fst (scrubObject X c b a)) = scrub_fails X c a \<Longrightarrow> scrub_goal X c v b (fst (scrubObject X c b a))"
    unfolding run by blast+
qed

lemma scrub_others: "keeps_others M view (scrubObject X c)"
  by (auto simp: keeps_others_def scrubObject_def split: prod.splits)

interpretation scrub: healing_pass "c_meta c" view "scrubObject X c" "valid_object c v" "scrub_rel X c v"
  "scrub_fails X c" "scrub_goal X c v"
  for X :: "'s sys" and c v view
proof (unfold_locales, goal_cases)
  case 1
  then show ?case by (rule scrub_others)
next
  case (2 a)
  then show ?case by (simp add: scrub_rel_def)
next
  case (3 a b d)
  then show ?case unfolding scrub_rel_def using vouched_trans by fastforce
next
  case (4 x a)
  then show ?case by (rule scrubObject_visit)
next
  case (5 w s acc)
  then show ?case by (simp add: scrub_rel_def)
next
  case (6 a b)
  then show ?case by (simp add: scrub_rel_def scrub_fails_def)
next
  case (7 x a)
  then show ?case by (rule scrubObject_visit)
next
  case (8 a b x)
  then show ?case unfolding scrub_rel_def scrub_goal_def using attested_vouched by metis
qed

section \<open>Properties\<close>

text \<open>
  C17. Scrubbing touches only this node's disk and never makes it worse: however a pass ends, every
  other node's store is as it was, and every chunk of this node is as it was or has bytes that match
  a committed manifest that names it.
\<close>

theorem Scrub_safe:
  assumes "etcd_client (sy_etcd X) view" and "addresses_right X c (c_live c)"
    and "kv_lookup (view (w_kv w)) (meta_key (c_meta c) '''') = None"
    and "cluster_Scrub fuel X c w = Some (w', st, err)"
  shows "(\<forall>nd. nd \<noteq> c_self c \<longrightarrow> w_disks w' nd = w_disks w nd) \<and>
    (\<forall>x. chunk_data (w_disks w' (c_self c)) x = chunk_data (w_disks w (c_self c)) x \<or>
      (\<exists>k m. committed (c_meta c) (view (w_kv w)) k = Some m \<and> sound m x (chunk_data (w_disks w' (c_self c)) x)))"
proof -
  obtain e where "walk fuel X c ''scrub'' (scrubObject X c) (w, zero_scrub) = Some ((w', st), e)"
    using assms(4) by (auto simp: cluster_Scrub_def split: option.splits prod.splits)
  from scrub.walk_done(1)[OF assms(1) refl assms(3) entries_valid_object this]
  show ?thesis using assms(2) by (simp add: scrub_rel_def vouched_def)
qed


text \<open>
  C19. Repair, rebalancing and scrubbing end: a bound of one page more than there are keys in etcd is
  enough for each pass to give a result, whatever the disks, the network and etcd do, because every
  round takes at least one object off what is left, even though visits re-commit manifests.
\<close>

theorem Passes_terminate:
  assumes "etcd_client (sy_etcd X) view"
    and "kv_lookup (view (w_kv w)) (meta_key (c_meta c) '''') = None"
    and "length (kvs_Keys (view (w_kv w))) < fuel"
  shows "cluster_Repair fuel X c w \<noteq> None \<and> cluster_Rebalance fuel X c w \<noteq> None \<and> cluster_Scrub fuel X c w \<noteq> None"
proof -
  note ends = walk_ends[OF assms(1) _ assms(2,3)]
  have "keeps_others (c_meta c) view (repairObject X c)"
    by (auto simp: keeps_others_def repairObject_def split: prod.splits)
  from ends[OF this] ends[OF rebalance_visit_others[OF assms(1)]] ends[OF scrub_others]
  show ?thesis
    unfolding cluster_Repair_def cluster_Rebalance_def cluster_Scrub_def
    by (fastforce split: option.splits prod.splits)
qed

section \<open>A rotted copy and a good one\<close>

definition rot_manifest :: manifest where
  "rot_manifest = left_manifest\<lparr>m_Nodes := [''n1'', ''n2'']\<rparr>"

definition rot_kvs :: kvs where
  "rot_kvs = \<lparr>kvs_Rev = 2, kvs_Keys = [(''kavo/objects/a'', \<lparr>kd_Value = SManifest rot_manifest, kd_ModRev = 2\<rparr>)]\<rparr>"

definition rot_world :: "kvs world" where
  "rot_world = \<lparr>w_disks = (\<lambda>nd. holding [(''AB000000'', if nd = ''n1'' then [2] else [1])]), w_kv = rot_kvs\<rparr>"

lemma rot_scan:
  "ScanObjects mem_etcd example_meta rot_kvs '''' '''' scanPage =
    (rot_kvs, Inr [\<lparr>ob_Key = ''a'', ob_Manifest = rot_manifest, ob_Revision = 2\<rparr>])"
  "ScanObjects mem_etcd example_meta (with_cursor ''scrub'' ''a'' rot_kvs) '''' (After ''a'') scanPage =
    (with_cursor ''scrub'' ''a'' rot_kvs, Inr [])"
  by code_simp+

lemma rot_cursor: "Cursor mem_etcd example_meta rot_kvs ''scrub'' ''n1'' = (rot_kvs, Inr '''')"
  by code_simp

lemma rot_ids: "validateID ''AB000000'' = None" "CRC32C [2] \<noteq> CRC32C [1]"
  by code_simp+

lemma rot_rebuild:
  "\<exists>D'. rebuildFromPeers example_sys left_coord (c_live left_coord) left_ref [''n1'', ''n2''] [] (w_disks rot_world) = (D', None)"
proof -
  have f: "FetchChunk (sy_env example_sys) (w_disks rot_world) ''a2'' ''AB000000'' (CRC32C [1]) = Inr (bytes_NewReader [1])"
    by (simp add: FetchChunk_def getChunk_def ReadChunk_def Verify_def rot_ids rot_world_def example_sys_def example_env_def no_faults_def)
  have h: "healthy example_sys left_coord (c_live left_coord) ''n1''"
    by (auto simp: healthy_def Let_def example_sys_def example_env_def addr_of_def write_faults_def no_faults_def)
  obtain D' where "store_at example_sys left_coord (c_live left_coord) ''n1'' (w_disks rot_world) ''AB000000''
      (bytes_NewReader [1]) (CRC32C [1]) 1 = (D', None)"
    using store_at_healthy[OF h rot_ids(1), of "w_disks rot_world" "[1]"]
    by (cases "store_at example_sys left_coord (c_live left_coord) ''n1'' (w_disks rot_world) ''AB000000''
      (bytes_NewReader [1]) (CRC32C [1]) 1") simp
  then show ?thesis using f by (simp add: Let_def readAddr_def addr_of_def) (simp add: left_ref_def)
qed

lemma rot_run: "\<exists>w' st. cluster_Scrub 3 example_sys left_coord rot_world = Some (w', st, None)"
proof -
  let ?b = "\<lparr>ob_Key = ''a'', ob_Manifest = rot_manifest, ob_Revision = 2\<rparr>"
  have w: "w_kv rot_world = rot_kvs" "rot_world\<lparr>w_kv := rot_kvs\<rparr> = rot_world" by (simp_all add: rot_world_def)
  have e: "sy_etcd example_sys = mem_etcd" by (simp add: example_sys_def)
  obtain D' where D': "rebuildFromPeers example_sys left_coord (c_live left_coord) left_ref [''n1'', ''n2''] [] (w_disks rot_world) = (D', None)"
    using rot_rebuild by blast
  have "HasChunk no_faults (w_disks rot_world ''n1'') ''AB000000'' = Inr True"
    by (simp add: HasChunk_def rot_ids rot_world_def no_faults_def chunk_file_def holding_def)
  moreover have "verifyLocal example_sys left_coord (w_disks rot_world) left_ref = Some [ErrChecksumMismatch]"
    using rot_ids by (simp add: verifyLocal_def ReadChunk_def left_ref_def Verify_def rot_world_def example_sys_def example_env_def no_faults_def)
  ultimately have "\<exists>st. scrubObject example_sys left_coord ?b (rot_world, zero_scrub) = ((rot_world\<lparr>w_disks := D'\<rparr>, st), None) \<and> sb_Unrecovered st = 0"
    using D' by (simp add: scrubObject_def scrub_disks_def rot_manifest_def left_manifest_def zero_manifest_def scrub_copy_def
        Join_errors_def zero_scrub_def errors_Is_def Let_def example_sys_def[THEN arg_cong[where f = sy_env], simplified]
        left_ref_def[THEN arg_cong[where f = cr_ID], simplified] example_env_def[THEN arg_cong[where f = ev_faults], simplified])
  then show ?thesis
    by (auto simp: cluster_Scrub_def walk_def numeral_3_eq_3 e w rot_cursor rot_scan SaveCursor_mem)
qed

lemma rot_no_root: "kv_lookup (w_kv rot_world) (meta_key (c_meta left_coord) '''') = None"
  by (simp add: rot_world_def rot_kvs_def kv_lookup_def meta_key_def objects_prefix_def join_def example_meta_def)

lemma rot_committed: "committed example_meta (w_kv rot_world) k = Some m \<longleftrightarrow> k = ''a'' \<and> m = rot_manifest"
  by (auto simp: committed_def rot_world_def rot_kvs_def kv_lookup_def meta_key_def objects_prefix_def join_def example_meta_def)

theorem Scrub_safe_witness:
  "\<exists>w' st. cluster_Scrub 3 example_sys left_coord rot_world = Some (w', st, None) \<and> w_disks w' ''n2'' = w_disks rot_world ''n2''"
proof -
  obtain w' st where r: "cluster_Scrub 3 example_sys left_coord rot_world = Some (w', st, None)" using rot_run by blast
  from Scrub_safe[OF example_etcd(1) left_addresses rot_no_root r] r show ?thesis by auto
qed


theorem Passes_terminate_witness:
  "cluster_Scrub 2 example_sys left_coord rot_world \<noteq> None"
proof -
  have "length (kvs_Keys (w_kv rot_world)) < 2" by (simp add: rot_world_def rot_kvs_def)
  from Passes_terminate[OF example_etcd(1) rot_no_root this] show ?thesis by blast
qed

end
