(* ===== verification/Multipart.thy ===== *)
theory Multipart
  imports Scrub
begin

text \<open>
  Multipart uploads, \<^verbatim>\<open>internal/cluster/upload.go\<close>: a part is written like a small object but recorded
  against the upload, and completing the upload commits one manifest made of the parts' chunks.

  The random id of a new upload and the time are arguments.  \<^verbatim>\<open>CopyPart\<close> pipes a range read into a
  part write; the pipe is the reader of what the range read delivered, ending with its error.
\<close>

section \<open>Operations\<close>

definition MaxParts :: int where
  "MaxParts = 10000"

definition UploadMaxAge :: int where
  "UploadMaxAge = 7 * 24 * 3600 * 1000000000"

record completed_part =
  cq_Number :: int
  cq_ETag :: string

definition cluster_CreateUpload ::
  "'s sys \<Rightarrow> coord \<Rightarrow> 's world \<Rightarrow> string \<Rightarrow> string \<Rightarrow> string \<Rightarrow> (string \<times> string) list \<Rightarrow> 's world \<times> (error + string)" where
  "cluster_CreateUpload X c w i key contentType metadata =
     (case CreateUpload (sy_etcd X) (c_meta c) (w_kv w) i
             \<lparr>up_Key = key, up_ContentType = contentType, up_Created = ev_now (sy_env X), up_Meta = metadata\<rparr> of
        (kv', Some e) \<Rightarrow> (w\<lparr>w_kv := kv'\<rparr>, Inl e)
      | (kv', None) \<Rightarrow> (w\<lparr>w_kv := kv'\<rparr>, Inr i))"

definition part_checks :: "manifest \<Rightarrow> put_options \<Rightarrow> error option" where
  "part_checks m opts = (case checkCRC32C m opts of Some e \<Rightarrow> Some e
     | None \<Rightarrow> (case checkCRC32 m opts of Some e \<Rightarrow> Some e | None \<Rightarrow> checkCRC64NVME m opts))"

definition commit_part ::
  "'s sys \<Rightarrow> coord \<Rightarrow> 's \<Rightarrow> string \<Rightarrow> int \<Rightarrow> manifest \<Rightarrow> string \<Rightarrow> 's \<times> error option" where
  "commit_part X c kv i number m writing =
     (if writing = '''' then CommitPart (sy_etcd X) (c_meta c) kv i (nat number) m
      else CommitPartWhileWriting (sy_etcd X) (c_meta c) kv i (nat number) m writing)"

definition UploadPart ::
  "'s sys \<Rightarrow> coord \<Rightarrow> 's world \<Rightarrow> string \<Rightarrow> int \<Rightarrow> reader \<Rightarrow> put_options \<Rightarrow> string \<Rightarrow> 's world \<times> (error + manifest)" where
  "UploadPart X c w i number body opts pre =
     (if number < 1 \<or> number > MaxParts then (w, Inl [ErrNoSuchPart])
      else case meta_Upload (sy_etcd X) (c_meta c) (w_kv w) i of
        (kv1, Inl e) \<Rightarrow> (w\<lparr>w_kv := kv1\<rparr>, Inl e)
      | (kv1, Inr u) \<Rightarrow>
          (case cluster_write X c (w\<lparr>w_kv := kv1\<rparr>) (up_Key u) body (po_Size opts) pre of
             (w1, Inl e) \<Rightarrow> (w1, Inl e)
           | (w1, Inr (m, writing)) \<Rightarrow>
               (case part_checks m opts of
                  Some e \<Rightarrow> (stopWriting X c w1 writing, Inl e)
                | None \<Rightarrow> (case commit_part X c (w_kv w1) i number m writing of
                    (kv2, err) \<Rightarrow>
                      (let w2 = stopWriting X c (w1\<lparr>w_kv := kv2\<rparr>) writing
                       in case err of Some e \<Rightarrow> (w2, Inl e) | None \<Rightarrow> (w2, Inr m))))))"

definition CopyPart ::
  "'s sys \<Rightarrow> coord \<Rightarrow> nat \<Rightarrow> 's world \<Rightarrow> string \<Rightarrow> int \<Rightarrow> manifest \<Rightarrow> int \<Rightarrow> int \<Rightarrow> put_options \<Rightarrow> string \<Rightarrow>
    's world \<times> (error + manifest)" where
  "CopyPart X c bs w i number src off len opts pre =
     (case StreamRange X c bs w src \<lparr>sk_data = [], sk_room = nat len\<rparr> off len of
        (out, err) \<Rightarrow> UploadPart X c w i number \<lparr>rdata = sk_data out, rerr = err\<rparr> (opts\<lparr>po_Size := len\<rparr>) pre)"

text \<open>\<^verbatim>\<open>strings.Trim\<close> of double quotes, and \<^verbatim>\<open>hex.DecodeString\<close>.\<close>

definition trim_quotes :: "string \<Rightarrow> string" where
  "trim_quotes t = (let q = (\<lambda>ch. ch = CHR 0x22) in rev (dropWhile q (rev (dropWhile q t))))"

fun hex_DecodeString :: "string \<Rightarrow> bytes option" where
  "hex_DecodeString [] = Some []"
| "hex_DecodeString [a] = None"
| "hex_DecodeString (a # b # t) = (case (hex_value a, hex_value b, hex_DecodeString t) of
      (Some x, Some y, Some bs) \<Rightarrow> Some (word_of_nat (16 * x + y) # bs)
    | _ \<Rightarrow> None)"

text \<open>The three checksums of the object are folded alike, each by its own combination.\<close>

definition fold_checksum :: "('w \<Rightarrow> 'w \<Rightarrow> int \<Rightarrow> 'w) \<Rightarrow> nat \<Rightarrow> 'w option \<Rightarrow> 'w option \<Rightarrow> int \<Rightarrow> 'w option" where
  "fold_checksum combine i final here n = (case here of
      None \<Rightarrow> None
    | Some v \<Rightarrow> (case final of
        None \<Rightarrow> if i = 0 then Some v else None
      | Some f \<Rightarrow> Some (combine f v n)))"

definition add_part :: "nat \<Rightarrow> int \<Rightarrow> manifest \<Rightarrow> manifest \<Rightarrow> manifest" where
  "add_part i number m final = final
     \<lparr>m_Nodes := (if i = 0 then m_Nodes m else m_Nodes final),
      m_Coding := (if i = 0 then m_Coding m else m_Coding final),
      m_Chunks := m_Chunks final @ m_Chunks m,
      m_Size := m_Size final + m_Size m,
      m_Parts := m_Parts final @ [\<lparr>pt_Number = number, pt_Size = m_Size m, pt_CRC32C = m_CRC32C m,
        pt_CRC32 = m_CRC32 m, pt_CRC64NVME = m_CRC64NVME m\<rparr>],
      m_CRC32C := fold_checksum CombineCRC32C i (m_CRC32C final) (m_CRC32C m) (m_Size m),
      m_CRC32 := fold_checksum CombineCRC32 i (m_CRC32 final) (m_CRC32 m) (m_Size m),
      m_CRC64NVME := fold_checksum CombineCRC64NVME i (m_CRC64NVME final) (m_CRC64NVME m) (m_Size m)\<rparr>"

text \<open>
  The loop over the parts named: \<open>i\<close> counts them, \<open>prev\<close> is the number of the part before, and \<open>sums\<close>
  what has been written to the MD5 of MD5s.
\<close>

fun complete_parts ::
  "(int \<times> manifest) list \<Rightarrow> nat \<Rightarrow> int option \<Rightarrow> completed_part list \<Rightarrow> manifest \<Rightarrow> bytes \<Rightarrow> error + manifest \<times> bytes" where
  "complete_parts stored i prev [] final sums = Inr (final, sums)"
| "complete_parts stored i prev (p # ps) final sums =
     (if prev = Some (cq_Number p) then Inl [ErrPartOrder]
      else case map_of stored (cq_Number p) of
        None \<Rightarrow> Inl [ErrNoSuchPart]
      | Some m \<Rightarrow>
          (let want = trim_quotes (cq_ETag p) in
           if want \<noteq> '''' \<and> want \<noteq> m_ETag m then Inl [ErrPartMismatch]
           else if i \<noteq> 0 \<and> (m_Nodes final \<noteq> m_Nodes m \<or> m_Coding final \<noteq> m_Coding m) then Inl [Other ''cluster: part placed'']
           else case hex_DecodeString (m_ETag m) of
             None \<Rightarrow> Inl [Other ''cluster: part etag'']
           | Some raw \<Rightarrow>
               complete_parts stored (Suc i) (Some (cq_Number p)) ps (add_part i (cq_Number p) m final) (sums @ raw)))"

definition bad_total :: "'w option \<Rightarrow> 'w option \<Rightarrow> bool" where
  "bad_total declared got = (case declared of None \<Rightarrow> False | Some d \<Rightarrow> got \<noteq> Some d)"

text \<open>
  The order check compares by subtraction, which wraps; the numbers are a client's.  After the commit
  errors are logged only.
\<close>

definition parts_sorted :: "completed_part list \<Rightarrow> bool" where
  "parts_sorted ps \<longleftrightarrow> list_all (\<lambda>(a, b). \<not> i64 (cq_Number b - cq_Number a) < 0) (zip ps (tl ps))"

definition assemble ::
  "upload \<Rightarrow> (int \<times> manifest) list \<Rightarrow> int \<Rightarrow> completed_part list \<Rightarrow> uint32 option \<Rightarrow> uint64 option \<Rightarrow> uint32 option \<Rightarrow>
    error + manifest" where
  "assemble u stored now ps crc32c crc64nvme crc32 =
     (if ps = [] then Inl [ErrNoSuchPart]
      else if \<not> parts_sorted ps then Inl [ErrPartOrder]
      else case complete_parts stored 0 None ps
                  (zero_manifest\<lparr>m_ContentType := up_ContentType u, m_Meta := up_Meta u\<rparr>) [] of
        Inl e \<Rightarrow> Inl e
      | Inr (final, sums) \<Rightarrow>
          (let m = final\<lparr>m_ETag := hex_encode (md5 sums) @ ''-'' @ fmt_d (length ps), m_Modified := truncate_second now\<rparr> in
           if bad_total crc32c (m_CRC32C m) \<or> bad_total crc32 (m_CRC32 m) \<or> bad_total crc64nvme (m_CRC64NVME m)
           then Inl [ErrBadDigest] else Inr m))"

definition CompleteUpload ::
  "'s sys \<Rightarrow> coord \<Rightarrow> 's world \<Rightarrow> string \<Rightarrow> completed_part list \<Rightarrow> uint32 option \<Rightarrow> uint64 option \<Rightarrow> uint32 option \<Rightarrow>
    's world \<times> (error + manifest)" where
  "CompleteUpload X c w i ps crc32c crc64nvme crc32 =
     (let E = sy_etcd X; M = c_meta c in
      case meta_Upload E M (w_kv w) i of
        (kv1, Inl e) \<Rightarrow>
          if errors_Is e meta_ErrNotFound
          then (case meta_Completion E M kv1 i of
                  (kv2, Inr co) \<Rightarrow> (w\<lparr>w_kv := kv2\<rparr>, Inr (zero_manifest\<lparr>m_ETag := co_ETag co, m_Modified := co_When co\<rparr>))
                | (kv2, Inl e2) \<Rightarrow> (w\<lparr>w_kv := kv2\<rparr>, Inl e))
          else (w\<lparr>w_kv := kv1\<rparr>, Inl e)
      | (kv1, Inr u) \<Rightarrow>
          (case Parts E M kv1 i of
             (kv2, Inl e) \<Rightarrow> (w\<lparr>w_kv := kv2\<rparr>, Inl e)
           | (kv2, Inr stored) \<Rightarrow>
               (case assemble u stored (ev_now (sy_env X)) ps crc32c crc64nvme crc32 of
                  Inl e \<Rightarrow> (w\<lparr>w_kv := kv2\<rparr>, Inl e)
                | Inr m \<Rightarrow> (case meta_Commit E M kv2 (up_Key u) m of
                    (kv3, Some e) \<Rightarrow> (w\<lparr>w_kv := kv3\<rparr>, Inl e)
                  | (kv3, None) \<Rightarrow>
                      (let kv4 = fst (FinishUpload E M kv3 i \<lparr>co_Key = up_Key u, co_ETag = m_ETag m,
                                   co_When = m_Modified m, co_Parts = int (length ps)\<rparr>);
                           kv5 = fst (DeleteUpload E M kv4 i)
                       in (w\<lparr>w_kv := kv5\<rparr>, Inr m))))))"

definition AbortUpload :: "'s sys \<Rightarrow> coord \<Rightarrow> 's world \<Rightarrow> string \<Rightarrow> 's world \<times> error option" where
  "AbortUpload X c w i = (case meta_Upload (sy_etcd X) (c_meta c) (w_kv w) i of
      (kv1, Inl e) \<Rightarrow> (w\<lparr>w_kv := kv1\<rparr>, Some e)
    | (kv1, Inr u) \<Rightarrow> (case DeleteUpload (sy_etcd X) (c_meta c) kv1 i of (kv2, err) \<Rightarrow> (w\<lparr>w_kv := kv2\<rparr>, err)))"

definition cluster_ExpireUploads :: "nat \<Rightarrow> 's sys \<Rightarrow> coord \<Rightarrow> 's world \<Rightarrow> ('s world \<times> int \<times> error option) option" where
  "cluster_ExpireUploads fuel X c w =
     (case ExpireUploads fuel (sy_etcd X) (c_meta c) (w_kv w) (ev_now (sy_env X) - UploadMaxAge) of
        None \<Rightarrow> None
      | Some (kv', n, err) \<Rightarrow> Some (w\<lparr>w_kv := kv'\<rparr>, n, err))"

record upload_part =
  pn_Number :: int
  pn_ETag :: string
  pn_Size :: int
  pn_Modified :: int

definition cluster_Parts :: "'s sys \<Rightarrow> coord \<Rightarrow> 's world \<Rightarrow> string \<Rightarrow> 's world \<times> (error + upload_part list)" where
  "cluster_Parts X c w i = (case meta_Upload (sy_etcd X) (c_meta c) (w_kv w) i of
      (kv1, Inl e) \<Rightarrow> (w\<lparr>w_kv := kv1\<rparr>, Inl e)
    | (kv1, Inr u) \<Rightarrow> (case Parts (sy_etcd X) (c_meta c) kv1 i of
        (kv2, Inl e) \<Rightarrow> (w\<lparr>w_kv := kv2\<rparr>, Inl e)
      | (kv2, Inr stored) \<Rightarrow>
          (w\<lparr>w_kv := kv2\<rparr>, Inr (sort_key pn_Number (map (\<lambda>(n, m). \<lparr>pn_Number = n, pn_ETag = m_ETag m,
             pn_Size = m_Size m, pn_Modified = m_Modified m\<rparr>) stored)))))"

definition cluster_Uploads ::
  "'s sys \<Rightarrow> coord \<Rightarrow> 's world \<Rightarrow> string \<Rightarrow> string \<Rightarrow> int \<Rightarrow> 's world \<times> (error + upload_ref list \<times> bool)" where
  "cluster_Uploads X c w pre after limit =
     (case Uploads (sy_etcd X) (c_meta c) (w_kv w) pre after limit of (kv', r) \<Rightarrow> (w\<lparr>w_kv := kv'\<rparr>, r))"

section \<open>What etcd holds of an upload\<close>

definition upload_at :: "meta \<Rightarrow> kvs \<Rightarrow> string \<Rightarrow> upload option" where
  "upload_at M v i = (case kv_lookup v (uploadKey M i) of
      None \<Rightarrow> None
    | Some d \<Rightarrow> (case decode_upload (kd_Value d) of Inl e \<Rightarrow> None | Inr u \<Rightarrow> Some u))"

definition parts_at :: "meta \<Rightarrow> kvs \<Rightarrow> string \<Rightarrow> (int \<times> manifest) list" where
  "parts_at M v i = (case decode_all decode_part (kv_select v (\<lambda>x. HasPrefix x (uploadPrefix M i @ ''parts/''))) of
      Inl e \<Rightarrow> []
    | Inr ps \<Rightarrow> foldl (\<lambda>acc (n, m). AList.update n m acc) [] ps)"

lemma uploads_apart [simp]:
  "\<not> HasPrefix (meta_key M k) (uploadPrefix M i)" "meta_key M k \<noteq> completionKey M i"
  "meta_key M k \<noteq> uploadKey M i" "meta_key M k \<noteq> partKey M i n"
  by (auto simp: HasPrefix_prefix prefix_def meta_key_def objects_prefix_def uploadPrefix_def uploadKey_def partKey_def
      completionKey_def join_def)

context etcd_client
begin

lemma meta_Upload_ok:
  assumes "meta_Upload E M s i = (s', r)"
  shows "view s' = view s" and "r = Inr u \<Longrightarrow> upload_at M (view s) i = Some u"
    and "r = Inl e \<Longrightarrow> errors_Is e meta_ErrNotFound \<Longrightarrow> upload_at M (view s) i = None"
proof -
  obtain r1 where k: "et_kvs E s (EGet (uploadKey M i)) = (s', r1)"
    using assms by (auto simp: meta_Upload_def split: prod.splits sum.splits list.splits)
  show "view s' = view s" by (rule et_kvs_view[OF k]) simp
  have sel: "snd (etcd_apply (view s) (EGet (uploadKey M i))) =
      RKvs (case kv_lookup (view s) (uploadKey M i) of None \<Rightarrow> [] | Some d \<Rightarrow> [(uploadKey M i, d)]) False"
    by (simp add: kv_select_single)
  show "upload_at M (view s) i = Some u" if r: "r = Inr u"
  proof -
    obtain kv mr where r1: "r1 = Inr (kv, mr)" using assms k r by (cases r1) (auto simp: meta_Upload_def)
    from et_kvs_ok[OF k[unfolded r1]] have "kv = (case kv_lookup (view s) (uploadKey M i) of None \<Rightarrow> [] | Some d \<Rightarrow> [(uploadKey M i, d)])"
      unfolding sel by simp
    then show ?thesis using assms k r r1 by (auto simp: meta_Upload_def upload_at_def split: option.splits)
  qed
  show "upload_at M (view s) i = None" if r: "r = Inl e" "errors_Is e meta_ErrNotFound"
  proof (cases r1)
    case (Inl e1)
    then have "e = e1" using assms k r by (simp add: meta_Upload_def)
    moreover have "et_call E s (EGet (uploadKey M i)) = (s', Inl e1) \<or> \<not> errors_Is e1 meta_ErrNotFound"
      using k Inl by (auto simp: et_kvs_def errors_Is_def split: prod.splits sum.splits etcd_resp.splits)
    ultimately show ?thesis using call_foreign r(2) by (fastforce simp: errors_Is_def)
  next
    case (Inr p)
    obtain kv mr where p: "p = (kv, mr)" by (cases p)
    from et_kvs_ok[OF k[unfolded Inr p]] have "kv = (case kv_lookup (view s) (uploadKey M i) of None \<Rightarrow> [] | Some d \<Rightarrow> [(uploadKey M i, d)])"
      unfolding sel by simp
    moreover have "\<not> errors_Is e' meta_ErrNotFound" if "decode_upload x = Inl e'" for x e'
      using that by (cases x) (auto simp: errors_Is_def)
    ultimately show ?thesis using assms k r Inr p by (auto simp: meta_Upload_def upload_at_def split: option.splits)
  qed
qed

lemma Parts_ok:
  assumes "Parts E M s i = (s', r)"
  shows "view s' = view s" and "r = Inr stored \<Longrightarrow> stored = parts_at M (view s) i"
proof -
  let ?q = "EGetPrefix (uploadPrefix M i @ ''parts/'')"
  obtain r1 where k: "et_kvs E s ?q = (s', r1)"
    using assms by (auto simp: Parts_def split: prod.splits sum.splits)
  show "view s' = view s" by (rule et_kvs_view[OF k]) simp
  show "stored = parts_at M (view s) i" if r: "r = Inr stored"
  proof -
    obtain kv mr where r1: "r1 = Inr (kv, mr)" using assms k r by (cases r1) (auto simp: Parts_def)
    from et_kvs_ok[OF k[unfolded r1]] have "kv = kv_select (view s) (\<lambda>x. HasPrefix x (uploadPrefix M i @ ''parts/''))" by simp
    then show ?thesis using assms k r r1 by (auto simp: Parts_def parts_at_def split: sum.splits)
  qed
qed

lemma meta_Completion_view: "meta_Completion E M s i = (s', r) \<Longrightarrow> view s' = view s"
  by (auto simp: meta_Completion_def dest!: et_kvs_view split: prod.splits sum.splits list.splits)

text \<open>Remembering a completion and forgetting an upload touch no object.\<close>

lemma FinishUpload_committed: "committed M (view (fst (FinishUpload E M s i co))) = committed M (view s)"
proof -
  obtain s1 r1 where g: "et_unit E s (EGrant CompletionMemory) = (s1, r1)" by fastforce
  have v1: "view s1 = view s" using et_unit_any[OF g] by simp
  obtain s2 r2 where p: "et_unit E s1 (EPut (completionKey M i) (SCompletion co)) = (s2, r2)" by fastforce
  have "committed M (view s2) = committed M (view s1)"
    using et_unit_any[OF p] by (auto simp: committed_def fun_eq_iff)
  then show ?thesis using g p v1 by (cases r1) (simp_all add: FinishUpload_def)
qed

lemma DeleteUpload_committed: "committed M (view (fst (DeleteUpload E M s i))) = committed M (view s)"
proof -
  obtain s' r where p: "et_unit E s (EDeletePrefix (uploadPrefix M i)) = (s', r)" by fastforce
  show ?thesis using et_unit_any[OF p] p by (auto simp: DeleteUpload_def committed_def fun_eq_iff)
qed

end

section \<open>Putting parts together\<close>

lemma hex_roundtrip: "hex_DecodeString (hex_encode bs) = Some bs"
proof (induction bs)
  case (Cons b bs)
  have u: "unat b < 256" using unsigned_less[where 'a = nat and w = b] by simp
  have "hex_encode (b # bs) = digit_char (unat b div 16) # digit_char (unat b mod 16) # hex_encode bs"
    by (simp add: hex_encode_def)
  moreover have "hex_value (digit_char (unat b div 16)) = Some (unat b div 16)"
    "hex_value (digit_char (unat b mod 16)) = Some (unat b mod 16)"
    by (rule hex_value_digit; use u in simp)+
  ultimately show ?case using Cons by simp
qed (simp add: hex_encode_def)

text \<open>A manifest that gives the size and the checksums of some bytes.\<close>

definition sums_up :: "manifest \<Rightarrow> bytes \<Rightarrow> bool" where
  "sums_up m d \<longleftrightarrow> m_Size m = int (length d) \<and> m_CRC32C m = Some (CRC32C d) \<and> m_CRC32 m = Some (CRC32 d) \<and>
     m_CRC64NVME m = Some (CRC64NVME d)"

lemma add_part_sums:
  assumes "sums_up m d" "if i = 0 then m_Size final = 0 \<and> m_CRC32C final = None \<and> m_CRC32 final = None \<and>
      m_CRC64NVME final = None \<and> d0 = [] else sums_up final d0"
  shows "sums_up (add_part i n m final) (d0 @ d)"
  using assms crc32c.combine_checksums[of d0 d] crc32.combine_checksums[of d0 d] crc64nvme.combine_checksums[of d0 d]
  by (auto simp: sums_up_def add_part_def fold_checksum_def split: if_splits)

definition part_of :: "(int \<times> manifest) list \<Rightarrow> completed_part \<Rightarrow> manifest" where
  "part_of stored p = the (map_of stored (cq_Number p))"

lemma complete_parts_ok:
  "complete_parts stored i prev ps final sums = Inr (m, sums') \<Longrightarrow>
    (\<forall>p \<in> set ps. map_of stored (cq_Number p) \<noteq> None \<and>
       (trim_quotes (cq_ETag p) \<noteq> '''' \<longrightarrow> trim_quotes (cq_ETag p) = m_ETag (part_of stored p)) \<and>
       m_Nodes (part_of stored p) = m_Nodes m \<and> m_Coding (part_of stored p) = m_Coding m) \<and>
    m_Chunks m = m_Chunks final @ concat (map (m_Chunks \<circ> part_of stored) ps) \<and>
    map pt_Number (m_Parts m) = map pt_Number (m_Parts final) @ map cq_Number ps \<and>
    m_ContentType m = m_ContentType final \<and> m_Meta m = m_Meta final \<and>
    (i \<noteq> 0 \<longrightarrow> m_Nodes m = m_Nodes final \<and> m_Coding m = m_Coding final)"
proof (induction ps arbitrary: i prev final sums)
  case (Cons p ps)
  obtain mp raw where mp: "map_of stored (cq_Number p) = Some mp" "hex_DecodeString (m_ETag mp) = Some raw"
    and want: "trim_quotes (cq_ETag p) \<noteq> '''' \<longrightarrow> trim_quotes (cq_ETag p) = m_ETag mp"
    and place: "i \<noteq> 0 \<longrightarrow> m_Nodes final = m_Nodes mp \<and> m_Coding final = m_Coding mp"
    and rest: "complete_parts stored (Suc i) (Some (cq_Number p)) ps (add_part i (cq_Number p) mp final) (sums @ raw) = Inr (m, sums')"
    using Cons.prems by (auto simp: Let_def split: if_splits option.splits)
  note IH = Cons.IH[OF rest]
  have "part_of stored p = mp" using mp(1) by (simp add: part_of_def)
  then show ?case using IH mp(1) want place by (auto simp: add_part_def)
qed simp

lemma complete_parts_sums:
  assumes "\<And>n mn. map_of stored n = Some mn \<Longrightarrow> sums_up mn (body n) \<and> m_ETag mn = hex_encode (md5 (body n))"
  shows "complete_parts stored i prev ps final sums = Inr (m, sums') \<Longrightarrow>
    (if i = 0 then m_Size final = 0 \<and> m_CRC32C final = None \<and> m_CRC32 final = None \<and>
      m_CRC64NVME final = None \<and> d0 = [] else sums_up final d0) \<Longrightarrow>
    sums' = sums @ concat (map (md5 \<circ> body \<circ> cq_Number) ps) \<and>
    (ps \<noteq> [] \<or> i \<noteq> 0 \<longrightarrow> sums_up m (d0 @ concat (map (body \<circ> cq_Number) ps)))"
proof (induction ps arbitrary: i prev final sums d0)
  case (Cons p ps)
  obtain mp raw where mp: "map_of stored (cq_Number p) = Some mp" "hex_DecodeString (m_ETag mp) = Some raw"
    and rest: "complete_parts stored (Suc i) (Some (cq_Number p)) ps (add_part i (cq_Number p) mp final) (sums @ raw) = Inr (m, sums')"
    using Cons.prems(1) by (auto simp: Let_def split: if_splits option.splits)
  have b: "sums_up mp (body (cq_Number p))" "raw = md5 (body (cq_Number p))"
    using assms[OF mp(1)] mp(2) by (simp_all add: hex_roundtrip)
  have "sums_up (add_part i (cq_Number p) mp final) (d0 @ body (cq_Number p))"
    by (rule add_part_sums[OF b(1) Cons.prems(2)])
  then show ?case using Cons.IH[OF rest, of "d0 @ body (cq_Number p)"] b(2) by simp
qed auto

lemma complete_parts_apart:
  "complete_parts stored i prev ps final sums = Inr (m, sums') \<Longrightarrow>
    successively (\<lambda>a b. a \<noteq> b) ((case prev of None \<Rightarrow> [] | Some n \<Rightarrow> [n]) @ map cq_Number ps)"
proof (induction ps arbitrary: i prev final sums)
  case Nil
  then show ?case by (simp split: option.splits)
next
  case (Cons p ps)
  obtain mp raw where rest: "prev \<noteq> Some (cq_Number p)"
    "complete_parts stored (Suc i) (Some (cq_Number p)) ps (add_part i (cq_Number p) mp final) (sums @ raw) = Inr (m, sums')"
    using Cons.prems by (auto simp: Let_def split: if_splits option.splits)
  from Cons.IH[OF rest(2)] rest(1) show ?case by (cases prev) auto
qed

lemma parts_ascend:
  assumes "parts_sorted ps" "successively (\<lambda>a b. a \<noteq> b) (map cq_Number ps)"
    "\<forall>p \<in> set ps. 1 \<le> cq_Number p \<and> cq_Number p \<le> MaxParts"
  shows "sorted_wrt (<) (map cq_Number ps)"
proof -
  have "successively (<) (map cq_Number ps)"
    using assms
  proof (induction ps rule: induct_list012)
    case (3 a b ps)
    have "in_i64 (cq_Number b - cq_Number a)" using 3(5) by (auto simp: in_i64_def MaxParts_def)
    then have "\<not> cq_Number b - cq_Number a < 0" using 3(3) by (simp add: parts_sorted_def)
    then show ?case using 3 by (auto simp: parts_sorted_def)
  qed simp_all
  then show ?thesis by (simp add: successively_conv_sorted_wrt transp_on_less)
qed

section \<open>What completing an upload does\<close>

context etcd_client
begin

lemma CompleteUpload_cases:
  assumes "CompleteUpload X c w i ps c32c c64 c32 = (w', r)" "sy_etcd X = E"
  obtains (commit) u m where "upload_at (c_meta c) (view (w_kv w)) i = Some u" "r = Inr m"
      "assemble u (parts_at (c_meta c) (view (w_kv w)) i) (ev_now (sy_env X)) ps c32c c64 c32 = Inr m"
      "committed (c_meta c) (view (w_kv w')) = (committed (c_meta c) (view (w_kv w)))(up_Key u \<mapsto> m)"
  | (replay) m where "upload_at (c_meta c) (view (w_kv w)) i = None" "r = Inr m"
      "committed (c_meta c) (view (w_kv w')) = committed (c_meta c) (view (w_kv w))"
  | (refused) e where "r = Inl e" "committed (c_meta c) (view (w_kv w')) = committed (c_meta c) (view (w_kv w))"
  | (unsure) u m msg where "r = Inl [Other msg]" "upload_at (c_meta c) (view (w_kv w)) i = Some u"
      "assemble u (parts_at (c_meta c) (view (w_kv w)) i) (ev_now (sy_env X)) ps c32c c64 c32 = Inr m"
      "committed (c_meta c) (view (w_kv w')) = (committed (c_meta c) (view (w_kv w)))(up_Key u \<mapsto> m)"
proof -
  let ?M = "c_meta c"
  obtain kv1 r1 where up: "meta_Upload E ?M (w_kv w) i = (kv1, r1)" by fastforce
  note u = meta_Upload_ok[OF up]
  show thesis
  proof (cases r1)
    case (Inl e)
    show thesis
    proof (cases "errors_Is e meta_ErrNotFound")
      case True
      obtain kv2 r2 where co: "meta_Completion E ?M kv1 i = (kv2, r2)" by fastforce
      have v: "view kv2 = view (w_kv w)" using meta_Completion_view[OF co] u(1) by simp
      show thesis
        by (cases r2) (use assms up Inl True co v u(3)[OF Inl True] refused replay in \<open>auto simp: CompleteUpload_def Let_def\<close>)
    next
      case False
      then show thesis using assms up Inl u(1) refused by (auto simp: CompleteUpload_def Let_def)
    qed
  next
    case (Inr up')
    obtain kv2 r2 where pa: "Parts E ?M kv1 i = (kv2, r2)" by fastforce
    note p = Parts_ok[OF pa]
    have v2: "view kv2 = view (w_kv w)" using p(1) u(1) by simp
    show thesis
    proof (cases r2)
      case (Inl e)
      then show thesis using assms up Inr pa v2 refused by (auto simp: CompleteUpload_def Let_def)
    next
      case st: (Inr stored)
      have stored: "stored = parts_at ?M (view (w_kv w)) i" using p(2)[OF st] u(1) by simp
      show thesis
      proof (cases "assemble up' stored (ev_now (sy_env X)) ps c32c c64 c32")
        case as: (Inl e)
        have "(w', r) = (w\<lparr>w_kv := kv2\<rparr>, Inl e)" using assms up Inr pa st as by (simp add: CompleteUpload_def)
        then show thesis using v2 refused by simp
      next
        case as: (Inr m)
        obtain kv3 r3 where cm: "meta_Commit E ?M kv2 (up_Key up') m = (kv3, r3)" by fastforce
        show thesis
        proof (cases r3)
          case None
          have "committed ?M (view kv3) = (committed ?M (view (w_kv w)))(up_Key up' \<mapsto> m)"
            using objects.commit_ok[OF cm[unfolded None]] v2 by simp
          moreover have "r = Inr m" "w' = w\<lparr>w_kv := fst (DeleteUpload E ?M (fst (FinishUpload E ?M kv3 i
              \<lparr>co_Key = up_Key up', co_ETag = m_ETag m, co_When = m_Modified m, co_Parts = int (length ps)\<rparr>)) i)\<rparr>"
            using assms up Inr pa st as cm None by (simp_all add: CompleteUpload_def Let_def)
          ultimately show thesis
            using commit[OF u(2)[OF Inr], of m] as stored by (simp add: FinishUpload_committed DeleteUpload_committed)
        next
          case (Some e)
          have "\<exists>msg. e = [Other msg]"
            using cm Some by (auto simp: meta_Commit_def et_unit_def dest!: call_foreign split: prod.splits sum.splits)
          then obtain msg where e: "e = [Other msg]" by blast
          have r: "r = Inl e" "w' = w\<lparr>w_kv := kv3\<rparr>"
            using assms up Inr pa st as cm Some by (simp_all add: CompleteUpload_def Let_def)
          from objects.commit_any[OF cm] show thesis
          proof
            assume "committed ?M (view kv3) = committed ?M (view kv2)"
            then show thesis using refused r v2 by simp
          next
            assume "committed ?M (view kv3) = (committed ?M (view kv2))(up_Key up' \<mapsto> m)"
            then show thesis using unsure[OF _ u(2)[OF Inr], of msg m] r e v2 as stored by simp
          qed
        qed
      qed
    qed
  qed
qed

end

lemma assemble_ok:
  assumes "assemble u stored now ps c32c c64 c32 = Inr m"
  obtains final sums where "ps \<noteq> []" "parts_sorted ps"
    "complete_parts stored 0 None ps (zero_manifest\<lparr>m_ContentType := up_ContentType u, m_Meta := up_Meta u\<rparr>) [] = Inr (final, sums)"
    "m = final\<lparr>m_ETag := hex_encode (md5 sums) @ ''-'' @ fmt_d (length ps), m_Modified := truncate_second now\<rparr>"
    "\<not> bad_total c32c (m_CRC32C m)" "\<not> bad_total c32 (m_CRC32 m)" "\<not> bad_total c64 (m_CRC64NVME m)"
  using assms by (auto simp: assemble_def Let_def split: if_splits sum.splits)

section \<open>What uploading a part does\<close>

context etcd_client
begin

lemma CommitPart_ok:
  assumes "CommitPart E M s i n m = (s', r)"
  shows "committed M (view s') = committed M (view s)"
    and "r = None \<Longrightarrow> view s' = kv_put (view s) (partKey M i n) (SManifest m)"
proof -
  let ?q = "ETxn [CmpExists (uploadKey M i)] (partKey M i n) (SManifest m)"
  obtain res where t: "et_txn E s ?q = (s', res)" "r = (case res of Inl e \<Rightarrow> Some e | Inr b \<Rightarrow> if b then None else Some [meta_ErrNotFound])"
    using assms by (auto simp: CommitPart_def split: prod.splits sum.splits)
  have v: "view s' = view s \<and> r \<noteq> None \<or> view s' = kv_put (view s) (partKey M i n) (SManifest m)"
  proof (cases res)
    case (Inl e)
    then show ?thesis using et_txn_err[of s _ _ _ s' e] t by auto
  next
    case (Inr b)
    then show ?thesis using et_txn_ok[of s _ _ _ s' b] t by auto
  qed
  then show "r = None \<Longrightarrow> view s' = kv_put (view s) (partKey M i n) (SManifest m)" by blast
  show "committed M (view s') = committed M (view s)" using v by (auto simp: committed_def fun_eq_iff)
qed

lemma CommitPartWhileWriting_ok:
  assumes "CommitPartWhileWriting E M s i n m wid = (s', r)"
  shows "committed M (view s') = committed M (view s)"
    and "r = None \<Longrightarrow> view s' = kv_put (view s) (partKey M i n) (SManifest m)"
proof -
  let ?q = "ETxn [CmpExists (writingKey M wid), CmpExists (uploadKey M i)] (partKey M i n) (SManifest m)"
  obtain s1 res where t: "et_txn E s ?q = (s1, res)" by fastforce
  obtain s2 r2 where u: "meta_Upload E M s1 i = (s2, r2)" by fastforce
  note v2 = meta_Upload_ok(1)[OF u]
  have v: "view s' = view s \<and> r \<noteq> None \<or> view s' = kv_put (view s) (partKey M i n) (SManifest m)"
  proof (cases res)
    case (Inl e)
    then show ?thesis using et_txn_err[of s _ _ _ s1 e] t assms by (auto simp: CommitPartWhileWriting_def)
  next
    case (Inr b)
    then show ?thesis using et_txn_ok[of s _ _ _ s1 b] t assms u v2
      by (cases b; cases r2) (auto simp: CommitPartWhileWriting_def)
  qed
  then show "r = None \<Longrightarrow> view s' = kv_put (view s) (partKey M i n) (SManifest m)" by blast
  show "committed M (view s') = committed M (view s)" using v by (auto simp: committed_def fun_eq_iff)
qed

end

lemma commit_part_ok:
  assumes "etcd_client (sy_etcd X) view" "commit_part X c kv i n m writing = (kv', r)"
  shows "committed (c_meta c) (view kv') = committed (c_meta c) (view kv)"
    and "r = None \<Longrightarrow> view kv' = kv_put (view kv) (partKey (c_meta c) i (nat n)) (SManifest m)"
  using assms etcd_client.CommitPart_ok[OF assms(1)] etcd_client.CommitPartWhileWriting_ok[OF assms(1)]
  by (auto simp: commit_part_def split: if_splits)

lemma stopWriting_parts:
  assumes "etcd_client (sy_etcd X) view"
  shows "kv_lookup (view (w_kv (stopWriting X c w writing))) (partKey (c_meta c) i n) =
    kv_lookup (view (w_kv w)) (partKey (c_meta c) i n)"
proof -
  obtain s' r where p: "et_unit (sy_etcd X) (w_kv w) (EDelete (writingKey (c_meta c) writing)) = (s', r)" by fastforce
  have "partKey (c_meta c) i n \<noteq> writingKey (c_meta c) writing"
    by (auto simp: partKey_def uploadPrefix_def writingKey_def writingPrefix_def join_def)
  then show ?thesis using etcd_client.et_unit_any[OF assms p] p by (auto simp: stopWriting_def DoneWriting_def)
qed

lemma UploadPart_committed:
  assumes "etcd_client (sy_etcd X) view"
  shows "committed (c_meta c) (view (w_kv (fst (UploadPart X c w i number body opts pre)))) =
    committed (c_meta c) (view (w_kv w))"
proof -
  obtain kv1 r1 where up: "meta_Upload (sy_etcd X) (c_meta c) (w_kv w) i = (kv1, r1)" by fastforce
  note v1 = etcd_client.meta_Upload_ok(1)[OF assms up]
  show ?thesis
  proof (cases "number < 1 \<or> number > MaxParts \<or> (\<exists>e. r1 = Inl e)")
    case True
    then show ?thesis using up v1 by (auto simp: UploadPart_def)
  next
    case False
    then obtain u where u: "r1 = Inr u" by (cases r1) auto
    let ?w = "w\<lparr>w_kv := kv1\<rparr>"
    obtain w1 r2 where wr: "cluster_write X c ?w (up_Key u) body (po_Size opts) pre = (w1, r2)" by fastforce
    have c1: "committed (c_meta c) (view (w_kv w1)) = committed (c_meta c) (view (w_kv w))"
      using cluster_write_committed[OF assms, of c ?w "up_Key u" body "po_Size opts" pre] wr v1 by simp
    show ?thesis
    proof (cases r2)
      case (Inl e)
      then show ?thesis using False up u wr c1 by (simp add: UploadPart_def)
    next
      case (Inr mw)
      obtain m writing where mw: "mw = (m, writing)" by (cases mw)
      obtain kv2 r3 where cp: "commit_part X c (w_kv w1) i number m writing = (kv2, r3)" by fastforce
      show ?thesis
        using False up u wr c1 Inr mw cp commit_part_ok(1)[OF assms cp] stopWriting_committed[OF assms]
        by (auto simp: UploadPart_def Let_def split: option.splits)
    qed
  qed
qed

lemma UploadPart_ok:
  assumes "UploadPart X c w i number body opts pre = (w', Inr m)"
  obtains kv1 u w1 writing kv2 where "1 \<le> number" "number \<le> MaxParts"
    "meta_Upload (sy_etcd X) (c_meta c) (w_kv w) i = (kv1, Inr u)"
    "cluster_write X c (w\<lparr>w_kv := kv1\<rparr>) (up_Key u) body (po_Size opts) pre = (w1, Inr (m, writing))"
    "part_checks m opts = None" "commit_part X c (w_kv w1) i number m writing = (kv2, None)"
    "w' = stopWriting X c (w1\<lparr>w_kv := kv2\<rparr>) writing"
proof -
  obtain kv1 r1 where up: "meta_Upload (sy_etcd X) (c_meta c) (w_kv w) i = (kv1, r1)" by fastforce
  have n: "\<not> (number < 1 \<or> number > MaxParts)" using assms by (auto simp: UploadPart_def split: if_splits)
  obtain u where u: "r1 = Inr u" using assms n up by (cases r1) (auto simp: UploadPart_def)
  obtain w1 r2 where wr: "cluster_write X c (w\<lparr>w_kv := kv1\<rparr>) (up_Key u) body (po_Size opts) pre = (w1, r2)" by fastforce
  obtain m' writing where mw: "r2 = Inr (m', writing)" using assms n up u wr by (cases r2) (auto simp: UploadPart_def)
  obtain kv2 r3 where cp: "commit_part X c (w_kv w1) i number m' writing = (kv2, r3)" by fastforce
  have "part_checks m' opts = None" using assms n up u wr mw by (cases "part_checks m' opts") (auto simp: UploadPart_def)
  moreover from this have "r3 = None" "m' = m" "w' = stopWriting X c (w1\<lparr>w_kv := kv2\<rparr>) writing"
    using assms n up u wr mw cp by (cases r3; auto simp: UploadPart_def Let_def)+
  ultimately show thesis using that[of kv1 u w1 writing kv2] n up u wr mw cp by simp
qed

text \<open>A write touches no key of etcd but its own record.\<close>

lemma cluster_write_uploads:
  assumes "etcd_client (sy_etcd X) view"
  shows "kv_lookup (view (w_kv (fst (cluster_write X c w key body expect pre)))) (uploadKey (c_meta c) i) =
    kv_lookup (view (w_kv w)) (uploadKey (c_meta c) i)"
proof -
  let ?k = "uploadKey (c_meta c) i"
  let ?P = "\<lambda>st. kv_lookup (view (w_kv (ws_world st))) ?k = kv_lookup (view (w_kv w)) ?k"
  have ne: "?k \<noteq> writingKey (c_meta c) x" for x
    by (auto simp: uploadKey_def uploadPrefix_def writingKey_def writingPrefix_def join_def)
  have step: "?P (fst (commit_chunk X c (c_live c) owners st ref d))" if "?P st" for owners st ref d
  proof -
    obtain st1 err where a: "announce X c st ref d = (st1, err)" by fastforce
    obtain s' r where m: "MarkWriting (sy_etcd X) (c_meta c) (w_kv (ws_world st)) (WriteID (cr_ID ref)) (c_self c) = (s', r)"
      by fastforce
    have "kv_lookup (view s') ?k = kv_lookup (view (w_kv (ws_world st))) ?k"
    proof (cases "WriteID (cr_ID ref) = [] \<or> CHR ''/'' \<in> set (WriteID (cr_ID ref))")
      case True
      then show ?thesis using m by (auto simp: MarkWriting_def)
    next
      case False
      then have "et_unit (sy_etcd X) (w_kv (ws_world st)) (EPut (writingKey (c_meta c) (WriteID (cr_ID ref))) (SString (c_self c))) = (s', r)"
        using m by (auto simp: MarkWriting_def)
      from etcd_client.et_unit_any[OF assms this] show ?thesis using ne by auto
    qed
    then have "?P st1" using a m that by (auto simp: announce_def Let_def split: if_splits)
    then show ?thesis using a by (auto simp: commit_chunk_def split: option.splits prod.splits)
  qed
  have "?P (fst (Write body (c_chunkSize c) expect pre (commit_chunk X c (c_live c) owners)
      \<lparr>ws_world = w, ws_writing = [], ws_hashed = []\<rparr>))" for owners
    by (rule Write_keeps[where P = ?P]) (use step in simp_all)
  moreover have "kv_lookup (view (w_kv (stopWriting X c w1 x))) ?k = kv_lookup (view (w_kv w1)) ?k" for w1 x
  proof -
    obtain s' r where p: "et_unit (sy_etcd X) (w_kv w1) (EDelete (writingKey (c_meta c) x)) = (s', r)" by fastforce
    then show ?thesis using etcd_client.et_unit_any[OF assms p] ne by (auto simp: stopWriting_def DoneWriting_def)
  qed
  ultimately show ?thesis
    by (auto simp: cluster_write_def Let_def split: prod.splits sum.splits) (metis fst_conv)+
qed

lemma commit_part_up:
  assumes "etcd_client (sy_etcd X) view" "etcd_up (sy_etcd X)" "kv_lookup (view kv) (uploadKey (c_meta c) i) \<noteq> None"
    "writing \<noteq> [] \<longrightarrow> kv_lookup (view kv) (writingKey (c_meta c) writing) \<noteq> None"
  shows "snd (commit_part X c kv i n m writing) = None"
proof -
  have up: "\<exists>s'. et_txn (sy_etcd X) kv (ETxn cs k v) = (s', Inr True)" if "list_all (cmp_holds (view kv)) cs" for cs k v
  proof -
    obtain s' r where call: "et_call (sy_etcd X) kv (ETxn cs k v) = (s', Inr r)" using assms(2) unfolding etcd_up_def by blast
    have "(view s', r) = etcd_apply (view kv) (ETxn cs k v)" using etcd_client.call_ok[OF assms(1) call] .
    then show ?thesis using that call by (simp add: et_txn_def)
  qed
  show ?thesis
  proof (cases "writing = []")
    case True
    obtain s' where "et_txn (sy_etcd X) kv (ETxn [CmpExists (uploadKey (c_meta c) i)] (partKey (c_meta c) i (nat n)) (SManifest m)) = (s', Inr True)"
      using up[of "[CmpExists (uploadKey (c_meta c) i)]"] assms(3) by auto
    then show ?thesis using True by (simp add: commit_part_def CommitPart_def)
  next
    case False
    obtain s' where "et_txn (sy_etcd X) kv (ETxn [CmpExists (writingKey (c_meta c) writing), CmpExists (uploadKey (c_meta c) i)]
        (partKey (c_meta c) i (nat n)) (SManifest m)) = (s', Inr True)"
      using up[of "[CmpExists (writingKey (c_meta c) writing), CmpExists (uploadKey (c_meta c) i)]"] assms(3,4) False by auto
    then show ?thesis using False by (simp add: commit_part_def CommitPartWhileWriting_def)
  qed
qed

lemma meta_Upload_up:
  assumes "etcd_client (sy_etcd X) view" "etcd_up (sy_etcd X)" "upload_at (c_meta c) (view s) i = Some u"
  obtains s' where "meta_Upload (sy_etcd X) (c_meta c) s i = (s', Inr u)"
proof -
  let ?q = "EGet (uploadKey (c_meta c) i)"
  obtain s' r where call: "et_call (sy_etcd X) s ?q = (s', Inr r)" using assms(2) unfolding etcd_up_def by blast
  obtain d where d: "kv_lookup (view s) (uploadKey (c_meta c) i) = Some d" "decode_upload (kd_Value d) = Inr u"
    using assms(3) by (auto simp: upload_at_def split: option.splits sum.splits)
  have "(view s', r) = etcd_apply (view s) ?q" using etcd_client.call_ok[OF assms(1) call] .
  then have "r = RKvs [(uploadKey (c_meta c) i, d)] False" using d(1) by (simp add: kv_select_single)
  then show thesis using that[of s'] call d(2) by (simp add: meta_Upload_def et_kvs_def)
qed

text \<open>Parts are as available as objects.\<close>

lemma UploadPart_up:
  assumes "etcd_client (sy_etcd X) view" "etcd_up (sy_etcd X)" "good_prefix pre"
    "c_scheme c = zero_scheme" "coord_wf c" "0 < c_chunkSize c"
    "upload_at (c_meta c) (view (w_kv w)) i = Some u" "1 \<le> number" "number \<le> MaxParts"
    "c_quorum c \<le> int (length (filter (healthy X c (c_live c)) (Owners (mb_ring (c_live c)) (PartitionFor (up_Key u)) (width c))))"
    "source_error body = None" "addresses_right X c (c_live c)"
    "\<And>m. m_CRC32C m = Some (CRC32C (rdata body)) \<Longrightarrow> m_CRC32 m = Some (CRC32 (rdata body)) \<Longrightarrow>
      m_CRC64NVME m = Some (CRC64NVME (rdata body)) \<Longrightarrow> part_checks m opts = None"
  obtains w' m where "UploadPart X c w i number body opts pre = (w', Inr m)" "m_Size m = int (length (rdata body))"
proof -
  obtain kv1 where up: "meta_Upload (sy_etcd X) (c_meta c) (w_kv w) i = (kv1, Inr u)"
    by (rule meta_Upload_up[OF assms(1,2,7)])
  have v1: "view kv1 = view (w_kv w)" by (rule etcd_client.meta_Upload_ok(1)[OF assms(1) up])
  obtain w1 m writing where wr: "cluster_write X c (w\<lparr>w_kv := kv1\<rparr>) (up_Key u) body (po_Size opts) pre = (w1, Inr (m, writing))"
    and rec: "writing \<noteq> [] \<longrightarrow> kv_lookup (view (w_kv w1)) (writingKey (c_meta c) writing) \<noteq> None"
    by (rule write_up[OF assms(1-6) refl assms(10,11)])
  note ok = cluster_write_ok[OF assms(12,6,5) wr]
  have ch: "part_checks m opts = None" using assms(13) ok by blast
  have "kv_lookup (view (w_kv w1)) (uploadKey (c_meta c) i) \<noteq> None"
    using cluster_write_uploads[OF assms(1), of c "w\<lparr>w_kv := kv1\<rparr>" "up_Key u" body "po_Size opts" pre i] wr v1 assms(7)
    by (auto simp: upload_at_def split: option.splits)
  then obtain kv2 where cp: "commit_part X c (w_kv w1) i number m writing = (kv2, None)"
    using commit_part_up[OF assms(1,2) _ rec, of i number m] by (metis prod.collapse)
  show thesis
  proof (rule that)
    show "UploadPart X c w i number body opts pre = (stopWriting X c (w1\<lparr>w_kv := kv2\<rparr>) writing, Inr m)"
      using assms(8,9) up wr ch cp by (simp add: UploadPart_def Let_def)
  qed (use ok in \<open>simp add: writes_def\<close>)
qed

section \<open>Properties\<close>

text \<open>
  C22. An uploaded part is durable, described and invisible.  When \<^verbatim>\<open>UploadPart\<close> returns a manifest, it
  is recorded as that part of an upload in flight, it has the size, ETag and checksums of the body,
  it is placed by the key of the final object, and its chunks are as safe as an acknowledged write's;
  what readers see under every key is as it was, whether or not \<^verbatim>\<open>UploadPart\<close> succeeds.
\<close>

theorem UploadPart_recorded:
  assumes "etcd_client (sy_etcd X) view" and "addresses_right X c (c_live c)"
    and "0 < c_chunkSize c" and "coord_wf c"
    and "UploadPart X c w i number body opts pre = (w', r)"
  shows "committed (c_meta c) (view (w_kv w')) = committed (c_meta c) (view (w_kv w)) \<and>
    (\<forall>m. r = Inr m \<longrightarrow> 1 \<le> number \<and> number \<le> MaxParts \<and> (\<exists>u rev.
       upload_at (c_meta c) (view (w_kv w)) i = Some u \<and>
       kv_lookup (view (w_kv w')) (partKey (c_meta c) i (nat number)) = Some \<lparr>kd_Value = SManifest m, kd_ModRev = rev\<rparr> \<and>
       sums_up m (rdata body) \<and> m_ETag m = hex_encode (md5 (rdata body)) \<and>
       writes c (up_Key u) pre (rdata body) (w_disks w') m))"
proof (intro conjI allI impI)
  show "committed (c_meta c) (view (w_kv w')) = committed (c_meta c) (view (w_kv w))"
    using UploadPart_committed[OF assms(1), of c w i number body opts pre] assms(5) by simp
  fix m assume "r = Inr m"
  then obtain kv1 u w1 writing kv2 where ok: "1 \<le> number" "number \<le> MaxParts"
    "meta_Upload (sy_etcd X) (c_meta c) (w_kv w) i = (kv1, Inr u)"
    "cluster_write X c (w\<lparr>w_kv := kv1\<rparr>) (up_Key u) body (po_Size opts) pre = (w1, Inr (m, writing))"
    "commit_part X c (w_kv w1) i number m writing = (kv2, None)"
    "w' = stopWriting X c (w1\<lparr>w_kv := kv2\<rparr>) writing"
    using UploadPart_ok[of X c w i number body opts pre w' m] assms(5) by metis
  show "1 \<le> number" "number \<le> MaxParts" using ok by simp_all
  note wr = cluster_write_ok[OF assms(2-4) ok(4), where view = view]
  have D: "w_disks w' = w_disks w1" using ok(6) by (simp add: stopWriting_def)
  have "upload_at (c_meta c) (view (w_kv w)) i = Some u"
    using etcd_client.meta_Upload_ok(2)[OF assms(1) ok(3) refl] .
  moreover have "sums_up m (rdata body)" using wr by (simp add: sums_up_def writes_def)
  moreover have "kv_lookup (view (w_kv w')) (partKey (c_meta c) i (nat number)) =
      Some \<lparr>kd_Value = SManifest m, kd_ModRev = kvs_Rev (view (w_kv w1)) + 1\<rparr>"
    using commit_part_ok(2)[OF assms(1) ok(5) refl] stopWriting_parts[OF assms(1)] ok(6) by simp
  ultimately show "\<exists>u rev. upload_at (c_meta c) (view (w_kv w)) i = Some u \<and>
       kv_lookup (view (w_kv w')) (partKey (c_meta c) i (nat number)) = Some \<lparr>kd_Value = SManifest m, kd_ModRev = rev\<rparr> \<and>
       sums_up m (rdata body) \<and> m_ETag m = hex_encode (md5 (rdata body)) \<and>
       writes c (up_Key u) pre (rdata body) (w_disks w') m"
    using wr D by auto
qed

text \<open>
  C23. Completing an upload commits exactly the concatenation of the parts it names.  When
  \<^verbatim>\<open>CompleteUpload\<close> of an upload that is in flight returns a manifest, that manifest is committed under
  the upload's key and nothing else changed; the parts named exist, are in ascending order and are
  the ones whose ETags the client gave; the manifest's chunks are the parts' chunks in that order, on
  the nodes and in the coding all the parts agree on; and if every stored part has the size, ETag and
  checksums of its body, the object's size and all three checksums are those of the concatenated
  bodies, computed without reading them, and its ETag is the MD5 of the parts' MD5s.
\<close>

theorem CompleteUpload_assembles:
  assumes "etcd_client (sy_etcd X) view"
    and "CompleteUpload X c w i ps c32c c64 c32 = (w', Inr m)"
    and "upload_at (c_meta c) (view (w_kv w)) i = Some u"
    and "\<And>n mn. map_of (parts_at (c_meta c) (view (w_kv w)) i) n = Some mn \<Longrightarrow>
      1 \<le> n \<and> n \<le> MaxParts \<and> sums_up mn (body n) \<and> m_ETag mn = hex_encode (md5 (body n))"
  shows "committed (c_meta c) (view (w_kv w')) = (committed (c_meta c) (view (w_kv w)))(up_Key u \<mapsto> m) \<and>
    sorted_wrt (<) (map cq_Number ps) \<and>
    (\<forall>p \<in> set ps. \<exists>mp. map_of (parts_at (c_meta c) (view (w_kv w)) i) (cq_Number p) = Some mp \<and>
       trim_quotes (cq_ETag p) \<in> {'''', m_ETag mp} \<and> m_Nodes mp = m_Nodes m \<and> m_Coding mp = m_Coding m) \<and>
    m_Chunks m = concat (map (m_Chunks \<circ> part_of (parts_at (c_meta c) (view (w_kv w)) i)) ps) \<and>
    sums_up m (concat (map (body \<circ> cq_Number) ps)) \<and>
    m_ETag m = hex_encode (md5 (concat (map (md5 \<circ> body \<circ> cq_Number) ps))) @ ''-'' @ fmt_d (length ps)"
proof -
  let ?stored = "parts_at (c_meta c) (view (w_kv w)) i"
  let ?z = "zero_manifest\<lparr>m_ContentType := up_ContentType u, m_Meta := up_Meta u\<rparr>"
  have "assemble u ?stored (ev_now (sy_env X)) ps c32c c64 c32 = Inr m \<and>
    committed (c_meta c) (view (w_kv w')) = (committed (c_meta c) (view (w_kv w)))(up_Key u \<mapsto> m)"
    by (rule etcd_client.CompleteUpload_cases[OF assms(1,2) refl]) (use assms(3) in auto)
  then have run: "assemble u ?stored (ev_now (sy_env X)) ps c32c c64 c32 = Inr m"
    and com: "committed (c_meta c) (view (w_kv w')) = (committed (c_meta c) (view (w_kv w)))(up_Key u \<mapsto> m)" by blast+
  obtain final sums where f: "ps \<noteq> []" "parts_sorted ps" "complete_parts ?stored 0 None ps ?z [] = Inr (final, sums)"
    "m = final\<lparr>m_ETag := hex_encode (md5 sums) @ ''-'' @ fmt_d (length ps), m_Modified := truncate_second (ev_now (sy_env X))\<rparr>"
    using assemble_ok[OF run] by metis
  note k = complete_parts_ok[OF f(3)]
  have s: "sums = concat (map (md5 \<circ> body \<circ> cq_Number) ps) \<and> sums_up final (concat (map (body \<circ> cq_Number) ps))"
    using complete_parts_sums[OF _ f(3), of body "[]"] assms(4) f(1) by (simp add: zero_manifest_def)
  have "sorted_wrt (<) (map cq_Number ps)"
    using parts_ascend[OF f(2)] complete_parts_apart[OF f(3)] k assms(4) by fastforce
  moreover have "\<exists>mp. map_of ?stored (cq_Number p) = Some mp \<and>
       trim_quotes (cq_ETag p) \<in> {'''', m_ETag mp} \<and> m_Nodes mp = m_Nodes m \<and> m_Coding mp = m_Coding m" if "p \<in> set ps" for p
  proof -
    have kp: "map_of ?stored (cq_Number p) \<noteq> None"
      "trim_quotes (cq_ETag p) \<noteq> '''' \<longrightarrow> trim_quotes (cq_ETag p) = m_ETag (part_of ?stored p)"
      "m_Nodes (part_of ?stored p) = m_Nodes final" "m_Coding (part_of ?stored p) = m_Coding final"
      using k that by blast+
    then show ?thesis using f(4) by (auto simp: part_of_def)
  qed
  ultimately show ?thesis using com k s f(4) by (auto simp: sums_up_def zero_manifest_def)
qed

text \<open>
  A completion that is refused changes no object: when \<^verbatim>\<open>CompleteUpload\<close> returns an error, what is
  committed under every key is as it was, except that an error of etcd itself may hide a commit that
  landed, and then the manifest under the upload's key is the assembled one.
\<close>

theorem CompleteUpload_refused:
  assumes "etcd_client (sy_etcd X) view"
    and "CompleteUpload X c w i ps c32c c64 c32 = (w', Inl e)"
  shows "committed (c_meta c) (view (w_kv w')) = committed (c_meta c) (view (w_kv w)) \<or>
    (\<exists>u m msg. e = [Other msg] \<and> upload_at (c_meta c) (view (w_kv w)) i = Some u \<and>
      assemble u (parts_at (c_meta c) (view (w_kv w)) i) (ev_now (sy_env X)) ps c32c c64 c32 = Inr m \<and>
      committed (c_meta c) (view (w_kv w')) = (committed (c_meta c) (view (w_kv w)))(up_Key u \<mapsto> m))"
  by (rule etcd_client.CompleteUpload_cases[OF assms refl]) auto

text \<open>
  C24. \<^verbatim>\<open>CopyPart\<close> can acknowledge a truncated part.  If reading the source range fails with an error
  that wraps \<^verbatim>\<open>io.ErrUnexpectedEOF\<close>, which is what a peer's connection that breaks off in the middle of
  a chunk gives, the part is written from the bytes delivered so far and recorded as a complete part,
  strictly shorter than the range asked for, and no error is returned: \<^verbatim>\<open>object.Write\<close> takes that error
  for the end of the body, and the length asked for is only a hint for its buffer.
\<close>

theorem CopyPart_truncates:
  assumes "etcd_client (sy_etcd X) view" and "etcd_up (sy_etcd X)" and "good_prefix pre"
    and "c_scheme c = zero_scheme" and "coord_wf c" and "0 < c_chunkSize c"
    and "upload_at (c_meta c) (view (w_kv w)) i = Some u" and "1 \<le> number" and "number \<le> MaxParts"
    and "c_quorum c \<le> int (length (filter (healthy X c (c_live c)) (Owners (mb_ring (c_live c)) (PartitionFor (up_Key u)) (width c))))"
    and "addresses_right X c (c_live c)" and "0 < bs" and "in_i64 off" and "0 < len" and "in_i64 len"
    and "\<forall>ref \<in> set (m_Chunks src). 0 \<le> cr_Size ref"
    and "StreamRange X c bs w src \<lparr>sk_data = [], sk_room = nat len\<rparr> off len = (out, Some e)"
    and "errors_Is e ErrUnexpectedEOF"
  shows "\<exists>w' m. CopyPart X c bs w i number src off len zero_options pre = (w', Inr m) \<and>
    m_Size m = int (length (sk_data out)) \<and> m_Size m < len"
proof -
  let ?body = "\<lparr>rdata = sk_data out, rerr = Some e\<rparr>" and ?opts = "zero_options\<lparr>po_Size := len\<rparr>"
  have clean: "source_error ?body = None" using assms(18) by (simp add: source_error_def)
  have checks: "part_checks m ?opts = None" for m
    by (simp add: part_checks_def zero_options_def checkCRC32C_def checkCRC32_def checkCRC64NVME_def check_declared_def)
  obtain w' m where m: "UploadPart X c w i number ?body ?opts pre = (w', Inr m)" "m_Size m = int (length (sk_data out))"
    using UploadPart_up[OF assms(1-10) clean assms(11), of ?opts thesis] checks by fastforce
  have "int (length (sk_data out)) < len"
    using ReadRange_fails_short[OF assms(12,13,15,16) assms(17)[unfolded StreamRange_def]] assms(14) by simp
  then show ?thesis using m assms(17) by (simp add: CopyPart_def)
qed

section \<open>An upload in flight\<close>

definition flight_upload :: upload where
  "flight_upload = \<lparr>up_Key = ''a'', up_ContentType = '''', up_Created = 1, up_Meta = []\<rparr>"

definition flight_kvs :: kvs where
  "flight_kvs = \<lparr>kvs_Rev = 2, kvs_Keys = [(uploadKey example_meta ''U'', \<lparr>kd_Value = SUpload flight_upload, kd_ModRev = 2\<rparr>)]\<rparr>"

definition flight_world :: "kvs world" where
  "flight_world = \<lparr>w_disks = \<lambda>_. fresh_store, w_kv = flight_kvs\<rparr>"

lemma flight_at: "upload_at (c_meta example_coord) (w_kv flight_world) ''U'' = Some flight_upload"
  by (simp add: upload_at_def flight_world_def flight_kvs_def kv_lookup_def)

lemma zero_part_checks: "part_checks m zero_options = None"
  by (simp add: part_checks_def zero_options_def checkCRC32C_def checkCRC32_def checkCRC64NVME_def check_declared_def)

theorem UploadPart_recorded_witness:
  "\<exists>w' m. UploadPart example_sys example_coord flight_world ''U'' 1 (bytes_NewReader [1, 2, 3]) zero_options ''AB'' = (w', Inr m) \<and>
    m_Size m = 3 \<and> kv_lookup (w_kv w') (partKey example_meta ''U'' 1) \<noteq> None"
proof -
  have n: "1 \<le> (1 :: int)" "1 \<le> MaxParts" by (simp_all add: MaxParts_def)
  obtain w' m where p: "UploadPart example_sys example_coord flight_world ''U'' 1 (bytes_NewReader [1, 2, 3]) zero_options ''AB'' = (w', Inr m)"
    using UploadPart_up[OF example_etcd example_prefix example_coord_simps(3) example_coord_wf example_chunk flight_at n
        example_quorum example_clean example_addresses zero_part_checks] by blast
  from UploadPart_recorded[OF example_etcd(1) example_addresses example_chunk example_coord_wf p] p show ?thesis
    by (auto simp: sums_up_def)
qed

section \<open>A connection that breaks off\<close>

definition torn_sys :: "kvs sys" where
  "torn_sys = example_sys\<lparr>sy_env := example_env\<lparr>ev_down := \<lambda>_ _ r. \<lparr>rdata = take 1 (rdata r), rerr = Some [ErrUnexpectedEOF]\<rparr>\<rparr>\<rparr>"

definition torn_manifest :: manifest where
  "torn_manifest = zero_manifest\<lparr>m_Size := 2, m_Nodes := [''n2''],
     m_Chunks := [\<lparr>cr_ID = ''AB000000'', cr_Size = 2, cr_CRC = 0, cr_Shards = []\<rparr>]\<rparr>"

definition torn_world :: "kvs world" where
  "torn_world = \<lparr>w_disks = \<lambda>_. holding [(''AB000000'', [1, 2])], w_kv = flight_kvs\<rparr>"

lemma torn_stream:
  "StreamRange torn_sys example_coord 2 torn_world torn_manifest \<lparr>sk_data = [], sk_room = nat 2\<rparr> 0 2 =
    (\<lparr>sk_data = [], sk_room = 2\<rparr>, Some [ErrUnexpectedEOF])"
proof -
  have ok: "validateID ''AB000000'' = None" by code_simp
  have "cluster_chunk torn_sys example_coord (w_disks torn_world) torn_manifest
      \<lparr>cr_ID = ''AB000000'', cr_Size = 2, cr_CRC = 0, cr_Shards = []\<rparr> = Inr \<lparr>rdata = [1], rerr = Some [ErrUnexpectedEOF]\<rparr>"
    by (simp add: cluster_chunk_def torn_manifest_def zero_manifest_def cluster_fetch_def localFirst_def fetch_from_def Let_def
        readAddr_def addr_of_def FetchChunk_def getChunk_def ReadChunk_def Verify_def ok torn_world_def torn_sys_def
        example_sys_def example_env_def no_faults_def)
  then show ?thesis
    by (simp add: StreamRange_def ReadRange_def read_eval torn_manifest_def[THEN arg_cong[where f = m_Chunks], simplified]
      torn_manifest_def[THEN arg_cong[where f = m_Size], simplified] in_i64_def short_error_def)
qed

lemma torn_healthy: "healthy torn_sys c live ow = healthy example_sys c live ow"
  by (simp add: healthy_def torn_sys_def example_sys_def)

theorem CopyPart_truncates_witness:
  "\<exists>w' m. CopyPart torn_sys example_coord 2 torn_world ''U'' 1 torn_manifest 0 2 zero_options ''AB'' = (w', Inr m) \<and> m_Size m = 0"
proof -
  have e: "etcd_client (sy_etcd torn_sys) (\<lambda>s. s)" "etcd_up (sy_etcd torn_sys)"
    using example_etcd by (simp_all add: torn_sys_def)
  have a: "addresses_right torn_sys example_coord (c_live example_coord)"
    using example_addresses by (simp add: addresses_right_def torn_sys_def example_sys_def)
  have at: "upload_at (c_meta example_coord) (w_kv torn_world) ''U'' = Some flight_upload"
    using flight_at by (simp add: flight_world_def torn_world_def)
  have q: "c_quorum example_coord \<le> int (length (filter (healthy torn_sys example_coord (c_live example_coord))
     (Owners (mb_ring (c_live example_coord)) (PartitionFor (up_Key flight_upload)) (width example_coord))))"
    unfolding torn_healthy by (rule example_quorum)
  have n: "1 \<le> (1 :: int)" "1 \<le> MaxParts" "0 < (2 :: nat)" "in_i64 0" "0 < (2 :: int)" "in_i64 2"
    "\<forall>ref \<in> set (m_Chunks torn_manifest). 0 \<le> cr_Size ref" "errors_Is [ErrUnexpectedEOF] ErrUnexpectedEOF"
    by (simp_all add: MaxParts_def in_i64_def torn_manifest_def errors_Is_def)
  from CopyPart_truncates[OF e example_prefix example_coord_simps(3) example_coord_wf example_chunk at n(1,2) q a n(3-7) torn_stream n(8)]
  show ?thesis by auto
qed

section \<open>Two parts\<close>

definition small_part :: "byte \<Rightarrow> manifest" where
  "small_part b = zero_manifest\<lparr>m_Size := 1, m_Nodes := [''n1''], m_ETag := hex_encode (md5 [b]), m_CRC32C := Some (CRC32C [b]),
     m_CRC32 := Some (CRC32 [b]), m_CRC64NVME := Some (CRC64NVME [b]),
     m_Chunks := [\<lparr>cr_ID = ''AB000000'', cr_Size = 1, cr_CRC = CRC32C [b], cr_Shards = []\<rparr>]\<rparr>"

definition parts_kvs :: kvs where
  "parts_kvs = \<lparr>kvs_Rev = 4, kvs_Keys =
     [(''kavo/uploads/U/upload'', \<lparr>kd_Value = SUpload flight_upload, kd_ModRev = 2\<rparr>),
      (''kavo/uploads/U/parts/00001'', \<lparr>kd_Value = SManifest (small_part 7), kd_ModRev = 3\<rparr>),
      (''kavo/uploads/U/parts/00002'', \<lparr>kd_Value = SManifest (small_part 8), kd_ModRev = 4\<rparr>)]\<rparr>"

definition parts_world :: "kvs world" where
  "parts_world = \<lparr>w_disks = \<lambda>_. fresh_store, w_kv = parts_kvs\<rparr>"

definition named_parts :: "completed_part list" where
  "named_parts = [\<lparr>cq_Number = 1, cq_ETag = ''''\<rparr>, \<lparr>cq_Number = 2, cq_ETag = ''''\<rparr>]"

lemma decode_two: "decode_all decode_part (kv_select parts_kvs (\<lambda>x. HasPrefix x (uploadPrefix example_meta ''U'' @ ''parts/''))) =
    Inr [(1, small_part 7), (2, small_part 8)]"
proof -
  have sel: "kv_select parts_kvs (\<lambda>x. HasPrefix x (uploadPrefix example_meta ''U'' @ ''parts/'')) =
     [(''kavo/uploads/U/parts/00001'', \<lparr>kd_Value = SManifest (small_part 7), kd_ModRev = 3\<rparr>),
      (''kavo/uploads/U/parts/00002'', \<lparr>kd_Value = SManifest (small_part 8), kd_ModRev = 4\<rparr>)]"
    by (simp add: kv_select_def parts_kvs_def HasPrefix_def uploadPrefix_def join_def example_meta_def)
  have num: "Atoi (path_Base ''kavo/uploads/U/parts/00001'') = Some 1" "Atoi (path_Base ''kavo/uploads/U/parts/00002'') = Some 2"
    by code_simp+
  show ?thesis unfolding sel by (simp add: num)
qed

lemma parts_at_two: "parts_at example_meta parts_kvs ''U'' = [(1, small_part 7), (2, small_part 8)]"
  by (simp add: parts_at_def decode_two)

lemma upload_two: "upload_at example_meta parts_kvs ''U'' = Some flight_upload"
  by (simp add: upload_at_def parts_kvs_def kv_lookup_def uploadKey_def uploadPrefix_def join_def example_meta_def)

lemma assemble_two: "\<exists>m. assemble flight_upload [(1, small_part 7), (2, small_part 8)] 5 named_parts None None None = Inr m"
proof -
  have s: "parts_sorted named_parts" by code_simp
  let ?f = "zero_manifest\<lparr>m_ContentType := up_ContentType flight_upload, m_Meta := up_Meta flight_upload\<rparr>"
  have "\<exists>r. complete_parts [(1, small_part 7), (2, small_part 8)] 0 None named_parts ?f [] = Inr r"
    by (simp add: named_parts_def trim_quotes_def small_part_def hex_roundtrip add_part_def)
  then obtain m sums where "complete_parts [(1, small_part 7), (2, small_part 8)] 0 None named_parts ?f [] = Inr (m, sums)"
    by auto
  moreover have "named_parts \<noteq> []" by (simp add: named_parts_def)
  ultimately show ?thesis using s by (simp add: assemble_def bad_total_def)
qed

lemma complete_two:
  "\<exists>w' m. CompleteUpload example_sys example_coord parts_world ''U'' named_parts None None None = (w', Inr m)"
proof -
  obtain m where m: "assemble flight_upload [(1, small_part 7), (2, small_part 8)] 5 named_parts None None None = Inr m"
    using assemble_two by blast
  obtain kv1 where u: "meta_Upload (sy_etcd example_sys) example_meta parts_kvs ''U'' = (kv1, Inr flight_upload)"
    using meta_Upload_up[OF example_etcd, of example_coord parts_kvs "''U''" flight_upload] upload_two by auto
  have v1: "kv1 = parts_kvs" using etcd_client.meta_Upload_ok(1)[OF example_etcd(1) u] .
  have p: "Parts (sy_etcd example_sys) example_meta parts_kvs ''U'' = (parts_kvs, Inr [(1, small_part 7), (2, small_part 8)])"
    by (simp add: Parts_def et_kvs_def example_sys_def mem_etcd_def decode_two)
  obtain kv3 where c: "meta_Commit (sy_etcd example_sys) example_meta parts_kvs (up_Key flight_upload) m = (kv3, None)"
    using et_unit_up[OF example_etcd(2)] by (metis meta_Commit_def prod.collapse)
  show ?thesis using u v1 p m c
    by (simp add: CompleteUpload_def Let_def parts_world_def example_sys_def[THEN arg_cong[where f = sy_env], simplified]
        example_env_def[THEN arg_cong[where f = ev_now], simplified])
qed

theorem CompleteUpload_assembles_witness:
  "\<exists>w' m. CompleteUpload example_sys example_coord parts_world ''U'' named_parts None None None = (w', Inr m) \<and>
    committed example_meta (w_kv w') ''a'' = Some m \<and> m_CRC32C m = Some (CRC32C [7, 8])"
proof -
  obtain w' m where r: "CompleteUpload example_sys example_coord parts_world ''U'' named_parts None None None = (w', Inr m)"
    using complete_two by blast
  have u: "upload_at (c_meta example_coord) (w_kv parts_world) ''U'' = Some flight_upload"
    using upload_two by (simp add: parts_world_def)
  let ?body = "\<lambda>n :: int. if n = 1 then [7] else [8 :: byte]"
  have s: "1 \<le> n \<and> n \<le> MaxParts \<and> sums_up mn (?body n) \<and> m_ETag mn = hex_encode (md5 (?body n))"
    if "map_of (parts_at (c_meta example_coord) (w_kv parts_world) ''U'') n = Some mn" for n mn
    using that by (auto simp: parts_world_def parts_at_two sums_up_def small_part_def MaxParts_def split: if_splits)
  from CompleteUpload_assembles[OF example_etcd(1) r u s] r show ?thesis
    by (auto simp: sums_up_def named_parts_def flight_upload_def)
qed

theorem CompleteUpload_refused_witness:
  "\<exists>w' e. CompleteUpload example_sys example_coord parts_world ''U'' [] None None None = (w', Inl e) \<and>
    committed example_meta (w_kv w') = committed example_meta (w_kv parts_world)"
proof -
  obtain w' r where run: "CompleteUpload example_sys example_coord parts_world ''U'' [] None None None = (w', r)" by fastforce
  have "r \<noteq> Inr m" for m
  proof
    assume "r = Inr m"
    then have "upload_at example_meta parts_kvs ''U'' = None \<or> assemble flight_upload (parts_at example_meta parts_kvs ''U'') 5 [] None None None = Inr m"
      using etcd_client.CompleteUpload_cases[OF example_etcd(1) run refl] upload_two
      by (auto simp: parts_world_def example_sys_def example_env_def)
    then show False using upload_two by (simp add: assemble_def)
  qed
  then obtain e where e: "r = Inl e" by (cases r) auto
  from CompleteUpload_refused[OF example_etcd(1) run[unfolded e]] show ?thesis
    using run e by (auto simp: assemble_def)
qed

end
