(* ===== verification/Sigv4.thy ===== *)
theory Sigv4
  imports Chunked Multipart
begin

text \<open>
  The rest of \<^verbatim>\<open>internal/sigv4/sigv4.go\<close>: the body a verified request is left with, and \<^verbatim>\<open>Verify\<close>
  itself.  A body is the bytes it yields and the error it ends with, so a reader that checks at the
  end of the body is a function on bodies.
\<close>

section \<open>Bodies\<close>

text \<open>
  \<^verbatim>\<open>hashChecker\<close>: every byte is hashed on its way through, and an end of file is passed on only if
  the hash is the declared one.
\<close>

definition hashChecker :: "bytes \<Rightarrow> reader \<Rightarrow> reader" where
  "hashChecker want r =
     (if errors_Is (end_error r) EOF \<and> sha256 (rdata r) \<noteq> want then r\<lparr>rerr := Some [ErrPayload]\<rparr> else r)"

definition verifiedBody ::
  "time_lib \<Rightarrow> (nat \<Rightarrow> nat \<times> nat) \<Rightarrow> request \<Rightarrow> string \<Rightarrow> string \<Rightarrow> int \<Rightarrow> string \<Rightarrow> bytes \<Rightarrow>
    error + reader \<times> multimap \<times> int" where
  "verifiedBody T ks r payload seed signedAt scope key =
     (if payload \<in> {streaming, streamingTrl, unsignedTrl} then
        (case ParseInt 10 (h_Get (rq_Header r) ''x-amz-decoded-content-length'') of
           None \<Rightarrow> Inl [ErrMalformed]
         | Some sz \<Rightarrow>
             (let signer = (if payload = unsignedTrl then None
                            else Some \<lparr>sg_key = key, sg_date = signedAt, sg_scope = scope, sg_prev = seed\<rparr>)
              in case chunked_body T ks (rq_Body r) signer of (body, trailers) \<Rightarrow> Inr (body, trailers, sz)))
      else if payload = unsigned_payload \<or> payload = '''' then Inr (rq_Body r, [], rq_ContentLength r)
      else (case hex_DecodeString payload of
          None \<Rightarrow> Inl [ErrMalformed]
        | Some want \<Rightarrow>
            if length want \<noteq> 32 then Inl [ErrMalformed]
            else Inr (hashChecker want (rq_Body r), [], rq_ContentLength r)))"

section \<open>Verification\<close>

definition sigv4_Verify ::
  "time_lib \<Rightarrow> (nat \<Rightarrow> nat \<times> nat) \<Rightarrow> credentials \<Rightarrow> int \<Rightarrow> request \<Rightarrow> error + request" where
  "sigv4_Verify T ks creds now r = (case parseAuthorization (h_Get (rq_Header r) ''Authorization'') of
      Inl e \<Rightarrow> Inl e
    | Inr auth \<Rightarrow>
        if au_accessKey auth \<noteq> cd_AccessKey creds then Inl [ErrUnknownKey]
        else (case requestTime T r of
            Inl e \<Rightarrow> Inl e
          | Inr signedAt \<Rightarrow>
              (let skew = now - signedAt in
               if skew > MaxSkew \<or> skew < - MaxSkew then Inl [ErrSkew]
               else if au_date auth \<noteq> tl_Format T ''20060102'' signedAt then Inl [ErrMalformed]
               else if au_service auth \<noteq> ''s3'' then Inl [ErrMalformed]
               else
                 (let payload = h_Get (rq_Header r) ''x-amz-content-sha256'' in
                  case canonicalRequest r (au_signedHeaders auth) payload of
                    Inl e \<Rightarrow> Inl e
                  | Inr canonical \<Rightarrow>
                      (let key = signingKey (cd_SecretKey creds) (au_date auth) (au_region auth) (au_service auth);
                           signature = sign key (stringToSign T signedAt (auth_scope auth)
                             (sha256hex (bytes_of_string canonical)))
                       in if signature \<noteq> au_signature auth then Inl [ErrMismatch]
                          else (case verifiedBody T ks r payload signature signedAt (auth_scope auth) key of
                              Inl e \<Rightarrow> Inl e
                            | Inr (body, trailers, sz) \<Rightarrow>
                                Inr (r\<lparr>rq_Body := body, rq_Trailers := trailers, rq_ContentLength := sz\<rparr>)))))))"

section \<open>What verification establishes\<close>

lemma parseAuthorization_host:
  "parseAuthorization h = Inr a \<Longrightarrow> ''host'' \<in> set (au_signedHeaders a) \<and> au_signature a \<noteq> ''''"
  by (auto simp: parseAuthorization_def Let_def split: option.splits sum.splits if_splits prod.splits)

text \<open>The facts behind an accepted request.\<close>

lemma Verify_Inr:
  assumes "sigv4_Verify T ks creds now r = Inr r'"
  obtains auth signedAt canonical body trailers sz where
    "parseAuthorization (h_Get (rq_Header r) ''Authorization'') = Inr auth"
    "au_accessKey auth = cd_AccessKey creds" "requestTime T r = Inr signedAt" "\<bar>now - signedAt\<bar> \<le> MaxSkew"
    "au_service auth = ''s3''"
    "canonicalRequest r (au_signedHeaders auth) (h_Get (rq_Header r) ''x-amz-content-sha256'') = Inr canonical"
    "au_signature auth = sign (signingKey (cd_SecretKey creds) (au_date auth) (au_region auth) ''s3'')
       (stringToSign T signedAt (auth_scope auth) (sha256hex (bytes_of_string canonical)))"
    "verifiedBody T ks r (h_Get (rq_Header r) ''x-amz-content-sha256'') (au_signature auth) signedAt (auth_scope auth)
       (signingKey (cd_SecretKey creds) (au_date auth) (au_region auth) ''s3'') = Inr (body, trailers, sz)"
    "r' = r\<lparr>rq_Body := body, rq_Trailers := trailers, rq_ContentLength := sz\<rparr>"
  using assms
  by (auto simp: sigv4_Verify_def Let_def abs_le_iff split: sum.splits if_splits prod.splits)

definition authentic_body :: "time_lib \<Rightarrow> chunk_signer \<Rightarrow> string \<Rightarrow> bytes \<Rightarrow> bool" where
  "authentic_body T s payload data \<longleftrightarrow>
     (if payload \<in> {streaming, streamingTrl}
      then \<exists>ds sigs. data = concat ds \<and> [] \<notin> set ds \<and> signed_chain T s (ds @ [[]]) sigs
      else payload \<in> {unsignedTrl, unsigned_payload, ''''} \<or> hex_DecodeString payload = Some (sha256 data))"

lemma chunked_signed_chain:
  assumes "chunked_body T ks body (Some s) = (r, hs)" and "rerr r = None"
  shows "\<exists>ds sigs. rdata r = concat ds \<and> [] \<notin> set ds \<and> signed_chain T s (ds @ [[]]) sigs"
proof -
  obtain p where "chunk_body T (newChunkedReader body (Some s)) = (p, [EOF], hs)" "rdata r = p"
    using assms by (auto simp: chunked_body_eq split: prod.splits if_splits)
  then show ?thesis using chunk_body_signed[of T "newChunkedReader body (Some s)" p hs s]
    by (auto simp: newChunkedReader_def)
qed

lemma verifiedBody_authentic:
  assumes "verifiedBody T ks r payload seed t scope key = Inr (body, trailers, sz)" and "rerr body = None"
  shows "authentic_body T \<lparr>sg_key = key, sg_date = t, sg_scope = scope, sg_prev = seed\<rparr> payload (rdata body)"
proof (cases "payload \<in> {streaming, streamingTrl}")
  case True
  moreover have "payload \<noteq> unsignedTrl" using True by (auto simp: streaming_def streamingTrl_def unsignedTrl_def)
  ultimately have "chunked_body T ks (rq_Body r) (Some \<lparr>sg_key = key, sg_date = t, sg_scope = scope, sg_prev = seed\<rparr>) = (body, trailers)"
    using assms(1) by (auto simp: verifiedBody_def Let_def split: option.splits prod.splits)
  from chunked_signed_chain[OF this assms(2)] show ?thesis using True by (simp add: authentic_body_def)
next
  case False
  show ?thesis
  proof (cases "payload \<in> {unsignedTrl, unsigned_payload, ''''}")
    case False2: False
    then obtain want where w: "hex_DecodeString payload = Some want" "body = hashChecker want (rq_Body r)"
      using assms(1) False by (auto simp: verifiedBody_def split: option.splits if_splits)
    then have "sha256 (rdata body) = want"
      using assms(2) by (auto simp: hashChecker_def end_error_def errors_Is_def split: if_splits option.splits)
    then show ?thesis using w False False2 by (simp add: authentic_body_def)
  qed (use False in \<open>simp add: authentic_body_def\<close>)
qed


section \<open>A signed request\<close>

text \<open>A request as a client signs it, for a host, a date and a body in the clear.\<close>

definition demo_creds :: credentials where
  "demo_creds = \<lparr>cd_AccessKey = ''AK'', cd_SecretKey = ''SK''\<rparr>"

definition demo_auth :: authorization where
  "demo_auth = \<lparr>au_accessKey = ''AK'', au_date = ''20250101'', au_region = ''r'', au_service = ''s3'',
     au_signedHeaders = [''host''], au_signature = ''''\<rparr>"

definition authorization_header :: "string \<Rightarrow> string" where
  "authorization_header sig =
     ''AWS4-HMAC-SHA256 Credential=AK/20250101/r/s3/aws4_request, SignedHeaders=host, Signature='' @ sig"

definition signature_of :: "request \<Rightarrow> string" where
  "signature_of r = sign (signingKey ''SK'' ''20250101'' ''r'' ''s3'')
     (stringToSign stub_time 0 (auth_scope demo_auth)
        (sha256hex (bytes_of_string (projr (canonicalRequest r [''host''] (h_Get (rq_Header r) ''x-amz-content-sha256''))))))"

definition sign_request :: "request \<Rightarrow> request" where
  "sign_request r = r\<lparr>rq_Header := (''Authorization'', [authorization_header (signature_of r)])
     # (''X-Amz-Date'', [''20250101T000000Z'']) # rq_Header r\<rparr>"

lemma TrimSpace_indent: "\<forall>c \<in> set s. printable c \<Longrightarrow> TrimSpace (CHR '' '' # s) = s"
proof -
  assume s: "\<forall>c \<in> set s. printable c"
  have "lead_space (CHR '' '' # s) = Some '' ''" by (simp add: lead_space_def white_def HasPrefix_def)
  then show ?thesis using TrimSpace_printable[OF s] s
    by (simp add: TrimSpace_def TrimLeftSpace.simps[of "CHR '' '' # s"] TrimLeftSpace.simps[of s] lead_space_printable)
qed

lemma hex_encode_clean:
  assumes "c \<in> set (hex_encode bs)"
  shows "c \<noteq> CHR '','' \<and> printable c"
proof -
  obtain d where d: "d < 16" "c = digit_char d" using assms by (rule hex_encode_digits)
  then show ?thesis using hex_value_digit_char[OF d(1)] printable_digit_char[OF d(1)] by (auto simp: hex_value_def)
qed

lemma parse_authorization_header:
  assumes "\<forall>c \<in> set sig. c \<noteq> CHR '','' \<and> printable c" "sig \<noteq> ''''"
  shows "parseAuthorization (authorization_header sig) = Inr (demo_auth\<lparr>au_signature := sig\<rparr>)"
proof -
  have "CutPrefix (authorization_header sig) (algorithm @ '' '') =
      Some (''Credential=AK/20250101/r/s3/aws4_request, SignedHeaders=host, Signature='' @ sig)"
    by (simp add: CutPrefix_def HasPrefix_def authorization_header_def algorithm_def)
  moreover have "CHR '','' \<notin> set sig" using assms(1) by blast
  then have "Split (CHR '','') (''Credential=AK/20250101/r/s3/aws4_request, SignedHeaders=host, Signature='' @ sig) =
      [''Credential=AK/20250101/r/s3/aws4_request'', '' SignedHeaders=host'', '' Signature='' @ sig]"
    using Split_append[of "CHR '',''" "''Credential=AK/20250101/r/s3/aws4_request''" "'' SignedHeaders=host, Signature='' @ sig"]
      Split_append[of "CHR '',''" "'' SignedHeaders=host''" "'' Signature='' @ sig"] Split_no_sep[of "CHR '',''" "'' Signature='' @ sig"]
    by simp
  moreover have "Cut (TrimSpace ''Credential=AK/20250101/r/s3/aws4_request'') ''='' =
      Some (''Credential'', ''AK/20250101/r/s3/aws4_request'')" by code_simp
  moreover have "Cut (TrimSpace '' SignedHeaders=host'') ''='' = Some (''SignedHeaders'', ''host'')" by code_simp
  moreover have "TrimSpace ('' Signature='' @ sig) = ''Signature='' @ sig"
    using assms(1) TrimSpace_indent[of "''Signature='' @ sig"] by (auto simp: printable_def)
  moreover have "Cut (''Signature='' @ sig) ''='' = Some (''Signature'', sig)"
    using Cut_char[of "CHR ''=''" "''Signature''" sig] by simp
  moreover have "Split (CHR '';'') ''host'' = [''host'']"
      "Split (CHR ''/'') ''AK/20250101/r/s3/aws4_request'' = [''AK'', ''20250101'', ''r'', ''s3'', ''aws4_request'']"
    by simp_all
  ultimately show ?thesis using assms(2)
    by (simp add: parseAuthorization_def auth_field_def no_auth_def demo_auth_def)
qed

lemma canonical_names [simp]:
  "CanonicalHeaderKey ''Authorization'' = ''Authorization''"
  "CanonicalHeaderKey ''x-amz-date'' = ''X-Amz-Date''"
  "CanonicalHeaderKey ''x-amz-content-sha256'' = ''X-Amz-Content-Sha256''"
  "CanonicalHeaderKey ''x-amz-decoded-content-length'' = ''X-Amz-Decoded-Content-Length''"
  by code_simp+

lemma sign_request_header:
  "h_Get (rq_Header (sign_request r)) ''Authorization'' = authorization_header (signature_of r)"
  "h_Get (rq_Header (sign_request r)) ''x-amz-date'' = ''20250101T000000Z''"
  "h_Get (rq_Header (sign_request r)) ''x-amz-content-sha256'' = h_Get (rq_Header r) ''x-amz-content-sha256''"
  "h_Get (rq_Header (sign_request r)) ''x-amz-decoded-content-length'' = h_Get (rq_Header r) ''x-amz-decoded-content-length''"
  by (simp_all add: sign_request_def h_Get_def h_Values_def values_of_def first_value_def)

lemma sign_request_canonical:
  "rq_Host r \<noteq> '''' \<Longrightarrow> canonicalRequest (sign_request r) [''host''] p = canonicalRequest r [''host''] p"
  "rq_Host r \<noteq> '''' \<Longrightarrow> canonicalRequest r [''host''] p = Inr (projr (canonicalRequest r [''host''] p))"
  by (simp_all add: canonicalRequest_def headerValue_def sign_request_def canonicalPath_def canonicalQuery_def)

lemma length_hmacSHA256 [simp]: "length (hmacSHA256 k m) = 32"
  by (simp add: hmacSHA256_def hmac_sha256_def Let_def)

definition demo_signer_of :: "request \<Rightarrow> chunk_signer" where
  "demo_signer_of r = \<lparr>sg_key = signingKey ''SK'' ''20250101'' ''r'' ''s3'', sg_date = 0,
     sg_scope = auth_scope demo_auth, sg_prev = signature_of r\<rparr>"

text \<open>A request signed this way is accepted, with the body its declared payload calls for.\<close>

lemma Verify_sign_request:
  assumes "rq_Host r \<noteq> ''''" "\<bar>now\<bar> \<le> MaxSkew"
  shows "sigv4_Verify stub_time ks demo_creds now (sign_request r) =
    (case verifiedBody stub_time ks (sign_request r) (h_Get (rq_Header r) ''x-amz-content-sha256'') (signature_of r) 0
        (auth_scope demo_auth) (signingKey ''SK'' ''20250101'' ''r'' ''s3'') of
       Inl e \<Rightarrow> Inl e
     | Inr (body, trailers, sz) \<Rightarrow>
         Inr ((sign_request r)\<lparr>rq_Body := body, rq_Trailers := trailers, rq_ContentLength := sz\<rparr>))"
proof -
  let ?p = "h_Get (rq_Header r) ''x-amz-content-sha256''" and ?a = "demo_auth\<lparr>au_signature := signature_of r\<rparr>"
  have "signature_of r \<noteq> []" using length_hex_encode[of "hmacSHA256 k m" for k m] by (auto simp: signature_of_def sign_def simp flip: length_0_conv)
  then have p: "parseAuthorization (authorization_header (signature_of r)) = Inr ?a"
    using hex_encode_clean by (intro parse_authorization_header) (auto simp: signature_of_def sign_def)
  have t: "requestTime stub_time (sign_request r) = Inr 0"
    by (simp add: requestTime_def sign_request_header parseAmzDate_def stub_time_def)
  have sc: "auth_scope ?a = auth_scope demo_auth" by (simp add: auth_scope_def)
  have d: "tl_Format stub_time ''20060102'' 0 = ''20250101''" by (simp add: stub_time_def amz_layout_def)
  obtain s where s: "canonicalRequest r [''host''] ?p = Inr s" using sign_request_canonical(2)[OF assms(1)] by blast
  then have g: "sign (signingKey ''SK'' ''20250101'' ''r'' ''s3'') (stringToSign stub_time 0 (auth_scope demo_auth)
      (sha256hex (bytes_of_string s))) = signature_of r"
    by (simp add: signature_of_def)
  have sel: "au_accessKey ?a = ''AK''" "au_date ?a = ''20250101''" "au_region ?a = ''r''" "au_service ?a = ''s3''"
      "au_signedHeaders ?a = [''host'']" "au_signature ?a = signature_of r" "cd_AccessKey demo_creds = ''AK''"
      "cd_SecretKey demo_creds = ''SK''"
    by (simp_all add: demo_auth_def demo_creds_def)
  have "\<not> (now - 0 > MaxSkew \<or> now - 0 < - MaxSkew)" using assms(2) by (simp add: abs_le_iff)
  then show ?thesis
    unfolding sigv4_Verify_def sign_request_header p t sum.case sel Let_def d sc
    using sign_request_canonical(1)[OF assms(1), of ?p] s g by simp
qed


end
