(* ===== verification/Listing.thy ===== *)
theory Listing
  imports Paging Availability
begin

text \<open>
  Listing a bucket, \<^verbatim>\<open>internal/cluster/list.go\<close>: one page of keys in order, keys that share a prefix
  up to the delimiter collapsed into one row, and the position at which the next page starts.

  The outer loop reads a page of entries at a time until the rows asked for are found or the range
  ends; it has a bound on its rounds, \<open>None\<close> being a loop that is not done yet.
\<close>

section \<open>The listing\<close>

record list_request =
  lr_Prefix :: string
  lr_Delimiter :: string
  lr_From :: string
  lr_Limit :: int

record list_page =
  lp_Objects :: "entry list"
  lp_Prefixes :: "string list"
  lp_Next :: string

definition zero_page :: list_page where
  "zero_page = \<lparr>lp_Objects = [], lp_Prefixes = [], lp_Next = ''''\<rparr>"

definition scanPageSize :: int where
  "scanPageSize = 256"

definition groupOf :: "string \<Rightarrow> string \<Rightarrow> string \<Rightarrow> string option" where
  "groupOf key pre delimiter =
     (if delimiter = '''' then None
      else let rest = TrimPrefix key pre in
           case Index rest delimiter of
             None \<Rightarrow> None
           | Some i \<Rightarrow> Some (pre @ take (i + length delimiter) rest))"

definition page_full :: "list_request \<Rightarrow> list_page \<Rightarrow> bool" where
  "page_full req pg \<longleftrightarrow> int (length (lp_Objects pg) + length (lp_Prefixes pg)) = lr_Limit req"

text \<open>
  The inner loop over the entries read: \<open>Inl\<close> is the page returned from inside it, \<open>Inr\<close> the page and
  the position it ends with.
\<close>

fun list_keys ::
  "list_request \<Rightarrow> entry list \<Rightarrow> string \<Rightarrow> list_page \<Rightarrow> string \<Rightarrow> list_page + list_page \<times> string" where
  "list_keys req [] grp pg frm = Inr (pg, frm)"
| "list_keys req (e # es) grp pg frm =
     (if grp \<noteq> '''' \<and> HasPrefix (en_Key e) grp then list_keys req es grp pg frm
      else if page_full req pg then Inl (pg\<lparr>lp_Next := frm\<rparr>)
      else case groupOf (en_Key e) (lr_Prefix req) (lr_Delimiter req) of
             Some g \<Rightarrow> list_keys req es g (pg\<lparr>lp_Prefixes := lp_Prefixes pg @ [g]\<rparr>) (PastPrefix g)
           | None \<Rightarrow> list_keys req es '''' (pg\<lparr>lp_Objects := lp_Objects pg @ [e]\<rparr>) (After (en_Key e)))"

definition list_want :: "list_request \<Rightarrow> int" where
  "list_want req = (if lr_Delimiter req = '''' then lr_Limit req + 1 else scanPageSize)"

fun list_loop ::
  "nat \<Rightarrow> 's etcd \<Rightarrow> meta \<Rightarrow> list_request \<Rightarrow> list_page \<Rightarrow> string \<Rightarrow> 's \<Rightarrow> ('s \<times> (error + list_page)) option" where
  "list_loop 0 E M req pg frm s = None"
| "list_loop (Suc fuel) E M req pg frm s =
     (case ScanEntries E M s (lr_Prefix req) frm (list_want req) of
        (s', Inl e) \<Rightarrow> Some (s', Inl e)
      | (s', Inr es) \<Rightarrow>
          if es = [] then Some (s', Inr pg)
          else case list_keys req es '''' pg frm of
                 Inl pg' \<Rightarrow> Some (s', Inr pg')
               | Inr (pg', frm') \<Rightarrow>
                   if int (length es) < list_want req \<or> frm' = '''' then Some (s', Inr pg')
                   else list_loop fuel E M req pg' frm' s')"

definition cluster_List ::
  "nat \<Rightarrow> 's sys \<Rightarrow> coord \<Rightarrow> list_request \<Rightarrow> 's \<Rightarrow> ('s \<times> (error + list_page)) option" where
  "cluster_List fuel X c req s =
     (if lr_Limit req \<le> 0 then Some (s, Inr zero_page)
      else list_loop fuel (sy_etcd X) (c_meta c) req zero_page (lr_From req) s)"

section \<open>What a listing is\<close>

text \<open>
  The rows of a listing: every key, or the group it belongs to, with the keys of one group, which are
  next to each other in the order, collapsed to one row.
\<close>

datatype row = Key entry | Group string

definition row_of :: "list_request \<Rightarrow> entry \<Rightarrow> row" where
  "row_of req e = (case groupOf (en_Key e) (lr_Prefix req) (lr_Delimiter req) of
      Some g \<Rightarrow> Group g | None \<Rightarrow> Key e)"

definition listing :: "list_request \<Rightarrow> entry list \<Rightarrow> row list" where
  "listing req es = remdups_adj (map (row_of req) es)"

fun row_entries :: "row list \<Rightarrow> entry list" where
  "row_entries [] = []"
| "row_entries (Key e # rs) = e # row_entries rs"
| "row_entries (Group g # rs) = row_entries rs"

fun row_groups :: "row list \<Rightarrow> string list" where
  "row_groups [] = []"
| "row_groups (Key e # rs) = row_groups rs"
| "row_groups (Group g # rs) = g # row_groups rs"

fun past_row :: "row \<Rightarrow> string" where
  "past_row (Key e) = After (en_Key e)"
| "past_row (Group g) = PastPrefix g"

text \<open>Where the listing goes on after some rows.\<close>

definition resume :: "string \<Rightarrow> row list \<Rightarrow> string" where
  "resume frm rs = (if rs = [] then frm else past_row (last rs))"

section \<open>Groups\<close>

text \<open>The step past a group is exact when the delimiter ends in a byte below \<^verbatim>\<open>0x7f\<close>.\<close>

definition plain_delimiter :: "string \<Rightarrow> bool" where
  "plain_delimiter d \<longleftrightarrow> d = '''' \<or> of_char (last d) < (127 :: nat)"

lemma HasPrefix_trans: "HasPrefix s p \<Longrightarrow> HasPrefix p q \<Longrightarrow> HasPrefix s q"
  unfolding HasPrefix_prefix by (rule prefix_order.trans)

lemma groupOf_shape:
  assumes "groupOf k pre d = Some g" "HasPrefix k pre"
  obtains i where "d \<noteq> ''''" "Index (drop (length pre) k) d = Some i"
    "g = pre @ take (i + length d) (drop (length pre) k)" "i + length d \<le> length (drop (length pre) k)"
    "take (length d) (drop i (drop (length pre) k)) = d"
proof -
  let ?r = "drop (length pre) k"
  obtain i where i: "d \<noteq> ''''" "Index ?r d = Some i" "g = pre @ take (i + length d) ?r"
    using assms by (auto simp: groupOf_def TrimPrefix_def Let_def split: if_splits option.splits)
  from that[OF i] Index_Some[OF i(2)] show thesis by blast
qed

lemma groupOf_HasPrefix:
  assumes "groupOf k pre d = Some g" "HasPrefix k pre"
  shows "HasPrefix k g"
proof -
  obtain i where g: "g = pre @ take (i + length d) (drop (length pre) k)"
    using groupOf_shape[OF assms] .
  have "k = pre @ drop (length pre) k" using assms(2) by (metis HasPrefix_def append_take_drop_id)
  then show ?thesis using g by (metis HasPrefix_prefix same_prefix_prefix take_is_prefix)
qed

lemma groupOf_last:
  assumes "groupOf k pre d = Some g" "HasPrefix k pre" "plain_delimiter d"
  obtains q c where "g = q @ [c]" "of_char c < (127 :: nat)"
proof -
  let ?r = "drop (length pre) k"
  obtain i where i: "d \<noteq> ''''" "g = pre @ take (i + length d) ?r" "take (length d) (drop i ?r) = d"
    using groupOf_shape[OF assms(1,2)] by metis
  have "take (i + length d) ?r = take i ?r @ d" using i(3) by (simp add: take_add)
  then have "g = (pre @ take i ?r @ butlast d) @ [last d]" using i(1,2) by simp
  then show thesis by (rule that) (use assms(3) i(1) in \<open>simp add: plain_delimiter_def\<close>)
qed

lemma Index_same_start:
  "Index s d = Some i \<Longrightarrow> take (i + length d) s' = take (i + length d) s \<Longrightarrow> i + length d \<le> length s' \<Longrightarrow>
    d \<noteq> [] \<Longrightarrow> Index s' d = Some i"
proof (induction s arbitrary: s' i)
  case Nil
  then show ?case by simp
next
  case (Cons c s)
  show ?case
  proof (cases s')
    case Nil
    then show ?thesis using Cons.prems by simp
  next
    case s': (Cons c' t)
    have bound: "i + length d \<le> length (c # s)" using Index_Some[OF Cons.prems(1)] by simp
    have same: "HasPrefix (c' # t) d \<longleftrightarrow> HasPrefix (c # s) d"
    proof -
      have "take (length d) s' = take (length d) (c # s)"
        using arg_cong[OF Cons.prems(2), of "take (length d)"] by (simp add: min_def)
      then show ?thesis using s' by (simp add: HasPrefix_def)
    qed
    show ?thesis
    proof (cases "HasPrefix (c # s) d")
      case True
      then show ?thesis using same s' Cons.prems(1) by simp
    next
      case False
      then obtain j where j: "Index s d = Some j" "i = Suc j" using Cons.prems(1) by auto
      have "Index t d = Some j"
        by (rule Cons.IH[OF j(1)]) (use Cons.prems s' j(2) in auto)
      then show ?thesis using same False s' j(2) by simp
    qed
  qed
qed

lemma groupOf_member:
  assumes "groupOf k pre d = Some g" "HasPrefix k pre" "HasPrefix k' g"
  shows "groupOf k' pre d = Some g"
proof -
  let ?r = "drop (length pre) k"
  obtain i where i: "d \<noteq> ''''" "Index ?r d = Some i" "g = pre @ take (i + length d) ?r" "i + length d \<le> length ?r"
    using groupOf_shape[OF assms(1,2)] by metis
  obtain t where k': "k' = g @ t" using assms(3) by (auto simp: HasPrefix_prefix prefix_def)
  let ?r' = "take (i + length d) ?r @ t"
  have "TrimPrefix k' pre = ?r'" using k' i(3) by simp
  moreover have "Index ?r' d = Some i" by (rule Index_same_start[OF i(2)]) (use i in auto)
  ultimately show ?thesis using i by (simp add: groupOf_def Let_def)
qed

section \<open>Rows in the order they are found\<close>

text \<open>The rows from entries that follow a group already reported.\<close>

fun rows_after :: "list_request \<Rightarrow> string \<Rightarrow> entry list \<Rightarrow> row list" where
  "rows_after req grp [] = []"
| "rows_after req grp (e # es) =
     (if grp \<noteq> '''' \<and> HasPrefix (en_Key e) grp then rows_after req grp es
      else row_of req e # rows_after req
             (case groupOf (en_Key e) (lr_Prefix req) (lr_Delimiter req) of Some g \<Rightarrow> g | None \<Rightarrow> '''') es)"

text \<open>The inner loop appends as many of those rows as there is room for.\<close>

lemma row_entries_append [simp]: "row_entries (xs @ ys) = row_entries xs @ row_entries ys"
  by (induction xs rule: row_entries.induct) simp_all

lemma row_groups_append [simp]: "row_groups (xs @ ys) = row_groups xs @ row_groups ys"
  by (induction xs rule: row_groups.induct) simp_all

definition add_rows :: "list_page \<Rightarrow> row list \<Rightarrow> list_page" where
  "add_rows pg rs = pg\<lparr>lp_Objects := lp_Objects pg @ row_entries rs, lp_Prefixes := lp_Prefixes pg @ row_groups rs\<rparr>"

lemma add_rows_Nil [simp]: "add_rows pg [] = pg"
  by (simp add: add_rows_def)

lemma add_rows_add [simp]: "add_rows (add_rows pg rs) rs' = add_rows pg (rs @ rs')"
  by (simp add: add_rows_def)

definition page_room :: "list_request \<Rightarrow> list_page \<Rightarrow> int" where
  "page_room req pg = lr_Limit req - int (length (lp_Objects pg) + length (lp_Prefixes pg))"

lemma length_rows: "length (row_entries rs) + length (row_groups rs) = length rs"
  by (induction rs rule: row_entries.induct) simp_all

lemma page_room_add: "page_room req (add_rows pg rs) = page_room req pg - int (length rs)"
  using length_rows[of rs] by (simp add: page_room_def add_rows_def)

lemma page_full_room: "page_full req pg \<longleftrightarrow> page_room req pg = 0"
  by (auto simp: page_full_def page_room_def)

lemma resume_Cons: "resume (past_row r) rs = resume frm (r # rs)"
  by (simp add: resume_def)

lemma list_keys_rows:
  assumes "0 \<le> page_room req pg"
  shows "list_keys req es grp pg frm = (let R = rows_after req grp es; n = nat (page_room req pg) in
    if n < length R then Inl ((add_rows pg (take n R))\<lparr>lp_Next := resume frm (take n R)\<rparr>)
    else Inr (add_rows pg R, resume frm R))"
  using assms
proof (induction es arbitrary: grp pg frm)
  case Nil
  then show ?case by (simp add: resume_def)
next
  case (Cons e es)
  show ?case
  proof (cases "grp \<noteq> '''' \<and> HasPrefix (en_Key e) grp")
    case True
    then show ?thesis using Cons by simp
  next
    case out: False
    define g where "g = (case groupOf (en_Key e) (lr_Prefix req) (lr_Delimiter req) of Some g \<Rightarrow> g | None \<Rightarrow> '''')"
    define r where "r = row_of req e"
    have R: "rows_after req grp (e # es) = r # rows_after req g es" using out by (auto simp: r_def g_def)
    show ?thesis
    proof (cases "page_full req pg")
      case True
      then have "list_keys req (e # es) grp pg frm = Inl (pg\<lparr>lp_Next := frm\<rparr>)" using out by auto
      then show ?thesis using True unfolding R by (simp add: page_full_room resume_def)
    next
      case False
      have step: "list_keys req (e # es) grp pg frm = list_keys req es g (add_rows pg [r]) (past_row r)"
        using out False by (auto simp: g_def r_def row_of_def add_rows_def split: option.splits)
      have room: "page_room req pg > 0" using Cons.prems False by (simp add: page_full_room)
      then have room1: "0 \<le> page_room req (add_rows pg [r])" by (simp add: page_room_add)
      have n: "nat (page_room req pg) = Suc (nat (page_room req (add_rows pg [r])))"
        using room by (simp add: page_room_add)
      show ?thesis unfolding step Cons.IH[OF room1] R n
        by (simp add: Let_def resume_Cons[where frm = frm])
    qed
  qed
qed

section \<open>Going on where a page ended\<close>

text \<open>Entries in key order under the prefix of the listing.\<close>

definition in_order :: "list_request \<Rightarrow> entry list \<Rightarrow> bool" where
  "in_order req es \<longleftrightarrow> sorted_wrt (<) (map en_Key es) \<and> (\<forall>e \<in> set es. HasPrefix (en_Key e) (lr_Prefix req))"

lemma in_order_Cons: "in_order req (e # es) \<longleftrightarrow>
    HasPrefix (en_Key e) (lr_Prefix req) \<and> (\<forall>x \<in> set es. en_Key e < en_Key x) \<and> in_order req es"
  by (auto simp: in_order_def)

lemma rows_after_skip:
  "rows_after req g es = rows_after req '''' (dropWhile (\<lambda>e. g \<noteq> '''' \<and> HasPrefix (en_Key e) g) es)"
  by (induction es) auto

lemma in_order_dropWhile: "in_order req es \<Longrightarrow> in_order req (dropWhile P es)"
  by (induction es) (auto simp: in_order_Cons)

lemma dropWhile_filter_sorted:
  assumes "sorted_wrt (\<lambda>x y. P y \<longrightarrow> P x) es"
  shows "dropWhile P es = filter (\<lambda>x. \<not> P x) es"
  using assms by (induction es) (auto simp: filter_empty_conv intro!: filter_True[symmetric])

text \<open>Past a group: exactly the entries that are not in it, of those that follow an entry that is.\<close>

lemma group_past:
  assumes "plain_delimiter (lr_Delimiter req)" "in_order req (e # es)"
    "groupOf (en_Key e) (lr_Prefix req) (lr_Delimiter req) = Some g"
  shows "dropWhile (\<lambda>x. g \<noteq> '''' \<and> HasPrefix (en_Key x) g) es = filter (\<lambda>x. PastPrefix g \<le> en_Key x) (e # es)"
    and "en_Key e < PastPrefix g" and "g \<noteq> ''''"
proof -
  have pre: "HasPrefix (en_Key e) (lr_Prefix req)" and later: "\<And>x. x \<in> set es \<Longrightarrow> en_Key e < en_Key x"
    using assms(2) by (auto simp: in_order_Cons)
  obtain q c where g: "g = q @ [c]" "of_char c < (127 :: nat)" by (rule groupOf_last[OF assms(3) pre assms(1)])
  note range = PastPrefix_range[OF g(2), of q, folded g(1)]
  have e: "g \<le> en_Key e" "en_Key e < PastPrefix g" using groupOf_HasPrefix[OF assms(3) pre] range by blast+
  then show "en_Key e < PastPrefix g" "g \<noteq> ''''" using g(1) by simp_all
  have mem: "HasPrefix (en_Key x) g \<longleftrightarrow> \<not> PastPrefix g \<le> en_Key x" if "x \<in> set es" for x
    using range[of "en_Key x"] later[OF that] e(1) by (meson leD le_less_linear less_le_trans order.strict_implies_order order.trans)
  have "dropWhile (\<lambda>x. g \<noteq> '''' \<and> HasPrefix (en_Key x) g) es = dropWhile (\<lambda>x. \<not> PastPrefix g \<le> en_Key x) es"
    by (rule dropWhile_cong) (use mem g(1) in auto)
  also have "\<dots> = filter (\<lambda>x. PastPrefix g \<le> en_Key x) es"
  proof -
    have "sorted_wrt (\<lambda>x y. \<not> PastPrefix g \<le> en_Key y \<longrightarrow> \<not> PastPrefix g \<le> en_Key x) es"
      using assms(2) by (auto simp: in_order_def sorted_wrt_map elim!: sorted_wrt_mono_rel[rotated])
    from dropWhile_filter_sorted[OF this] show ?thesis by simp
  qed
  finally show "dropWhile (\<lambda>x. g \<noteq> '''' \<and> HasPrefix (en_Key x) g) es = filter (\<lambda>x. PastPrefix g \<le> en_Key x) (e # es)"
    using e(2) by simp
qed



text \<open>The first row and the entries past it.\<close>

lemma first_row:
  assumes "plain_delimiter (lr_Delimiter req)" "in_order req (e # es)"
  shows "rows_after req '''' (e # es) =
      row_of req e # rows_after req '''' (filter (\<lambda>x. past_row (row_of req e) \<le> en_Key x) (e # es))"
    and "en_Key e < past_row (row_of req e)"
proof -
  have "rows_after req '''' (e # es) =
      row_of req e # rows_after req '''' (filter (\<lambda>x. past_row (row_of req e) \<le> en_Key x) (e # es)) \<and>
    en_Key e < past_row (row_of req e)"
  proof (cases "groupOf (en_Key e) (lr_Prefix req) (lr_Delimiter req)")
    case (Some g)
    note p = group_past[OF assms Some]
    have "rows_after req g es = rows_after req '''' (filter (\<lambda>x. PastPrefix g \<le> en_Key x) (e # es))"
      unfolding p(1)[symmetric] by (rule rows_after_skip)
    then show ?thesis using Some p(2) by (simp add: row_of_def del: filter.simps)
  next
    case None
    have "filter (\<lambda>x. After (en_Key e) \<le> en_Key x) (e # es) = es"
      using assms(2) by (auto simp: in_order_Cons After_le filter_id_conv)
    then show ?thesis using None by (simp add: row_of_def After_def del: filter.simps)
  qed
  then show "rows_after req '''' (e # es) =
      row_of req e # rows_after req '''' (filter (\<lambda>x. past_row (row_of req e) \<le> en_Key x) (e # es))"
    "en_Key e < past_row (row_of req e)" by blast+
qed

lemma in_order_filter: "in_order req es \<Longrightarrow> in_order req (filter P es)"
  by (induction es) (auto simp: in_order_Cons)

lemma resume_rows:
  assumes "plain_delimiter (lr_Delimiter req)"
  shows "in_order req es \<Longrightarrow> 0 < n \<Longrightarrow> n \<le> length (rows_after req '''' es) \<Longrightarrow>
    rows_after req '''' (filter (\<lambda>x. resume frm (take n (rows_after req '''' es)) \<le> en_Key x) es) = drop n (rows_after req '''' es) \<and>
    en_Key (hd es) < resume frm (take n (rows_after req '''' es))"
proof (induction n arbitrary: es)
  case (Suc n)
  obtain e es0 where es: "es = e # es0" using Suc.prems(3) by (cases es) auto
  note f = first_row[OF assms Suc.prems(1)[unfolded es], folded es]
  define r where "r = row_of req e"
  define es1 where "es1 = filter (\<lambda>x. past_row r \<le> en_Key x) es"
  define R1 where "R1 = rows_after req '''' es1"
  have R: "rows_after req '''' es = r # R1" using f(1) by (simp add: r_def es1_def R1_def)
  show ?case
  proof (cases "n = 0")
    case True
    then show ?thesis using f(2) es unfolding R R1_def es1_def by (simp add: resume_def r_def)
  next
    case False
    have o1: "in_order req es1" unfolding es1_def by (rule in_order_filter[OF Suc.prems(1)])
    have len: "0 < n" "n \<le> length R1" using False Suc.prems(3) by (simp_all add: R)
    note IH = Suc.IH[OF o1 len[unfolded R1_def], folded R1_def]
    have p: "resume frm (take (Suc n) (r # R1)) = resume frm (take n R1)" using len by (auto simp: resume_def)
    let ?p = "resume frm (take n R1)"
    have "es1 \<noteq> []" using len by (auto simp: R1_def)
    then have "hd es1 \<in> set es1" by simp
    then have h: "past_row r \<le> en_Key (hd es1)" unfolding es1_def by simp
    then have up: "past_row r < ?p" using IH by (meson le_less_trans)
    then have "filter (\<lambda>x. ?p \<le> en_Key x) es1 = filter (\<lambda>x. ?p \<le> en_Key x) es"
      unfolding es1_def filter_filter by (intro filter_cong) auto
    then have "rows_after req '''' (filter (\<lambda>x. ?p \<le> en_Key x) es) = drop n R1" using IH by simp
    moreover have "en_Key (hd es) < ?p" using up f(2) es unfolding r_def by (auto dest: less_trans)
    ultimately show ?thesis unfolding R p by simp
  qed
qed simp

lemma rows_after_append: "\<exists>X. rows_after req g (xs @ ys) = rows_after req g xs @ X"
  by (induction xs arbitrary: g) auto

section \<open>The entries behind a listing\<close>

lemma decode_entry_key: "decode_entry M (k, d) = Inr y \<Longrightarrow> en_Key y = TrimPrefix k (objects_prefix M)"
  by (auto split: sum.splits)

lemma decode_all_take: "decode_all f xs = Inr ys \<Longrightarrow> decode_all f (take n xs) = Inr (take n ys)"
  by (induction xs arbitrary: ys n) (auto simp: take_Cons' split: sum.splits)

lemma decode_all_filter:
  "decode_all f xs = Inr ys \<Longrightarrow> (\<And>x y. x \<in> set xs \<Longrightarrow> f x = Inr y \<Longrightarrow> P x \<longleftrightarrow> Q y) \<Longrightarrow>
    decode_all f (filter P xs) = Inr (filter Q ys)"
  by (induction xs arbitrary: ys) (auto split: sum.splits)

lemma object_rest_filter:
  assumes "frm \<le> frm'"
  shows "object_rest M pre v frm' = filter (\<lambda>(k, d). meta_key M frm' \<le> k) (object_rest M pre v frm)"
proof (rule sorted_fst_unique)
  have "meta_key M frm' \<le> x \<Longrightarrow> meta_key M frm \<le> x" for x
    using assms append_le_append[of "objects_prefix M" frm frm'] by (metis meta_key_def order.trans)
  then show "set (object_rest M pre v frm') = set (filter (\<lambda>(k, d). meta_key M frm' \<le> k) (object_rest M pre v frm))"
    by (auto simp: object_rest_def set_kv_select)
  show "sorted_wrt (<) (map fst (filter (\<lambda>(k, d). meta_key M frm' \<le> k) (object_rest M pre v frm)))"
    using sorted_kv_select[of v] unfolding object_rest_def sorted_wrt_map by (rule sorted_wrt_filter)
qed (simp add: object_rest_def sorted_kv_select)

lemma object_rest_key:
  assumes "(k, d) \<in> set (object_rest M pre v frm)" "decode_entry M (k, d) = Inr y"
  shows "k = meta_key M (en_Key y)" "HasPrefix (en_Key y) pre" "frm \<le> en_Key y"
proof -
  have h: "HasPrefix k (meta_key M pre)" "meta_key M frm \<le> k" using assms(1) by (auto simp: object_rest_def set_kv_select)
  show k: "k = meta_key M (en_Key y)" using meta_key_trim[OF h(1)] decode_entry_key[OF assms(2)] by metis
  show "HasPrefix (en_Key y) pre" "frm \<le> en_Key y" using h unfolding k by (simp_all add: meta_key_def HasPrefix_prefix)
qed

lemma entries_from:
  assumes "decode_all (decode_entry M) (object_rest M pre v frm) = Inr es" "frm \<le> frm'"
  shows "decode_all (decode_entry M) (object_rest M pre v frm') = Inr (filter (\<lambda>e. frm' \<le> en_Key e) es)"
  unfolding object_rest_filter[OF assms(2)]
proof (rule decode_all_filter[OF assms(1)])
  fix x y assume x: "x \<in> set (object_rest M pre v frm)" "decode_entry M x = Inr y"
  obtain k d where kd: "x = (k, d)" by (cases x)
  show "(case x of (k, d) \<Rightarrow> meta_key M frm' \<le> k) \<longleftrightarrow> frm' \<le> en_Key y"
    using object_rest_key(1)[OF x[unfolded kd]] kd by (simp add: meta_key_def)
qed

lemma page_in_order:
  assumes "decode_all (decode_entry M) (take n (object_rest M (lr_Prefix req) v frm)) = Inr es"
  shows "in_order req es" and "e \<in> set es \<Longrightarrow> frm \<le> en_Key e"
proof -
  let ?xs = "take n (object_rest M (lr_Prefix req) v frm)"
  have el: "HasPrefix (en_Key e) (lr_Prefix req) \<and> frm \<le> en_Key e" if "e \<in> set es" for e
    using decode_all_from[OF assms that] object_rest_key(2,3) by (metis surj_pair in_set_takeD)
  then show "e \<in> set es \<Longrightarrow> frm \<le> en_Key e" by blast
  have len: "length es = length ?xs" by (rule length_decode_all[OF assms])
  have key: "fst (?xs ! i) = meta_key M (en_Key (es ! i))" if "i < length es" for i
    using object_rest_key(1)[of "fst (?xs ! i)" "snd (?xs ! i)" M "lr_Prefix req" v frm "es ! i"]
      decode_all_nth[OF assms, of i] that len nth_mem[of i ?xs] by (simp del: nth_mem) (metis in_set_takeD nth_mem)
  have "sorted_wrt (<) (map fst ?xs)"
    by (simp add: object_rest_def take_map[symmetric] sorted_wrt_take sorted_kv_select)
  then have "en_Key (es ! i) < en_Key (es ! j)" if "i < j" "j < length es" for i j
  proof -
    have "fst (?xs ! i) < fst (?xs ! j)"
      using \<open>sorted_wrt (<) (map fst ?xs)\<close> that len by (simp add: sorted_wrt_iff_nth_less)
    then show ?thesis using key[of i] key[of j] that by (simp add: meta_key_def)
  qed
  then show "in_order req es" using el by (auto simp: in_order_def sorted_wrt_iff_nth_less)
qed

lemma entries_in_order:
  assumes "decode_all (decode_entry M) (object_rest M (lr_Prefix req) v frm) = Inr es"
  shows "in_order req es" and "e \<in> set es \<Longrightarrow> frm \<le> en_Key e"
  using page_in_order[of M "length (object_rest M (lr_Prefix req) v frm)" req v frm es] assms by simp_all

section \<open>The outer loop\<close>

lemma list_want_pos: "0 < lr_Limit req \<Longrightarrow> 0 < list_want req"
  by (simp add: list_want_def scanPageSize_def)

lemma list_loop_page:
  assumes "etcd_client E view" "plain_delimiter (lr_Delimiter req)" "0 < lr_Limit req"
  shows "list_loop fuel E M req pg frm s = Some (s', Inr pg') \<Longrightarrow>
    decode_all (decode_entry M) (object_rest M (lr_Prefix req) (view s) frm) = Inr es \<Longrightarrow> 0 \<le> page_room req pg \<Longrightarrow>
    pg' = (let R = rows_after req '''' es; n = nat (page_room req pg) in
      if n < length R then (add_rows pg (take n R))\<lparr>lp_Next := resume frm (take n R)\<rparr> else add_rows pg R)"
proof (induction fuel arbitrary: pg frm s es)
  case (Suc fuel)
  let ?want = "list_want req" and ?R = "rows_after req '''' es" and ?n = "nat (page_room req pg)"
  have want: "0 < ?want" by (rule list_want_pos[OF assms(3)])
  obtain s1 xs where sc: "ScanEntries E M s (lr_Prefix req) frm ?want = (s1, Inr xs)"
    using Suc.prems(1) by (auto split: prod.splits sum.splits)
  have xs: "xs = take (nat ?want) es"
    using etcd_client.ScanEntries_page[OF assms(1) sc want] decode_all_take[OF Suc.prems(2), of "nat ?want"] by simp
  have v: "view s1 = view s" by (rule etcd_client.ScanEntries_view[OF assms(1) sc])
  note ord = entries_in_order[OF Suc.prems(2)]
  let ?F = "rows_after req '''' xs"
  obtain X where X: "?R = ?F @ X"
    using rows_after_append[of req "''''" xs "drop (nat ?want) es"] xs by auto
  show ?case
  proof (cases "xs = []")
    case True
    then have "es = []" using xs want by auto
    then show ?thesis using Suc.prems(1) sc True by simp
  next
    case ne: False
    show ?thesis
    proof (cases "?n < length ?F")
      case True
      then show ?thesis using Suc.prems(1) sc ne list_keys_rows[OF Suc.prems(3), of xs "''''" frm] X
        by (simp add: Let_def)
    next
      case room: False
      let ?pg = "add_rows pg ?F" and ?frm = "resume frm ?F"
      have keys: "list_keys req xs '''' pg frm = Inr (?pg, ?frm)"
        using list_keys_rows[OF Suc.prems(3), of xs "''''" frm] room by (simp add: Let_def)
      have n: "?n = length ?F + nat (page_room req ?pg)" "0 \<le> page_room req ?pg"
        using room Suc.prems(3) by (simp_all add: page_room_add)
      have F: "take (length ?F) ?R = ?F" "0 < length ?F" "length ?F \<le> length ?R"
        using X ne by (cases xs; simp)+
      note rr = resume_rows[OF assms(2) ord(1) F(2,3), of frm, unfolded F(1)]
      show ?thesis
      proof (cases "int (length xs) < ?want")
        case True
        then have "xs = es" using xs by (simp add: min_def split: if_splits)
        then show ?thesis using Suc.prems(1) sc ne keys True room by (simp add: Let_def)
      next
        case False
        have "es \<noteq> []" using ne xs by auto
        then have up: "frm < ?frm" using rr ord(2)[of "hd es"] by (auto intro: le_less_trans)
        then have "?frm \<noteq> ''''" by auto
        then have run: "list_loop fuel E M req ?pg ?frm s1 = Some (s', Inr pg')"
          using Suc.prems(1) sc ne keys False by simp
        have dec: "decode_all (decode_entry M) (object_rest M (lr_Prefix req) (view s1) ?frm) =
            Inr (filter (\<lambda>e. ?frm \<le> en_Key e) es)"
          using entries_from[OF Suc.prems(2)] up v by (simp add: less_imp_le)
        have R: "?R = ?F @ rows_after req '''' (filter (\<lambda>e. ?frm \<le> en_Key e) es)" using X rr by simp
        have "resume frm (?F @ Y) = resume ?frm Y" for Y by (simp add: resume_def)
        then show ?thesis
          using Suc.IH[OF run dec n(2)] n(1) unfolding Let_def R by simp
      qed
    qed
  qed
qed simp

section \<open>Rows and groups\<close>

lemma groups_collapse:
  assumes "in_order req es"
  shows "rows_after req '''' es = remdups_adj (map (row_of req) es) \<and>
    (\<forall>k g. HasPrefix k (lr_Prefix req) \<longrightarrow> groupOf k (lr_Prefix req) (lr_Delimiter req) = Some g \<longrightarrow>
      Group g # rows_after req g es = remdups_adj (Group g # map (row_of req) es))"
  using assms
proof (induction es)
  case (Cons e es)
  let ?pre = "lr_Prefix req" and ?d = "lr_Delimiter req"
  have ord: "HasPrefix (en_Key e) ?pre" "e \<notin> set es" "in_order req es"
    using Cons.prems by (auto simp: in_order_Cons)
  note IH = Cons.IH[OF ord(3)]
  define g' where "g' = (case groupOf (en_Key e) ?pre ?d of Some g \<Rightarrow> g | None \<Rightarrow> '''')"
  have here: "remdups_adj (row_of req e # map (row_of req) es) = row_of req e # rows_after req g' es"
  proof (cases "groupOf (en_Key e) ?pre ?d")
    case (Some g)
    then have "row_of req e = Group g" by (simp add: row_of_def)
    then show ?thesis using IH ord(1) Some by (simp add: g'_def)
  next
    case None
    then have "row_of req e \<noteq> row_of req x" if "x \<in> set es" for x
      using that ord(2) by (auto simp: row_of_def split: option.splits)
    then have "remdups_adj (row_of req e # map (row_of req) es) = row_of req e # remdups_adj (map (row_of req) es)"
      by (cases es) auto
    then show ?thesis using IH None by (simp add: g'_def)
  qed
  have out: "rows_after req g (e # es) = row_of req e # rows_after req g' es" if "g = '''' \<or> \<not> HasPrefix (en_Key e) g" for g
    using that by (auto simp: g'_def)
  have "Group g # rows_after req g (e # es) = remdups_adj (Group g # map (row_of req) (e # es))"
    if g: "HasPrefix k ?pre" "groupOf k ?pre ?d = Some g" for k g
  proof (cases "HasPrefix (en_Key e) g")
    case True
    then have "row_of req e = Group g" using groupOf_member[OF g(2,1)] by (simp add: row_of_def)
    moreover have "g \<noteq> ''''" using g groupOf_shape[OF g(2,1)] by (metis append_is_Nil_conv length_0_conv take_eq_Nil2 add_is_0 list.size(3) le_zero_eq)
    ultimately show ?thesis using IH g True by simp
  next
    case False
    then have "row_of req e \<noteq> Group g" using groupOf_HasPrefix[OF _ ord(1)] by (auto simp: row_of_def split: option.splits)
    then show ?thesis using out[of g] False here by simp
  qed
  then show ?case using out[of "''''"] here by simp
qed simp

lemma listing_rows: "in_order req es \<Longrightarrow> rows_after req '''' es = listing req es"
  using groups_collapse by (simp add: listing_def)

lemma list_loop_view:
  assumes "etcd_client E view"
  shows "list_loop fuel E M req pg frm s = Some (s', r) \<Longrightarrow> view s' = view s"
proof (induction fuel arbitrary: pg frm s)
  case (Suc fuel)
  obtain s1 r1 where sc: "ScanEntries E M s (lr_Prefix req) frm (list_want req) = (s1, r1)" by fastforce
  have v: "view s1 = view s" by (rule etcd_client.ScanEntries_view[OF assms sc])
  show ?case
  proof (cases r1)
    case (Inl e)
    then show ?thesis using Suc.prems sc v by simp
  next
    case (Inr xs)
    then show ?thesis using Suc.prems sc v Suc.IH[of _ _ s1]
      by (auto split: if_splits sum.splits prod.splits)
  qed
qed simp

text \<open>Every round moves past at least the first entry it read, whether or not later ones decode.\<close>

lemma list_loop_ends:
  assumes "etcd_client E view" "plain_delimiter (lr_Delimiter req)" "0 < lr_Limit req"
  shows "length (object_rest M (lr_Prefix req) (view s) frm) < fuel \<Longrightarrow> 0 \<le> page_room req pg \<Longrightarrow>
    list_loop fuel E M req pg frm s \<noteq> None"
proof (induction fuel arbitrary: pg frm s)
  case (Suc fuel)
  let ?rest = "object_rest M (lr_Prefix req) (view s) frm" and ?want = "list_want req"
  have want: "0 < ?want" by (rule list_want_pos[OF assms(3)])
  obtain s1 r1 where sc: "ScanEntries E M s (lr_Prefix req) frm ?want = (s1, r1)" by fastforce
  show ?case
  proof (cases "\<exists>xs. r1 = Inr xs \<and> xs \<noteq> []")
    case True
    then obtain xs where xs: "r1 = Inr xs" "xs \<noteq> []" by blast
    note dec = etcd_client.ScanEntries_page[OF assms(1) sc[unfolded xs(1)] want]
    note ord = page_in_order[OF dec]
    let ?F = "rows_after req '''' xs"
    have F: "0 < length ?F" using xs(2) by (cases xs) auto
    have up: "en_Key (hd xs) < resume frm ?F" using resume_rows[OF assms(2) ord(1) F, of frm] by simp
    obtain k d ys where rest: "?rest = (k, d) # ys"
      using length_decode_all[OF dec] xs(2) by (cases ?rest) auto
    have "decode_entry M (k, d) = Inr (hd xs)"
      using decode_all_nth[OF dec, of 0] rest want xs(2) by (simp add: hd_conv_nth)
    moreover have "(k, d) \<in> set ?rest" using rest by simp
    ultimately have k: "k = meta_key M (en_Key (hd xs))" using object_rest_key(1) by blast
    have "frm \<le> en_Key (hd xs)" using ord(2) xs(2) by simp
    then have "frm \<le> resume frm ?F" using up by (meson less_imp_le order.trans)
    then have "length (object_rest M (lr_Prefix req) (view s1) (resume frm ?F)) < fuel"
      using Suc.prems(1) object_rest_filter[of frm "resume frm ?F" M "lr_Prefix req" "view s"] up
        etcd_client.ScanEntries_view[OF assms(1) sc] length_filter_le[of "\<lambda>(k, d). meta_key M (resume frm ?F) \<le> k" ys]
      unfolding rest k by (auto simp: meta_key_def intro: le_less_trans[OF length_filter_le])
    note IH = Suc.IH[OF this, of "add_rows pg ?F"]
    show ?thesis
    proof (cases "nat (page_room req pg) < length ?F")
      case True
      then show ?thesis using sc xs list_keys_rows[OF Suc.prems(2), of xs "''''" frm] by (simp add: Let_def)
    next
      case False
      then have "0 \<le> page_room req (add_rows pg ?F)" using Suc.prems(2) by (simp add: page_room_add)
      then show ?thesis using IH sc xs list_keys_rows[OF Suc.prems(2), of xs "''''" frm] False by (simp add: Let_def)
    qed
  next
    case False
    then show ?thesis using sc by (cases r1) auto
  qed
qed simp

section \<open>Properties\<close>

text \<open>
  C21. A page of a listing is the first \<^verbatim>\<open>Limit\<close> rows from \<^verbatim>\<open>From\<close> on, of all keys under the prefix in
  order with groups collapsed, however the entries were read; \<^verbatim>\<open>Next\<close> is empty exactly when those are
  all the rows, and otherwise a listing from \<^verbatim>\<open>Next\<close> goes on with the very next row, so that paging
  reports every key or its group once and no row twice.  The delimiter is empty or ends in a byte
  below \<^verbatim>\<open>0x7f\<close>, and all entries under the prefix decode.
\<close>

theorem List_page:
  assumes "etcd_client (sy_etcd X) view" and "plain_delimiter (lr_Delimiter req)" and "0 < lr_Limit req"
    and "decode_all (decode_entry (c_meta c)) (object_rest (c_meta c) (lr_Prefix req) (view s) (lr_From req)) = Inr es"
    and "cluster_List fuel X c req s = Some (s', Inr pg)"
  shows "let R = listing req es; n = nat (lr_Limit req) in
    lp_Objects pg = row_entries (take n R) \<and> lp_Prefixes pg = row_groups (take n R) \<and>
    (lp_Next pg = '''' \<longleftrightarrow> length R \<le> n) \<and>
    (lp_Next pg \<noteq> '''' \<longrightarrow> (\<exists>es'. decode_all (decode_entry (c_meta c))
        (object_rest (c_meta c) (lr_Prefix req) (view s') (lp_Next pg)) = Inr es' \<and> listing req es' = drop n R))"
proof -
  let ?R = "listing req es" and ?n = "nat (lr_Limit req)" and ?from = "lr_From req" and ?M = "c_meta c"
  have run: "list_loop fuel (sy_etcd X) ?M req zero_page ?from s = Some (s', Inr pg)"
    using assms(3,5) by (simp add: cluster_List_def)
  have room: "page_room req zero_page = lr_Limit req" by (simp add: page_room_def zero_page_def)
  note ord = entries_in_order[OF assms(4)]
  note R = listing_rows[OF ord(1)]
  have pg: "pg = (if ?n < length ?R then (add_rows zero_page (take ?n ?R))\<lparr>lp_Next := resume ?from (take ?n ?R)\<rparr>
      else add_rows zero_page ?R)"
    using list_loop_page[OF assms(1-3) run assms(4)] assms(3) room R by (simp add: Let_def)
  have v: "view s' = view s" by (rule list_loop_view[OF assms(1) run])
  show ?thesis
  proof (cases "?n < length ?R")
    case False
    then show ?thesis using pg by (simp add: Let_def add_rows_def zero_page_def)
  next
    case True
    have pos: "0 < ?n" "?n \<le> length (rows_after req '''' es)" using assms(3) True R by simp_all
    note rr = resume_rows[OF assms(2) ord(1) pos, of ?from, unfolded R]
    let ?p = "resume ?from (take ?n ?R)"
    have p: "lp_Next pg = ?p" using pg True by simp
    have "es \<noteq> []" using True by (auto simp: listing_def)
    then have up: "?from < ?p" using rr ord(2)[of "hd es"] by (auto intro: le_less_trans)
    then have "decode_all (decode_entry ?M) (object_rest ?M (lr_Prefix req) (view s') ?p) = Inr (filter (\<lambda>e. ?p \<le> en_Key e) es)"
      using entries_from[OF assms(4)] v by (simp add: less_imp_le)
    moreover have "listing req (filter (\<lambda>e. ?p \<le> en_Key e) es) = drop ?n ?R"
      using rr listing_rows[OF in_order_filter[OF ord(1)], of "\<lambda>e. ?p \<le> en_Key e"] by simp
    moreover have "?p \<noteq> ''''" using up by auto
    ultimately show ?thesis unfolding Let_def p
      using pg True by (simp add: add_rows_def zero_page_def)
  qed
qed

text \<open>
  A listing ends: a bound of one round more than there are keys in etcd always gives an answer.
\<close>

theorem List_terminates:
  assumes "etcd_client (sy_etcd X) view" and "plain_delimiter (lr_Delimiter req)"
    and "length (kvs_Keys (view s)) < fuel"
  shows "\<exists>s' r. cluster_List fuel X c req s = Some (s', r)"
proof (cases "0 < lr_Limit req")
  case True
  have "length (object_rest (c_meta c) (lr_Prefix req) (view s) (lr_From req)) \<le> length (kvs_Keys (view s))"
    unfolding object_rest_def by (rule length_kv_select)
  then have "list_loop fuel (sy_etcd X) (c_meta c) req zero_page (lr_From req) s \<noteq> None"
    using list_loop_ends[OF assms(1,2) True, of "c_meta c" s "lr_From req" fuel zero_page] assms(3) True
    by (simp add: page_room_def zero_page_def)
  then show ?thesis using True by (auto simp: cluster_List_def)
qed (simp add: cluster_List_def)

section \<open>A small bucket\<close>

definition bucket_kvs :: kvs where
  "bucket_kvs = \<lparr>kvs_Rev = 5, kvs_Keys = map (\<lambda>k. (''kavo/objects/'' @ k, \<lparr>kd_Value = SManifest zero_manifest, kd_ModRev = 2\<rparr>))
     [''b/a'', ''b/d/x'', ''b/d/y'', ''b/e'']\<rparr>"

definition bucket_request :: list_request where
  "bucket_request = \<lparr>lr_Prefix = ''b/'', lr_Delimiter = ''/'', lr_From = '''', lr_Limit = 2\<rparr>"

lemma bucket_plain: "plain_delimiter (lr_Delimiter bucket_request)"
  by (simp add: plain_delimiter_def bucket_request_def)

theorem List_page_witness:
  "\<exists>s' pg. cluster_List 2 example_sys example_coord bucket_request bucket_kvs = Some (s', Inr pg) \<and>
    map en_Key (lp_Objects pg) = [''b/a''] \<and> lp_Prefixes pg = [''b/d/''] \<and> lp_Next pg \<noteq> ''''"
proof -
  let ?e = "\<lambda>k. \<lparr>en_Key = k, en_Size = 0, en_ETag = '''', en_Modified = 0\<rparr>"
  let ?es = "[?e ''b/a'', ?e ''b/d/x'', ?e ''b/d/y'', ?e ''b/e'']"
  have m: "c_meta example_coord = example_meta" "sy_etcd example_sys = mem_etcd" by (simp_all add: example_sys_def)
  have r: "object_rest example_meta ''b/'' bucket_kvs '''' = kvs_Keys bucket_kvs" by code_simp
  have es: "decode_all (decode_entry (c_meta example_coord))
      (object_rest (c_meta example_coord) (lr_Prefix bucket_request) bucket_kvs (lr_From bucket_request)) = Inr ?es"
    unfolding m by (simp add: bucket_request_def r) code_simp
  have "(case list_loop 2 mem_etcd example_meta bucket_request zero_page '''' bucket_kvs of
      Some (s', Inr pg) \<Rightarrow> True | _ \<Rightarrow> False)"
    by code_simp
  then have "\<exists>s' pg. list_loop 2 mem_etcd example_meta bucket_request zero_page '''' bucket_kvs = Some (s', Inr pg)"
    by (auto split: option.splits prod.splits sum.splits)
  then obtain s' pg where run: "cluster_List 2 example_sys example_coord bucket_request bucket_kvs = Some (s', Inr pg)"
    unfolding cluster_List_def m by (auto simp: bucket_request_def)
  have R: "listing bucket_request ?es = [Key (?e ''b/a''), Group ''b/d/'', Key (?e ''b/e'')]" by code_simp
  have n: "nat (lr_Limit bucket_request) = 2" "0 < lr_Limit bucket_request" by (simp_all add: bucket_request_def)
  from List_page[OF example_etcd(1) bucket_plain n(2) es run] run show ?thesis
    by (auto simp: Let_def R n)
qed

theorem List_terminates_witness:
  "\<exists>s' r. cluster_List 5 example_sys example_coord bucket_request bucket_kvs = Some (s', r)"
  by (rule List_terminates[OF example_etcd(1) bucket_plain]) (simp add: bucket_kvs_def)

end
