(* ===== verification/S3_Base.thy ===== *)
theory S3_Base
  imports Sigv4 Listing
begin

text \<open>
  The S3 gateway's vocabulary: the error codes of \<^verbatim>\<open>internal/s3/errors.go\<close>, the response documents of
  the handlers, and the functions of \<^verbatim>\<open>internal/s3/s3.go\<close> that read a request: which query parameters
  and headers are refused, checksums, stored metadata, preconditions, ranges.

  A response document is the Go struct; encoding it as XML, and decoding the two documents a client
  sends, is what package \<^verbatim>\<open>encoding/xml\<close> does and an argument of the model, as reading and writing
  dates is.
\<close>

section \<open>Documents\<close>

record bucket_owner =
  bo_ID :: string
  bo_DisplayName :: string

record list_entry =
  le_Key :: string
  le_LastModified :: string
  le_ETag :: string
  le_Size :: int
  le_StorageClass :: string
  le_Owner :: "bucket_owner option"

record list_result =
  ls_Name :: string
  ls_Prefix :: string
  ls_Delimiter :: string
  ls_MaxKeys :: int
  ls_KeyCount :: int
  ls_IsTruncated :: bool
  ls_ContinuationToken :: "string option"
  ls_NextContinuationToken :: string
  ls_StartAfter :: string
  ls_EncodingType :: string
  ls_Contents :: "list_entry list"
  ls_CommonPrefixes :: "string list"

record version_entry =
  ve_Key :: string
  ve_VersionID :: string
  ve_IsLatest :: bool
  ve_LastModified :: string
  ve_ETag :: string
  ve_Size :: int
  ve_StorageClass :: string

record list_versions_result =
  lv_Name :: string
  lv_Prefix :: string
  lv_KeyMarker :: string
  lv_VersionIDMarker :: string
  lv_NextKeyMarker :: string
  lv_NextVersionIDMarker :: string
  lv_Delimiter :: string
  lv_MaxKeys :: int
  lv_IsTruncated :: bool
  lv_EncodingType :: string
  lv_Versions :: "version_entry list"
  lv_CommonPrefixes :: "string list"

record bucket_entry =
  be_Name :: string
  be_CreationDate :: string

record initiate_result =
  ir_Bucket :: string
  ir_Key :: string
  ir_UploadID :: string
  ir_ChecksumAlgorithm :: string
  ir_ChecksumType :: string

record complete_result =
  cx_Location :: string
  cx_Bucket :: string
  cx_Key :: string
  cx_ETag :: string
  cx_ChecksumCRC32C :: string
  cx_ChecksumCRC32 :: string
  cx_ChecksumCRC64NVME :: string
  cx_ChecksumAlgorithm :: string
  cx_ChecksumType :: string

record part_entry =
  pe_Number :: int
  pe_Modified :: string
  pe_ETag :: string
  pe_Size :: int

record list_parts_result =
  lq_Bucket :: string
  lq_Key :: string
  lq_UploadID :: string
  lq_PartNumberMarker :: int
  lq_NextPartNumberMarker :: int
  lq_MaxParts :: int
  lq_IsTruncated :: bool
  lq_Parts :: "part_entry list"

record upload_entry =
  ue_Key :: string
  ue_UploadID :: string
  ue_Initiated :: string

record list_uploads_result =
  lu_Bucket :: string
  lu_Prefix :: string
  lu_KeyMarker :: string
  lu_UploadIDMarker :: string
  lu_NextKeyMarker :: string
  lu_NextUploadIDMarker :: string
  lu_MaxUploads :: int
  lu_IsTruncated :: bool
  lu_Uploads :: "upload_entry list"

record copy_part_result =
  cz_ETag :: string
  cz_LastModified :: string
  cz_ChecksumCRC32C :: string
  cz_ChecksumCRC32 :: string
  cz_ChecksumCRC64NVME :: string

record delete_error =
  de_Key :: string
  de_Code :: string
  de_Message :: string

datatype doc =
    errorResponse string string string
  | copyResult string string
  | taggingResult
  | listResult list_result
  | listVersionsResult list_versions_result
  | listAllBucketsResult bucket_owner "bucket_entry list"
  | locationResult
  | deleteResult "string list" "delete_error list"
  | initiateResult initiate_result
  | completeResult complete_result
  | listPartsResult list_parts_result
  | listUploadsResult list_uploads_result
  | copyPartResult copy_part_result

record gateway_lib =
  gl_time :: time_lib
  gl_Marshal :: "doc \<Rightarrow> bytes option"
  gl_completeRequest :: "bytes \<Rightarrow> (int \<times> string) list option"
  gl_deleteRequest :: "bytes \<Rightarrow> (bool \<times> string list) option"

section \<open>Responses and errors\<close>

record response =
  rs_Status :: int
  rs_Header :: multimap
  rs_Body :: bytes

record apiError =
  ae_code :: string
  ae_status :: int
  ae_message :: string

definition errNoSuchKey :: apiError where
  "errNoSuchKey = \<lparr>ae_code = ''NoSuchKey'', ae_status = 404, ae_message = ''The specified key does not exist.''\<rparr>"

definition errInvalidRange :: apiError where
  "errInvalidRange = \<lparr>ae_code = ''InvalidRange'', ae_status = 416,
     ae_message = ''The requested range is not satisfiable.''\<rparr>"

definition errInvalidPartNumber :: apiError where
  "errInvalidPartNumber = \<lparr>ae_code = ''InvalidPartNumber'', ae_status = 416,
     ae_message = ''The requested part number is not satisfiable.''\<rparr>"

definition errBadPartNumber :: apiError where
  "errBadPartNumber = \<lparr>ae_code = ''InvalidArgument'', ae_status = 400,
     ae_message = ''partNumber must be an integer between 1 and 10000.''\<rparr>"

definition errMalformedRange :: apiError where
  "errMalformedRange = \<lparr>ae_code = ''InvalidArgument'', ae_status = 400,
     ae_message = ''The copy source range is not a byte range this server can read.''\<rparr>"

definition errMissingLength :: apiError where
  "errMissingLength = \<lparr>ae_code = ''MissingContentLength'', ae_status = 411,
     ae_message = ''An object write must declare its length.''\<rparr>"

definition errSlowDown :: apiError where
  "errSlowDown = \<lparr>ae_code = ''SlowDown'', ae_status = 503,
     ae_message = ''Not enough nodes accepted the write to acknowledge it. Retry.''\<rparr>"

definition errInternal :: apiError where
  "errInternal = \<lparr>ae_code = ''InternalError'', ae_status = 500,
     ae_message = ''The request could not be completed.''\<rparr>"

definition errAccessDenied :: apiError where
  "errAccessDenied = \<lparr>ae_code = ''AccessDenied'', ae_status = 403, ae_message = ''Access denied.''\<rparr>"

definition errInvalidKey :: apiError where
  "errInvalidKey = \<lparr>ae_code = ''InvalidAccessKeyId'', ae_status = 403,
     ae_message = ''The access key id does not exist in our records.''\<rparr>"

definition errBadSignature :: apiError where
  "errBadSignature = \<lparr>ae_code = ''SignatureDoesNotMatch'', ae_status = 403,
     ae_message = ''The request signature does not match the signature this server computed.''\<rparr>"

definition errSkew :: apiError where
  "errSkew = \<lparr>ae_code = ''RequestTimeTooSkewed'', ae_status = 403,
     ae_message = ''The difference between the request time and the server's time is too large.''\<rparr>"

definition errMalformedAuth :: apiError where
  "errMalformedAuth = \<lparr>ae_code = ''AuthorizationHeaderMalformed'', ae_status = 400,
     ae_message = ''The authorization header is malformed.''\<rparr>"

definition errMissingSecurityHeader :: apiError where
  "errMissingSecurityHeader = \<lparr>ae_code = ''MissingSecurityHeader'', ae_status = 400,
     ae_message = ''Your request was missing a required header.''\<rparr>"

definition errBadDigest :: apiError where
  "errBadDigest = \<lparr>ae_code = ''XAmzContentSHA256Mismatch'', ae_status = 400,
     ae_message = ''The body does not match the checksum the request declared.''\<rparr>"

definition errBadContentMD5 :: apiError where
  "errBadContentMD5 = \<lparr>ae_code = ''BadDigest'', ae_status = 400,
     ae_message = ''the Content-MD5 you specified did not match what was received''\<rparr>"

definition errInvalidDigest :: apiError where
  "errInvalidDigest = \<lparr>ae_code = ''InvalidDigest'', ae_status = 400,
     ae_message = ''the Content-MD5 you specified is not a base64-encoded 128-bit digest''\<rparr>"

definition errMalformedChecksum :: apiError where
  "errMalformedChecksum = \<lparr>ae_code = ''BadDigest'', ae_status = 400,
     ae_message = ''the checksum you specified is not valid''\<rparr>"

definition errMetadataTooLarge :: apiError where
  "errMetadataTooLarge = \<lparr>ae_code = ''MetadataTooLarge'', ae_status = 400,
     ae_message = ''the metadata headers exceed the maximum allowed size''\<rparr>"

definition errInvalidDirective :: apiError where
  "errInvalidDirective = \<lparr>ae_code = ''InvalidArgument'', ae_status = 400,
     ae_message = ''x-amz-metadata-directive must be COPY or REPLACE''\<rparr>"

definition errPreconditionFailed :: apiError where
  "errPreconditionFailed = \<lparr>ae_code = ''PreconditionFailed'', ae_status = 412,
     ae_message = ''at least one of the preconditions you specified did not hold''\<rparr>"

definition errNotImplemented :: apiError where
  "errNotImplemented = \<lparr>ae_code = ''NotImplemented'', ae_status = 501,
     ae_message = ''This server does not implement that operation.''\<rparr>"

definition errEncryptionNotImplemented :: apiError where
  "errEncryptionNotImplemented = \<lparr>ae_code = ''NotImplemented'', ae_status = 501,
     ae_message = ''This server does not encrypt objects, and will not pretend to have encrypted one.''\<rparr>"

definition errChecksumNotImplemented :: apiError where
  "errChecksumNotImplemented = \<lparr>ae_code = ''NotImplemented'', ae_status = 501,
     ae_message = ''This server verifies CRC32, CRC32C and CRC64NVME on a PUT or multipart upload that names them, and will not accept a checksum it would drop''\<rparr>"

definition errTaggingNotImplemented :: apiError where
  "errTaggingNotImplemented = \<lparr>ae_code = ''NotImplemented'', ae_status = 501,
     ae_message = ''This server does not store object tags, and will not accept tags it would drop.''\<rparr>"

definition errBucketNotEmpty :: apiError where
  "errBucketNotEmpty = \<lparr>ae_code = ''BucketNotEmpty'', ae_status = 409,
     ae_message = ''The bucket still holds objects.''\<rparr>"

definition errInvalidCopySource :: apiError where
  "errInvalidCopySource = \<lparr>ae_code = ''InvalidArgument'', ae_status = 400,
     ae_message = ''The copy source must name a bucket and a key, and must not name a version.''\<rparr>"

definition errCopyOntoItself :: apiError where
  "errCopyOntoItself = \<lparr>ae_code = ''InvalidRequest'', ae_status = 400,
     ae_message = ''A copy onto the object itself would change nothing: there is no metadata here to rewrite.''\<rparr>"

definition errMalformedXML :: apiError where
  "errMalformedXML = \<lparr>ae_code = ''MalformedXML'', ae_status = 400,
     ae_message = ''The request body is not XML this server can read.''\<rparr>"

definition authError :: "error \<Rightarrow> apiError" where
  "authError err =
     (if errors_Is err ErrMissingSignature then errAccessDenied
      else if errors_Is err ErrMissingDate then errMissingSecurityHeader
      else if errors_Is err ErrUnknownKey then errInvalidKey
      else if errors_Is err ErrMismatch then errBadSignature
      else if errors_Is err ErrSkew then errSkew
      else if errors_Is err ErrPayload then errBadDigest
      else errMalformedAuth)"

definition storeError :: "error \<Rightarrow> apiError" where
  "storeError err =
     (if errors_Is err meta_ErrNotFound then errNoSuchKey
      else if errors_Is err ErrBadDigest then errBadContentMD5
      else if errors_Is err ErrQuorum then errSlowDown
      else if errors_Is err ErrNotWriting then errSlowDown
      else if errors_Is err ErrPayload \<or> errors_Is err ErrMismatch then errBadDigest
      else if errors_Is err ErrChecksumMismatch
      then \<lparr>ae_code = ''BadDigest'', ae_status = 400, ae_message = ''The bytes received did not match their checksum.''\<rparr>
      else errInternal)"

definition uploadError :: "error \<Rightarrow> apiError" where
  "uploadError err =
     (if errors_Is err meta_ErrNotFound
      then \<lparr>ae_code = ''NoSuchUpload'', ae_status = 404,
        ae_message = ''The upload id does not exist. It may have been completed or aborted.''\<rparr>
      else if errors_Is err ErrNoSuchPart
      then \<lparr>ae_code = ''InvalidPart'', ae_status = 400, ae_message = ''A part named by the completion does not exist.''\<rparr>
      else if errors_Is err ErrPartOrder
      then \<lparr>ae_code = ''InvalidPartOrder'', ae_status = 400,
        ae_message = ''Parts must be listed in ascending part-number order, each at most once.''\<rparr>
      else if errors_Is err ErrPartMismatch
      then \<lparr>ae_code = ''InvalidPart'', ae_status = 400,
        ae_message = ''A part's etag does not match the part this server stored.''\<rparr>
      else storeError err)"

definition xml_Header :: bytes where
  "xml_Header = bytes_of_string (''<?xml version='' @ [CHR 0x22] @ ''1.0'' @ [CHR 0x22] @ '' encoding='' @ [CHR 0x22]
     @ ''UTF-8'' @ [CHR 0x22] @ ''?>'' @ [CHR 0x0A])"

text \<open>
  \<^verbatim>\<open>fail\<close>, on the headers already set; \<^verbatim>\<open>http.Error\<close> is what is left when the document cannot be encoded.
\<close>

definition fail :: "gateway_lib \<Rightarrow> request \<Rightarrow> multimap \<Rightarrow> apiError \<Rightarrow> response" where
  "fail L r header e = (case gl_Marshal L (errorResponse (ae_code e) (ae_message e) (rq_Path r)) of
      None \<Rightarrow>
        \<lparr>rs_Status = ae_status e,
         rs_Header = h_Set ''X-Content-Type-Options'' ''nosniff'' (h_Set ''Content-Type'' ''text/plain; charset=utf-8'' header),
         rs_Body = bytes_of_string (ae_code e @ [CHR 0x0A])\<rparr>
    | Some body \<Rightarrow>
        \<lparr>rs_Status = ae_status e,
         rs_Header = h_Set ''Content-Length'' (fmt_d (length body + length xml_Header))
           (h_Set ''Content-Type'' ''application/xml'' header),
         rs_Body = if rq_Method r = ''HEAD'' then [] else xml_Header @ body\<rparr>)"

definition writeXML :: "gateway_lib \<Rightarrow> request \<Rightarrow> multimap \<Rightarrow> doc \<Rightarrow> response" where
  "writeXML L r header d = (case gl_Marshal L d of
      None \<Rightarrow> fail L r header errInternal
    | Some body \<Rightarrow>
        \<lparr>rs_Status = 200,
         rs_Header = h_Set ''Content-Length'' (fmt_d (length body + length xml_Header))
           (h_Set ''Content-Type'' ''application/xml'' header),
         rs_Body = xml_Header @ body\<rparr>)"

section \<open>What a request may ask\<close>

definition knownObjectQuery :: "string \<Rightarrow> string \<Rightarrow> string \<Rightarrow> bool" where
  "knownObjectQuery method name value =
     (if name = ''x-id'' then True
      else if name = ''uploadId'' then True
      else if name = ''partNumber'' then method = ''PUT'' \<or> method = ''GET'' \<or> method = ''HEAD''
      else if name = ''uploads'' then method = ''POST''
      else if name = ''max-parts'' \<or> name = ''part-number-marker'' then method = ''GET''
      else if name = ''tagging'' then method = ''GET''
      else if name = ''versionId'' then value = ''null''
      else False)"

definition encryptionRequested :: "multimap \<Rightarrow> bool" where
  "encryptionRequested header = list_ex (\<lambda>(name, vs). HasPrefix name ''X-Amz-Server-Side-Encryption'' \<or>
     HasPrefix name ''X-Amz-Copy-Source-Server-Side-Encryption'') header"

definition taggingRequested :: "multimap \<Rightarrow> bool" where
  "taggingRequested header \<longleftrightarrow> h_Get header ''X-Amz-Tagging'' \<noteq> ''''"

definition httpChunked :: "request \<Rightarrow> bool" where
  "httpChunked r = list_ex (\<lambda>te. EqualFoldTo te ''chunked'') (rq_TransferEncoding r)"

definition writesObjectBytes :: "request \<Rightarrow> bool" where
  "writesObjectBytes r =
     (if rq_Method r = ''PUT'' \<and> rq_key r \<noteq> '''' then True
      else rq_Method r = ''POST'' \<and> rq_key r \<noteq> '''' \<and>
        (q_Has (rq_Query r) ''uploads'' \<or> q_Get (rq_Query r) ''uploadId'' \<noteq> ''''))"

section \<open>Checksums\<close>

definition announcedTrailers :: "multimap \<Rightarrow> string list" where
  "announcedTrailers header =
     filter (\<lambda>n. n \<noteq> '''') (map TrimSpace (concat (map (Split (CHR '','')) (h_Values header ''X-Amz-Trailer''))))"

text \<open>The loop of \<^verbatim>\<open>checksumHeaders\<close> over the announced trailers; \<open>None\<close> is one that is not supported.\<close>

definition trailer_kind :: "string \<Rightarrow> bool \<times> bool \<times> bool \<Rightarrow> (bool \<times> bool \<times> bool) option" where
  "trailer_kind name k = (case k of (ieee, crc32c, crc64) \<Rightarrow>
     if EqualFoldTo name ''x-amz-checksum-crc32'' then Some (True, crc32c, crc64)
     else if EqualFoldTo name ''x-amz-checksum-crc32c'' then Some (ieee, True, crc64)
     else if EqualFoldTo name ''x-amz-checksum-crc64nvme'' then Some (ieee, crc32c, True)
     else None)"

primrec trailer_kinds :: "string list \<Rightarrow> bool \<times> bool \<times> bool \<Rightarrow> (bool \<times> bool \<times> bool) option" where
  "trailer_kinds [] k = Some k"
| "trailer_kinds (name # names) k = Option.bind (trailer_kind name k) (trailer_kinds names)"

text \<open>The algorithm a value fixes, unless the request names another one.\<close>

definition fixed_algo :: "string \<Rightarrow> string \<Rightarrow> string \<times> bool" where
  "fixed_algo algo fixed =
     (if algo = '''' then (fixed, False) else if \<not> EqualFoldTo algo fixed then ('''', True) else (algo, False))"

definition checksumHeaders :: "multimap \<Rightarrow> string \<times> bool" where
  "checksumHeaders header =
     (let v = h_Get header ''X-Amz-Checksum-Type'' in
      if v \<noteq> '''' \<and> \<not> EqualFoldTo v ''FULL_OBJECT'' then ('''', True)
      else if h_Get header ''X-Amz-Checksum-Sha1'' \<noteq> '''' \<or> h_Get header ''X-Amz-Checksum-Sha256'' \<noteq> '''' then ('''', True)
      else case trailer_kinds (announcedTrailers header) (False, False, False) of
        None \<Rightarrow> ('''', True)
      | Some (t32, t32c, t64) \<Rightarrow>
          (let ieee = (t32 \<or> h_Get header ''X-Amz-Checksum-Crc32'' \<noteq> '''');
               crc32c = (t32c \<or> h_Get header ''X-Amz-Checksum-Crc32c'' \<noteq> '''');
               crc64 = (t64 \<or> h_Get header ''X-Amz-Checksum-Crc64nvme'' \<noteq> '''');
               n = of_bool ieee + of_bool crc32c + of_bool crc64 :: nat;
               algo = (if h_Get header ''X-Amz-Checksum-Algorithm'' = '''' then h_Get header ''X-Amz-Sdk-Checksum-Algorithm''
                       else h_Get header ''X-Amz-Checksum-Algorithm'')
           in if n > 1 then ('''', True)
              else if ieee then fixed_algo algo ''CRC32''
              else if crc32c then fixed_algo algo ''CRC32C''
              else if crc64 then fixed_algo algo ''CRC64NVME''
              else (algo, False)))"

definition checksumRefused :: "request \<Rightarrow> bool" where
  "checksumRefused r =
     (if \<not> writesObjectBytes r then False
      else case checksumHeaders (rq_Header r) of (algo, extras) \<Rightarrow>
        if extras then True
        else if algo = '''' then False
        else if \<not> EqualFoldTo algo ''CRC32'' \<and> \<not> EqualFoldTo algo ''CRC32C'' \<and> \<not> EqualFoldTo algo ''CRC64NVME'' then True
        else h_Get (rq_Header r) ''X-Amz-Copy-Source'' \<noteq> '''' \<and> q_Get (rq_Query r) ''uploadId'' = '''')"

definition canonicalChecksumAlgo :: "multimap \<Rightarrow> string" where
  "canonicalChecksumAlgo header = (case checksumHeaders header of (algo, extras) \<Rightarrow>
     if extras then ''''
     else if EqualFoldTo algo ''CRC32'' then ''CRC32''
     else if EqualFoldTo algo ''CRC32C'' then ''CRC32C''
     else if EqualFoldTo algo ''CRC64NVME'' then ''CRC64NVME''
     else '''')"

definition requested_algo :: "string \<Rightarrow> multimap \<Rightarrow> bool" where
  "requested_algo want header = (case checksumHeaders header of (algo, extras) \<Rightarrow> \<not> extras \<and> EqualFoldTo algo want)"

definition requestedCRC32 :: "multimap \<Rightarrow> bool" where
  "requestedCRC32 header = requested_algo ''CRC32'' header"

definition requestedCRC32C :: "multimap \<Rightarrow> bool" where
  "requestedCRC32C header = requested_algo ''CRC32C'' header"

definition requestedCRC64NVME :: "multimap \<Rightarrow> bool" where
  "requestedCRC64NVME header = requested_algo ''CRC64NVME'' header"

definition decode_digest :: "nat \<Rightarrow> string \<Rightarrow> error + 'a::len word" where
  "decode_digest n raw = (case base64_DecodeString raw of
      None \<Rightarrow> Inl [Other ''s3: checksum is not a base64-encoded digest'']
    | Some b \<Rightarrow> if length b \<noteq> n then Inl [Other ''s3: checksum is not a base64-encoded digest''] else Inr (be_word b))"

definition decodeCRC32 :: "string \<Rightarrow> error + uint32" where
  "decodeCRC32 raw = decode_digest 4 raw"

definition decodeCRC32C :: "string \<Rightarrow> error + uint32" where
  "decodeCRC32C raw = decode_digest 4 raw"

definition decodeCRC64NVME :: "string \<Rightarrow> error + uint64" where
  "decodeCRC64NVME raw = decode_digest 8 raw"

definition encodeCRC32C :: "uint32 \<Rightarrow> string" where
  "encodeCRC32C v = base64_EncodeToString (be_bytes 4 v)"

definition encodeCRC32 :: "uint32 \<Rightarrow> string" where
  "encodeCRC32 v = encodeCRC32C v"

definition encodeCRC64NVME :: "uint64 \<Rightarrow> string" where
  "encodeCRC64NVME v = base64_EncodeToString (be_bytes 8 v)"

text \<open>A checksum declared in a header: absent, malformed, or a value.\<close>

definition declared_in :: "(string \<Rightarrow> error + 'w) \<Rightarrow> string \<Rightarrow> multimap \<Rightarrow> error + 'w option" where
  "declared_in decode name header =
     (let raw = h_Get header name in
      if raw = '''' then Inr None
      else case decode raw of Inl e \<Rightarrow> Inl e | Inr v \<Rightarrow> Inr (Some v))"

definition declaredCRC32 :: "multimap \<Rightarrow> error + uint32 option" where
  "declaredCRC32 header = declared_in decodeCRC32 ''X-Amz-Checksum-Crc32'' header"

definition declaredCRC32C :: "multimap \<Rightarrow> error + uint32 option" where
  "declaredCRC32C header = declared_in decodeCRC32C ''X-Amz-Checksum-Crc32c'' header"

definition declaredCRC64NVME :: "multimap \<Rightarrow> error + uint64 option" where
  "declaredCRC64NVME header = declared_in decodeCRC64NVME ''X-Amz-Checksum-Crc64nvme'' header"

text \<open>And in a trailer, once the body has been read: it must be there and must decode.\<close>

definition declared_trailing :: "(string \<Rightarrow> error + 'w) \<Rightarrow> string \<Rightarrow> multimap \<Rightarrow> error + 'w option" where
  "declared_trailing decode name trailers =
     (let raw = h_Get trailers name in
      if raw = '''' then Inl [ErrBadDigest]
      else case decode raw of Inl e \<Rightarrow> Inl [ErrBadDigest] | Inr v \<Rightarrow> Inr (Some v))"

definition declaredTrailingCRC32 :: "multimap \<Rightarrow> error + uint32 option" where
  "declaredTrailingCRC32 trailers = declared_trailing decodeCRC32 ''X-Amz-Checksum-Crc32'' trailers"

definition declaredTrailingCRC32C :: "multimap \<Rightarrow> error + uint32 option" where
  "declaredTrailingCRC32C trailers = declared_trailing decodeCRC32C ''X-Amz-Checksum-Crc32c'' trailers"

definition declaredTrailingCRC64NVME :: "multimap \<Rightarrow> error + uint64 option" where
  "declaredTrailingCRC64NVME trailers = declared_trailing decodeCRC64NVME ''X-Amz-Checksum-Crc64nvme'' trailers"

text \<open>
  The closures \<^verbatim>\<open>attachTrailingChecksums\<close> hands to the write are called once the body has ended, when
  the trailers are complete; here they are their results.
\<close>

definition attach_trailing :: "multimap \<Rightarrow> string \<Rightarrow> put_options \<Rightarrow> put_options" where
  "attach_trailing trailers name opts =
     (if EqualFoldTo name ''x-amz-checksum-crc32'' then opts\<lparr>po_TrailingCRC32 := Some (declaredTrailingCRC32 trailers)\<rparr>
      else if EqualFoldTo name ''x-amz-checksum-crc32c''
      then opts\<lparr>po_TrailingCRC32C := Some (declaredTrailingCRC32C trailers)\<rparr>
      else if EqualFoldTo name ''x-amz-checksum-crc64nvme''
      then opts\<lparr>po_TrailingCRC64NVME := Some (declaredTrailingCRC64NVME trailers)\<rparr>
      else opts)"

definition attachTrailingChecksums :: "put_options \<Rightarrow> request \<Rightarrow> put_options" where
  "attachTrailingChecksums opts r =
     fold (attach_trailing (rq_Trailers r)) (announcedTrailers (rq_Header r)) opts"

definition checksumModeEnabled :: "multimap \<Rightarrow> bool" where
  "checksumModeEnabled header = EqualFoldTo (h_Get header ''X-Amz-Checksum-Mode'') ''ENABLED''"

section \<open>Keys and metadata\<close>

definition objectKey :: "request \<Rightarrow> string option" where
  "objectKey r =
     (if rq_bucket r = '''' \<or> rq_key r = '''' \<or> Contains (rq_bucket r) ''/'' then None
      else Some (rq_bucket r @ ''/'' @ rq_key r))"

definition copySource :: "string \<Rightarrow> string option" where
  "copySource source =
     (if Contains source ''?'' then None
      else case PathUnescape (TrimPrefix source ''/'') of
        None \<Rightarrow> None
      | Some decoded \<Rightarrow>
          (case Cut decoded ''/'' of
             None \<Rightarrow> None
           | Some (bucket, key) \<Rightarrow> if bucket = '''' \<or> key = '''' then None else Some (bucket @ ''/'' @ key)))"

definition passthrough :: "string list" where
  "passthrough = [''Cache-Control'', ''Content-Disposition'', ''Content-Encoding'', ''Content-Language'', ''Expires'']"

definition MaxMeta :: int where
  "MaxMeta = 2048"

definition withoutAWSChunked :: "string \<Rightarrow> string" where
  "withoutAWSChunked encoding =
     Strings_Join '', '' (filter (\<lambda>p. p \<noteq> '''' \<and> \<not> EqualFoldTo p ''aws-chunked'') (map TrimSpace (Split (CHR '','') encoding)))"

text \<open>What is kept so far, and its size.\<close>

type_synonym kept = "(string \<times> string) list \<times> int"

definition keep :: "string \<Rightarrow> string \<Rightarrow> kept \<Rightarrow> kept" where
  "keep name value k = (AList.update name value (fst k), snd k + int (length name) + int (length value))"

definition keep_meta :: "string \<times> string list \<Rightarrow> kept \<Rightarrow> kept" where
  "keep_meta nv k = (case nv of (name, vs) \<Rightarrow>
     if HasPrefix name ''X-Amz-Meta-'' \<and> vs \<noteq> [] then keep (map ascii_lower name) (hd vs) k else k)"

definition keep_passthrough :: "multimap \<Rightarrow> string \<Rightarrow> kept \<Rightarrow> kept" where
  "keep_passthrough header name k =
     (let value = h_Get header name in
      if value = '''' then k
      else if name = ''Content-Encoding'' then
        (let v = withoutAWSChunked value in if v = '''' then k else keep name v k)
      else keep name value k)"

definition storedMeta :: "multimap \<Rightarrow> error + (string \<times> string) list" where
  "storedMeta header =
     (case fold (keep_passthrough header) passthrough (fold keep_meta header ([], 0)) of (stored, sz) \<Rightarrow>
        if sz > MaxMeta then Inl [Other ''too many bytes of metadata''] else Inr stored)"

section \<open>Conditions\<close>

definition etag :: "manifest \<Rightarrow> string" where
  "etag m = [CHR 0x22] @ m_ETag m @ [CHR 0x22]"

definition http_TimeFormat :: string where
  "http_TimeFormat = ''Mon, 02 Jan 2006 15:04:05 GMT''"

definition validators :: "time_lib \<Rightarrow> manifest \<Rightarrow> multimap \<Rightarrow> multimap" where
  "validators T m header =
     h_Set ''Last-Modified'' (tl_Format T http_TimeFormat (m_Modified m)) (h_Set ''ETag'' (etag m) header)"

definition matchesTag :: "string \<Rightarrow> string \<Rightarrow> bool" where
  "matchesTag header tag =
     list_ex (\<lambda>candidate. TrimSpace candidate = ''*'' \<or> TrimSpace candidate = tag) (Split (CHR '','') header)"

definition modified :: "manifest \<Rightarrow> int" where
  "modified m = truncate_second (m_Modified m)"

definition httpDate :: "time_lib \<Rightarrow> string \<Rightarrow> int option" where
  "httpDate T header = (if header = '''' then None else tl_ParseTime T header)"

text \<open>The status to answer with, and whether the read may proceed.\<close>

definition precondition :: "time_lib \<Rightarrow> multimap \<Rightarrow> manifest \<Rightarrow> int \<times> bool" where
  "precondition T header m =
     (let tag = etag m; im = h_Get header ''If-Match''; inm = h_Get header ''If-None-Match'';
          failed = (if im \<noteq> '''' then \<not> matchesTag im tag
                    else case httpDate T (h_Get header ''If-Unmodified-Since'') of
                           Some since \<Rightarrow> modified m > since | None \<Rightarrow> False);
          unchanged = (if inm \<noteq> '''' then matchesTag inm tag
                       else case httpDate T (h_Get header ''If-Modified-Since'') of
                              Some since \<Rightarrow> \<not> modified m > since | None \<Rightarrow> False)
      in if failed then (412, False) else if unchanged then (304, False) else (200, True))"

definition condition_names :: "string list" where
  "condition_names = [''If-Match'', ''If-None-Match'', ''If-Modified-Since'', ''If-Unmodified-Since'']"

definition copyConditions :: "multimap \<Rightarrow> multimap" where
  "copyConditions header = fold (\<lambda>name conditions.
     let value = h_Get header (''X-Amz-Copy-Source-'' @ name) in
     if value = '''' then conditions else h_Set name value conditions) condition_names []"

definition contentMD5 :: "string list \<Rightarrow> error + string" where
  "contentMD5 vs = (case vs of
      [] \<Rightarrow> Inr ''''
    | header # _ \<Rightarrow>
        (case base64_DecodeString header of
           None \<Rightarrow> Inl [Other ''s3: Content-MD5 is not base64'']
         | Some s \<Rightarrow>
             if length s \<noteq> 16 then Inl [Other ''s3: Content-MD5 has the wrong length''] else Inr (hex_encode s)))"

section \<open>Windows\<close>

text \<open>
  \<^verbatim>\<open>partWindow\<close>: offset, size, the part, and whether the object has parts; \<open>None\<close> when there is no
  such part.
\<close>

fun part_loop :: "int \<Rightarrow> int \<Rightarrow> part list \<Rightarrow> (int \<times> int \<times> part) option" where
  "part_loop n off [] = None"
| "part_loop n off (p # ps) =
     (if pt_Number p = n then Some (off, pt_Size p, p) else part_loop n (i64 (off + pt_Size p)) ps)"

definition partWindow :: "manifest \<Rightarrow> int \<Rightarrow> (int \<times> int \<times> part option \<times> bool) option" where
  "partWindow m n =
     (if m_Parts m = [] then (if n = 1 then Some (0, m_Size m, None, False) else None)
      else map_option (\<lambda>(off, sz, p). (off, sz, Some p, True)) (part_loop n 0 (m_Parts m)))"

definition bad_range :: error where
  "bad_range = [Other ''range'']"

definition parseRange :: "string \<Rightarrow> int \<Rightarrow> error + int \<times> int" where
  "parseRange header sz = (case CutPrefix header ''bytes='' of
      None \<Rightarrow> Inr (0, sz)
    | Some spec \<Rightarrow>
        if Contains spec '','' then Inr (0, sz)
        else (case Cut spec ''-'' of
            None \<Rightarrow> Inl bad_range
          | Some (lo, hi) \<Rightarrow>
              if lo = '''' then
                (case ParseInt 10 hi of
                   None \<Rightarrow> Inl bad_range
                 | Some n \<Rightarrow> if n \<le> 0 then Inl bad_range else Inr (max (sz - n) 0, min n sz))
              else if hi = '''' then
                (case ParseInt 10 lo of
                   None \<Rightarrow> Inl bad_range
                 | Some off \<Rightarrow> if off < 0 \<or> off \<ge> sz then Inl bad_range else Inr (off, sz - off))
              else
                (case (ParseInt 10 lo, ParseInt 10 hi) of
                   (Some off, Some fin) \<Rightarrow>
                     if off < 0 \<or> fin < off \<or> off \<ge> sz then Inl bad_range
                     else Inr (off, i64 (min (i64 (fin + 1)) sz - off))
                 | _ \<Rightarrow> Inl bad_range)))"

definition parseCopyRange :: "string \<Rightarrow> int \<Rightarrow> error + int \<times> int" where
  "parseCopyRange header sz =
     (if header = '''' then Inr (0, sz)
      else case CutPrefix header ''bytes='' of
        None \<Rightarrow> Inl [errRangeSyntax]
      | Some spec \<Rightarrow>
          (case Cut spec ''-'' of
             None \<Rightarrow> Inl [errRangeSyntax]
           | Some (lo, hi) \<Rightarrow>
               (case (ParseInt 10 lo, ParseInt 10 hi) of
                  (Some start, Some fin) \<Rightarrow>
                    if start < 0 \<or> fin < start then Inl [errRangeSyntax]
                    else if fin \<ge> sz then Inl bad_range
                    else Inr (start, fin - start + 1)
                | _ \<Rightarrow> Inl [errRangeSyntax])))"

section \<open>What a range may be\<close>

text \<open>The single ranges of the HTTP syntax, and the positions of an object each names.\<close>

datatype byte_range = Suffix int | Onward int | Between int int

primrec positions :: "byte_range \<Rightarrow> int \<Rightarrow> int set" where
  "positions (Suffix n) sz = {max 0 (sz - n)..<sz}"
| "positions (Onward a) sz = {a..<sz}"
| "positions (Between a b) sz = {a..b} \<inter> {..<sz}"

inductive names_range :: "string \<Rightarrow> byte_range \<Rightarrow> bool" where
  names_suffix: "ParseInt 10 hi = Some n \<Longrightarrow> names_range (''bytes=-'' @ hi) (Suffix n)"
| names_onward: "ParseInt 10 lo = Some a \<Longrightarrow> names_range (''bytes='' @ lo @ ''-'') (Onward a)"
| names_between: "ParseInt 10 lo = Some a \<Longrightarrow> ParseInt 10 hi = Some b \<Longrightarrow>
    names_range (''bytes='' @ lo @ ''-'' @ hi) (Between a b)"

lemma Cut_parts: "Cut s [c] = Some (a, b) \<Longrightarrow> s = a @ c # b"
proof -
  have "Index s [c] = Some i \<Longrightarrow> s = take i s @ c # drop (Suc i) s" for i
    by (induction s arbitrary: i) (auto simp: HasPrefix_def split: if_splits)
  then show "Cut s [c] = Some (a, b) \<Longrightarrow> s = a @ c # b" by (auto simp: Cut_def split: option.splits)
qed

lemma CutPrefix_parts: "CutPrefix s p = Some t \<Longrightarrow> s = p @ t"
  by (auto simp: CutPrefix_def HasPrefix_def split: if_splits) (metis append_take_drop_id)

lemma i64_wrapped: "0 \<le> off \<Longrightarrow> off < 2 ^ 63 \<Longrightarrow> i64 (- (2 ^ 63) - off) = (if off = 0 then - (2 ^ 63) else 2 ^ 63 - off)"
proof -
  assume o: "0 \<le> off" "off < 2 ^ 63"
  have "(- off) mod (2 ^ 64 :: int) = (if off = 0 then 0 else 2 ^ 64 - off)"
    using o by (auto simp: zmod_zminus1_eq_if)
  then show ?thesis by (simp add: i64_def)
qed

text \<open>The last case of \<^verbatim>\<open>parseRange\<close>: inside the object, or past the largest number there is.\<close>

lemma between_window:
  assumes "in_i64 sz" "0 \<le> off" "off \<le> fin" "off < sz" "in_i64 fin" "len = i64 (min (i64 (fin + 1)) sz - off)"
  shows "0 \<le> len \<and> off + len \<le> sz \<and> {off..<off + len} = {off..fin} \<inter> {..<sz} \<or> fin = max_int64 \<and> (len < 0 \<or> sz < off + len)"
proof (cases "fin = max_int64")
  case True
  then have "i64 (fin + 1) = - (2 ^ 63)" by (simp add: max_int64_def i64_def)
  then have "len = (if off = 0 then - (2 ^ 63) else 2 ^ 63 - off)"
    using assms i64_wrapped[of off] by (simp add: in_i64_def)
  then show ?thesis using True assms(1) by (auto simp: in_i64_def)
next
  case False
  then have "in_i64 (fin + 1)" using assms(2,3,5) by (simp add: in_i64_def max_int64_def)
  moreover have "in_i64 (min (fin + 1) sz - off)" using assms by (auto simp: in_i64_def)
  ultimately have "len = min (fin + 1) sz - off" using assms(6) by simp
  then show ?thesis using assms by auto
qed

text \<open>
  C30. A range stays inside the object, but for one value.  For an object of any size, what
  \<^verbatim>\<open>parseRange\<close> makes of a \<^verbatim>\<open>Range\<close> header is the whole object or a single range the header names, and
  then exactly the positions that range has in the object, cut off at its end.  The exception is a
  last position of 2^63 - 1: adding one to it wraps around, and the length that comes out is negative
  or runs past the end of the object.
\<close>

theorem parseRange_window:
  assumes "0 \<le> sz" and "in_i64 sz" and "parseRange header sz = Inr (off, len)"
  shows "(off, len) = (0, sz) \<or>
    (\<exists>rg. names_range header rg \<and>
      (0 \<le> off \<and> 0 \<le> len \<and> off + len \<le> sz \<and> {off..<off + len} = positions rg sz \<or>
       rg = Between off max_int64 \<and> (len < 0 \<or> sz < off + len)))"
proof (cases "CutPrefix header ''bytes=''")
  case None
  then show ?thesis using assms(3) by (simp add: parseRange_def)
next
  case (Some spec)
  note header = CutPrefix_parts[OF Some]
  show ?thesis
  proof (cases "Contains spec '',''")
    case True
    then show ?thesis using assms(3) Some by (simp add: parseRange_def)
  next
    case False
    then obtain lo hi where cut: "Cut spec ''-'' = Some (lo, hi)"
      using assms(3) Some by (auto simp: parseRange_def split: option.splits)
    note spec = Cut_parts[OF cut]
    consider (suffix) n where "lo = ''''" "ParseInt 10 hi = Some n" "0 < n" "off = max (sz - n) 0" "len = min n sz"
      | (onward) "hi = ''''" "ParseInt 10 lo = Some off" "0 \<le> off" "off < sz" "len = sz - off"
      | (between) fin where "ParseInt 10 lo = Some off" "ParseInt 10 hi = Some fin" "0 \<le> off" "off \<le> fin" "off < sz"
          "len = i64 (min (i64 (fin + 1)) sz - off)"
      using assms(3) Some False cut by (auto simp: parseRange_def split: if_splits option.splits)
    then show ?thesis
    proof cases
      case suffix
      have "names_range header (Suffix n)" using names_suffix[OF suffix(2)] header spec suffix(1) by simp
      moreover have "0 \<le> off \<and> 0 \<le> len \<and> off + len \<le> sz \<and> {off..<off + len} = positions (Suffix n) sz"
        using suffix assms(1) by (auto simp: max_def min_def)
      ultimately show ?thesis by blast
    next
      case onward
      have "names_range header (Onward off)" using names_onward[OF onward(2)] header spec onward(1) by simp
      moreover have "0 \<le> off \<and> 0 \<le> len \<and> off + len \<le> sz \<and> {off..<off + len} = positions (Onward off) sz"
        using onward by auto
      ultimately show ?thesis by blast
    next
      case between
      have "names_range header (Between off fin)" using names_between[OF between(1,2)] header spec by simp
      then show ?thesis using between_window[OF assms(2) between(3-5) ParseInt_range[OF between(2)] between(6)] between(3)
        by (intro disjI2 exI[of _ "Between off fin"]) auto
    qed
  qed
qed

theorem parseRange_window_witness:
  "parseRange ''bytes=1-9223372036854775807'' 10 = Inr (1, 9223372036854775807) \<and>
    (\<exists>rg. names_range ''bytes=1-9223372036854775807'' rg \<and> rg = Between 1 max_int64)"
proof -
  have n: "ParseInt 10 ''9223372036854775807'' = Some 9223372036854775807" "ParseInt 10 ''1'' = Some 1"
    by (simp_all add: ParseInt_def HasPrefix_def hex_value_def in_i64_def)
  have s: "CutPrefix ''bytes=1-9223372036854775807'' ''bytes='' = Some ''1-9223372036854775807''"
    "Contains ''1-9223372036854775807'' '','' = False" "Cut ''1-9223372036854775807'' ''-'' = Some (''1'', ''9223372036854775807'')"
    by code_simp+
  have p: "parseRange ''bytes=1-9223372036854775807'' 10 = Inr (1, 9223372036854775807)"
    by (simp add: parseRange_def s n i64_def)
  have "in_i64 10" by (simp add: in_i64_def)
  from parseRange_window[OF _ this p] show ?thesis using p by auto
qed

end
