(* ===== verification/S3_Objects.thy ===== *)
theory S3_Objects
  imports S3_Base
begin

text \<open>
  The object handlers of \<^verbatim>\<open>internal/s3/s3.go\<close>: storing, copying, reading and deleting one object.  A
  handler takes the verified request and the world, and gives the world and the response.

  The surroundings of a request are a \<open>gateway\<close>: the cluster with its system, the credentials, the
  libraries, the random text of the next write and upload, how the connection cuts reads and writes,
  and how many bytes of a response the client takes.
\<close>

section \<open>Handlers\<close>

record 's gateway =
  gw_sys :: "'s sys"
  gw_cluster :: coord
  gw_creds :: credentials
  gw_lib :: gateway_lib
  gw_ks :: "nat \<Rightarrow> nat \<times> nat"
  gw_bs :: nat
  gw_room :: nat
  gw_pre :: string
  gw_id :: string
  gw_fuel :: nat

text \<open>The checksum headers of a write's response: those the request declared or asked for.\<close>

definition write_checksums ::
  "request \<Rightarrow> manifest \<Rightarrow> uint32 option \<Rightarrow> uint32 option \<Rightarrow> uint64 option \<Rightarrow> multimap \<Rightarrow> multimap" where
  "write_checksums r m crc32c crc32 crc64nvme h =
     (let h1 = (case m_CRC32C m of
            Some v \<Rightarrow> if crc32c \<noteq> None \<or> requestedCRC32C (rq_Header r) then h_Set ''X-Amz-Checksum-Crc32c'' (encodeCRC32C v) h else h
          | None \<Rightarrow> h);
          h2 = (case m_CRC32 m of
            Some v \<Rightarrow> if crc32 \<noteq> None \<or> requestedCRC32 (rq_Header r) then h_Set ''X-Amz-Checksum-Crc32'' (encodeCRC32 v) h1 else h1
          | None \<Rightarrow> h1)
      in case m_CRC64NVME m of
           Some v \<Rightarrow> if crc64nvme \<noteq> None \<or> requestedCRC64NVME (rq_Header r)
             then h_Set ''X-Amz-Checksum-Crc64nvme'' (encodeCRC64NVME v) h2 else h2
         | None \<Rightarrow> h2)"

text \<open>The three declared checksums, read in the order of the source; the first malformed one is refused.\<close>

definition declared_checksums :: "multimap \<Rightarrow> error + uint32 option \<times> uint32 option \<times> uint64 option" where
  "declared_checksums header = (case declaredCRC32C header of
      Inl e \<Rightarrow> Inl e
    | Inr crc32c \<Rightarrow> (case declaredCRC32 header of
        Inl e \<Rightarrow> Inl e
      | Inr crc32 \<Rightarrow> (case declaredCRC64NVME header of
          Inl e \<Rightarrow> Inl e
        | Inr crc64nvme \<Rightarrow> Inr (crc32c, crc32, crc64nvme))))"

definition copyObject :: "'s gateway \<Rightarrow> request \<Rightarrow> 's world \<Rightarrow> string \<Rightarrow> string \<Rightarrow> 's world \<times> response" where
  "copyObject G r w key source =
     (let X = gw_sys G; c = gw_cluster G; L = gw_lib G; T = gl_time L; fl = fail L r [] in
      case copySource source of
        None \<Rightarrow> (w, fl errInvalidCopySource)
      | Some frm \<Rightarrow>
          (let directive = h_Get (rq_Header r) ''X-Amz-Metadata-Directive'';
               replace = EqualFoldTo directive ''REPLACE'' in
           if directive \<noteq> '''' \<and> \<not> replace \<and> \<not> EqualFoldTo directive ''COPY'' then (w, fl errInvalidDirective)
           else if frm = key \<and> \<not> replace then (w, fl errCopyOntoItself)
           else case storedMeta (rq_Header r) of
             Inl e \<Rightarrow> (w, fl errMetadataTooLarge)
           | Inr stored \<Rightarrow>
               (let conditions = copyConditions (rq_Header r);
                    checked = (if conditions = [] then (w, None)
                      else case Resolve X c w frm of
                        (w1, Inl e) \<Rightarrow> (w1, Some (storeError e))
                      | (w1, Inr src) \<Rightarrow>
                          (w1, if snd (precondition T conditions src) then None else Some errPreconditionFailed))
                in case checked of
                     (w1, Some e) \<Rightarrow> (w1, fl e)
                   | (w1, None) \<Rightarrow>
                       (case cluster_Copy X c w1 frm key \<lparr>cp_Replace = replace,
                               cp_ContentType = h_Get (rq_Header r) ''Content-Type'', cp_Meta = stored\<rparr> of
                          (w2, Inl e) \<Rightarrow> (w2, fl (storeError e))
                        | (w2, Inr m) \<Rightarrow>
                            (w2, writeXML L r [] (copyResult (etag m)
                              (tl_Format T ''2006-01-02T15:04:05Z07:00'' (m_Modified m))))))))"

text \<open>\<^verbatim>\<open>putObject\<close> past the dispatch to parts and copies, which \<open>S3_Gateway\<close> makes.\<close>

definition put_body :: "'s gateway \<Rightarrow> request \<Rightarrow> 's world \<Rightarrow> string \<Rightarrow> 's world \<times> response" where
  "put_body G r w key =
     (let L = gw_lib G; fl = fail L r []; header = rq_Header r in
      if rq_ContentLength r < 0 \<and> \<not> httpChunked r then (w, fl errMissingLength)
      else case contentMD5 (h_Values header ''Content-MD5'') of
        Inl e \<Rightarrow> (w, fl errInvalidDigest)
      | Inr digest \<Rightarrow>
          (case declared_checksums header of
             Inl e \<Rightarrow> (w, fl errMalformedChecksum)
           | Inr (crc32c, crc32, crc64nvme) \<Rightarrow>
               (case storedMeta header of
                  Inl e \<Rightarrow> (w, fl errMetadataTooLarge)
                | Inr stored \<Rightarrow>
                    (let opts = attachTrailingChecksums (zero_options\<lparr>po_ContentType := h_Get header ''Content-Type'',
                           po_Size := rq_ContentLength r, po_MD5 := digest, po_CRC32C := crc32c, po_CRC32 := crc32,
                           po_CRC64NVME := crc64nvme, po_Meta := stored\<rparr>) r
                     in case cluster_Put (gw_sys G) (gw_cluster G) w key (rq_Body r) opts (gw_pre G) of
                          (w', Inl e) \<Rightarrow> (w', fl (storeError e))
                        | (w', Inr m) \<Rightarrow>
                            (w', \<lparr>rs_Status = 200,
                                  rs_Header = write_checksums r m crc32c crc32 crc64nvme (h_Set ''ETag'' (etag m) []),
                                  rs_Body = []\<rparr>)))))"

definition objectTagging :: "'s gateway \<Rightarrow> request \<Rightarrow> 's world \<Rightarrow> string \<Rightarrow> 's world \<times> response" where
  "objectTagging G r w key = (case Resolve (gw_sys G) (gw_cluster G) w key of
      (w', Inl e) \<Rightarrow> (w', fail (gw_lib G) r [] (storeError e))
    | (w', Inr m) \<Rightarrow> (w', writeXML (gw_lib G) r [] taggingResult))"

section \<open>Reading\<close>

text \<open>The window a read starts from: the whole object, or one part of it.\<close>

definition base_window :: "request \<Rightarrow> manifest \<Rightarrow> apiError + int \<times> int \<times> part option \<times> int" where
  "base_window r m =
     (if \<not> q_Has (rq_Query r) ''partNumber'' then Inr (0, m_Size m, None, 0)
      else case Atoi (q_Get (rq_Query r) ''partNumber'') of
        None \<Rightarrow> Inl errBadPartNumber
      | Some n \<Rightarrow>
          if n < 1 \<or> n > MaxParts then Inl errBadPartNumber
          else (case partWindow m n of
              None \<Rightarrow> Inl errInvalidPartNumber
            | Some (off, sz, part, multipart) \<Rightarrow>
                Inr (off, sz, part, if multipart then int (length (m_Parts m)) else 0)))"

definition set_sum :: "('w \<Rightarrow> string) \<Rightarrow> string \<Rightarrow> 'w option \<Rightarrow> multimap \<Rightarrow> multimap" where
  "set_sum encode name v h = (case v of None \<Rightarrow> h | Some x \<Rightarrow> h_Set name (encode x) h)"

definition read_checksums :: "request \<Rightarrow> manifest \<Rightarrow> part option \<Rightarrow> int \<Rightarrow> int \<Rightarrow> multimap \<Rightarrow> multimap" where
  "read_checksums r m part baseLen len h =
     (if part \<noteq> None \<and> len = baseLen then
        (let p = the part;
             h1 = set_sum encodeCRC64NVME ''X-Amz-Checksum-Crc64nvme'' (pt_CRC64NVME p)
               (set_sum encodeCRC32 ''X-Amz-Checksum-Crc32'' (pt_CRC32 p)
               (set_sum encodeCRC32C ''X-Amz-Checksum-Crc32c'' (pt_CRC32C p) h))
         in if pt_CRC32C p \<noteq> None \<or> pt_CRC32 p \<noteq> None \<or> pt_CRC64NVME p \<noteq> None
            then h_Set ''x-amz-checksum-type'' ''FULL_OBJECT'' h1 else h1)
      else if checksumModeEnabled (rq_Header r) \<and> len = m_Size m then
        h_Set ''x-amz-checksum-type'' ''FULL_OBJECT''
          (set_sum encodeCRC64NVME ''X-Amz-Checksum-Crc64nvme'' (m_CRC64NVME m)
          (set_sum encodeCRC32 ''X-Amz-Checksum-Crc32'' (m_CRC32 m)
          (set_sum encodeCRC32C ''X-Amz-Checksum-Crc32c'' (m_CRC32C m) h)))
      else h)"

definition read_headers :: "time_lib \<Rightarrow> request \<Rightarrow> manifest \<Rightarrow> part option \<Rightarrow> int \<Rightarrow> int \<Rightarrow> int \<Rightarrow> int \<Rightarrow> multimap" where
  "read_headers T r m part partsCount baseLen off len =
     (let h0 = fold (\<lambda>(name, value). AList.update name [value]) (m_Meta m) (validators T m []);
          h1 = h_Set ''Content-Length'' (fmt_int len) (h_Set ''Accept-Ranges'' ''bytes'' h0);
          h2 = (if m_ContentType m \<noteq> '''' then h_Set ''Content-Type'' (m_ContentType m) h1 else h1);
          h3 = read_checksums r m part baseLen len h2;
          h4 = (if partsCount > 0 then h_Set ''X-Amz-Mp-Parts-Count'' (fmt_int partsCount) h3 else h3)
      in if len \<noteq> m_Size m
         then h_Set ''Content-Range'' (''bytes '' @ fmt_int off @ ''-'' @ fmt_int (i64 (off + len - 1)) @ ''/'' @ fmt_int (m_Size m)) h4
         else h4)"

definition read_object :: "'s gateway \<Rightarrow> request \<Rightarrow> 's world \<Rightarrow> string \<Rightarrow> 's world \<times> response" where
  "read_object G r w key =
     (let X = gw_sys G; c = gw_cluster G; L = gw_lib G; T = gl_time L in
      case Resolve X c w key of
        (w', Inl e) \<Rightarrow> (w', fail L r [] (storeError e))
      | (w', Inr m) \<Rightarrow>
          (case precondition T (rq_Header r) m of
             (status, False) \<Rightarrow>
               (w', if status = 304 then \<lparr>rs_Status = 304, rs_Header = validators T m [], rs_Body = []\<rparr>
                    else fail L r [] errPreconditionFailed)
           | (_, True) \<Rightarrow>
               (case base_window r m of
                  Inl e \<Rightarrow> (w', fail L r [] e)
                | Inr (baseOff, baseLen, part, partsCount) \<Rightarrow>
                    (case parseRange (h_Get (rq_Header r) ''Range'') baseLen of
                       Inl e \<Rightarrow>
                         (w', fail L r (h_Set ''Content-Range'' (''bytes */'' @ fmt_int baseLen) []) errInvalidRange)
                     | Inr (rel, len) \<Rightarrow>
                         (let off = i64 (baseOff + rel);
                              status = (if len \<noteq> m_Size m then 206 else 200);
                              out = (if rq_Method r = ''HEAD'' then []
                                     else sk_data (fst (StreamRange X c (gw_bs G) w' m
                                            \<lparr>sk_data = [], sk_room = gw_room G\<rparr> off len)))
                          in (w', \<lparr>rs_Status = status,
                                   rs_Header = read_headers T r m part partsCount baseLen off len,
                                   rs_Body = out\<rparr>))))))"

definition delete_object :: "'s gateway \<Rightarrow> request \<Rightarrow> 's world \<Rightarrow> string \<Rightarrow> 's world \<times> response" where
  "delete_object G r w key = (case cluster_Delete (gw_sys G) (gw_cluster G) w key of
      (w', Some e) \<Rightarrow> (w', fail (gw_lib G) r [] (storeError e))
    | (w', None) \<Rightarrow> (w', \<lparr>rs_Status = 204, rs_Header = [], rs_Body = []\<rparr>))"

definition headBucket :: "'s gateway \<Rightarrow> request \<Rightarrow> 's world \<Rightarrow> 's world \<times> response" where
  "headBucket G r w = (w, \<lparr>rs_Status = 200, rs_Header = [], rs_Body = []\<rparr>)"

definition unsupported :: "'s gateway \<Rightarrow> request \<Rightarrow> 's world \<Rightarrow> 's world \<times> response" where
  "unsupported G r w = (w, fail (gw_lib G) r [] errNotImplemented)"

end
