(* ===== verification/S3_Buckets.thy ===== *)
theory S3_Buckets
  imports S3_Objects
begin

text \<open>
  Buckets and listings, \<^verbatim>\<open>internal/s3/list.go\<close> and \<^verbatim>\<open>internal/s3/bucket.go\<close>.  A bucket is the first
  component of a key, so a listing is a prefix scan and a bucket exists when an object names it.
  The handlers that list have the bound on rounds of \<open>Listing\<close>, and \<open>None\<close> for a scan not done yet.
\<close>

section \<open>Names on the wire\<close>

definition maxKeysLimit :: int where
  "maxKeysLimit = 1000"

definition key_unreserved :: string where
  "key_unreserved = ''ABCDEFGHIJKLMNOPQRSTUVWXYZabcdefghijklmnopqrstuvwxyz0123456789-_.~/''"

definition escapeKey :: "string \<Rightarrow> string" where
  "escapeKey s = percent_encode key_unreserved s"

definition scoped :: "string \<Rightarrow> string \<Rightarrow> string" where
  "scoped bucket key = (if key = '''' then '''' else bucket @ ''/'' @ key)"

definition unscoped :: "string \<Rightarrow> string \<Rightarrow> string" where
  "unscoped bucket key = TrimPrefix key (bucket @ ''/'')"

definition encodeToken :: "string \<Rightarrow> string" where
  "encodeToken key = base64_EncodeToString (bytes_of_string key)"

definition decodeToken :: "string \<Rightarrow> error + string" where
  "decodeToken token =
     (if token = '''' then Inr ''''
      else case base64_DecodeString token of
        None \<Rightarrow> Inl [Other ''illegal base64 data'']
      | Some key \<Rightarrow> Inr (string_of_bytes key))"

definition badMaxKeys :: apiError where
  "badMaxKeys = \<lparr>ae_code = ''InvalidArgument'', ae_status = 400, ae_message = ''max-keys must be a non-negative integer.''\<rparr>"

definition maxKeysOf :: "multimap \<Rightarrow> apiError + int" where
  "maxKeysOf q =
     (let raw = q_Get q ''max-keys'' in
      if raw = '''' then Inr maxKeysLimit
      else case Atoi raw of
        None \<Rightarrow> Inl badMaxKeys
      | Some n \<Rightarrow> if n < 0 then Inl badMaxKeys else Inr (min n maxKeysLimit))"

section \<open>Listing objects\<close>

text \<open>One page of the cluster's listing; a page of no keys asks nothing.\<close>

definition list_at ::
  "'s gateway \<Rightarrow> 's world \<Rightarrow> string \<Rightarrow> string \<Rightarrow> string \<Rightarrow> int \<Rightarrow> ('s world \<times> (error + list_page)) option" where
  "list_at G w pre delimiter frm limit =
     (if limit \<le> 0 then Some (w, Inr zero_page)
      else map_option (\<lambda>(kv', r). (w\<lparr>w_kv := kv'\<rparr>, r))
        (cluster_List (gw_fuel G) (gw_sys G) (gw_cluster G)
           \<lparr>lr_Prefix = pre, lr_Delimiter = delimiter, lr_From = frm, lr_Limit = limit\<rparr> (w_kv w)))"

definition millis :: string where
  "millis = ''2006-01-02T15:04:05.000Z''"

definition quoted :: "string \<Rightarrow> string" where
  "quoted s = [CHR 0x22] @ s @ [CHR 0x22]"

definition key_encoder :: "multimap \<Rightarrow> string \<Rightarrow> string" where
  "key_encoder q = (if q_Get q ''encoding-type'' = ''url'' then escapeKey else (\<lambda>s. s))"

text \<open>Where a ListObjectsV2 request starts: at its token, or else after the key it names.\<close>

definition list_start :: "multimap \<Rightarrow> error + string" where
  "list_start q = (case decodeToken (q_Get q ''continuation-token'') of
      Inl e \<Rightarrow> Inl e
    | Inr frm \<Rightarrow> Inr (if frm = '''' \<and> q_Get q ''start-after'' \<noteq> '''' then After (q_Get q ''start-after'') else frm))"

definition list_result_of :: "'s gateway \<Rightarrow> multimap \<Rightarrow> string \<Rightarrow> int \<Rightarrow> list_page \<Rightarrow> list_result" where
  "list_result_of G q bucket maxKeys pg =
     (let enc = key_encoder q;
          owner = (if q_Get q ''fetch-owner'' = ''true''
            then Some \<lparr>bo_ID = cd_AccessKey (gw_creds G), bo_DisplayName = cd_AccessKey (gw_creds G)\<rparr> else None);
          contents = map (\<lambda>e. \<lparr>le_Key = enc (unscoped bucket (en_Key e)),
            le_LastModified = tl_Format (gl_time (gw_lib G)) millis (en_Modified e), le_ETag = quoted (en_ETag e),
            le_Size = en_Size e, le_StorageClass = ''STANDARD'', le_Owner = owner\<rparr>) (lp_Objects pg);
          prefixes = map (\<lambda>p. enc (unscoped bucket p)) (lp_Prefixes pg)
      in \<lparr>ls_Name = bucket, ls_Prefix = enc (q_Get q ''prefix''), ls_Delimiter = enc (q_Get q ''delimiter''),
          ls_MaxKeys = maxKeys, ls_KeyCount = int (length contents + length prefixes), ls_IsTruncated = (lp_Next pg \<noteq> ''''),
          ls_ContinuationToken = (if q_Has q ''continuation-token'' then Some (q_Get q ''continuation-token'') else None),
          ls_NextContinuationToken = (if lp_Next pg \<noteq> '''' then encodeToken (unscoped bucket (lp_Next pg)) else ''''),
          ls_StartAfter = enc (q_Get q ''start-after''), ls_EncodingType = q_Get q ''encoding-type'',
          ls_Contents = contents, ls_CommonPrefixes = prefixes\<rparr>)"

definition list_objects_v2 :: "'s gateway \<Rightarrow> request \<Rightarrow> 's world \<Rightarrow> ('s world \<times> response) option" where
  "list_objects_v2 G r w =
     (let q = rq_Query r; L = gw_lib G; bucket = rq_bucket r in
      case maxKeysOf q of
        Inl e \<Rightarrow> Some (w, fail L r [] e)
      | Inr maxKeys \<Rightarrow>
          (case list_start q of
             Inl e \<Rightarrow> Some (w, fail L r [] \<lparr>ae_code = ''InvalidArgument'', ae_status = 400,
               ae_message = ''The continuation token is not one this server issued.''\<rparr>)
           | Inr frm \<Rightarrow>
               (case list_at G w (bucket @ ''/'' @ q_Get q ''prefix'') (q_Get q ''delimiter'') (scoped bucket frm) maxKeys of
                  None \<Rightarrow> None
                | Some (w', Inl e) \<Rightarrow> Some (w', fail L r [] (storeError e))
                | Some (w', Inr pg) \<Rightarrow> Some (w', writeXML L r [] (listResult (list_result_of G q bucket maxKeys pg))))))"

section \<open>Listing versions\<close>

definition lastReported :: "string \<Rightarrow> list_page \<Rightarrow> string" where
  "lastReported bucket pg =
     (let lst = (if lp_Objects pg \<noteq> [] then unscoped bucket (en_Key (last (lp_Objects pg))) else '''') in
      if lp_Prefixes pg \<noteq> [] \<and> unscoped bucket (last (lp_Prefixes pg)) > lst
      then unscoped bucket (last (lp_Prefixes pg)) else lst)"

text \<open>Where a version listing resumes: after its marker, or past the group the marker names.\<close>

definition versions_start :: "multimap \<Rightarrow> string" where
  "versions_start q =
     (let raw = q_Get q ''key-marker'' in
      if raw = '''' then ''''
      else let marker = (if q_Get q ''encoding-type'' = ''url''
                         then (case PathUnescape raw of None \<Rightarrow> raw | Some d \<Rightarrow> d) else raw);
               delimiter = q_Get q ''delimiter'' in
           if delimiter \<noteq> '''' \<and> marker \<noteq> q_Get q ''prefix'' \<and> HasSuffix marker delimiter
           then PastPrefix marker else After marker)"

definition versions_result_of :: "'s gateway \<Rightarrow> multimap \<Rightarrow> string \<Rightarrow> int \<Rightarrow> list_page \<Rightarrow> list_versions_result" where
  "versions_result_of G q bucket maxKeys pg =
     (let enc = key_encoder q in
      \<lparr>lv_Name = bucket, lv_Prefix = enc (q_Get q ''prefix''), lv_KeyMarker = enc (q_Get q ''key-marker''),
       lv_VersionIDMarker = q_Get q ''version-id-marker'',
       lv_NextKeyMarker = (if lp_Next pg \<noteq> '''' then enc (lastReported bucket pg) else ''''),
       lv_NextVersionIDMarker = (if lp_Next pg \<noteq> '''' then ''null'' else ''''),
       lv_Delimiter = enc (q_Get q ''delimiter''), lv_MaxKeys = maxKeys, lv_IsTruncated = (lp_Next pg \<noteq> ''''),
       lv_EncodingType = q_Get q ''encoding-type'',
       lv_Versions = map (\<lambda>e. \<lparr>ve_Key = enc (unscoped bucket (en_Key e)), ve_VersionID = ''null'', ve_IsLatest = True,
         ve_LastModified = tl_Format (gl_time (gw_lib G)) millis (en_Modified e), ve_ETag = quoted (en_ETag e),
         ve_Size = en_Size e, ve_StorageClass = ''STANDARD''\<rparr>) (lp_Objects pg),
       lv_CommonPrefixes = map (\<lambda>p. enc (unscoped bucket p)) (lp_Prefixes pg)\<rparr>)"

definition listVersions :: "'s gateway \<Rightarrow> request \<Rightarrow> 's world \<Rightarrow> ('s world \<times> response) option" where
  "listVersions G r w =
     (let q = rq_Query r; L = gw_lib G; bucket = rq_bucket r in
      case maxKeysOf q of
        Inl e \<Rightarrow> Some (w, fail L r [] e)
      | Inr maxKeys \<Rightarrow>
          (case list_at G w (bucket @ ''/'' @ q_Get q ''prefix'') (q_Get q ''delimiter'')
                  (scoped bucket (versions_start q)) maxKeys of
             None \<Rightarrow> None
           | Some (w', Inl e) \<Rightarrow> Some (w', fail L r [] (storeError e))
           | Some (w', Inr pg) \<Rightarrow>
               Some (w', writeXML L r [] (listVersionsResult (versions_result_of G q bucket maxKeys pg)))))"

section \<open>Buckets\<close>

text \<open>The loop of \<^verbatim>\<open>listBuckets\<close> over pages of the root, with the buckets found so far.\<close>

fun buckets_loop ::
  "nat \<Rightarrow> 's gateway \<Rightarrow> string \<Rightarrow> bucket_entry list \<Rightarrow> 's world \<Rightarrow> ('s world \<times> (error + bucket_entry list)) option" where
  "buckets_loop 0 G frm bs w = None"
| "buckets_loop (Suc n) G frm bs w = (case list_at G w '''' ''/'' frm maxKeysLimit of
      None \<Rightarrow> None
    | Some (w', Inl e) \<Rightarrow> Some (w', Inl e)
    | Some (w', Inr pg) \<Rightarrow>
        (let bs' = bs @ map (\<lambda>p. \<lparr>be_Name = TrimSuffix p ''/'',
               be_CreationDate = tl_Format (gl_time (gw_lib G)) millis 0\<rparr>) (lp_Prefixes pg)
         in if lp_Next pg = '''' then Some (w', Inr bs') else buckets_loop n G (lp_Next pg) bs' w'))"

definition listBuckets :: "'s gateway \<Rightarrow> request \<Rightarrow> 's world \<Rightarrow> ('s world \<times> response) option" where
  "listBuckets G r w = (case buckets_loop (gw_fuel G) G '''' [] w of
      None \<Rightarrow> None
    | Some (w', Inl e) \<Rightarrow> Some (w', fail (gw_lib G) r [] (storeError e))
    | Some (w', Inr bs) \<Rightarrow> Some (w', writeXML (gw_lib G) r [] (listAllBucketsResult
        \<lparr>bo_ID = cd_AccessKey (gw_creds G), bo_DisplayName = cd_AccessKey (gw_creds G)\<rparr> bs)))"

definition bucketOnly :: "request \<Rightarrow> string option" where
  "bucketOnly r =
     (if rq_bucket r = '''' \<or> Contains (rq_bucket r) ''/'' then None
      else if list_ex (\<lambda>(name, vs). name \<noteq> ''x-id'') (rq_Query r) then None
      else Some (rq_bucket r))"

definition bucketLocation :: "'s gateway \<Rightarrow> request \<Rightarrow> 's world \<Rightarrow> 's world \<times> response" where
  "bucketLocation G r w = (w, writeXML (gw_lib G) r [] locationResult)"

definition createBucket :: "'s gateway \<Rightarrow> request \<Rightarrow> 's world \<Rightarrow> 's world \<times> response" where
  "createBucket G r w = (case bucketOnly r of
      None \<Rightarrow> (w, fail (gw_lib G) r [] errNotImplemented)
    | Some bucket \<Rightarrow> (w, \<lparr>rs_Status = 200, rs_Header = h_Set ''Location'' (''/'' @ bucket) [], rs_Body = []\<rparr>))"

definition deleteBucket :: "'s gateway \<Rightarrow> request \<Rightarrow> 's world \<Rightarrow> ('s world \<times> response) option" where
  "deleteBucket G r w = (case bucketOnly r of
      None \<Rightarrow> Some (w, fail (gw_lib G) r [] errNotImplemented)
    | Some bucket \<Rightarrow>
        (case list_at G w (bucket @ ''/'') '''' '''' 1 of
           None \<Rightarrow> None
         | Some (w', Inl e) \<Rightarrow> Some (w', fail (gw_lib G) r [] (storeError e))
         | Some (w', Inr pg) \<Rightarrow>
             Some (w', if lp_Objects pg \<noteq> [] then fail (gw_lib G) r [] errBucketNotEmpty
                       else \<lparr>rs_Status = 204, rs_Header = [], rs_Body = []\<rparr>)))"

section \<open>Deleting many\<close>

definition maxDeleteKeys :: nat where
  "maxDeleteKeys = 1000"

definition maxDeleteRequest :: nat where
  "maxDeleteRequest = 2097152"

text \<open>\<^verbatim>\<open>io.ReadAll\<close> of a limited reader: an error past the limit is never seen.\<close>

definition read_limited :: "nat \<Rightarrow> reader \<Rightarrow> error + bytes" where
  "read_limited n r =
     (if n \<le> length (rdata r) then Inr (take n (rdata r))
      else case rerr r of None \<Rightarrow> Inr (rdata r) | Some e \<Rightarrow> Inl e)"

definition delete_one ::
  "'s gateway \<Rightarrow> string \<Rightarrow> bool \<Rightarrow> string \<Rightarrow> 's world \<times> string list \<times> delete_error list \<Rightarrow>
    's world \<times> string list \<times> delete_error list" where
  "delete_one G bucket quiet key a = (case a of (w, deleted, errs) \<Rightarrow>
     if key = '''' then (w, deleted, errs @ [\<lparr>de_Key = '''', de_Code = ''InvalidArgument'',
       de_Message = ''A delete entry must name a key.''\<rparr>])
     else case cluster_Delete (gw_sys G) (gw_cluster G) w (bucket @ ''/'' @ key) of
       (w', Some e) \<Rightarrow> (w', deleted, errs @ [\<lparr>de_Key = key, de_Code = ae_code (storeError e),
         de_Message = ae_message (storeError e)\<rparr>])
     | (w', None) \<Rightarrow> (w', if quiet then deleted else deleted @ [key], errs))"

definition deleteObjects :: "'s gateway \<Rightarrow> request \<Rightarrow> 's world \<Rightarrow> 's world \<times> response" where
  "deleteObjects G r w =
     (let L = gw_lib G in
      case read_limited maxDeleteRequest (rq_Body r) of
        Inl e \<Rightarrow> (w, fail L r [] errMalformedXML)
      | Inr body \<Rightarrow>
          (case gl_deleteRequest L body of
             None \<Rightarrow> (w, fail L r [] errMalformedXML)
           | Some (quiet, keys) \<Rightarrow>
               if length keys > maxDeleteKeys
               then (w, fail L r [] \<lparr>ae_code = ''MalformedXML'', ae_status = 400,
                 ae_message = ''A bulk delete may name at most 1000 keys.''\<rparr>)
               else (case fold (delete_one G (rq_bucket r) quiet) keys (w, [], []) of
                   (w', deleted, errs) \<Rightarrow> (w', writeXML L r [] (deleteResult deleted errs)))))"

definition postBucket :: "'s gateway \<Rightarrow> request \<Rightarrow> 's world \<Rightarrow> 's world \<times> response" where
  "postBucket G r w =
     (if \<not> q_Has (rq_Query r) ''delete'' then (w, fail (gw_lib G) r [] errNotImplemented)
      else deleteObjects G r w)"

end
