(* ===== verification/S3_Uploads.thy ===== *)
theory S3_Uploads
  imports S3_Buckets
begin

text \<open>
  Multipart uploads over S3, \<^verbatim>\<open>internal/s3/upload.go\<close>: creating an upload, storing and copying parts,
  completing, aborting, and the two listings.
\<close>

section \<open>Creating and listing\<close>

definition maxCompleteRequest :: nat where
  "maxCompleteRequest = 4194304"

definition rfc3339 :: string where
  "rfc3339 = ''2006-01-02T15:04:05Z07:00''"

definition createUpload :: "'s gateway \<Rightarrow> request \<Rightarrow> 's world \<Rightarrow> string \<Rightarrow> 's world \<times> response" where
  "createUpload G r w key =
     (let L = gw_lib G in
      case storedMeta (rq_Header r) of
        Inl e \<Rightarrow> (w, fail L r [] errMetadataTooLarge)
      | Inr stored \<Rightarrow>
          (case cluster_CreateUpload (gw_sys G) (gw_cluster G) w (gw_id G) key (h_Get (rq_Header r) ''Content-Type'') stored of
             (w', Inl e) \<Rightarrow> (w', fail L r [] (storeError e))
           | (w', Inr i) \<Rightarrow>
               (let algo = canonicalChecksumAlgo (rq_Header r);
                    result = \<lparr>ir_Bucket = rq_bucket r, ir_Key = rq_key r, ir_UploadID = i, ir_ChecksumAlgorithm = algo,
                      ir_ChecksumType = if algo \<noteq> '''' then ''FULL_OBJECT'' else ''''\<rparr>;
                    header = (if algo \<noteq> ''''
                      then h_Set ''x-amz-checksum-type'' ''FULL_OBJECT'' (h_Set ''x-amz-checksum-algorithm'' algo []) else [])
                in (w', writeXML L r header (initiateResult result)))))"

definition maxPartsLimit :: int where
  "maxPartsLimit = 1000"

definition maxUploadsLimit :: int where
  "maxUploadsLimit = 1000"

definition boundedInt :: "string \<Rightarrow> int \<Rightarrow> int" where
  "boundedInt value fallback = (case Atoi value of
      None \<Rightarrow> fallback
    | Some n \<Rightarrow> if n < 0 \<or> (fallback > 0 \<and> n > fallback) then fallback else n)"

text \<open>The loop of \<^verbatim>\<open>listParts\<close>: parts past the marker until the page is full.\<close>

fun parts_page :: "time_lib \<Rightarrow> int \<Rightarrow> int \<Rightarrow> upload_part list \<Rightarrow> list_parts_result \<Rightarrow> list_parts_result" where
  "parts_page T mx marker [] res = res"
| "parts_page T mx marker (p # ps) res =
     (if pn_Number p \<le> marker then parts_page T mx marker ps res
      else if int (length (lq_Parts res)) = mx
      then res\<lparr>lq_IsTruncated := True, lq_NextPartNumberMarker := pe_Number (last (lq_Parts res))\<rparr>
      else parts_page T mx marker ps (res\<lparr>lq_Parts := lq_Parts res @ [\<lparr>pe_Number = pn_Number p,
        pe_Modified = tl_Format T rfc3339 (pn_Modified p), pe_ETag = quoted (pn_ETag p), pe_Size = pn_Size p\<rparr>]\<rparr>))"

text \<open>With a page size of zero the source indexes the last of no parts and panics; \<open>None\<close> is that.\<close>

definition listParts :: "'s gateway \<Rightarrow> request \<Rightarrow> 's world \<Rightarrow> string \<Rightarrow> string \<Rightarrow> 's world \<times> response option" where
  "listParts G r w key i =
     (let q = rq_Query r; L = gw_lib G; mx = boundedInt (q_Get q ''max-parts'') maxPartsLimit;
          marker = boundedInt (q_Get q ''part-number-marker'') 0 in
      case cluster_Parts (gw_sys G) (gw_cluster G) w i of
        (w', Inl e) \<Rightarrow> (w', Some (fail L r [] (uploadError e)))
      | (w', Inr parts) \<Rightarrow>
          (w', if mx = 0 \<and> list_ex (\<lambda>p. \<not> pn_Number p \<le> marker) parts then None
               else Some (writeXML L r [] (listPartsResult (parts_page (gl_time L) mx marker parts
                 \<lparr>lq_Bucket = rq_bucket r, lq_Key = key, lq_UploadID = i, lq_PartNumberMarker = marker,
                  lq_NextPartNumberMarker = 0, lq_MaxParts = mx, lq_IsTruncated = False, lq_Parts = []\<rparr>)))))"

text \<open>\<^verbatim>\<open>path.Clean\<close> and \<^verbatim>\<open>path.Join\<close> of two elements.\<close>

definition clean_step :: "bool \<Rightarrow> string \<Rightarrow> string list \<Rightarrow> string list" where
  "clean_step rooted elem out =
     (if elem = '''' \<or> elem = ''.'' then out
      else if elem = ''..'' then
        (if out \<noteq> [] \<and> last out \<noteq> ''..'' then butlast out else if rooted then out else out @ [''..''])
      else out @ [elem])"

definition path_Clean :: "string \<Rightarrow> string" where
  "path_Clean s =
     (if s = '''' then ''.''
      else let rooted = HasPrefix s ''/'';
               out = Strings_Join ''/'' (fold (clean_step rooted) (Split (CHR ''/'') s) []);
               res = (if rooted then ''/'' @ out else out)
           in if res = '''' then ''.'' else res)"

definition path_Join :: "string \<Rightarrow> string \<Rightarrow> string" where
  "path_Join a b =
     (let elems = filter (\<lambda>e. e \<noteq> '''') [a, b] in
      if elems = [] then '''' else path_Clean (Strings_Join ''/'' elems))"

definition uploads_scope :: "string \<Rightarrow> string \<Rightarrow> string" where
  "uploads_scope bucket pre = (if pre = '''' then bucket @ ''/'' else path_Join bucket pre)"

definition listUploads :: "'s gateway \<Rightarrow> request \<Rightarrow> 's world \<Rightarrow> 's world \<times> response" where
  "listUploads G r w =
     (let q = rq_Query r; L = gw_lib G; bucket = rq_bucket r; mx = boundedInt (q_Get q ''max-uploads'') maxUploadsLimit;
          after = q_Get q ''upload-id-marker'' in
      case cluster_Uploads (gw_sys G) (gw_cluster G) w (uploads_scope bucket (q_Get q ''prefix'')) after mx of
        (w', Inl e) \<Rightarrow> (w', fail L r [] (storeError e))
      | (w', Inr (uploads, truncated)) \<Rightarrow>
          (let entries = map (\<lambda>u. \<lparr>ue_Key = TrimPrefix (up_Key (ur_Upload u)) (bucket @ ''/''), ue_UploadID = ur_ID u,
                 ue_Initiated = tl_Format (gl_time L) rfc3339 (up_Created (ur_Upload u))\<rparr>) uploads;
               nxt = truncated \<and> entries \<noteq> []
           in (w', writeXML L r [] (listUploadsResult
                \<lparr>lu_Bucket = bucket, lu_Prefix = q_Get q ''prefix'', lu_KeyMarker = q_Get q ''key-marker'',
                 lu_UploadIDMarker = after, lu_NextKeyMarker = if nxt then ue_Key (last entries) else '''',
                 lu_NextUploadIDMarker = if nxt then ue_UploadID (last entries) else '''',
                 lu_MaxUploads = mx, lu_IsTruncated = truncated, lu_Uploads = entries\<rparr>))))"

section \<open>Parts\<close>

definition sum_field :: "('w \<Rightarrow> string) \<Rightarrow> 'w option \<Rightarrow> bool \<Rightarrow> string" where
  "sum_field encode v asked = (case v of Some x \<Rightarrow> if asked then encode x else '''' | None \<Rightarrow> '''')"

definition copyPart :: "'s gateway \<Rightarrow> request \<Rightarrow> 's world \<Rightarrow> string \<Rightarrow> int \<Rightarrow> string \<Rightarrow> 's world \<times> response" where
  "copyPart G r w i number source =
     (let X = gw_sys G; c = gw_cluster G; L = gw_lib G; T = gl_time L; header = rq_Header r; fl = fail L r [] in
      case copySource source of
        None \<Rightarrow> (w, fl errInvalidCopySource)
      | Some frm \<Rightarrow>
          (case Resolve X c w frm of
             (w1, Inl e) \<Rightarrow> (w1, fl (storeError e))
           | (w1, Inr src) \<Rightarrow>
               if copyConditions header \<noteq> [] \<and> \<not> snd (precondition T (copyConditions header) src)
               then (w1, fl errPreconditionFailed)
               else (case parseCopyRange (h_Get header ''X-Amz-Copy-Source-Range'') (m_Size src) of
                   Inl e \<Rightarrow> (w1, fl (if errors_Is e errRangeSyntax then errMalformedRange else errInvalidRange))
                 | Inr (off, len) \<Rightarrow>
                     (case declared_checksums header of
                        Inl e \<Rightarrow> (w1, fl errMalformedChecksum)
                      | Inr (crc32c, crc32, crc64nvme) \<Rightarrow>
                          (case CopyPart X c (gw_bs G) w1 i number src off len
                                  (zero_options\<lparr>po_CRC32C := crc32c, po_CRC32 := crc32, po_CRC64NVME := crc64nvme\<rparr>) (gw_pre G) of
                             (w2, Inl e) \<Rightarrow> (w2, fl (uploadError e))
                           | (w2, Inr m) \<Rightarrow> (w2, writeXML L r [] (copyPartResult
                               \<lparr>cz_ETag = quoted (m_ETag m), cz_LastModified = tl_Format T rfc3339 (ev_now (sy_env X)),
                                cz_ChecksumCRC32C = sum_field encodeCRC32C (m_CRC32C m) (crc32c \<noteq> None \<or> requestedCRC32C header),
                                cz_ChecksumCRC32 = sum_field encodeCRC32 (m_CRC32 m) (crc32 \<noteq> None \<or> requestedCRC32 header),
                                cz_ChecksumCRC64NVME = sum_field encodeCRC64NVME (m_CRC64NVME m)
                                  (crc64nvme \<noteq> None \<or> requestedCRC64NVME header)\<rparr>)))))))"

definition uploadPart :: "'s gateway \<Rightarrow> request \<Rightarrow> 's world \<Rightarrow> string \<Rightarrow> 's world \<times> response" where
  "uploadPart G r w i =
     (let L = gw_lib G; header = rq_Header r; fl = fail L r [] in
      case Atoi (q_Get (rq_Query r) ''partNumber'') of
        None \<Rightarrow> (w, fl \<lparr>ae_code = ''InvalidArgument'', ae_status = 400, ae_message = ''partNumber must be an integer.''\<rparr>)
      | Some number \<Rightarrow>
          if h_Get header ''X-Amz-Copy-Source'' \<noteq> '''' then copyPart G r w i number (h_Get header ''X-Amz-Copy-Source'')
          else if rq_ContentLength r < 0 \<and> \<not> httpChunked r then (w, fl errMissingLength)
          else (case declared_checksums header of
              Inl e \<Rightarrow> (w, fl errMalformedChecksum)
            | Inr (crc32c, crc32, crc64nvme) \<Rightarrow>
                (let opts = attachTrailingChecksums (zero_options\<lparr>po_Size := rq_ContentLength r, po_CRC32C := crc32c,
                       po_CRC32 := crc32, po_CRC64NVME := crc64nvme\<rparr>) r
                 in case UploadPart (gw_sys G) (gw_cluster G) w i number (rq_Body r) opts (gw_pre G) of
                      (w', Inl e) \<Rightarrow> (w', fl (uploadError e))
                    | (w', Inr m) \<Rightarrow>
                        (w', \<lparr>rs_Status = 200,
                              rs_Header = write_checksums r m crc32c crc32 crc64nvme (h_Set ''ETag'' (quoted (m_ETag m)) []),
                              rs_Body = []\<rparr>))))"

section \<open>Completion\<close>

text \<open>The checksum fields of a completion; the last one present names the algorithm.\<close>

definition complete_sums ::
  "request \<Rightarrow> manifest \<Rightarrow> uint32 option \<Rightarrow> uint32 option \<Rightarrow> uint64 option \<Rightarrow> complete_result \<Rightarrow> complete_result" where
  "complete_sums r m crc32c crc32 crc64nvme res =
     (let header = rq_Header r;
          r1 = (case m_CRC32C m of
              Some v \<Rightarrow> if crc32c \<noteq> None \<or> requestedCRC32C header
                then res\<lparr>cx_ChecksumCRC32C := encodeCRC32C v, cx_ChecksumAlgorithm := ''CRC32C'', cx_ChecksumType := ''FULL_OBJECT''\<rparr> else res
            | None \<Rightarrow> res);
          r2 = (case m_CRC32 m of
              Some v \<Rightarrow> if crc32 \<noteq> None \<or> requestedCRC32 header
                then r1\<lparr>cx_ChecksumCRC32 := encodeCRC32 v, cx_ChecksumAlgorithm := ''CRC32'', cx_ChecksumType := ''FULL_OBJECT''\<rparr> else r1
            | None \<Rightarrow> r1)
      in case m_CRC64NVME m of
           Some v \<Rightarrow> if crc64nvme \<noteq> None \<or> requestedCRC64NVME header
             then r2\<lparr>cx_ChecksumCRC64NVME := encodeCRC64NVME v, cx_ChecksumAlgorithm := ''CRC64NVME'', cx_ChecksumType := ''FULL_OBJECT''\<rparr> else r2
         | None \<Rightarrow> r2)"

definition completeUpload :: "'s gateway \<Rightarrow> request \<Rightarrow> 's world \<Rightarrow> string \<Rightarrow> string \<Rightarrow> 's world \<times> response" where
  "completeUpload G r w key i =
     (let L = gw_lib G; fl = fail L r [] in
      case read_limited maxCompleteRequest (rq_Body r) of
        Inl e \<Rightarrow> (w, fl errMalformedXML)
      | Inr body \<Rightarrow>
          (case gl_completeRequest L body of
             None \<Rightarrow> (w, fl errMalformedXML)
           | Some req \<Rightarrow>
               (case declared_checksums (rq_Header r) of
                  Inl e \<Rightarrow> (w, fl errMalformedChecksum)
                | Inr (crc32c, crc32, crc64nvme) \<Rightarrow>
                    (case CompleteUpload (gw_sys G) (gw_cluster G) w i
                            (map (\<lambda>(n, e). \<lparr>cq_Number = n, cq_ETag = e\<rparr>) req) crc32c crc64nvme crc32 of
                       (w', Inl e) \<Rightarrow> (w', fl (uploadError e))
                     | (w', Inr m) \<Rightarrow>
                         (w', writeXML L r [] (completeResult (complete_sums r m crc32c crc32 crc64nvme
                           \<lparr>cx_Location = ''/'' @ key, cx_Bucket = rq_bucket r, cx_Key = rq_key r, cx_ETag = etag m,
                            cx_ChecksumCRC32C = '''', cx_ChecksumCRC32 = '''', cx_ChecksumCRC64NVME = '''',
                            cx_ChecksumAlgorithm = '''', cx_ChecksumType = ''''\<rparr>)))))))"

definition abortUpload :: "'s gateway \<Rightarrow> request \<Rightarrow> 's world \<Rightarrow> string \<Rightarrow> 's world \<times> response" where
  "abortUpload G r w i = (case AbortUpload (gw_sys G) (gw_cluster G) w i of
      (w', Some e) \<Rightarrow> (w', fail (gw_lib G) r [] (uploadError e))
    | (w', None) \<Rightarrow> (w', \<lparr>rs_Status = 204, rs_Header = [], rs_Body = []\<rparr>))"

end
