(* ===== verification/S3_Gateway.thy ===== *)
theory S3_Gateway
  imports S3_Uploads Reading
begin

text \<open>
  The gateway as a whole: the dispatch inside the handlers of \<^verbatim>\<open>internal/s3/s3.go\<close> (one path and
  method stands for several operations), the check every request passes first, and the routes.

  An answer is \<open>None\<close> when a listing is not done within the bound, and a handler that panics aborts
  the connection without a response.
\<close>

section \<open>Dispatch\<close>

text \<open>What a handler comes to: still listing, aborted, or answered.\<close>

datatype outcome = Aborted | Answered response

type_synonym 's handling = "('s world \<times> outcome) option"

definition answered :: "'s world \<times> response \<Rightarrow> 's handling" where
  "answered wr = Some (fst wr, Answered (snd wr))"

definition answered_if :: "('s world \<times> response) option \<Rightarrow> 's handling" where
  "answered_if x = (case x of None \<Rightarrow> None | Some wr \<Rightarrow> answered wr)"

definition or_aborted :: "'s world \<times> response option \<Rightarrow> 's handling" where
  "or_aborted wr = Some (fst wr, case snd wr of None \<Rightarrow> Aborted | Some rs \<Rightarrow> Answered rs)"

definition putObject :: "'s gateway \<Rightarrow> request \<Rightarrow> 's world \<Rightarrow> 's world \<times> response" where
  "putObject G r w = (case objectKey r of
      None \<Rightarrow> (w, fail (gw_lib G) r [] errNotImplemented)
    | Some key \<Rightarrow>
        if q_Get (rq_Query r) ''uploadId'' \<noteq> '''' then uploadPart G r w (q_Get (rq_Query r) ''uploadId'')
        else if h_Get (rq_Header r) ''X-Amz-Copy-Source'' \<noteq> ''''
        then copyObject G r w key (h_Get (rq_Header r) ''X-Amz-Copy-Source'')
        else put_body G r w key)"

definition allowUnordered :: apiError where
  "allowUnordered = \<lparr>ae_code = ''InvalidArgument'', ae_status = 400,
     ae_message = ''allow-unordered may not be combined with delimiter.''\<rparr>"

definition listObjects :: "'s gateway \<Rightarrow> request \<Rightarrow> 's world \<Rightarrow> 's handling" where
  "listObjects G r w =
     (let q = rq_Query r in
      if q_Has q ''uploads'' then answered (listUploads G r w)
      else if q_Has q ''versions'' then answered_if (listVersions G r w)
      else if q_Has q ''location'' then answered (bucketLocation G r w)
      else if q_Get q ''list-type'' \<noteq> ''2'' \<and> q_Get q ''allow-unordered'' = ''true'' \<and> q_Get q ''delimiter'' \<noteq> ''''
      then answered (w, fail (gw_lib G) r [] allowUnordered)
      else if q_Get q ''list-type'' \<noteq> ''2'' then answered (w, fail (gw_lib G) r [] errNotImplemented)
      else answered_if (list_objects_v2 G r w))"

definition getObject :: "'s gateway \<Rightarrow> request \<Rightarrow> 's world \<Rightarrow> 's handling" where
  "getObject G r w = (case objectKey r of
      None \<Rightarrow> if rq_Method r = ''HEAD'' then answered (headBucket G r w) else listObjects G r w
    | Some key \<Rightarrow>
        if q_Has (rq_Query r) ''tagging'' then answered (objectTagging G r w key)
        else if q_Get (rq_Query r) ''uploadId'' \<noteq> '''' then or_aborted (listParts G r w key (q_Get (rq_Query r) ''uploadId''))
        else answered (read_object G r w key))"

definition deleteObject :: "'s gateway \<Rightarrow> request \<Rightarrow> 's world \<Rightarrow> 's handling" where
  "deleteObject G r w = (case objectKey r of
      None \<Rightarrow> answered_if (deleteBucket G r w)
    | Some key \<Rightarrow>
        if q_Get (rq_Query r) ''uploadId'' \<noteq> '''' then answered (abortUpload G r w (q_Get (rq_Query r) ''uploadId''))
        else answered (delete_object G r w key))"

definition postObject :: "'s gateway \<Rightarrow> request \<Rightarrow> 's world \<Rightarrow> 's world \<times> response" where
  "postObject G r w = (case objectKey r of
      None \<Rightarrow> postBucket G r w
    | Some key \<Rightarrow>
        if q_Has (rq_Query r) ''uploads'' then createUpload G r w key
        else if q_Get (rq_Query r) ''uploadId'' \<noteq> '''' then completeUpload G r w key (q_Get (rq_Query r) ''uploadId'')
        else (w, fail (gw_lib G) r [] errNotImplemented))"

section \<open>Authentication and routes\<close>

definition authed :: "('s gateway \<Rightarrow> request \<Rightarrow> 's world \<Rightarrow> 's handling) \<Rightarrow> 's gateway \<Rightarrow> request \<Rightarrow> 's world \<Rightarrow> 's handling" where
  "authed next G r w =
     (let L = gw_lib G in
      case sigv4_Verify (gl_time L) (gw_ks G) (gw_creds G) (ev_now (sy_env (gw_sys G))) r of
        Inl e \<Rightarrow> answered (w, fail L r [] (authError e))
      | Inr r' \<Rightarrow>
          if encryptionRequested (rq_Header r') then answered (w, fail L r' [] errEncryptionNotImplemented)
          else if taggingRequested (rq_Header r') then answered (w, fail L r' [] errTaggingNotImplemented)
          else if checksumRefused r' then answered (w, fail L r' [] errChecksumNotImplemented)
          else if rq_key r' \<noteq> '''' \<and>
            list_ex (\<lambda>(name, vs). \<not> knownObjectQuery (rq_Method r') name (q_Get (rq_Query r') name)) (rq_Query r')
          then answered (w, fail L r' [] errNotImplemented)
          else next G r' w)"

text \<open>
  The patterns of \<^verbatim>\<open>New\<close>, most specific first, on the path as \<^verbatim>\<open>http.ServeMux\<close> has split it; a \<^verbatim>\<open>GET\<close>
  pattern takes \<^verbatim>\<open>HEAD\<close> too, and the catch-all takes every method.
\<close>

datatype target = Root | Bucket | Object | Elsewhere

definition s3_route :: "string \<Rightarrow> target \<Rightarrow> 's gateway \<Rightarrow> request \<Rightarrow> 's world \<Rightarrow> 's handling" where
  "s3_route method t = (case t of
      Object \<Rightarrow>
        if method = ''PUT'' then (\<lambda>G r w. answered (putObject G r w))
        else if method = ''GET'' \<or> method = ''HEAD'' then getObject
        else if method = ''DELETE'' then deleteObject
        else if method = ''POST'' then (\<lambda>G r w. answered (postObject G r w))
        else (\<lambda>G r w. answered (unsupported G r w))
    | Bucket \<Rightarrow>
        if method = ''HEAD'' then (\<lambda>G r w. answered (headBucket G r w))
        else if method = ''GET'' then listObjects
        else if method = ''PUT'' then (\<lambda>G r w. answered (createBucket G r w))
        else if method = ''DELETE'' then (\<lambda>G r w. answered_if (deleteBucket G r w))
        else if method = ''POST'' then (\<lambda>G r w. answered (postBucket G r w))
        else (\<lambda>G r w. answered (unsupported G r w))
    | Root \<Rightarrow>
        if method = ''GET'' \<or> method = ''HEAD'' then (\<lambda>G r w. answered_if (listBuckets G r w))
        else (\<lambda>G r w. answered (unsupported G r w))
    | Elsewhere \<Rightarrow> (\<lambda>G r w. answered (unsupported G r w)))"

definition serve :: "'s gateway \<Rightarrow> target \<Rightarrow> request \<Rightarrow> 's world \<Rightarrow> 's handling" where
  "serve G t r w = authed (s3_route (rq_Method r) t) G r w"

end
