(* ===== verification/S3_Namespace.thy ===== *)
theory S3_Namespace
  imports S3_Gateway
begin

text \<open>
  The gateway refines an object namespace.  A client thinks of the store as a map from keys to
  objects; \<open>namespace\<close> is that map, read off etcd, and \<open>may_become\<close> says what a request of each
  kind, with the answer it got, may make of it.  Every handler is shown to do that and no more.
\<close>

section \<open>The abstract store\<close>

definition namespace :: "'s gateway \<Rightarrow> ('s \<Rightarrow> kvs) \<Rightarrow> 's world \<Rightarrow> string \<Rightarrow> manifest option" where
  "namespace G view w = committed (c_meta (gw_cluster G)) (view (w_kv w))"

text \<open>What a request wants of the namespace: to read, to bind one key, to free one or many, or to complete an upload.\<close>

datatype intent =
    Reads
  | Stores string
  | Copies string string
  | Removes string
  | RemovesIn string
  | Completes string

definition put_intent :: "request \<Rightarrow> intent" where
  "put_intent r = (case objectKey r of
      None \<Rightarrow> Reads
    | Some key \<Rightarrow>
        if q_Get (rq_Query r) ''uploadId'' \<noteq> '''' then Reads
        else if h_Get (rq_Header r) ''X-Amz-Copy-Source'' \<noteq> ''''
        then (case copySource (h_Get (rq_Header r) ''X-Amz-Copy-Source'') of None \<Rightarrow> Reads | Some frm \<Rightarrow> Copies frm key)
        else Stores key)"

definition post_intent :: "request \<Rightarrow> intent" where
  "post_intent r = (case objectKey r of
      None \<Rightarrow> RemovesIn (rq_bucket r)
    | Some key \<Rightarrow>
        if q_Has (rq_Query r) ''uploads'' \<or> q_Get (rq_Query r) ''uploadId'' = '''' then Reads
        else Completes (q_Get (rq_Query r) ''uploadId''))"

definition intent_of :: "target \<Rightarrow> request \<Rightarrow> intent" where
  "intent_of t r =
     (if t = Object \<and> rq_Method r = ''PUT'' then put_intent r
      else if t = Object \<and> rq_Method r = ''DELETE'' then
        (case objectKey r of
           Some key \<Rightarrow> if q_Get (rq_Query r) ''uploadId'' \<noteq> '''' then Reads else Removes key
         | None \<Rightarrow> Reads)
      else if t = Object \<and> rq_Method r = ''POST'' then post_intent r
      else if t = Bucket \<and> rq_Method r = ''POST'' then RemovesIn (rq_bucket r)
      else Reads)"

type_synonym names = "string \<Rightarrow> manifest option"

primrec status_of :: "outcome \<Rightarrow> int" where
  "status_of Aborted = 0"
| "status_of (Answered rs) = rs_Status rs"

primrec tag_of :: "outcome \<Rightarrow> string" where
  "tag_of Aborted = ''''"
| "tag_of (Answered rs) = h_Get (rs_Header rs) ''ETag''"

text \<open>
  A failure of etcd is answered 500 and may hide a change that landed; every other refusal leaves the
  namespace alone.
\<close>

definition settled :: "int \<Rightarrow> outcome \<Rightarrow> bool \<Rightarrow> bool \<Rightarrow> bool \<Rightarrow> bool" where
  "settled ok out acked landed same \<longleftrightarrow>
     (if status_of out = ok then acked else same \<or> status_of out = 500 \<and> landed)"

text \<open>The object a copy leaves behind: the source's bytes, placement and checksums under a new name.\<close>

definition same_bytes :: "manifest \<Rightarrow> manifest \<Rightarrow> bool" where
  "same_bytes m m' \<longleftrightarrow> m' = m\<lparr>m_Modified := m_Modified m', m_ContentType := m_ContentType m', m_Meta := m_Meta m'\<rparr>"

definition binds :: "string \<Rightarrow> (manifest \<Rightarrow> bool) \<Rightarrow> names \<Rightarrow> names \<Rightarrow> bool" where
  "binds key P n n' \<longleftrightarrow> (\<exists>m. P m \<and> n' = n(key \<mapsto> m))"

text \<open>\<open>up\<close> gives the key of the upload that is in flight under an id.\<close>

primrec may_become :: "intent \<Rightarrow> (string \<Rightarrow> string option) \<Rightarrow> outcome \<Rightarrow> names \<Rightarrow> names \<Rightarrow> bool" where
  "may_become Reads up out n n' = (n' = n)"
| "may_become (Stores key) up out n n' =
     settled 200 out (binds key (\<lambda>m. etag m = tag_of out) n n') (binds key (\<lambda>m. True) n n') (n' = n)"
| "may_become (Copies frm key) up out n n' =
     (let copied = binds key (\<lambda>m'. \<exists>m. n frm = Some m \<and> same_bytes m m') n n'
      in settled 200 out copied copied (n' = n))"
| "may_become (Removes key) up out n n' =
     (let gone = (n' = n(key := None)) in settled 204 out gone gone (n' = n))"
| "may_become (RemovesIn bucket) up out n n' =
     (\<forall>k. n' k = n k \<or> n' k = None \<and> HasPrefix k (bucket @ ''/''))"
| "may_become (Completes i) up out n n' =
     (case up i of
        None \<Rightarrow> n' = n
      | Some key \<Rightarrow> let assembled = binds key (\<lambda>m. m_Parts m \<noteq> []) n n' in settled 200 out assembled assembled (n' = n))"

section \<open>What the coordinator does to the namespace\<close>

lemma Resolve_view:
  assumes "etcd_client (sy_etcd X) view" "Resolve X c w key = (w', r)"
  shows "view (w_kv w') = view (w_kv w)" "w_disks w' = w_disks w"
  using assms(2) etcd_client.meta_Get_view[OF assms(1)]
  by (auto simp: Resolve_def split: prod.splits)

lemma et_unit_foreign: "etcd_client E view \<Longrightarrow> et_unit E s q = (s', Some e) \<Longrightarrow> \<exists>msg. e = [Other msg]"
  using etcd_client.call_foreign by (fastforce simp: et_unit_def split: prod.splits sum.splits)

lemma meta_Commit_namespace:
  assumes "etcd_client E view" "meta_Commit E M s key m = (s', err)"
  shows "err = None \<Longrightarrow> committed M (view s') = (committed M (view s))(key \<mapsto> m)"
    and "committed M (view s') = committed M (view s) \<or> committed M (view s') = (committed M (view s))(key \<mapsto> m)"
    and "err = Some e \<Longrightarrow> \<exists>msg. e = [Other msg]"
  using assms(2) etcd_client.et_unit_ok[OF assms(1), of s _ s'] etcd_client.et_unit_any[OF assms(1), of s _ s' err]
    et_unit_foreign[OF assms(1)]
  by (fastforce simp: meta_Commit_def)+

lemma cluster_Delete_namespace:
  assumes "etcd_client (sy_etcd X) view" "cluster_Delete X c w key = (w', err)"
  shows "err = None \<Longrightarrow> committed (c_meta c) (view (w_kv w')) = (committed (c_meta c) (view (w_kv w)))(key := None)"
    and "committed (c_meta c) (view (w_kv w')) = committed (c_meta c) (view (w_kv w)) \<or>
      committed (c_meta c) (view (w_kv w')) = (committed (c_meta c) (view (w_kv w)))(key := None)"
    and "err = Some e \<Longrightarrow> \<exists>msg. e = [Other msg]"
proof -
  have u: "et_unit (sy_etcd X) (w_kv w) (EDelete (meta_key (c_meta c) key)) = (w_kv w', err)"
    using assms(2) by (auto simp: cluster_Delete_def meta_Delete_def split: prod.splits)
  show "err = None \<Longrightarrow> committed (c_meta c) (view (w_kv w')) = (committed (c_meta c) (view (w_kv w)))(key := None)"
    using etcd_client.et_unit_ok[OF assms(1), of "w_kv w" _ "w_kv w'"] u by simp
  show "committed (c_meta c) (view (w_kv w')) = committed (c_meta c) (view (w_kv w)) \<or>
      committed (c_meta c) (view (w_kv w')) = (committed (c_meta c) (view (w_kv w)))(key := None)"
    using etcd_client.et_unit_any[OF assms(1) u] by auto
  show "err = Some e \<Longrightarrow> \<exists>msg. e = [Other msg]" using u et_unit_foreign[OF assms(1)] by blast
qed

lemma cluster_Copy_namespace:
  assumes "etcd_client (sy_etcd X) view" "cluster_Copy X c w frm key opts = (w', r)"
  shows "case r of
      Inr m' \<Rightarrow> binds key (\<lambda>m'. \<exists>m. committed (c_meta c) (view (w_kv w)) frm = Some m \<and> same_bytes m m')
        (committed (c_meta c) (view (w_kv w))) (committed (c_meta c) (view (w_kv w')))
    | Inl e \<Rightarrow> committed (c_meta c) (view (w_kv w')) = committed (c_meta c) (view (w_kv w)) \<or>
        (\<exists>msg. e = [Other msg]) \<and> binds key (\<lambda>m'. \<exists>m. committed (c_meta c) (view (w_kv w)) frm = Some m \<and> same_bytes m m')
          (committed (c_meta c) (view (w_kv w))) (committed (c_meta c) (view (w_kv w')))"
proof -
  obtain kv1 g where get: "meta_Get (sy_etcd X) (c_meta c) (w_kv w) frm = (kv1, g)" by fastforce
  note v = etcd_client.meta_Get_view[OF assms(1) get]
  show ?thesis
  proof (cases g)
    case (Inl e)
    then show ?thesis using assms(2) get v by (auto simp: cluster_Copy_def)
  next
    case (Inr m)
    define m2 where "m2 = (if cp_Replace opts
      then m\<lparr>m_Modified := truncate_second (ev_now (sy_env X)), m_ContentType := cp_ContentType opts, m_Meta := cp_Meta opts\<rparr>
      else m\<lparr>m_Modified := truncate_second (ev_now (sy_env X))\<rparr>)"
    have src: "committed (c_meta c) (view (w_kv w)) frm = Some m"
      using etcd_client.meta_Get_ok[OF assms(1)] get Inr by blast
    have same: "same_bytes m m2" by (simp add: m2_def same_bytes_def)
    obtain kv2 err where com: "meta_Commit (sy_etcd X) (c_meta c) kv1 key m2 = (kv2, err)" by fastforce
    note n = meta_Commit_namespace[OF assms(1) com]
    have "w' = w\<lparr>w_kv := kv2\<rparr>" "r = (case err of None \<Rightarrow> Inr m2 | Some e \<Rightarrow> Inl e)"
      using assms(2) get Inr com by (auto simp: cluster_Copy_def Let_def m2_def split: option.splits if_splits)
    then show ?thesis using n src same v by (auto simp: binds_def split: option.splits)
  qed
qed

lemma cluster_Put_namespace:
  assumes "etcd_client (sy_etcd X) view" "cluster_Put X c w key body opts pre = (w', Inr m)"
  shows "committed (c_meta c) (view (w_kv w')) = (committed (c_meta c) (view (w_kv w)))(key \<mapsto> m)"
proof -
  obtain w1 m0 writing kv' where wr: "cluster_write X c w key body (po_Size opts) pre = (w1, Inr (m0, writing))"
    and com: "commit_manifest X c (w_kv w1) key m writing = (kv', None)"
    and w': "w' = stopWriting X c (w1\<lparr>w_kv := kv'\<rparr>) writing"
    using cluster_Put_ok[OF assms(2)] by metis
  show ?thesis
    using commit_manifest_ok[OF assms(1) com] stopWriting_committed[OF assms(1)] w'
      cluster_write_committed[OF assms(1), of c w key body "po_Size opts" pre] wr by simp
qed

lemma CreateUpload_namespace:
  assumes "etcd_client (sy_etcd X) view" "cluster_CreateUpload X c w i key ct md = (w', r)"
  shows "committed (c_meta c) (view (w_kv w')) = committed (c_meta c) (view (w_kv w))"
proof -
  obtain err where "et_unit (sy_etcd X) (w_kv w) (EPut (uploadKey (c_meta c) i)
      (SUpload \<lparr>up_Key = key, up_ContentType = ct, up_Created = ev_now (sy_env X), up_Meta = md\<rparr>)) = (w_kv w', err)"
    using assms(2) by (auto simp: cluster_CreateUpload_def CreateUpload_def split: prod.splits option.splits)
  from etcd_client.et_unit_any[OF assms(1) this] show ?thesis by (auto simp: committed_def fun_eq_iff)
qed

lemma AbortUpload_namespace:
  assumes "etcd_client (sy_etcd X) view" "AbortUpload X c w i = (w', r)"
  shows "committed (c_meta c) (view (w_kv w')) = committed (c_meta c) (view (w_kv w))"
proof -
  obtain kv1 r1 where up: "meta_Upload (sy_etcd X) (c_meta c) (w_kv w) i = (kv1, r1)" by fastforce
  note v = etcd_client.meta_Upload_ok(1)[OF assms(1) up]
  have "committed (c_meta c) (view (fst (DeleteUpload (sy_etcd X) (c_meta c) kv1 i))) = committed (c_meta c) (view kv1)"
    by (rule etcd_client.DeleteUpload_committed[OF assms(1)])
  then show ?thesis using assms(2) up v by (cases r1) (auto simp: AbortUpload_def split: prod.splits)
qed

lemma cluster_Parts_view:
  assumes "etcd_client (sy_etcd X) view" "cluster_Parts X c w i = (w', r)"
  shows "view (w_kv w') = view (w_kv w)"
proof -
  obtain kv1 r1 where up: "meta_Upload (sy_etcd X) (c_meta c) (w_kv w) i = (kv1, r1)" by fastforce
  obtain kv2 r2 where pa: "Parts (sy_etcd X) (c_meta c) kv1 i = (kv2, r2)" by fastforce
  show ?thesis
    using assms(2) up pa etcd_client.meta_Upload_ok(1)[OF assms(1) up] etcd_client.Parts_ok(1)[OF assms(1) pa]
    by (auto simp: cluster_Parts_def split: sum.splits)
qed

lemma cluster_Uploads_view:
  assumes "etcd_client (sy_etcd X) view" "cluster_Uploads X c w pre after limit = (w', r)"
  shows "view (w_kv w') = view (w_kv w)"
  using assms(2) etcd_client.et_kvs_view[OF assms(1)]
  by (fastforce simp: cluster_Uploads_def Uploads_def Let_def split: prod.splits sum.splits if_splits)

lemma list_at_view:
  assumes "etcd_client (sy_etcd (gw_sys G)) view" "list_at G w pre delimiter frm limit = Some (w', r)"
  shows "view (w_kv w') = view (w_kv w)"
  using assms(2) list_loop_view[OF assms(1)]
  by (fastforce simp: list_at_def cluster_List_def split: if_splits)

lemma buckets_loop_view:
  assumes "etcd_client (sy_etcd (gw_sys G)) view"
  shows "buckets_loop n G frm bs w = Some (w', r) \<Longrightarrow> view (w_kv w') = view (w_kv w)"
proof (induction n arbitrary: frm bs w)
  case (Suc n)
  then show ?case
    by (auto simp: Let_def dest!: list_at_view[OF assms] Suc.IH split: option.splits prod.splits sum.splits if_splits)
qed simp

lemma CompleteUpload_namespace:
  assumes "etcd_client (sy_etcd X) view" "CompleteUpload X c w i ps c32c c64 c32 = (w', r)"
  defines "n \<equiv> committed (c_meta c) (view (w_kv w))" and "n' \<equiv> committed (c_meta c) (view (w_kv w'))"
  shows "case upload_at (c_meta c) (view (w_kv w)) i of
      None \<Rightarrow> n' = n
    | Some u \<Rightarrow> (case r of
        Inr m \<Rightarrow> binds (up_Key u) (\<lambda>m. m_Parts m \<noteq> []) n n'
      | Inl e \<Rightarrow> n' = n \<or> (\<exists>msg. e = [Other msg]) \<and> binds (up_Key u) (\<lambda>m. m_Parts m \<noteq> []) n n')"
proof -
  have parts: "m_Parts m \<noteq> []" if a: "assemble u stored now ps c32c c64 c32 = Inr m" for u stored now m
  proof -
    obtain final sums where f: "ps \<noteq> []" "m_Parts m = m_Parts final"
      "complete_parts stored 0 None ps (zero_manifest\<lparr>m_ContentType := up_ContentType u, m_Meta := up_Meta u\<rparr>) [] = Inr (final, sums)"
      by (rule assemble_ok[OF a]) simp
    have "map pt_Number (m_Parts final) = map cq_Number ps"
      using complete_parts_ok[OF f(3)] by (simp add: zero_manifest_def)
    then show ?thesis using f(1,2) by auto
  qed
  have b: "binds key (\<lambda>m. m_Parts m \<noteq> []) N (N(key \<mapsto> m))"
    if "assemble u stored now ps c32c c64 c32 = Inr m" for u stored now m key N
    using parts[OF that] by (auto simp: binds_def)
  show ?thesis
    by (rule etcd_client.CompleteUpload_cases[OF assms(1,2) refl])
      (auto simp: n_def n'_def intro: b split: option.splits)
qed

section \<open>What each handler answers and does\<close>

lemma fail_status [simp]: "rs_Status (fail L r h e) = ae_status e"
  by (simp add: fail_def split: option.splits)

lemma writeXML_status: "rs_Status (writeXML L r h d) = (if gl_Marshal L d = None then 500 else 200)"
  by (simp add: writeXML_def errInternal_def split: option.splits)

lemma api_status [simp]:
  "ae_status errMissingLength = 411" "ae_status errInvalidDigest = 400" "ae_status errMalformedChecksum = 400"
  "ae_status errMetadataTooLarge = 400" "ae_status errInvalidCopySource = 400" "ae_status errInvalidDirective = 400"
  "ae_status errCopyOntoItself = 400" "ae_status errPreconditionFailed = 412" "ae_status errNotImplemented = 501"
  "ae_status errMalformedXML = 400" "ae_status errInternal = 500" "ae_status errEncryptionNotImplemented = 501"
  "ae_status errTaggingNotImplemented = 501" "ae_status errChecksumNotImplemented = 501"
  by (simp_all add: errMissingLength_def errInvalidDigest_def errMalformedChecksum_def errMetadataTooLarge_def
      errInvalidCopySource_def errInvalidDirective_def errCopyOntoItself_def errPreconditionFailed_def
      errNotImplemented_def errMalformedXML_def errInternal_def errEncryptionNotImplemented_def
      errTaggingNotImplemented_def errChecksumNotImplemented_def)

lemma storeError_status: "ae_status (storeError e) \<in> {404, 400, 503, 500}"
  by (simp add: storeError_def errNoSuchKey_def errBadContentMD5_def errSlowDown_def errBadDigest_def errInternal_def)

lemma storeError_refuses [simp]: "ae_status (storeError e) \<noteq> 200" "ae_status (storeError e) \<noteq> 204"
  using storeError_status[of e] by auto

lemma uploadError_refuses [simp]: "ae_status (uploadError e) \<noteq> 200" "ae_status (uploadError e) \<noteq> 204"
  by (simp_all add: uploadError_def)

lemma foreign_status [simp]:
  "ae_status (storeError [Other msg]) = 500" "ae_status (uploadError [Other msg]) = 500"
  by (simp_all add: uploadError_def storeError_def errors_Is_def errInternal_def)

lemma authError_status: "ae_status (authError e) \<in> {400, 403}"
  by (simp add: authError_def errAccessDenied_def errMissingSecurityHeader_def errInvalidKey_def errBadSignature_def
      errSkew_def errBadDigest_def errMalformedAuth_def)

lemma h_Get_Set: "h_Get (h_Set name v h) name' =
    (if CanonicalHeaderKey name = CanonicalHeaderKey name' then v else h_Get h name')"
  by (simp add: h_Get_def h_Set_def h_Values_def values_of_def first_value_def update_conv')

lemma write_checksums_ETag: "h_Get (write_checksums r m a b c h) ''ETag'' = h_Get h ''ETag''"
proof -
  have "CanonicalHeaderKey ''X-Amz-Checksum-Crc32c'' \<noteq> CanonicalHeaderKey ''ETag''"
    "CanonicalHeaderKey ''X-Amz-Checksum-Crc32'' \<noteq> CanonicalHeaderKey ''ETag''"
    "CanonicalHeaderKey ''X-Amz-Checksum-Crc64nvme'' \<noteq> CanonicalHeaderKey ''ETag''"
    by code_simp+
  then show ?thesis by (auto simp: write_checksums_def Let_def h_Get_Set split: option.splits)
qed

text \<open>Handlers that leave the namespace alone.\<close>

lemma objectTagging_keeps:
  assumes "etcd_client (sy_etcd (gw_sys G)) view"
  shows "view (w_kv (fst (objectTagging G r w key))) = view (w_kv w)"
  by (auto simp: objectTagging_def Resolve_view[OF assms] split: prod.splits sum.splits)

lemma read_object_keeps:
  assumes "etcd_client (sy_etcd (gw_sys G)) view"
  shows "view (w_kv (fst (read_object G r w key))) = view (w_kv w)"
  by (auto simp: read_object_def Let_def Resolve_view[OF assms] split: prod.splits sum.splits bool.splits)

lemma uploadPart_keeps:
  assumes "etcd_client (sy_etcd (gw_sys G)) view"
  shows "namespace G view (fst (uploadPart G r w i)) = namespace G view w"
proof -
  have part: "UploadPart (gw_sys G) (gw_cluster G) w i n body opts pre = (w', res) \<Longrightarrow> namespace G view w' = namespace G view w"
    for w w' n body opts pre res
    using UploadPart_committed[OF assms, of "gw_cluster G" w i n body opts pre] by (simp add: namespace_def)
  have "CopyPart (gw_sys G) (gw_cluster G) bs w i n src off len opts pre = (w', res) \<Longrightarrow> namespace G view w' = namespace G view w"
    for w w' bs n src off len opts pre res
    by (auto simp: CopyPart_def dest: part split: prod.splits)
  moreover have "Resolve (gw_sys G) (gw_cluster G) w key = (w', res) \<Longrightarrow> namespace G view w' = namespace G view w" for w w' key res
    by (simp add: namespace_def Resolve_view[OF assms])
  ultimately have "namespace G view (fst (copyPart G r w i n source)) = namespace G view w" for n source
    by (auto simp: copyPart_def Let_def split: option.splits prod.splits sum.splits) 
  then show ?thesis
    by (auto simp: uploadPart_def Let_def dest: part split: option.splits prod.splits sum.splits)
qed

lemma createUpload_keeps:
  assumes "etcd_client (sy_etcd (gw_sys G)) view"
  shows "namespace G view (fst (createUpload G r w key)) = namespace G view w"
  by (auto simp: createUpload_def namespace_def Let_def CreateUpload_namespace[OF assms] split: prod.splits sum.splits)

lemma abortUpload_keeps:
  assumes "etcd_client (sy_etcd (gw_sys G)) view"
  shows "namespace G view (fst (abortUpload G r w i)) = namespace G view w"
  by (auto simp: abortUpload_def namespace_def AbortUpload_namespace[OF assms] split: prod.splits option.splits)

lemma listParts_keeps:
  assumes "etcd_client (sy_etcd (gw_sys G)) view"
  shows "view (w_kv (fst (listParts G r w key i))) = view (w_kv w)"
  by (auto simp: listParts_def Let_def cluster_Parts_view[OF assms] split: prod.splits sum.splits)

lemma listUploads_keeps:
  assumes "etcd_client (sy_etcd (gw_sys G)) view"
  shows "view (w_kv (fst (listUploads G r w))) = view (w_kv w)"
  by (auto simp: listUploads_def Let_def cluster_Uploads_view[OF assms] split: prod.splits sum.splits)

lemma listings_keep:
  assumes "etcd_client (sy_etcd (gw_sys G)) view"
  shows "list_objects_v2 G r w = Some wr \<Longrightarrow> view (w_kv (fst wr)) = view (w_kv w)"
    and "listVersions G r w = Some wr \<Longrightarrow> view (w_kv (fst wr)) = view (w_kv w)"
    and "deleteBucket G r w = Some wr \<Longrightarrow> view (w_kv (fst wr)) = view (w_kv w)"
    and "listBuckets G r w = Some wr \<Longrightarrow> view (w_kv (fst wr)) = view (w_kv w)"
  by (auto simp: list_objects_v2_def listVersions_def deleteBucket_def listBuckets_def Let_def
      list_at_view[OF assms] buckets_loop_view[OF assms] split: option.splits prod.splits sum.splits)

lemma listObjects_keeps:
  assumes "etcd_client (sy_etcd (gw_sys G)) view" "listObjects G r w = Some (w', out)"
  shows "view (w_kv w') = view (w_kv w)"
  using assms(2) listings_keep[OF assms(1)] listUploads_keeps[OF assms(1), of r w]
  by (auto simp: listObjects_def Let_def answered_def answered_if_def bucketLocation_def split: if_splits option.splits)

lemma getObject_keeps:
  assumes "etcd_client (sy_etcd (gw_sys G)) view" "getObject G r w = Some (w', out)"
  shows "view (w_kv w') = view (w_kv w)"
  using assms(2) listObjects_keeps[OF assms(1), of r w w' out] objectTagging_keeps[OF assms(1), of r w]
    listParts_keeps[OF assms(1), of r w] read_object_keeps[OF assms(1), of r w]
  by (auto simp: getObject_def answered_def or_aborted_def headBucket_def split: if_splits option.splits)

text \<open>Handlers that bind or free keys.\<close>

definition upload_key :: "'s gateway \<Rightarrow> ('s \<Rightarrow> kvs) \<Rightarrow> 's world \<Rightarrow> string \<Rightarrow> string option" where
  "upload_key G view w i = map_option up_Key (upload_at (c_meta (gw_cluster G)) (view (w_kv w)) i)"

definition settles ::
  "'s gateway \<Rightarrow> ('s \<Rightarrow> kvs) \<Rightarrow> 's world \<Rightarrow> intent \<Rightarrow> 's world \<times> response \<Rightarrow> bool" where
  "settles G view w a wr \<longleftrightarrow>
     may_become a (upload_key G view w) (Answered (snd wr)) (namespace G view w) (namespace G view (fst wr))"

lemma refusal_settles:
  "status_of out \<noteq> 200 \<Longrightarrow> status_of out \<noteq> 204 \<Longrightarrow> may_become a up out n n"
  by (cases a) (auto simp: settled_def Let_def split: option.splits)

lemma refused_settles:
  "ae_status e \<noteq> 200 \<Longrightarrow> ae_status e \<noteq> 204 \<Longrightarrow> namespace G view w' = namespace G view w \<Longrightarrow>
    settles G view w a (w', fail L r h e)"
  unfolding settles_def by (simp add: refusal_settles)

lemma put_body_settles:
  assumes "etcd_client (sy_etcd (gw_sys G)) view"
  shows "settles G view w (Stores key) (put_body G r w key)"
proof -
  have "settles G view w (Stores key) (case cluster_Put (gw_sys G) (gw_cluster G) w key (rq_Body r) opts (gw_pre G) of
      (w', Inl e) \<Rightarrow> (w', fail (gw_lib G) r [] (storeError e))
    | (w', Inr m) \<Rightarrow> (w', \<lparr>rs_Status = 200,
        rs_Header = write_checksums r m crc32c crc32 crc64nvme (h_Set ''ETag'' (etag m) []), rs_Body = []\<rparr>))"
    for opts crc32c crc32 crc64nvme
  proof -
    obtain w' res where p: "cluster_Put (gw_sys G) (gw_cluster G) w key (rq_Body r) opts (gw_pre G) = (w', res)" by fastforce
    show ?thesis
    proof (cases res)
      case (Inr m)
      have "namespace G view w' = (namespace G view w)(key \<mapsto> m)"
        using cluster_Put_namespace[OF assms p[unfolded Inr]] by (simp add: namespace_def)
      then show ?thesis using p Inr
        by (auto simp: settles_def settled_def binds_def write_checksums_ETag h_Get_Set)
    next
      case (Inl e)
      have "namespace G view w' = namespace G view w \<or>
          (\<exists>msg m. e = [Other msg] \<and> namespace G view w' = (namespace G view w)(key \<mapsto> m))"
        using Put_unacked[OF assms p[unfolded Inl]] by (simp add: namespace_def)
      then show ?thesis using p Inl by (auto simp: settles_def settled_def binds_def)
    qed
  qed
  then show ?thesis
    by (auto simp: put_body_def Let_def intro: refused_settles split: sum.splits)
qed

lemma cluster_Copy_settles:
  assumes "etcd_client (sy_etcd (gw_sys G)) view" "view (w_kv w1) = view (w_kv w)"
  shows "settles G view w (Copies frm key) (case cluster_Copy (gw_sys G) (gw_cluster G) w1 frm key opts of
      (w2, Inl e) \<Rightarrow> (w2, fail (gw_lib G) r [] (storeError e))
    | (w2, Inr m) \<Rightarrow> (w2, writeXML (gw_lib G) r [] (copyResult (etag m) (date m))))"
proof -
  obtain w2 res where p: "cluster_Copy (gw_sys G) (gw_cluster G) w1 frm key opts = (w2, res)" by fastforce
  from cluster_Copy_namespace[OF assms(1) p] show ?thesis
    using p assms(2) by (cases res) (auto simp: settles_def settled_def namespace_def writeXML_status)
qed

lemma copyObject_settles:
  assumes "etcd_client (sy_etcd (gw_sys G)) view" "copySource source = Some frm"
  shows "settles G view w (Copies frm key) (copyObject G r w key source)"
proof -
  obtain w1 res where rs: "Resolve (gw_sys G) (gw_cluster G) w frm = (w1, res)" by fastforce
  note v = Resolve_view(1)[OF assms(1) rs]
  then have n: "namespace G view w1 = namespace G view w" by (simp add: namespace_def)
  show ?thesis
  proof (cases "storedMeta (rq_Header r)")
    case (Inl e)
    then show ?thesis by (simp add: copyObject_def Let_def assms(2) refused_settles)
  next
    case (Inr stored)
    with rs show ?thesis
      by (cases "frm = key"; cases res)
        (simp_all add: copyObject_def Let_def assms(2) v n refused_settles cluster_Copy_settles[OF assms(1)])
  qed
qed

lemma delete_object_settles:
  assumes "etcd_client (sy_etcd (gw_sys G)) view"
  shows "settles G view w (Removes key) (delete_object G r w key)"
proof -
  obtain w' err where p: "cluster_Delete (gw_sys G) (gw_cluster G) w key = (w', err)" by fastforce
  note n = cluster_Delete_namespace[OF assms p]
  show ?thesis using p n by (cases err) (auto simp: delete_object_def settles_def settled_def namespace_def)
qed

lemma delete_one_frees:
  assumes "etcd_client (sy_etcd (gw_sys G)) view" "delete_one G bucket quiet key (w, deleted, errs) = (w', deleted', errs')"
  shows "namespace G view w' k = namespace G view w k \<or> namespace G view w' k = None \<and> HasPrefix k (bucket @ ''/'')"
proof (cases "key = ''''")
  case False
  obtain w1 err where p: "cluster_Delete (gw_sys G) (gw_cluster G) w (bucket @ ''/'' @ key) = (w1, err)" by fastforce
  have "w' = w1" using assms(2) False p by (auto simp: delete_one_def split: option.splits)
  moreover have "HasPrefix (bucket @ ''/'' @ key) (bucket @ ''/'')" by (simp add: HasPrefix_def)
  ultimately show ?thesis using cluster_Delete_namespace(2)[OF assms(1) p] by (auto simp: namespace_def split: if_splits)
qed (use assms(2) in \<open>auto simp: delete_one_def\<close>)

lemma deletes_free:
  assumes "etcd_client (sy_etcd (gw_sys G)) view"
  shows "fold (delete_one G bucket quiet) keys (w, deleted, errs) = (w', deleted', errs') \<Longrightarrow>
    namespace G view w' k = namespace G view w k \<or> namespace G view w' k = None \<and> HasPrefix k (bucket @ ''/'')"
proof (induction keys arbitrary: w deleted errs)
  case (Cons key keys)
  obtain w1 d1 e1 where one: "delete_one G bucket quiet key (w, deleted, errs) = (w1, d1, e1)"
    by (metis prod.exhaust)
  show ?case using Cons.IH[of w1 d1 e1] Cons.prems one delete_one_frees[OF assms one, of k] by auto
qed simp

lemma postBucket_settles:
  assumes "etcd_client (sy_etcd (gw_sys G)) view"
  shows "settles G view w (RemovesIn (rq_bucket r)) (postBucket G r w)"
  using deletes_free[OF assms]
  by (auto simp: postBucket_def deleteObjects_def Let_def settles_def split: option.splits sum.splits prod.splits)

lemma completeUpload_settles:
  assumes "etcd_client (sy_etcd (gw_sys G)) view"
  shows "settles G view w (Completes i) (completeUpload G r w key i)"
proof -
  have "settles G view w (Completes i) (case CompleteUpload (gw_sys G) (gw_cluster G) w i ps a b c of
      (w', Inl e) \<Rightarrow> (w', fail (gw_lib G) r [] (uploadError e))
    | (w', Inr m) \<Rightarrow> (w', writeXML (gw_lib G) r [] (d m)))" for ps a b c d
  proof -
    obtain w' res where p: "CompleteUpload (gw_sys G) (gw_cluster G) w i ps a b c = (w', res)" by fastforce
    from CompleteUpload_namespace[OF assms p] show ?thesis using p
      by (cases "upload_at (c_meta (gw_cluster G)) (view (w_kv w)) i"; cases res)
        (auto simp: settles_def settled_def namespace_def writeXML_status upload_key_def)
  qed
  then show ?thesis
    by (auto simp: completeUpload_def Let_def intro: refused_settles split: option.splits sum.splits prod.splits)
qed

section \<open>Refinement\<close>

lemma outside_settles:
  "namespace G view (fst wr) = namespace G view w \<Longrightarrow> settles G view w Reads wr"
  by (simp add: settles_def)

lemma putObject_settles:
  assumes "etcd_client (sy_etcd (gw_sys G)) view"
  shows "settles G view w (put_intent r) (putObject G r w)"
proof (cases "objectKey r")
  case (Some key)
  let ?src = "h_Get (rq_Header r) ''X-Amz-Copy-Source''"
  consider "q_Get (rq_Query r) ''uploadId'' \<noteq> ''''" | "q_Get (rq_Query r) ''uploadId'' = ''''" "?src \<noteq> ''''"
    | "q_Get (rq_Query r) ''uploadId'' = ''''" "?src = ''''" by blast
  then show ?thesis
  proof cases
    case 2
    then show ?thesis using Some copyObject_settles[OF assms]
      by (cases "copySource ?src") (simp_all add: putObject_def put_intent_def copyObject_def Let_def refused_settles)
  qed (simp_all add: putObject_def put_intent_def Some outside_settles uploadPart_keeps[OF assms] put_body_settles[OF assms])
qed (simp add: putObject_def put_intent_def refused_settles)

lemma postObject_settles:
  assumes "etcd_client (sy_etcd (gw_sys G)) view"
  shows "settles G view w (post_intent r) (postObject G r w)"
  by (cases "objectKey r")
    (simp_all add: postObject_def post_intent_def postBucket_settles[OF assms] outside_settles createUpload_keeps[OF assms]
      completeUpload_settles[OF assms] refused_settles)

lemma deleteObject_settles:
  assumes "etcd_client (sy_etcd (gw_sys G)) view" "deleteObject G r w = Some (w', out)" "rq_Method r = ''DELETE''"
  shows "may_become (intent_of Object r) (upload_key G view w) out (namespace G view w) (namespace G view w')"
  using assms(2,3) delete_object_settles[OF assms(1), of w _ r] abortUpload_keeps[OF assms(1), of r w]
    listings_keep(3)[OF assms(1), of r w]
  by (auto simp: deleteObject_def namespace_def intent_of_def answered_def answered_if_def settles_def split: option.splits if_splits)

lemma routed_settles:
  assumes "etcd_client (sy_etcd (gw_sys G)) view" "s3_route (rq_Method r) t G r w = Some (w', out)"
  shows "may_become (intent_of t r) (upload_key G view w) out (namespace G view w) (namespace G view w')"
proof (cases t)
  case Object
  consider "rq_Method r = ''PUT''" | "rq_Method r = ''GET'' \<or> rq_Method r = ''HEAD''" | "rq_Method r = ''DELETE''"
    | "rq_Method r = ''POST''" | "rq_Method r \<notin> {''PUT'', ''GET'', ''HEAD'', ''DELETE'', ''POST''}" by blast
  then show ?thesis
  proof cases
    case 1
    then show ?thesis using assms(2) Object putObject_settles[OF assms(1), of w r]
      by (auto simp: s3_route_def answered_def settles_def intent_of_def)
  next
    case 2
    then have "getObject G r w = Some (w', out)" "intent_of t r = Reads"
      using assms(2) Object by (auto simp: s3_route_def intent_of_def)
    then show ?thesis using getObject_keeps[OF assms(1)] by (simp add: namespace_def)
  next
    case 3
    then show ?thesis using assms(2) Object deleteObject_settles[OF assms(1)] by (simp add: s3_route_def)
  next
    case 4
    then show ?thesis using assms(2) Object postObject_settles[OF assms(1), of w r]
      by (auto simp: s3_route_def answered_def settles_def intent_of_def)
  next
    case 5
    then show ?thesis using assms(2) Object by (auto simp: s3_route_def answered_def unsupported_def intent_of_def)
  qed
next
  case Bucket
  then show ?thesis using assms(2) postBucket_settles[OF assms(1), of w r] listings_keep(3)[OF assms(1), of r w]
      listObjects_keeps[OF assms(1), of r w w' out]
    by (auto simp: s3_route_def namespace_def answered_def answered_if_def headBucket_def unsupported_def createBucket_def intent_of_def
        settles_def split: if_splits option.splits)
next
  case Root
  then show ?thesis using assms(2) listings_keep(4)[OF assms(1), of r w]
    by (auto simp: s3_route_def namespace_def answered_def answered_if_def unsupported_def intent_of_def split: if_splits option.splits)
next
  case Elsewhere
  then show ?thesis using assms(2) by (auto simp: s3_route_def answered_def unsupported_def intent_of_def)
qed

lemma authed_cases:
  assumes "authed next G r w = Some (w', out)"
    "sigv4_Verify (gl_time (gw_lib G)) (gw_ks G) (gw_creds G) (ev_now (sy_env (gw_sys G))) r = Inr r'"
  obtains "w' = w" "status_of out = 501" | "next G r' w = Some (w', out)"
  using assms by (auto simp: authed_def Let_def answered_def split: if_splits)

lemma Verify_keeps:
  assumes "sigv4_Verify T ks creds now r = Inr r'"
  shows "rq_Method r' = rq_Method r" "intent_of t r' = intent_of t r" "rq_Query r' = rq_Query r" "rq_Header r' = rq_Header r"
    "objectKey r' = objectKey r"
  by (rule Verify_Inr[OF assms], simp add: intent_of_def put_intent_def post_intent_def objectKey_def)+

lemma serve_steps:
  assumes "etcd_client (sy_etcd (gw_sys G)) view" "serve G t r w = Some (w', out)"
  shows "case sigv4_Verify (gl_time (gw_lib G)) (gw_ks G) (gw_creds G) (ev_now (sy_env (gw_sys G))) r of
      Inl e \<Rightarrow> w' = w \<and> status_of out \<in> {400, 403}
    | Inr r' \<Rightarrow> may_become (intent_of t r) (upload_key G view w) out (namespace G view w) (namespace G view w')"
proof (cases "sigv4_Verify (gl_time (gw_lib G)) (gw_ks G) (gw_creds G) (ev_now (sy_env (gw_sys G))) r")
  case (Inl e)
  then show ?thesis using assms(2) authError_status[of e] by (auto simp: serve_def authed_def answered_def)
next
  case (Inr r')
  note keeps = Verify_keeps[OF Inr]
  have "may_become (intent_of t r) (upload_key G view w) out (namespace G view w) (namespace G view w')"
    by (rule authed_cases[OF assms(2)[unfolded serve_def] Inr])
      (use routed_settles[OF assms(1), of r' t w w' out] keeps in \<open>simp_all add: refusal_settles\<close>)
  then show ?thesis using Inr by simp
qed

text \<open>A request that means to change the namespace is always answered; only a listing can outrun its bound.\<close>

lemma changes_answered:
  assumes "intent_of t r \<noteq> Reads"
  shows "\<exists>w' out. serve G t r w = Some (w', out)"
proof -
  have r: "\<exists>w' out. s3_route (rq_Method r') t G r' w = Some (w', out)" if "intent_of t r' \<noteq> Reads" for r'
    using that by (auto simp: intent_of_def s3_route_def answered_def deleteObject_def split: if_splits option.splits)
  show ?thesis
  proof (cases "sigv4_Verify (gl_time (gw_lib G)) (gw_ks G) (gw_creds G) (ev_now (sy_env (gw_sys G))) r")
    case (Inr r')
    note k = Verify_keeps[OF Inr]
    have "\<exists>w' out. s3_route (rq_Method r) t G r' w = Some (w', out)" using r[of r'] assms k by simp
    then show ?thesis using Inr by (simp add: serve_def authed_def answered_def Let_def)
  qed (simp add: serve_def authed_def answered_def)
qed


section \<open>A signed upload\<close>

definition demo_lib :: gateway_lib where
  "demo_lib = \<lparr>gl_time = stub_time, gl_Marshal = \<lambda>_. None, gl_completeRequest = \<lambda>_. None, gl_deleteRequest = \<lambda>_. None\<rparr>"

definition demo_gateway :: "kvs gateway" where
  "demo_gateway = \<lparr>gw_sys = example_sys, gw_cluster = example_coord, gw_creds = demo_creds, gw_lib = demo_lib,
     gw_ks = \<lambda>i. (i, i), gw_bs = 2, gw_room = 9, gw_pre = ''AB'', gw_id = ''U'', gw_fuel = 9\<rparr>"

definition demo_put :: "multimap \<Rightarrow> reader \<Rightarrow> request" where
  "demo_put hs body = plain_request\<lparr>rq_Method := ''PUT'', rq_Header := hs, rq_Body := body\<rparr>"

text \<open>The headers of a plain upload and of one whose body is signed chunk by chunk, past the signature.\<close>

definition signed_headers :: "string \<Rightarrow> multimap \<Rightarrow> multimap" where
  "signed_headers sig hs = (''Authorization'', [sig]) # (''X-Amz-Date'', [''20250101T000000Z'']) # hs"

definition chunked_headers :: multimap where
  "chunked_headers = [(''X-Amz-Content-Sha256'', [streaming]), (''X-Amz-Decoded-Content-Length'', [''4''])]"

lemma plain_headers:
  assumes "hs \<in> {[], chunked_headers}"
  shows "\<not> encryptionRequested (signed_headers sig hs)" "\<not> taggingRequested (signed_headers sig hs)"
    "checksumHeaders (signed_headers sig hs) = ('''', False)" "announcedTrailers (signed_headers sig hs) = []"
    "h_Get (signed_headers sig hs) ''X-Amz-Copy-Source'' = ''''" "h_Values (signed_headers sig hs) ''Content-MD5'' = []"
    "declared_checksums (signed_headers sig hs) = Inr (None, None, None)" "storedMeta (signed_headers sig hs) = Inr []"
    "h_Get (signed_headers sig hs) ''Content-Type'' = ''''"
  by (insert assms, elim insertE emptyE; simp only:; code_simp)+

lemma demo_put_verified:
  assumes "sigv4_Verify stub_time ks demo_creds 5 (sign_request (demo_put hs body)) = Inr r'"
  shows "rq_Header r' = signed_headers (authorization_header (signature_of (demo_put hs body))) hs"
    "rq_Method r' = ''PUT''" "rq_Query r' = []" "rq_key r' = ''k''" "objectKey r' = Some ''b/k''"
    "rq_TransferEncoding r' = []"
  by (rule Verify_Inr[OF assms],
      simp add: sign_request_def demo_put_def plain_request_def signed_headers_def objectKey_def Contains_def HasPrefix_def)+

text \<open>What is left of \<^verbatim>\<open>putObject\<close> for such a request: the write itself.\<close>

lemma demo_put_routed:
  assumes "hs \<in> {[], chunked_headers}"
    and "sigv4_Verify stub_time (\<lambda>i. (i, i)) demo_creds 5 (sign_request (demo_put hs body)) = Inr r'"
  shows "serve demo_gateway Object (sign_request (demo_put hs body)) w = answered (put_body demo_gateway r' w ''b/k'')"
proof -
  note r' = demo_put_verified[OF assms(2)] and hs = plain_headers[OF assms(1)]
  have v: "sigv4_Verify (gl_time (gw_lib demo_gateway)) (gw_ks demo_gateway) (gw_creds demo_gateway)
      (ev_now (sy_env (gw_sys demo_gateway))) (sign_request (demo_put hs body)) = Inr r'"
    using assms(2) by (simp add: demo_gateway_def demo_lib_def example_sys_def example_env_def)
  have m: "rq_Method (sign_request (demo_put hs body)) = ''PUT''" by (simp add: sign_request_def demo_put_def)
  have "\<not> checksumRefused r'" "q_Get [] n = ''''" for n
    using hs(3) r' by (simp_all add: checksumRefused_def q_Get_def values_of_def first_value_def)
  then show ?thesis
    using v m hs r' by (simp add: serve_def s3_route_def authed_def putObject_def Let_def)
qed

lemma demo_put_serve:
  assumes "hs \<in> {[], chunked_headers}"
    and "sigv4_Verify stub_time (\<lambda>i. (i, i)) demo_creds 5 (sign_request (demo_put hs body)) = Inr r'"
    and "0 \<le> rq_ContentLength r'"
  shows "serve demo_gateway Object (sign_request (demo_put hs body)) w =
    answered (case cluster_Put example_sys example_coord w ''b/k'' (rq_Body r') (zero_options\<lparr>po_Size := rq_ContentLength r'\<rparr>) ''AB'' of
        (w', Inl e) \<Rightarrow> (w', fail demo_lib r' [] (storeError e))
      | (w', Inr m) \<Rightarrow> (w', \<lparr>rs_Status = 200,
          rs_Header = write_checksums r' m None None None (h_Set ''ETag'' (etag m) []), rs_Body = []\<rparr>))"
proof -
  note r' = demo_put_verified[OF assms(2)] and hs = plain_headers[OF assms(1)]
  have "attachTrailingChecksums opts r' = opts" for opts
    using hs(4) r'(1) by (simp add: attachTrailingChecksums_def)
  then show ?thesis
    using hs r' assms(3) unfolding demo_put_routed[OF assms(1,2)]
    by (simp add: put_body_def Let_def contentMD5_def zero_options_def) (simp add: demo_gateway_def)
qed

lemma demo_plain_verified:
  "sigv4_Verify stub_time (\<lambda>i. (i, i)) demo_creds 5 (sign_request (demo_put [] body)) =
    Inr ((sign_request (demo_put [] body))\<lparr>rq_Body := body, rq_Trailers := [], rq_ContentLength := 0\<rparr>)"
proof -
  have "rq_Host (demo_put [] body) \<noteq> ''''" "\<bar>5 :: int\<bar> \<le> MaxSkew"
    by (simp_all add: demo_put_def plain_request_def MaxSkew_def)
  from Verify_sign_request[OF this, of "\<lambda>i. (i, i)"] show ?thesis
    by (simp add: demo_put_def plain_request_def verifiedBody_def h_Get_def h_Values_def values_of_def first_value_def
        streaming_def streamingTrl_def unsignedTrl_def sign_request_def)
qed

lemma demo_write:
  assumes "source_error body = None"
  obtains w' m where "cluster_Put example_sys example_coord w ''b/k'' body (zero_options\<lparr>po_Size := n\<rparr>) ''AB'' = (w', Inr m)"
proof -
  have "put_checks m (zero_options\<lparr>po_Size := n\<rparr>) = None" for m
    by (simp add: put_checks_def zero_options_def checkCRC32C_def checkCRC32_def checkCRC64NVME_def check_declared_def)
  from Put_up[OF example_etcd example_prefix example_coord_simps(3) example_coord_wf example_chunk refl
      example_quorum assms this example_addresses] show thesis using that by blast
qed

lemma demo_stored:
  obtains w' m rs where "serve demo_gateway Object (sign_request (demo_put [] (bytes_NewReader d))) w = Some (w', Answered rs)"
    "rs_Status rs = 200" "h_Get (rs_Header rs) ''ETag'' = etag m"
    "cluster_Put example_sys example_coord w ''b/k'' (bytes_NewReader d) (zero_options\<lparr>po_Size := 0\<rparr>) ''AB'' = (w', Inr m)"
proof -
  obtain w' m where p: "cluster_Put example_sys example_coord w ''b/k'' (bytes_NewReader d) (zero_options\<lparr>po_Size := 0\<rparr>) ''AB'' = (w', Inr m)"
    by (rule demo_write[OF example_clean])
  have hs: "[] \<in> {[], chunked_headers}" by simp
  define rs where "rs = \<lparr>rs_Status = 200, rs_Header = write_checksums ((sign_request (demo_put [] (bytes_NewReader d)))
      \<lparr>rq_Body := bytes_NewReader d, rq_Trailers := [], rq_ContentLength := 0\<rparr>) m None None None (h_Set ''ETag'' (etag m) []),
      rs_Body = []\<rparr>"
  have "serve demo_gateway Object (sign_request (demo_put [] (bytes_NewReader d))) w = Some (w', Answered rs)"
    using demo_put_serve[OF hs demo_plain_verified, of "bytes_NewReader d" w] p by (simp add: answered_def rs_def)
  moreover have "rs_Status rs = 200" "h_Get (rs_Header rs) ''ETag'' = etag m"
    by (simp_all add: rs_def write_checksums_ETag h_Get_Set)
  ultimately show thesis using p that by blast
qed

lemma demo_put_intent: "intent_of Object (sign_request (demo_put [] body)) = Stores ''b/k''"
proof -
  have "h_Get (rq_Header (sign_request (demo_put [] body))) ''X-Amz-Copy-Source'' = ''''"
    using plain_headers(5)[of "[]"] by (simp add: sign_request_def signed_headers_def demo_put_def)
  then show ?thesis
    by (simp add: intent_of_def put_intent_def objectKey_def sign_request_def demo_put_def plain_request_def q_Get_def
        values_of_def first_value_def Contains_def HasPrefix_def)
qed


end
