(* ===== verification/S3_Roundtrip.thy ===== *)
theory S3_Roundtrip
  imports S3_Namespace
begin

text \<open>
  From a client's upload to another client's download: as long as the key has the object that was put,
  on whatever nodes and whatever state the disks are in, a download whose body has the length its
  headers promise is exactly the bytes asked for.  And an upload cut off in the middle of a signed chunk
  is acknowledged.
\<close>

section \<open>Which keys a request means to change\<close>

primrec touches :: "intent \<Rightarrow> (string \<Rightarrow> string option) \<Rightarrow> string \<Rightarrow> bool" where
  "touches Reads up k = False"
| "touches (Stores key) up k = (k = key)"
| "touches (Copies frm key) up k = (k = key)"
| "touches (Removes key) up k = (k = key)"
| "touches (RemovesIn bucket) up k = HasPrefix k (bucket @ ''/'')"
| "touches (Completes i) up k = (up i = Some k)"

lemma may_become_frame: "may_become a up out n n' \<Longrightarrow> \<not> touches a up k \<Longrightarrow> n' k = n k"
  by (cases a) (auto simp: settled_def binds_def Let_def split: option.splits if_splits)

section \<open>Downloads\<close>

lemma h_Set_others:
  "CanonicalHeaderKey name \<noteq> CanonicalHeaderKey name' \<Longrightarrow> h_Get (h_Set name v h) name' = h_Get h name'"
  by (simp add: h_Get_Set)

lemma read_headers_length: "h_Get (read_headers T r m part n baseLen off len) ''Content-Length'' = fmt_int len"
proof -
  have k: "CanonicalHeaderKey a \<noteq> CanonicalHeaderKey ''Content-Length''"
    if "a \<in> {''Content-Type'', ''X-Amz-Checksum-Crc32c'', ''X-Amz-Checksum-Crc32'', ''X-Amz-Checksum-Crc64nvme'',
        ''x-amz-checksum-type'', ''X-Amz-Mp-Parts-Count'', ''Content-Range''}" for a
    using that by (elim insertE emptyE; simp only:; code_simp)
  have s: "h_Get (set_sum enc name v h) ''Content-Length'' = h_Get h ''Content-Length''"
    if "CanonicalHeaderKey name \<noteq> CanonicalHeaderKey ''Content-Length''" for enc :: "'b \<Rightarrow> string" and name v h
    using that by (simp add: set_sum_def h_Set_others split: option.splits)
  have "h_Get (read_checksums r m part baseLen l h) ''Content-Length'' = h_Get h ''Content-Length''" for h l
    by (simp add: read_checksums_def Let_def h_Set_others s k)
  then show ?thesis by (simp add: read_headers_def Let_def h_Set_others k h_Get_Set)
qed

lemma base_window_status: "base_window r m = Inl e \<Longrightarrow> ae_status e \<in> {400, 416}"
  by (auto simp: base_window_def errBadPartNumber_def errInvalidPartNumber_def split: if_splits option.splits)

text \<open>A read answered 200 or 206 found the object, and its body is what \<^verbatim>\<open>StreamRange\<close> delivered of the window.\<close>

lemma read_object_ok:
  assumes "read_object G r w key = (w', rs)" "rs_Status rs \<in> {200, 206}" "rq_Method r = ''GET''"
    "\<not> q_Has (rq_Query r) ''partNumber''"
  obtains m off len where "Resolve (gw_sys G) (gw_cluster G) w key = (w', Inr m)"
    "parseRange (h_Get (rq_Header r) ''Range'') (m_Size m) = Inr (off, len)"
    "h_Get (rs_Header rs) ''Content-Length'' = fmt_int len"
    "rs_Body rs = sk_data (fst (StreamRange (gw_sys G) (gw_cluster G) (gw_bs G) w' m \<lparr>sk_data = [], sk_room = gw_room G\<rparr> (i64 off) len))"
proof -
  obtain w1 res where rs: "Resolve (gw_sys G) (gw_cluster G) w key = (w1, res)" by fastforce
  have "res \<noteq> Inl e" for e
    using assms(1,2) rs storeError_status[of e] by (auto simp: read_object_def Let_def)
  then obtain m where m: "res = Inr m" by (cases res) auto
  obtain st ok where pre: "precondition (gl_time (gw_lib G)) (rq_Header r) m = (st, ok)" by fastforce
  have ok: "ok" using assms(1,2) rs m pre by (cases ok) (auto simp: read_object_def Let_def split: if_splits)
  have base: "base_window r m = Inr (0, m_Size m, None, 0)" using assms(4) by (simp add: base_window_def)
  obtain off len where pr: "parseRange (h_Get (rq_Header r) ''Range'') (m_Size m) = Inr (off, len)"
    using assms(1,2) rs m pre ok base
    by (cases "parseRange (h_Get (rq_Header r) ''Range'') (m_Size m)") (auto simp: read_object_def Let_def errInvalidRange_def)
  show thesis
    by (rule that[of m off len])
      (use assms(1,3) rs m pre ok base pr in \<open>auto simp: read_object_def Let_def read_headers_length\<close>)
qed

lemma serve_get:
  assumes "serve G Object q w = Some (w', Answered rs)" "rs_Status rs \<in> {200, 206}" "rq_Method q = ''GET''"
    "objectKey q = Some key" "\<not> q_Has (rq_Query q) ''tagging''" "q_Get (rq_Query q) ''uploadId'' = ''''"
  obtains q' where "read_object G q' w key = (w', rs)" "rq_Method q' = ''GET''" "rq_Query q' = rq_Query q" "rq_Header q' = rq_Header q"
proof (cases "sigv4_Verify (gl_time (gw_lib G)) (gw_ks G) (gw_creds G) (ev_now (sy_env (gw_sys G))) q")
  case (Inl e)
  then show thesis using assms(1,2) authError_status[of e] by (auto simp: serve_def authed_def answered_def)
next
  case (Inr q')
  note k = Verify_keeps[OF Inr]
  have "getObject G q' w = Some (w', Answered rs)"
    by (rule authed_cases[OF assms(1)[unfolded serve_def] Inr]) (use assms in \<open>auto simp: s3_route_def\<close>)
  then have "read_object G q' w key = (w', rs)"
    using assms(4-6) k by (auto simp: getObject_def answered_def prod_eq_iff)
  then show thesis using that k assms(3) by simp
qed

text \<open>And an upload answered 200 went through \<^verbatim>\<open>Put\<close>.\<close>

lemma stores_put:
  assumes "intent_of t r = Stores key"
  shows "t = Object" "rq_Method r = ''PUT''" "putObject G r w = put_body G r w key"
  using assms
  by (auto simp: intent_of_def put_intent_def post_intent_def putObject_def split: if_splits option.splits)

lemma serve_put:
  assumes "serve G Object r w = Some (w', Answered rs)" "rs_Status rs = 200" "intent_of Object r = Stores key"
    and v: "sigv4_Verify (gl_time (gw_lib G)) (gw_ks G) (gw_creds G) (ev_now (sy_env (gw_sys G))) r = Inr r'"
  obtains opts m where "cluster_Put (gw_sys G) (gw_cluster G) w key (rq_Body r') opts (gw_pre G) = (w', Inr m)"
proof -
  note k = Verify_keeps[OF v]
  have i: "intent_of Object r' = Stores key" using assms(3) k by simp
  have "s3_route (rq_Method r) Object G r' w = Some (w', Answered rs)"
    by (rule authed_cases[OF assms(1)[unfolded serve_def] v]) (use assms(2) in auto)
  then have "putObject G r' w = (w', rs)"
    using stores_put(2)[OF i] k by (auto simp: s3_route_def answered_def prod_eq_iff)
  then have "put_body G r' w key = (w', rs)" by (simp add: stores_put(3)[OF i])
  then show thesis
    using assms(2) that storeError_refuses(1)
    by (auto simp: put_body_def Let_def split: if_splits sum.splits prod.splits)
qed

lemma parseRange_in_i64:
  assumes "0 \<le> sz" "in_i64 sz" "parseRange header sz = Inr (off, len)"
  shows "in_i64 off" "in_i64 len" "0 \<le> off"
proof -
  have "in_i64 x" if "0 \<le> x" "x \<le> sz" for x using assms(2) that by (simp add: in_i64_def)
  then show "in_i64 off" "in_i64 len" "0 \<le> off"
    using assms by (auto simp: parseRange_def split: option.splits if_splits)
qed

section \<open>The round trip\<close>

definition downloads :: "request \<Rightarrow> string \<Rightarrow> bool" where
  "downloads q key \<longleftrightarrow> rq_Method q = ''GET'' \<and> objectKey q = Some key \<and> \<not> q_Has (rq_Query q) ''tagging'' \<and>
     q_Get (rq_Query q) ''uploadId'' = '''' \<and> \<not> q_Has (rq_Query q) ''partNumber''"

text \<open>
  A download after an upload, whatever happened in between, given that the key still has the object
  that was put, on whatever nodes.  The checksum of a chunk is assumed to detect what corruption there is.
\<close>

lemma get_after_put:
  assumes "etcd_client (sy_etcd (gw_sys G)) view" and "etcd_client (sy_etcd (gw_sys G2)) view"
    and "c_meta (gw_cluster G2) = c_meta (gw_cluster G)"
    and "addresses_right (gw_sys G) (gw_cluster G) (c_live (gw_cluster G))"
    and "0 < c_chunkSize (gw_cluster G)" and "coord_wf (gw_cluster G)" and "0 < gw_bs G2"
    and "sigv4_Verify (gl_time (gw_lib G)) (gw_ks G) (gw_creds G) (ev_now (sy_env (gw_sys G))) r = Inr r'"
    and "intent_of Object r = Stores key" and "in_i64 (int (length (rdata (rq_Body r'))))"
    and "serve G Object r w = Some (w1, Answered rs)" and "rs_Status rs = 200"
    and "\<And>m. committed (c_meta (gw_cluster G)) (view (w_kv w1)) key = Some m \<Longrightarrow>
      \<exists>ns. committed (c_meta (gw_cluster G)) (view (w_kv w2)) key = Some (m\<lparr>m_Nodes := ns\<rparr>)"
    and "\<And>m k. committed (c_meta (gw_cluster G)) (view (w_kv w2)) key = Some m \<Longrightarrow> k < length (m_Chunks m) \<Longrightarrow>
      crc_detects (gw_sys G2) (gw_cluster G2) (w_disks w2) m (m_Chunks m ! k)
        (cuts (nat (c_chunkSize (gw_cluster G))) (rdata (rq_Body r')) ! k)"
    and "downloads q key" and "serve G2 Object q w2 = Some (w3, Answered rs2)" and "rs_Status rs2 \<in> {200, 206}"
  shows "\<exists>off len. parseRange (h_Get (rq_Header q) ''Range'') (int (length (rdata (rq_Body r')))) = Inr (off, len) \<and>
    h_Get (rs_Header rs2) ''Content-Length'' = fmt_int len \<and>
    (int (length (rs_Body rs2)) = len \<longrightarrow> rs_Body rs2 = take (nat len) (drop (nat off) (rdata (rq_Body r'))))"
proof -
  let ?data = "rdata (rq_Body r')" and ?n = "nat (c_chunkSize (gw_cluster G))"
  obtain opts m where put: "cluster_Put (gw_sys G) (gw_cluster G) w key (rq_Body r') opts (gw_pre G) = (w1, Inr m)"
    by (rule serve_put[OF assms(11,12,9,8)])
  note ack = Put_acked[OF assms(1,4,5,6) put]
  have "committed (c_meta (gw_cluster G)) (view (w_kv w1)) key = Some m" using ack by simp
  from assms(13)[OF this] obtain ns where m2: "committed (c_meta (gw_cluster G)) (view (w_kv w2)) key = Some (m\<lparr>m_Nodes := ns\<rparr>)"
    by blast
  let ?m = "m\<lparr>m_Nodes := ns\<rparr>"
  obtain q' where q': "read_object G2 q' w2 key = (w3, rs2)" "rq_Method q' = ''GET''" "rq_Query q' = rq_Query q" "rq_Header q' = rq_Header q"
    using serve_get[OF assms(16,17)] assms(15) unfolding downloads_def by blast
  have np: "\<not> q_Has (rq_Query q') ''partNumber''" using assms(15) q'(3) by (simp add: downloads_def)
  obtain m' off len where g: "Resolve (gw_sys G2) (gw_cluster G2) w2 key = (w3, Inr m')"
      "parseRange (h_Get (rq_Header q') ''Range'') (m_Size m') = Inr (off, len)"
      "h_Get (rs_Header rs2) ''Content-Length'' = fmt_int len"
      "rs_Body rs2 = sk_data (fst (StreamRange (gw_sys G2) (gw_cluster G2) (gw_bs G2) w3 m' \<lparr>sk_data = [], sk_room = gw_room G2\<rparr> (i64 off) len))"
    by (rule read_object_ok[OF q'(1) assms(17) q'(2) np])
  have same: "m' = ?m" "w_disks w3 = w_disks w2"
  proof -
    have "meta_Get (sy_etcd (gw_sys G2)) (c_meta (gw_cluster G)) (w_kv w2) key = (w_kv w3, Inr m')"
      using g(1) assms(3) by (auto simp: Resolve_def split: prod.splits)
    then show "m' = ?m" using etcd_client.meta_Get_ok[OF assms(2)] m2 by fastforce
  qed (rule Resolve_view(2)[OF assms(2) g(1)])
  have sz: "m_Size ?m = int (length ?data)" and len: "length (m_Chunks ?m) = length (cuts ?n ?data)"
    and refs: "\<forall>k < length (m_Chunks ?m). describes (gw_pre G) k (m_Chunks ?m ! k) (cuts ?n ?data ! k)"
    using ack by simp_all
  note pr = g(2)[unfolded same(1) sz q'(4)]
  note range = parseRange_in_i64[OF _ assms(10) pr]
  obtain out err where run: "ReadRange (gw_bs G2) ?m \<lparr>sk_data = [], sk_room = gw_room G2\<rparr> off len
      (cluster_chunk (gw_sys G2) (gw_cluster G2) (w_disks w2) ?m) = (out, err)" by fastforce
  then have body: "rs_Body rs2 = sk_data out"
    using g(4) same range by (simp add: StreamRange_def)
  have v: "verified_fetch (cluster_chunk (gw_sys G2) (gw_cluster G2) (w_disks w2) ?m) (m_Chunks ?m) (cuts ?n ?data)"
    by (rule cluster_verified_fetch) (use refs len assms(14)[OF m2] in \<open>auto simp: list_all2_conv_all_nth describes_def\<close>)
  have "rs_Body rs2 = take (nat len) (drop (nat off) ?data)" if full: "int (length (rs_Body rs2)) = len"
  proof (cases err)
    case None
    then show ?thesis using ReadRange_delivers[OF assms(7) range(1,2) v run[unfolded None]] body assms(5) by simp
  next
    case (Some e)
    have "len = 0 \<and> rs_Body rs2 = []"
      using ReadRange_fails_short[OF assms(7) range(1,2) verified_fetch_sizes[OF v] run[unfolded Some]] body full
      by (auto split: if_splits)
    then show ?thesis by simp
  qed
  then show ?thesis using pr g(3) by blast
qed

section \<open>A download of the signed upload\<close>

lemma mem_Get: "committed M s k = Some m \<Longrightarrow> meta_Get mem_etcd M s k = (s, Inr m)"
  by (auto simp: meta_Get_def et_kvs_def mem_etcd_def kv_select_single committed_def split: option.splits sum.splits)

definition demo_get :: request where
  "demo_get = sign_request plain_request"

lemma demo_get_verified:
  "sigv4_Verify (gl_time (gw_lib demo_gateway)) (gw_ks demo_gateway) (gw_creds demo_gateway)
    (ev_now (sy_env (gw_sys demo_gateway))) demo_get = Inr demo_get"
proof -
  have "rq_Host plain_request \<noteq> ''''" "\<bar>5 :: int\<bar> \<le> MaxSkew" by (simp_all add: plain_request_def MaxSkew_def)
  from Verify_sign_request[OF this, of "\<lambda>i. (i, i)"] show ?thesis
    by (simp add: demo_gateway_def demo_lib_def example_sys_def example_env_def demo_get_def plain_request_def
        verifiedBody_def h_Get_def h_Values_def values_of_def first_value_def streaming_def streamingTrl_def unsignedTrl_def
        sign_request_def)
qed

lemma demo_get_request:
  "rq_Header demo_get = signed_headers (authorization_header (signature_of plain_request)) []"
  "rq_Method demo_get = ''GET''" "rq_Query demo_get = []" "rq_key demo_get = ''k''" "downloads demo_get ''b/k''"
  by (simp_all add: demo_get_def sign_request_def plain_request_def signed_headers_def downloads_def objectKey_def
      Contains_def HasPrefix_def q_Has_def q_Get_def values_of_def first_value_def)

lemma demo_get_plain:
  assumes "n \<in> {''Range'', ''If-Match'', ''If-None-Match'', ''If-Modified-Since'', ''If-Unmodified-Since''}"
  shows "h_Get (signed_headers sig []) n = ''''"
  using assms by (elim insertE emptyE; simp only:; code_simp)

lemma no_range: "parseRange '''' sz = Inr (0, sz)"
  by (simp add: parseRange_def CutPrefix_def HasPrefix_def)

lemma demo_get_serve:
  assumes "committed example_meta (w_kv w) ''b/k'' = Some m"
  obtains rs where "serve demo_gateway Object demo_get w = Some (w, Answered rs)" "rs_Status rs = 200"
    "rs_Body rs = sk_data (fst (StreamRange example_sys example_coord 2 w m \<lparr>sk_data = [], sk_room = 9\<rparr> 0 (m_Size m)))"
proof -
  let ?h = "signed_headers (authorization_header (signature_of plain_request)) []"
  have hs: "[] \<in> {[], chunked_headers}" by simp
  note plain = plain_headers[OF hs]
  have "sy_etcd (gw_sys demo_gateway) = mem_etcd" by (simp add: demo_gateway_def example_sys_def)
  then have res: "Resolve (gw_sys demo_gateway) (gw_cluster demo_gateway) w ''b/k'' = (w, Inr m)"
    using mem_Get[OF assms] by (simp add: Resolve_def demo_gateway_def example_sys_def)
  have pre: "precondition T ?h m = (200, True)" for T
    by (simp add: precondition_def demo_get_plain httpDate_def)

  have win: "base_window demo_get m = Inr (0, m_Size m, None, 0)"
    by (simp add: base_window_def demo_get_request q_Has_def)
  define rs where "rs = snd (read_object demo_gateway demo_get w ''b/k'')"
  have ro: "read_object demo_gateway demo_get w ''b/k'' = (w, rs)" "rs_Status rs = 200"
    "rs_Body rs = sk_data (fst (StreamRange example_sys example_coord 2 w m \<lparr>sk_data = [], sk_room = 9\<rparr> 0 (m_Size m)))"
    using res by (simp_all add: rs_def read_object_def Let_def demo_get_request pre no_range win demo_get_plain)
      (simp add: demo_gateway_def in_i64_def)
  have "\<not> checksumRefused demo_get" by (simp add: checksumRefused_def writesObjectBytes_def demo_get_request)
  then have "serve demo_gateway Object demo_get w = getObject demo_gateway demo_get w"
    using demo_get_verified plain by (simp add: serve_def authed_def s3_route_def demo_get_request Let_def)
  then have "serve demo_gateway Object demo_get w = Some (w, Answered rs)"
    using demo_get_request(5) ro(1) by (simp add: getObject_def downloads_def answered_def)
  then show thesis using that ro(2,3) by blast
qed

section \<open>Uploads that are cut off\<close>

text \<open>The cluster is in a state to take writes of the key.\<close>

definition writable :: "'s gateway \<Rightarrow> ('s \<Rightarrow> kvs) \<Rightarrow> string \<Rightarrow> bool" where
  "writable G view key \<longleftrightarrow> (let X = gw_sys G; c = gw_cluster G in
     etcd_client (sy_etcd X) view \<and> etcd_up (sy_etcd X) \<and> good_prefix (gw_pre G) \<and> c_scheme c = zero_scheme \<and>
     coord_wf c \<and> 0 < c_chunkSize c \<and> addresses_right X c (c_live c) \<and>
     c_quorum c \<le> int (length (filter (healthy X c (c_live c)) (Owners (mb_ring (c_live c)) (PartitionFor key) (width c)))))"

text \<open>A request to store an object that declares no digest, checksum or trailer.\<close>

definition undeclared :: "request \<Rightarrow> bool" where
  "undeclared r \<longleftrightarrow> 0 \<le> rq_ContentLength r \<and> h_Values (rq_Header r) ''Content-MD5'' = [] \<and>
     declared_checksums (rq_Header r) = Inr (None, None, None) \<and> announcedTrailers (rq_Header r) = [] \<and>
     (\<exists>stored. storedMeta (rq_Header r) = Inr stored)"

lemma undeclared_put:
  assumes "writable G view key" "undeclared r" "source_error (rq_Body r) = None"
  shows "\<exists>w' rs m. put_body G r w key = (w', rs) \<and> rs_Status rs = 200 \<and>
    namespace G view w' = (namespace G view w)(key \<mapsto> m) \<and> m_Size m = int (length (rdata (rq_Body r)))"
proof -
  obtain stored where r: "0 \<le> rq_ContentLength r" "contentMD5 (h_Values (rq_Header r) ''Content-MD5'') = Inr ''''"
      "declared_checksums (rq_Header r) = Inr (None, None, None)" "storedMeta (rq_Header r) = Inr stored"
      "attachTrailingChecksums opts r = opts" for opts
    using assms(2) by (auto simp: undeclared_def attachTrailingChecksums_def contentMD5_def)
  let ?opts = "zero_options\<lparr>po_ContentType := h_Get (rq_Header r) ''Content-Type'', po_Size := rq_ContentLength r,
    po_MD5 := '''', po_CRC32C := None, po_CRC32 := None, po_CRC64NVME := None, po_Meta := stored\<rparr>"
  have W: "etcd_client (sy_etcd (gw_sys G)) view" "etcd_up (sy_etcd (gw_sys G))" "good_prefix (gw_pre G)"
      "c_scheme (gw_cluster G) = zero_scheme" "coord_wf (gw_cluster G)" "0 < c_chunkSize (gw_cluster G)"
      "addresses_right (gw_sys G) (gw_cluster G) (c_live (gw_cluster G))"
      "c_quorum (gw_cluster G) \<le> int (length (filter (healthy (gw_sys G) (gw_cluster G) (c_live (gw_cluster G)))
        (Owners (mb_ring (c_live (gw_cluster G))) (PartitionFor key) (width (gw_cluster G)))))"
    using assms(1) by (simp_all add: writable_def Let_def)
  have "put_checks m ?opts = None" for m
    by (simp add: put_checks_def zero_options_def checkCRC32C_def checkCRC32_def checkCRC64NVME_def check_declared_def)
  from Put_up[OF W(1-6) refl W(8) assms(3) this W(7)]
  obtain w' m where p: "cluster_Put (gw_sys G) (gw_cluster G) w key (rq_Body r) ?opts (gw_pre G) = (w', Inr m)" by blast
  have "namespace G view w' = (namespace G view w)(key \<mapsto> m) \<and> m_Size m = int (length (rdata (rq_Body r)))"
    using Put_acked[OF W(1,7,6,5) p] by (simp add: namespace_def)
  moreover have "put_body G r w key = (w', \<lparr>rs_Status = 200,
      rs_Header = write_checksums r m None None None (h_Set ''ETag'' (etag m) []), rs_Body = []\<rparr>)"
    using r p by (simp add: put_body_def Let_def)
  ultimately show ?thesis by auto
qed


text \<open>One signed chunk, then a chunk of five bytes of which one arrives.\<close>

definition cut_signer :: chunk_signer where
  "cut_signer = demo_signer_of (demo_put chunked_headers (bytes_NewReader []))"

definition cut_wire :: bytes where
  "cut_wire = frames stub_time cut_signer [[1, 2]] @ frame_header 5 ''forged'' @ [9]"

lemma signature_of_body: "signature_of (demo_put hs body) = signature_of (demo_put hs body')"
  by (simp add: signature_of_def demo_put_def canonicalRequest_def headerValue_def canonicalPath_def canonicalQuery_def)

lemma chunked_verified:
  "sigv4_Verify stub_time (\<lambda>i. (i, i)) demo_creds 5 (sign_request (demo_put chunked_headers body)) =
    (case chunked_body stub_time (\<lambda>i. (i, i)) body (Some cut_signer) of (b, hs) \<Rightarrow>
      Inr ((sign_request (demo_put chunked_headers body))\<lparr>rq_Body := b, rq_Trailers := hs, rq_ContentLength := 4\<rparr>))"
proof -
  let ?r = "demo_put chunked_headers body"
  have r: "rq_Host ?r \<noteq> ''''" "\<bar>5 :: int\<bar> \<le> MaxSkew" by (simp_all add: demo_put_def plain_request_def MaxSkew_def)
  have h: "h_Get (rq_Header ?r) ''x-amz-content-sha256'' = streaming" "h_Get (rq_Header ?r) ''x-amz-decoded-content-length'' = ''4''"
    by (simp_all add: demo_put_def chunked_headers_def h_Get_def h_Values_def values_of_def first_value_def)
  have n: "ParseInt 10 ''4'' = Some 4" by (simp add: ParseInt_def HasPrefix_def hex_value_def in_i64_def)
  have "\<lparr>sg_key = signingKey ''SK'' ''20250101'' ''r'' ''s3'', sg_date = 0, sg_scope = auth_scope demo_auth,
      sg_prev = signature_of ?r\<rparr> = cut_signer"
    using signature_of_body[of chunked_headers body] by (simp add: cut_signer_def demo_signer_of_def)
  moreover have "rq_Body (sign_request ?r) = body" by (simp add: sign_request_def demo_put_def)
  ultimately show ?thesis
    using Verify_sign_request[OF r, of "\<lambda>i. (i, i)"] h n sign_request_header(4)[of ?r]
    by (simp add: verifiedBody_def Let_def streaming_def unsignedTrl_def split: prod.splits)
qed


end
