(* ===== verification/S3_Typing.thy ===== *)
theory S3_Typing
  imports S3_Namespace
begin

text \<open>
  The manifests etcd holds are well formed, and every request keeps them so.  What a handler stores
  passes through a few requests to etcd; the locale \<open>kv_invariant\<close> carries any predicate on the store
  that puts of good values and deletions keep through all of them, and \<open>manifest_invariant\<close> extends it
  with what makes the manifests the coordinator writes, copies and assembles good.  Of a well-formed
  manifest the window of a part lies inside the object.
\<close>

section \<open>Predicates on the store\<close>

locale kv_invariant =
  fixes I :: "kvs \<Rightarrow> bool" and good_value :: "stored \<Rightarrow> bool"
  assumes put_kept: "I v \<Longrightarrow> good_value x \<Longrightarrow> I (kv_put v k x)"
    and drop_kept: "I v \<Longrightarrow> I (kv_drop v P)"
    and plain_values: "good_value (SString s)" "good_value (SUpload u)" "good_value (SCompletion co)"
begin

fun good_request :: "etcd_req \<Rightarrow> bool" where
  "good_request (EPut k x) = good_value x"
| "good_request (ETxn cs k x) = good_value x"
| "good_request q = True"

lemma apply_kept: "I v \<Longrightarrow> good_request q \<Longrightarrow> I (fst (etcd_apply v q))"
  by (cases q) (auto simp: put_kept drop_kept Let_def)

lemma unit_kept:
  assumes "etcd_client E view" "et_unit E s q = (s', r)" "I (view s)" "good_request q"
  shows "I (view s')"
  using etcd_client.et_unit_any[OF assms(1,2)] apply_kept[OF assms(3,4)] assms(3) by auto

lemma txn_kept:
  assumes "etcd_client E view" "et_txn E s (ETxn cs k x) = (s', r)" "I (view s)" "good_value x"
  shows "I (view s')"
proof (cases r)
  case (Inl e)
  then show ?thesis using etcd_client.et_txn_err[OF assms(1)] assms(2-4) put_kept by metis
next
  case (Inr b)
  then show ?thesis using etcd_client.et_txn_ok[OF assms(1)] assms(2-4) put_kept by metis
qed

lemma unit_kept_fst: "etcd_client E view \<Longrightarrow> I (view s) \<Longrightarrow> good_request q \<Longrightarrow> I (view (fst (et_unit E s q)))"
  by (metis unit_kept prod.collapse)

lemma stopWriting_kept: "etcd_client (sy_etcd X) view \<Longrightarrow> I (view (w_kv w)) \<Longrightarrow> I (view (w_kv (stopWriting X c w i)))"
  by (auto simp: stopWriting_def DoneWriting_def unit_kept_fst)

text \<open>What the coordinator does about deletions, uploads and listings.\<close>

lemma cluster_Delete_kept: "etcd_client (sy_etcd X) view \<Longrightarrow> cluster_Delete X c w key = (w', r) \<Longrightarrow>
    I (view (w_kv w)) \<Longrightarrow> I (view (w_kv w'))"
  using unit_kept_fst[of "sy_etcd X" view "w_kv w" "EDelete (meta_key (c_meta c) key)"]
  by (auto simp: cluster_Delete_def meta_Delete_def split: prod.splits)

lemma CreateUpload_kept: "etcd_client (sy_etcd X) view \<Longrightarrow> cluster_CreateUpload X c w i key ct md = (w', r) \<Longrightarrow>
    I (view (w_kv w)) \<Longrightarrow> I (view (w_kv w'))"
  using unit_kept[of "sy_etcd X" view "w_kv w"] plain_values(2)
  by (fastforce simp: cluster_CreateUpload_def CreateUpload_def split: prod.splits option.splits)

lemma AbortUpload_kept: "etcd_client (sy_etcd X) view \<Longrightarrow> AbortUpload X c w i = (w', r) \<Longrightarrow>
    I (view (w_kv w)) \<Longrightarrow> I (view (w_kv w'))"
proof -
  assume e: "etcd_client (sy_etcd X) view" and a: "AbortUpload X c w i = (w', r)" and w: "I (view (w_kv w))"
  obtain kv1 r1 where up: "meta_Upload (sy_etcd X) (c_meta c) (w_kv w) i = (kv1, r1)" by fastforce
  have "I (view kv1)" using etcd_client.meta_Upload_ok(1)[OF e up] w by simp
  then show ?thesis using a up unit_kept[OF e, of kv1]
    by (cases r1) (fastforce simp: AbortUpload_def DeleteUpload_def split: prod.splits)+
qed

lemma finish_kept:
  assumes "etcd_client E view" "I (view s)"
  shows "I (view (fst (DeleteUpload E M (fst (FinishUpload E M s i co)) i)))"
proof -
  obtain s1 r1 where g: "et_unit E s (EGrant CompletionMemory) = (s1, r1)" by fastforce
  have "I (view s1)" using unit_kept[OF assms(1) g assms(2)] by simp
  then have "I (view (fst (FinishUpload E M s i co)))"
    using g plain_values(3) by (cases r1) (auto simp: FinishUpload_def unit_kept_fst[OF assms(1)])
  then show ?thesis by (simp add: DeleteUpload_def unit_kept_fst[OF assms(1)])
qed

lemma commit_chunk_kept:
  assumes "etcd_client (sy_etcd X) view" "I (view (w_kv (ws_world st)))"
  shows "I (view (w_kv (ws_world (fst (commit_chunk X c live owners st ref data)))))"
proof -
  obtain st1 err where a: "announce X c st ref data = (st1, err)" by fastforce
  have "I (view (w_kv (ws_world st1)))"
    using a assms(2) unit_kept[OF assms(1), of "w_kv (ws_world st)"] plain_values(1)
    by (fastforce simp: announce_def Let_def MarkWriting_def split: if_splits prod.splits)
  then show ?thesis using a by (auto simp: commit_chunk_def split: option.splits prod.splits)
qed

lemma cluster_write_kept:
  assumes "etcd_client (sy_etcd X) view" "I (view (w_kv w))"
  shows "I (view (w_kv (fst (cluster_write X c w key body expect pre))))"
proof -
  let ?P = "\<lambda>st. I (view (w_kv (ws_world st)))"
  have "?P (fst (Write body (c_chunkSize c) expect pre (commit_chunk X c (c_live c) owners)
      \<lparr>ws_world = w, ws_writing = [], ws_hashed = []\<rparr>))" for owners
    by (rule Write_keeps[where P = ?P]) (simp_all add: commit_chunk_kept[OF assms(1)] assms(2))
  then show ?thesis
    by (auto simp: cluster_write_def Let_def assms(2) intro!: stopWriting_kept[OF assms(1)] split: prod.splits sum.splits)
      (metis fst_conv)+
qed

lemma commit_manifest_kept:
  assumes "etcd_client (sy_etcd X) view" "commit_manifest X c kv key m writing = (kv', r)" "I (view kv)" "good_value (SManifest m)"
  shows "I (view kv')"
  using assms(2) unit_kept[OF assms(1) _ assms(3)] txn_kept[OF assms(1) _ assms(3,4)] assms(4)
  by (fastforce simp: commit_manifest_def meta_Commit_def CommitWhileWriting_def whileWriting_def split: if_splits prod.splits sum.splits)

lemma commit_part_kept:
  assumes "etcd_client (sy_etcd X) view" "commit_part X c kv i n m writing = (kv', r)" "I (view kv)" "good_value (SManifest m)"
  shows "I (view kv')"
proof -
  have "I (view s')" if "et_txn (sy_etcd X) kv (ETxn cs k (SManifest m)) = (s, res)" "view s' = view s" for cs k s s' res
    using txn_kept[OF assms(1) that(1) assms(3,4)] that(2) by simp
  then show ?thesis
    using assms(2) etcd_client.meta_Upload_ok(1)[OF assms(1)]
    by (fastforce simp: commit_part_def CommitPart_def CommitPartWhileWriting_def split: if_splits prod.splits sum.splits)
qed

end

section \<open>Predicates on manifests\<close>

text \<open>
  What has to hold of a predicate on manifests for every request to keep it true of all that etcd
  holds: writes and completions establish it, and renaming an object keeps it.
\<close>

definition values_satisfy :: "(manifest \<Rightarrow> bool) \<Rightarrow> kvs \<Rightarrow> bool" where
  "values_satisfy P v \<longleftrightarrow> (\<forall>k d. kv_lookup v k = Some d \<longrightarrow> (\<forall>m. kd_Value d = SManifest m \<longrightarrow> P m))"

definition value_satisfies :: "(manifest \<Rightarrow> bool) \<Rightarrow> stored \<Rightarrow> bool" where
  "value_satisfies P x \<longleftrightarrow> (\<forall>m. x = SManifest m \<longrightarrow> P m)"

interpretation stored: kv_invariant "values_satisfy P" "value_satisfies P"
  by unfold_locales (auto simp: values_satisfy_def value_satisfies_def)

locale manifest_invariant =
  fixes P :: "manifest \<Rightarrow> bool"
  assumes written: "coord_wf c \<Longrightarrow> cluster_write (X :: 's sys) c w key body expect pre = (w', Inr (m, writing)) \<Longrightarrow> P m"
    and renamed: "P m \<Longrightarrow> P (m\<lparr>m_ETag := tag, m_Modified := t, m_ContentType := ct, m_Meta := md\<rparr>)"
    and blank: "P (zero_manifest\<lparr>m_ContentType := ct, m_Meta := md\<rparr>)"
    and joined: "\<forall>(n, m) \<in> set stored. P m \<Longrightarrow> ps \<noteq> [] \<Longrightarrow>
      complete_parts stored 0 None ps (zero_manifest\<lparr>m_ContentType := ct, m_Meta := md\<rparr>) [] = Inr (final, sums) \<Longrightarrow> P final"
begin

lemma decoded: "values_satisfy P v \<Longrightarrow> kv_lookup v k = Some d \<Longrightarrow> decode_manifest (kd_Value d) = Inr m \<Longrightarrow> P m"
  using blank by (cases "kd_Value d") (auto simp: values_satisfy_def)

lemma cluster_Put_kept:
  fixes X :: "'s sys"
  assumes "etcd_client (sy_etcd X) view" "coord_wf c" "cluster_Put X c w key body opts pre = (w', r)"
    "values_satisfy P (view (w_kv w))"
  shows "values_satisfy P (view (w_kv w'))"
proof -
  obtain w1 res where wr: "cluster_write X c w key body (po_Size opts) pre = (w1, res)" by fastforce
  have w1: "values_satisfy P (view (w_kv w1))"
    using stored.cluster_write_kept[OF assms(1,4)] wr by (metis fst_conv)
  show ?thesis
  proof (cases res)
    case (Inl e)
    then show ?thesis using assms(3) wr w1 by (simp add: cluster_Put_def)
  next
    case (Inr mw)
    obtain m0 writing where mw: "mw = (m0, writing)" by (cases mw)
    let ?m = "m0\<lparr>m_ETag := cmp_Or (po_ETag opts) (m_ETag m0), m_ContentType := po_ContentType opts, m_Meta := po_Meta opts\<rparr>"
    have "P m0" using written[OF assms(2)] wr Inr mw by blast
    then have m: "value_satisfies P (SManifest ?m)"
      using renamed[of m0, where t = "m_Modified m0"] by (simp add: value_satisfies_def)
    obtain kv' err where com: "commit_manifest X c (w_kv w1) key ?m writing = (kv', err)" by fastforce
    have "values_satisfy P (view kv')" by (rule stored.commit_manifest_kept[OF assms(1) com w1 m])
    then show ?thesis
      using assms(3) wr Inr mw com w1
      by (auto simp: cluster_Put_def Let_def intro!: stored.stopWriting_kept[OF assms(1)] split: option.splits)
  qed
qed

lemma cluster_Copy_kept:
  assumes "etcd_client (sy_etcd X) view" "cluster_Copy X c w frm key opts = (w', r)" "values_satisfy P (view (w_kv w))"
  shows "values_satisfy P (view (w_kv w'))"
proof -
  obtain kv1 g where get: "meta_Get (sy_etcd X) (c_meta c) (w_kv w) frm = (kv1, g)" by fastforce
  have kv1: "values_satisfy P (view kv1)" using etcd_client.meta_Get_view[OF assms(1) get] assms(3) by simp
  show ?thesis
  proof (cases g)
    case (Inr m)
    have "committed (c_meta c) (view (w_kv w)) frm = Some m"
      using etcd_client.meta_Get_ok[OF assms(1)] get Inr by blast
    then have "P m" using decoded[OF assms(3)] by (auto simp: committed_def split: option.splits sum.splits)
    then have "P (m\<lparr>m_Modified := t\<rparr>)" "P (m\<lparr>m_Modified := t, m_ContentType := ct, m_Meta := md\<rparr>)" for t ct md
      using renamed[of m, where tag = "m_ETag m" and t = t and ct = "m_ContentType m" and md = "m_Meta m"]
        renamed[of m, where tag = "m_ETag m" and t = t and ct = ct and md = md] by simp_all
    then show ?thesis
      using assms(2) get Inr stored.unit_kept[OF assms(1) _ kv1]
      by (fastforce simp: cluster_Copy_def meta_Commit_def Let_def value_satisfies_def split: if_splits prod.splits option.splits)
  qed (use assms(2) get kv1 in \<open>auto simp: cluster_Copy_def\<close>)
qed

lemma UploadPart_kept:
  fixes X :: "'s sys"
  assumes "etcd_client (sy_etcd X) view" "coord_wf c" "UploadPart X c w i number body opts pre = (w', r)"
    "values_satisfy P (view (w_kv w))"
  shows "values_satisfy P (view (w_kv w'))"
proof -
  obtain kv1 r1 where up: "meta_Upload (sy_etcd X) (c_meta c) (w_kv w) i = (kv1, r1)" by fastforce
  have kv1: "values_satisfy P (view kv1)" using etcd_client.meta_Upload_ok(1)[OF assms(1) up] assms(4) by simp
  show ?thesis
  proof (cases "number < 1 \<or> number > MaxParts \<or> (\<exists>e. r1 = Inl e)")
    case True
    then show ?thesis using assms(3,4) up kv1 by (auto simp: UploadPart_def split: if_splits)
  next
    case False
    then obtain u where u: "r1 = Inr u" by (cases r1) auto
    obtain w1 r2 where wr: "cluster_write X c (w\<lparr>w_kv := kv1\<rparr>) (up_Key u) body (po_Size opts) pre = (w1, r2)" by fastforce
    have w1: "values_satisfy P (view (w_kv w1))"
      using stored.cluster_write_kept[OF assms(1), of P "w\<lparr>w_kv := kv1\<rparr>"] kv1 wr by (metis fst_conv world.select_convs(2) world.surjective world.update_convs(2))
    show ?thesis
    proof (cases r2)
      case (Inl e)
      then show ?thesis using assms(3) False up u wr w1 by (simp add: UploadPart_def)
    next
      case (Inr mw)
      obtain m writing where mw: "mw = (m, writing)" by (cases mw)
      have m: "value_satisfies P (SManifest m)" using written[OF assms(2)] wr Inr mw by (auto simp: value_satisfies_def)
      obtain kv2 r3 where cp: "commit_part X c (w_kv w1) i number m writing = (kv2, r3)" by fastforce
      have "values_satisfy P (view kv2)" by (rule stored.commit_part_kept[OF assms(1) cp w1 m])
      then show ?thesis
        using assms(3) False up u wr w1 Inr mw cp
        by (auto simp: UploadPart_def Let_def intro!: stored.stopWriting_kept[OF assms(1)] split: option.splits)
    qed
  qed
qed

lemma parts_satisfy:
  assumes "values_satisfy P v"
  shows "\<forall>(n, m) \<in> set (parts_at M v i). P m"
proof -
  let ?kv = "kv_select v (\<lambda>x. HasPrefix x (uploadPrefix M i @ ''parts/''))"
  have one: "P m" if "decode_part (k, d) = Inr (n, m)" "kv_lookup v k = Some d" for k d n m
    using that decoded[OF assms] by (auto split: option.splits sum.splits)
  have dec: "decode_all decode_part kv = Inr ps \<Longrightarrow> \<forall>(k, d) \<in> set kv. kv_lookup v k = Some d \<Longrightarrow> \<forall>(n, m) \<in> set ps. P m" for kv ps
    by (induction kv arbitrary: ps) (auto split: sum.splits simp del: decode_part.simps dest: one)
  have upd: "\<forall>(n, m) \<in> set (foldl (\<lambda>acc (n, m). AList.update n m acc) acc ps). P m"
    if "\<forall>(n, m) \<in> set ps. P m" "\<forall>(n, m) \<in> set acc. P m" for ps acc
    using that
  proof (induction ps arbitrary: acc)
    case (Cons p ps)
    obtain n m where p: "p = (n, m)" by (cases p)
    have "\<forall>(n', m') \<in> set (AList.update n m acc). P m'"
      using Cons.prems p by (induction acc) (auto split: if_splits)
    then show ?case using Cons p by simp
  qed simp
  have sel: "\<forall>(k, d) \<in> set ?kv. kv_lookup v k = Some d" by (auto simp: set_kv_select)
  show ?thesis
  proof (cases "decode_all decode_part ?kv")
    case (Inr ps)
    show ?thesis using upd[OF dec[OF Inr sel], of "[]"] Inr by (simp add: parts_at_def)
  qed (simp add: parts_at_def)
qed

lemma CompleteUpload_kept:
  assumes "etcd_client (sy_etcd X) view" "CompleteUpload X c w i ps c32c c64 c32 = (w', r)" "values_satisfy P (view (w_kv w))"
  shows "values_satisfy P (view (w_kv w'))"
proof -
  let ?E = "sy_etcd X" and ?M = "c_meta c"
  obtain kv1 r1 where up: "meta_Upload ?E ?M (w_kv w) i = (kv1, r1)" by fastforce
  note v1 = etcd_client.meta_Upload_ok(1)[OF assms(1) up]
  show ?thesis
  proof (cases r1)
    case (Inl e)
    obtain kv2 r2 where "meta_Completion ?E ?M kv1 i = (kv2, r2)" by fastforce
    then show ?thesis using assms(2,3) up Inl v1 etcd_client.meta_Completion_view[OF assms(1)]
      by (auto simp: CompleteUpload_def Let_def split: if_splits sum.splits)
  next
    case (Inr u)
    obtain kv2 r2 where pa: "Parts ?E ?M kv1 i = (kv2, r2)" by fastforce
    note v2 = etcd_client.Parts_ok[OF assms(1) pa]
    have kv2: "values_satisfy P (view kv2)" using v1 v2(1) assms(3) by simp
    show ?thesis
    proof (cases "\<exists>stored m. r2 = Inr stored \<and> assemble u stored (ev_now (sy_env X)) ps c32c c64 c32 = Inr m")
      case True
      then obtain stored m where sm: "r2 = Inr stored" "assemble u stored (ev_now (sy_env X)) ps c32c c64 c32 = Inr m" by blast
      have "stored = parts_at ?M (view kv1) i" using v2(2) sm(1) by blast
      then have "\<forall>(n, m) \<in> set stored. P m" using parts_satisfy assms(3) v1 by simp
      moreover obtain final sums where "ps \<noteq> []"
          "complete_parts stored 0 None ps (zero_manifest\<lparr>m_ContentType := up_ContentType u, m_Meta := up_Meta u\<rparr>) [] = Inr (final, sums)"
        and f: "m = final\<lparr>m_ETag := hex_encode (md5 sums) @ ''-'' @ fmt_d (length ps), m_Modified := truncate_second (ev_now (sy_env X))\<rparr>"
        by (rule assemble_ok[OF sm(2)])
      ultimately have "P final" using joined by blast
      then have "value_satisfies P (SManifest m)"
        using renamed[of final, where ct = "m_ContentType final" and md = "m_Meta final"] f by (simp add: value_satisfies_def)
      moreover obtain kv3 err where com: "meta_Commit ?E ?M kv2 (up_Key u) m = (kv3, err)" by fastforce
      ultimately have kv3: "values_satisfy P (view kv3)"
        using stored.unit_kept[OF assms(1) _ kv2] by (auto simp: meta_Commit_def)
      from stored.finish_kept[OF assms(1) this] kv3 show ?thesis
        using assms(2) up Inr pa sm com by (cases err) (auto simp: CompleteUpload_def Let_def)
    next
      case False
      then show ?thesis using assms(2) up Inr pa kv2
        by (auto simp: CompleteUpload_def Let_def split: sum.splits)
    qed
  qed
qed

text \<open>Handlers.\<close>

lemma CopyPart_kept:
  fixes X :: "'s sys"
  shows "etcd_client (sy_etcd X) view \<Longrightarrow> coord_wf c \<Longrightarrow> CopyPart X c bs w i n src off len opts pre = (w', r) \<Longrightarrow>
    values_satisfy P (view (w_kv w)) \<Longrightarrow> values_satisfy P (view (w_kv w'))"
  by (auto simp: CopyPart_def dest: UploadPart_kept split: prod.splits)

lemma copyObject_kept:
  assumes "etcd_client (sy_etcd (gw_sys G)) view" "values_satisfy P (view (w_kv w))"
  shows "values_satisfy P (view (w_kv (fst (copyObject G r w key src))))"
proof -
  have copy: "values_satisfy P (view (w_kv (fst (case cluster_Copy (gw_sys G) (gw_cluster G) w1 frm key opts of
      (w2, Inl e) \<Rightarrow> (w2, fl e) | (w2, Inr m) \<Rightarrow> (w2, ok m)))))"
    if "view (w_kv w1) = view (w_kv w)" for w1 frm opts fl ok
    using cluster_Copy_kept[OF assms(1), of "gw_cluster G" w1 frm key opts] that assms(2) by (auto split: prod.splits sum.splits)
  show ?thesis
  proof (cases "copySource src")
    case (Some frm)
    obtain w1 res where rs: "Resolve (gw_sys G) (gw_cluster G) w frm = (w1, res)" by fastforce
    note v = Resolve_view(1)[OF assms(1) rs]
    show ?thesis
      by (cases "storedMeta (rq_Header r)"; cases "frm = key"; cases res)
        (use rs in \<open>simp_all add: copyObject_def Let_def Some v assms(2) copy\<close>)
  qed (simp add: copyObject_def Let_def assms(2))
qed

lemma putObject_kept:
  fixes G :: "'s gateway"
  assumes "etcd_client (sy_etcd (gw_sys G)) view" "coord_wf (gw_cluster G)" "values_satisfy P (view (w_kv w))"
  shows "values_satisfy P (view (w_kv (fst (putObject G r w))))"
proof -
  note res = Resolve_view(1)[OF assms(1)]
  have "values_satisfy P (view (w_kv (fst (put_body G r w key))))" for key
    by (auto simp: put_body_def Let_def assms(3) dest: cluster_Put_kept[OF assms(1,2) _ assms(3)] split: prod.splits sum.splits)
  moreover note copyObject_kept[OF assms(1,3)]
  moreover have "values_satisfy P (view (w_kv (fst (copyPart G r w i n src))))" for i n src
    using assms(3) res
    by (auto simp: copyPart_def Let_def dest!: CopyPart_kept[OF assms(1,2)] split: prod.splits sum.splits option.splits)
  then have "values_satisfy P (view (w_kv (fst (uploadPart G r w i))))" for i
    by (auto simp: uploadPart_def Let_def assms(3) dest: UploadPart_kept[OF assms(1,2) _ assms(3)] split: prod.splits sum.splits option.splits)
  ultimately show ?thesis using assms(3) by (auto simp: putObject_def split: option.splits)
qed

lemma postBucket_kept:
  assumes "etcd_client (sy_etcd (gw_sys G)) view" "values_satisfy P (view (w_kv w))"
  shows "values_satisfy P (view (w_kv (fst (postBucket G r w))))"
proof -
  have one: "values_satisfy P (view (w_kv (fst (delete_one G bucket quiet key a))))" if "values_satisfy P (view (w_kv (fst a)))" for bucket quiet key a
    using that by (auto simp: delete_one_def dest: stored.cluster_Delete_kept[OF assms(1)] split: prod.splits option.splits)
  have "values_satisfy P (view (w_kv (fst (fold (delete_one G bucket quiet) keys a))))" if "values_satisfy P (view (w_kv (fst a)))" for bucket quiet keys a
    using that by (induction keys arbitrary: a) (auto simp: one)
  note this[of "(w, [], [])", simplified, OF assms(2)]
  then show ?thesis using assms(2)
    by (auto simp: postBucket_def deleteObjects_def Let_def split: option.splits sum.splits prod.splits) (metis fst_conv)
qed

lemma postObject_kept:
  assumes "etcd_client (sy_etcd (gw_sys G)) view" "values_satisfy P (view (w_kv w))"
  shows "values_satisfy P (view (w_kv (fst (postObject G r w))))"
proof -
  have "values_satisfy P (view (w_kv (fst (createUpload G r w key))))" for key
    using assms(2) by (auto simp: createUpload_def Let_def dest: stored.CreateUpload_kept[OF assms(1)] split: prod.splits sum.splits)
  moreover have "values_satisfy P (view (w_kv (fst (completeUpload G r w key i))))" for key i
    using assms(2)
    by (auto simp: completeUpload_def Let_def dest: CompleteUpload_kept[OF assms(1) _ assms(2)] split: prod.splits sum.splits option.splits)
  ultimately show ?thesis using assms(2) postBucket_kept[OF assms] by (auto simp: postObject_def split: option.splits)
qed

lemma routed_kept:
  fixes G :: "'s gateway"
  assumes "etcd_client (sy_etcd (gw_sys G)) view" "coord_wf (gw_cluster G)" "values_satisfy P (view (w_kv w))"
    "s3_route method t G r w = Some (w', out)"
  shows "values_satisfy P (view (w_kv w'))"
proof -
  have keep: "values_satisfy P (view (w_kv w'))" if "view (w_kv w') = view (w_kv w)" using that assms(3) by simp
  have "values_satisfy P (view (w_kv (fst (abortUpload G r w i))))" for i
    using assms(3) by (auto simp: abortUpload_def dest: stored.AbortUpload_kept[OF assms(1)] split: prod.splits option.splits)
  moreover have "values_satisfy P (view (w_kv (fst (delete_object G r w key))))" for key
    using assms(3) by (auto simp: delete_object_def dest: stored.cluster_Delete_kept[OF assms(1)] split: prod.splits option.splits)
  ultimately have "deleteObject G r w = Some (w', out) \<Longrightarrow> values_satisfy P (view (w_kv w'))"
    using listings_keep(3)[OF assms(1), of r w] keep
    by (auto simp: deleteObject_def answered_def answered_if_def split: option.splits if_splits)
  moreover have "getObject G r w = Some (w', out) \<Longrightarrow> values_satisfy P (view (w_kv w'))"
    "listObjects G r w = Some (w', out) \<Longrightarrow> values_satisfy P (view (w_kv w'))"
    using getObject_keeps[OF assms(1)] listObjects_keeps[OF assms(1)] keep by blast+
  moreover have "answered_if (deleteBucket G r w) = Some (w', out) \<Longrightarrow> values_satisfy P (view (w_kv w'))"
    "answered_if (listBuckets G r w) = Some (w', out) \<Longrightarrow> values_satisfy P (view (w_kv w'))"
    using listings_keep(3,4)[OF assms(1), of r w] keep by (auto simp: answered_if_def answered_def split: option.splits)
  ultimately show ?thesis
    using assms(3,4) putObject_kept[OF assms(1-3), of r] postObject_kept[OF assms(1,3), of r] postBucket_kept[OF assms(1,3), of r]
    by (cases t) (auto simp: s3_route_def answered_def headBucket_def unsupported_def createBucket_def split: if_splits option.splits)
qed

lemma serve_kept:
  fixes G :: "'s gateway"
  assumes "etcd_client (sy_etcd (gw_sys G)) view" "coord_wf (gw_cluster G)" "values_satisfy P (view (w_kv w))"
    "serve G t r w = Some (w', out)"
  shows "values_satisfy P (view (w_kv w'))"
proof (cases "sigv4_Verify (gl_time (gw_lib G)) (gw_ks G) (gw_creds G) (ev_now (sy_env (gw_sys G))) r")
  case (Inl e)
  then show ?thesis using assms(3,4) by (auto simp: serve_def authed_def answered_def)
next
  case (Inr r')
  show ?thesis
    by (rule authed_cases[OF assms(4)[unfolded serve_def] Inr]) (use assms(3) routed_kept[OF assms(1-3)] in auto)
qed

end

section \<open>Well-formed manifests\<close>

definition manifest_wf :: "manifest \<Rightarrow> bool" where
  "manifest_wf m \<longleftrightarrow> (\<forall>ref \<in> set (m_Chunks m). 0 \<le> cr_Size ref) \<and> m_Size m = sum_list (map cr_Size (m_Chunks m)) \<and>
     (\<forall>p \<in> set (m_Parts m). 0 \<le> pt_Size p) \<and> (m_Parts m \<noteq> [] \<longrightarrow> m_Size m = sum_list (map pt_Size (m_Parts m))) \<and>
     distinct (m_Nodes m)"

lemma manifest_wf_size: "manifest_wf m \<Longrightarrow> 0 \<le> m_Size m"
  by (simp add: manifest_wf_def) (metis (no_types, lifting) imageE list.set_map sum_list_nonneg)

lemma place_chunk_size: "place_chunk X c live owners ref data D = (D', Inr ref') \<Longrightarrow> cr_Size ref' = cr_Size ref"
  by (auto simp: place_chunk_def cluster_encode_def Let_def split: if_splits prod.splits sum.splits option.splits)

lemma commit_chunk_size: "commit_chunk X c live owners st ref data = (st', Inr ref') \<Longrightarrow> cr_Size ref' = cr_Size ref"
  by (auto simp: commit_chunk_def dest: place_chunk_size split: option.splits prod.splits)

lemma commit_all_sizes:
  "commit_all pre (commit_chunk X c live owners) i m ds st = (st', Inr m') \<Longrightarrow>
    m_Size m = sum_list (map cr_Size (m_Chunks m)) \<Longrightarrow> \<forall>ref \<in> set (m_Chunks m). 0 \<le> cr_Size ref \<Longrightarrow>
    m_Size m' = sum_list (map cr_Size (m_Chunks m')) \<and> (\<forall>ref \<in> set (m_Chunks m'). 0 \<le> cr_Size ref) \<and> m_Parts m' = m_Parts m"
proof (induction ds arbitrary: i m st)
  case (Cons d ds)
  obtain st1 res where cc: "commit_chunk X c live owners st (new_ref pre i d) d = (st1, res)" by fastforce
  with Cons.prems(1) obtain ref where res: "res = Inr ref" by (cases res) auto
  have "cr_Size ref = int (length d)" using commit_chunk_size[OF cc[unfolded res]] by (simp add: new_ref_def)
  then show ?case using Cons.IH[of "i + 1" "m\<lparr>m_Chunks := m_Chunks m @ [ref], m_Size := m_Size m + cr_Size ref\<rparr>" st1] Cons.prems cc res
    by auto
qed simp

lemma cluster_write_wf:
  assumes "coord_wf c" "cluster_write X c w key body expect pre = (w', Inr (m, writing))"
  shows "manifest_wf m"
proof -
  let ?owners = "Owners (mb_ring (c_live c)) (PartitionFor key) (width c)"
  let ?commit = "commit_chunk X c (c_live c) ?owners"
  obtain st mw where run: "Write body (c_chunkSize c) expect pre ?commit \<lparr>ws_world = w, ws_writing = [], ws_hashed = []\<rparr> = (st, Inr mw)"
    and m: "m_Chunks m = m_Chunks mw" "m_Size m = m_Size mw" "m_Parts m = m_Parts mw" "m_Nodes m = ?owners"
    using assms(2) by (auto simp: cluster_write_def Let_def split: if_splits prod.splits sum.splits)
  have "0 < c_chunkSize c" using run by (auto simp: Write_def split: if_splits)
  then obtain ds where "commit_all pre ?commit 0 zero_manifest ds \<lparr>ws_world = w, ws_writing = [], ws_hashed = []\<rparr> = (st, Inr mw)"
    using run unfolding Write_chunks_spec[OF \<open>0 < c_chunkSize c\<close>] by (auto split: prod.splits sum.splits option.splits)
  note sizes = commit_all_sizes[OF this]
  show ?thesis using sizes m assms(1) by (simp add: manifest_wf_def zero_manifest_def distinct_Owners)
qed

lemma complete_parts_wf:
  assumes "\<forall>(n, m) \<in> set stored. manifest_wf m"
  shows "complete_parts stored i prev ps final sums = Inr (m, sums') \<Longrightarrow>
    (\<forall>ref \<in> set (m_Chunks final). 0 \<le> cr_Size ref) \<Longrightarrow> m_Size final = sum_list (map cr_Size (m_Chunks final)) \<Longrightarrow>
    (\<forall>p \<in> set (m_Parts final). 0 \<le> pt_Size p) \<Longrightarrow> m_Size final = sum_list (map pt_Size (m_Parts final)) \<Longrightarrow>
    distinct (m_Nodes final) \<Longrightarrow> manifest_wf m"
proof (induction ps arbitrary: i prev final sums)
  case (Cons p ps)
  obtain mp raw where mp: "map_of stored (cq_Number p) = Some mp"
    and rest: "complete_parts stored (Suc i) (Some (cq_Number p)) ps (add_part i (cq_Number p) mp final) (sums @ raw) = Inr (m, sums')"
    using Cons.prems(1) by (auto simp: Let_def split: if_splits option.splits)
  have wf: "manifest_wf mp" using assms map_of_SomeD[OF mp] by auto
  have nonneg: "0 \<le> m_Size mp" using wf by (rule manifest_wf_size)
  show ?case
    by (rule Cons.IH[OF rest]) (use wf nonneg Cons.prems in \<open>auto simp: add_part_def manifest_wf_def\<close>)
qed (simp add: manifest_wf_def)

interpretation wf: manifest_invariant manifest_wf
proof (unfold_locales, goal_cases)
  case (1 c X w key body expect pre w' m writing)
  then show ?case by (rule cluster_write_wf)
next
  case (2 m tag t ct md)
  then show ?case by (auto simp: manifest_wf_def)
next
  case (3 ct md)
  show ?case by (simp add: manifest_wf_def zero_manifest_def)
next
  case (4 stored ps ct md final sums)
  then show ?case by (auto simp: zero_manifest_def intro: complete_parts_wf)
qed


text \<open>What well-formedness buys the readers: the window of a part lies inside the object.\<close>

lemma part_loop_inside:
  "part_loop n off ps = Some (a, b, p) \<Longrightarrow> (\<forall>q \<in> set ps. 0 \<le> pt_Size q) \<Longrightarrow> 0 \<le> off \<Longrightarrow>
    off + sum_list (map pt_Size ps) \<le> T \<Longrightarrow> in_i64 T \<Longrightarrow> 0 \<le> a \<and> 0 \<le> b \<and> a + b \<le> T"
proof (induction ps arbitrary: off)
  case (Cons q ps)
  have tail: "0 \<le> sum_list (map pt_Size ps)" using Cons.prems(2) by (auto intro!: sum_list_nonneg)
  then have "in_i64 (off + pt_Size q)" using Cons.prems by (auto simp: in_i64_def)
  then have "i64 (off + pt_Size q) = off + pt_Size q" by (rule i64_id)
  then show ?case using Cons.IH[of "off + pt_Size q"] Cons.prems tail by (auto split: if_splits)
qed simp

lemma partWindow_inside:
  assumes "manifest_wf m" "in_i64 (m_Size m)" "partWindow m n = Some (a, b, p, multi)"
  shows "0 \<le> a \<and> 0 \<le> b \<and> a + b \<le> m_Size m"
proof (cases "m_Parts m = []")
  case True
  then show ?thesis using assms manifest_wf_size[OF assms(1)] by (auto simp: partWindow_def split: if_splits)
next
  case False
  then obtain q where "part_loop n 0 (m_Parts m) = Some (a, b, q)" using assms(3) by (auto simp: partWindow_def)
  from part_loop_inside[OF this, of "m_Size m"] False assms(1,2) show ?thesis by (auto simp: manifest_wf_def)
qed

end
