(* ===== verification/GoFloat.thy ===== *)
theory GoFloat
  imports Kavo_Prelude Complex_Main "HOL-Library.Log_Nat"
begin

text \<open>
  Go's \<^verbatim>\<open>float64\<close> as far as the sources use it: durations and byte rates, whose values stay far inside
  the range of normal numbers.  A float is the rational it stands for, and an operation is the exact
  one rounded to the nearest multiple of the unit in the last place, ties to even.  The lemmas bound
  what rounding can change.
\<close>

section \<open>Rounding\<close>

definition round_even :: "rat \<Rightarrow> int" where
  "round_even x =
     (let n = \<lfloor>x\<rfloor>; f = x - of_int n
      in if f < 1 / 2 then n else if 1 / 2 < f then n + 1 else if 2 dvd n then n else n + 1)"

text \<open>The exponent of a positive number: \<open>2 ^ ilog2 x \<le> x < 2 ^ (ilog2 x + 1)\<close>.\<close>

definition ilog2 :: "rat \<Rightarrow> int" where
  "ilog2 x = (case quotient_of x of (a, b) \<Rightarrow>
     (let k = bitlen a - bitlen b in if power_int 2 k \<le> x then k else k - 1))"

definition round_pos :: "rat \<Rightarrow> rat" where
  "round_pos x = (let e = ilog2 x - 52 in of_int (round_even (x / power_int 2 e)) * power_int 2 e)"

definition float64 :: "rat \<Rightarrow> rat" where
  "float64 x = (if x = 0 then 0 else if 0 < x then round_pos x else - round_pos (- x))"

text \<open>
  Conversion to \<^verbatim>\<open>int64\<close> drops the fraction; outside its range the language leaves the result to the
  implementation, which is the argument \<open>oob\<close>.
\<close>

definition int64_of :: "int \<Rightarrow> rat \<Rightarrow> int" where
  "int64_of oob x = (let t = (if 0 \<le> x then \<lfloor>x\<rfloor> else \<lceil>x\<rceil>) in if in_i64 t then t else oob)"

section \<open>What rounding changes\<close>

definition unit_roundoff :: rat where
  "unit_roundoff = 1 / 2 ^ 53"

lemma unit_roundoff_pos [simp]: "0 < unit_roundoff" "0 \<le> unit_roundoff"
  by (simp_all add: unit_roundoff_def)

lemma round_even_near: "\<bar>of_int (round_even x) - x\<bar> \<le> 1 / 2"
proof -
  have "of_int \<lfloor>x\<rfloor> \<le> x" "x < of_int \<lfloor>x\<rfloor> + 1" using floor_correct[of x] by simp_all
  then show ?thesis by (auto simp: round_even_def Let_def)
qed

lemma bitlen_power_bounds:
  assumes "0 < a"
  shows "power_int 2 (bitlen a - 1) \<le> (of_int a :: rat)" "of_int a < power_int (2 :: rat) (bitlen a)"
proof -
  have "1 \<le> bitlen a" using assms bitlen_nonneg[of a] bitlen_eq_zero_iff[of a] by linarith
  moreover have "2 ^ nat (bitlen a - 1) \<le> a" "a < 2 ^ nat (bitlen a)" using bitlen_bounds[OF assms] by auto
  then have "of_int (2 ^ nat (bitlen a - 1)) \<le> (of_int a :: rat)" "of_int a < (of_int (2 ^ nat (bitlen a)) :: rat)"
    unfolding of_int_le_iff of_int_less_iff .
  ultimately show "power_int 2 (bitlen a - 1) \<le> (of_int a :: rat)" "of_int a < power_int (2 :: rat) (bitlen a)"
    by (simp_all add: power_int_def)
qed

lemma ilog2_bounds:
  assumes "0 < x"
  shows "power_int 2 (ilog2 x) \<le> x" "x < power_int 2 (ilog2 x + 1)"
proof -
  obtain a b where q: "quotient_of x = (a, b)" by fastforce
  have b: "0 < b" using quotient_of_denom_pos[OF q] .
  have x: "x = of_int a / of_int b" using quotient_of_div[OF q] .
  have a: "0 < a" using assms b unfolding x by (simp add: zero_less_divide_iff)
  let ?k = "bitlen a - bitlen b"
  note A = bitlen_power_bounds[OF a] and B = bitlen_power_bounds[OF b]
  have pos: "0 < (of_int b :: rat)" using b by simp
  have "x < power_int 2 (bitlen a) / power_int 2 (bitlen b - 1)"
    unfolding x by (rule frac_less) (use A B a pos in auto)
  then have hi: "x < power_int 2 (?k + 1)" by (simp add: power_int_diff power_int_add algebra_simps)
  have "power_int 2 (bitlen a - 1) / power_int 2 (bitlen b) \<le> x"
    unfolding x by (rule frac_le) (use A B a pos in auto)
  then have lo: "power_int 2 (?k - 1) \<le> x" by (simp add: power_int_diff)
  show "power_int 2 (ilog2 x) \<le> x" "x < power_int 2 (ilog2 x + 1)"
    using hi lo by (auto simp: ilog2_def q Let_def)
qed

lemma round_pos_near:
  assumes "0 < x"
  shows "\<bar>round_pos x - x\<bar> \<le> x * unit_roundoff"
proof -
  let ?e = "ilog2 x - 52" and ?u = "power_int 2 (ilog2 x - 52) :: rat"
  have u: "0 < ?u" by simp
  have "round_pos x - x = (of_int (round_even (x / ?u)) - x / ?u) * ?u"
    using u by (simp add: round_pos_def Let_def field_simps)
  then have "\<bar>round_pos x - x\<bar> = \<bar>of_int (round_even (x / ?u)) - x / ?u\<bar> * ?u"
    using u by (simp add: abs_mult)
  also have "\<dots> \<le> 1 / 2 * ?u" by (rule mult_right_mono[OF round_even_near]) (use u in simp)
  also have "\<dots> \<le> x * unit_roundoff"
  proof -
    have "?u = power_int 2 (ilog2 x) / 2 ^ 52" by (simp add: power_int_diff)
    then show ?thesis using ilog2_bounds(1)[OF assms] by (simp add: unit_roundoff_def)
  qed
  finally show ?thesis .
qed

lemma float64_near:
  assumes "0 \<le> x"
  shows "x * (1 - unit_roundoff) \<le> float64 x" "float64 x \<le> x * (1 + unit_roundoff)" "0 \<le> float64 x"
proof -
  have r: "x * (1 - unit_roundoff) \<le> float64 x \<and> float64 x \<le> x * (1 + unit_roundoff)"
    using assms round_pos_near[of x] by (auto simp: float64_def algebra_simps abs_le_iff)
  moreover have "0 \<le> x * (1 - unit_roundoff)" using assms by (simp add: unit_roundoff_def)
  ultimately show "x * (1 - unit_roundoff) \<le> float64 x" "float64 x \<le> x * (1 + unit_roundoff)" "0 \<le> float64 x"
    by auto
qed

lemma float64_pos: "0 < x \<Longrightarrow> 0 < float64 x"
  using float64_near(1)[of x] by (simp add: unit_roundoff_def)

lemma int64_of_floor: "0 \<le> x \<Longrightarrow> x < 2 ^ 63 \<Longrightarrow> int64_of oob x = \<lfloor>x\<rfloor>"
  by (simp add: int64_of_def Let_def in_i64_def floor_less_iff)

section \<open>Durations\<close>

text \<open>A \<^verbatim>\<open>time.Duration\<close> is a number of nanoseconds.\<close>

definition Second :: int where
  "Second = 1000000000"

definition Duration_Seconds :: "int \<Rightarrow> rat" where
  "Duration_Seconds d = float64 (of_int (d div Second) + float64 (of_int (d mod Second) / of_int Second))"

end
