(* ===== verification/Loops.thy ===== *)
theory Loops
  imports Multipart GoFloat
begin

text \<open>
  The background of a node: the loops that run the passes until the context ends, and the pacer that
  holds what the passes move to a byte rate (\<^verbatim>\<open>RepairLoop\<close>, \<^verbatim>\<open>RebalanceLoop\<close>, \<^verbatim>\<open>ScrubLoop\<close>, \<^verbatim>\<open>CollectLoop\<close>
  and \<^verbatim>\<open>pacer\<close> of \<^verbatim>\<open>internal/cluster\<close>).  No error ends a loop, the successive passes of the collector
  take every slice of the id space in turn, and the pacer keeps its rate up to the rounding of its
  floating-point division.
\<close>

section \<open>The loops\<close>

text \<open>
  One turn of a loop: the surroundings and the coordinator as they are when the pass runs, a bound on
  the pages it reads, whether the context has ended when a call returns or when the pause does, and
  what the rest of the cluster does to the world until the next turn.
\<close>

record 's turn =
  tn_sys :: "'s sys"
  tn_coord :: coord
  tn_fuel :: nat
  tn_expired :: bool
  tn_passed :: bool
  tn_paused :: bool
  tn_meanwhile :: "'s world \<Rightarrow> 's world"

text \<open>A loop over the turns it is given: the world and whether it has returned, \<open>None\<close> if a bound was too small.\<close>

fun pass_loop ::
  "('s turn \<Rightarrow> 's world \<Rightarrow> ('s world \<times> bool) option) \<Rightarrow> 's turn list \<Rightarrow> 's world \<Rightarrow> ('s world \<times> bool) option" where
  "pass_loop body [] w = Some (w, False)"
| "pass_loop body (t # ts) w = (case body t w of
      None \<Rightarrow> None
    | Some (w1, True) \<Rightarrow> Some (w1, True)
    | Some (w1, False) \<Rightarrow> if tn_paused t then Some (w1, True) else pass_loop body ts (tn_meanwhile t w1))"

definition RepairLoop :: "'s turn list \<Rightarrow> 's world \<Rightarrow> ('s world \<times> bool) option" where
  "RepairLoop = pass_loop (\<lambda>t w. case cluster_Repair (tn_fuel t) (tn_sys t) (tn_coord t) w of
      None \<Rightarrow> None | Some (w1, st, err) \<Rightarrow> Some (w1, tn_passed t))"

definition RebalanceLoop :: "'s turn list \<Rightarrow> 's world \<Rightarrow> ('s world \<times> bool) option" where
  "RebalanceLoop = pass_loop (\<lambda>t w. case cluster_Rebalance (tn_fuel t) (tn_sys t) (tn_coord t) w of
      None \<Rightarrow> None | Some (w1, st, err) \<Rightarrow> Some (w1, tn_passed t))"

definition ScrubLoop :: "'s turn list \<Rightarrow> 's world \<Rightarrow> ('s world \<times> bool) option" where
  "ScrubLoop = pass_loop (\<lambda>t w. case cluster_Scrub (tn_fuel t) (tn_sys t) (tn_coord t) w of
      None \<Rightarrow> None | Some (w1, st, err) \<Rightarrow> Some (w1, tn_passed t))"

definition collect_turn :: "int \<Rightarrow> 's turn \<Rightarrow> 's world \<Rightarrow> ('s world \<times> bool) option" where
  "collect_turn grace t w = (case cluster_ExpireUploads (tn_fuel t) (tn_sys t) (tn_coord t) w of
      None \<Rightarrow> None
    | Some (w1, n, err) \<Rightarrow>
        if tn_expired t then Some (w1, True)
        else case cluster_Collect (tn_fuel t) (tn_sys t) (tn_coord t) w1 grace of
               None \<Rightarrow> None
             | Some (w2, st, err2) \<Rightarrow> Some (w2, tn_passed t))"

definition CollectLoop :: "int \<Rightarrow> 's turn list \<Rightarrow> 's world \<Rightarrow> ('s world \<times> bool) option" where
  "CollectLoop grace = pass_loop (collect_turn grace)"

definition turn_over :: "'s turn \<Rightarrow> bool" where
  "turn_over t \<longleftrightarrow> tn_expired t \<or> tn_passed t \<or> tn_paused t"

lemma pass_loop_returns:
  assumes "\<And>t w w'. body t w = Some (w', True) \<Longrightarrow> turn_over t"
  shows "pass_loop body ts w = Some (w', True) \<Longrightarrow> \<exists>t \<in> set ts. turn_over t"
  by (induction ts arbitrary: w)
    (auto dest: assms simp: turn_over_def split: option.splits prod.splits bool.splits if_splits)

lemma loops_return:
  "RepairLoop ts w = Some (w', True) \<Longrightarrow> \<exists>t \<in> set ts. turn_over t"
  "RebalanceLoop ts w = Some (w', True) \<Longrightarrow> \<exists>t \<in> set ts. turn_over t"
  "ScrubLoop ts w = Some (w', True) \<Longrightarrow> \<exists>t \<in> set ts. turn_over t"
  "CollectLoop grace ts w = Some (w', True) \<Longrightarrow> \<exists>t \<in> set ts. turn_over t"
  unfolding RepairLoop_def RebalanceLoop_def ScrubLoop_def CollectLoop_def collect_turn_def
  by (erule pass_loop_returns[rotated]; force simp: turn_over_def split: option.splits if_splits)+

section \<open>The collector's cycle\<close>

text \<open>The slice the collector's cursor points at.\<close>

definition slice_at :: "meta \<Rightarrow> string \<Rightarrow> kvs \<Rightarrow> nat" where
  "slice_at M nd v = slice_index (case kv_lookup v (cursorKey M collectTask nd) of
      None \<Rightarrow> '''' | Some d \<Rightarrow> stored_string (kd_Value d))"

lemma length_idAlphabet: "length idAlphabet = 32" by code_simp

lemma slice_index_less: "slice_index here < 32"
  using index_of_less[of "hd here" idAlphabet] by (auto simp: slice_index_def length_idAlphabet split: option.splits)

lemma distinct_index_of: "distinct xs \<Longrightarrow> i < length xs \<Longrightarrow> index_of (xs ! i) xs = Some i"
  by (induction xs arbitrary: i) (auto simp: nth_Cons split: nat.splits)

lemma slice_index_letter: "i < 32 \<Longrightarrow> slice_index [idAlphabet ! i] = i"
proof -
  assume "i < 32"
  moreover have "distinct idAlphabet" by code_simp
  ultimately show ?thesis using distinct_index_of[of idAlphabet i] by (simp add: slice_index_def length_idAlphabet)
qed

context etcd_client
begin

lemma Cursor_reads:
  assumes "Cursor E M s task nd = (s', Inr here)"
  shows "view s' = view s"
    "here = (case kv_lookup (view s) (cursorKey M task nd) of None \<Rightarrow> '''' | Some d \<Rightarrow> stored_string (kd_Value d))"
proof -
  obtain kv mr where k: "et_kvs E s (EGet (cursorKey M task nd)) = (s', Inr (kv, mr))"
    and p: "here = (case kv of [] \<Rightarrow> '''' | (k, d) # _ \<Rightarrow> stored_string (kd_Value d))"
    using assms by (auto simp: Cursor_def split: prod.splits sum.splits list.splits)
  show "view s' = view s" by (rule et_kvs_view[OF k]) simp
  show "here = (case kv_lookup (view s) (cursorKey M task nd) of None \<Rightarrow> '''' | Some d \<Rightarrow> stored_string (kd_Value d))"
    using et_kvs_ok[OF k] p by (auto simp: kv_select_single split: option.splits)
qed

end

text \<open>A pass that gets as far as its slice sweeps the one the cursor points at, and leaves it at the next.\<close>

lemma nextSlice_moves:
  assumes "etcd_client (sy_etcd X) view" "nextSlice X c s = (s', Inr sl)"
  shows "sl = idAlphabet ! slice_at (c_meta c) (c_self c) (view s)"
    "slice_at (c_meta c) (c_self c) (view s') = (slice_at (c_meta c) (c_self c) (view s) + 1) mod 32"
proof -
  obtain s1 here where cur: "Cursor (sy_etcd X) (c_meta c) s collectTask (c_self c) = (s1, Inr here)"
    using assms(2) by (auto simp: nextSlice_def split: prod.splits sum.splits)
  let ?z = "[idAlphabet ! ((slice_index here + 1) mod 32)]"
  have i: "slice_index here = slice_at (c_meta c) (c_self c) (view s)"
    using etcd_client.Cursor_reads(2)[OF assms(1) cur] by (simp add: slice_at_def)
  obtain s2 where save: "SaveCursor (sy_etcd X) (c_meta c) s1 collectTask (c_self c) ?z = (s2, None)"
    and res: "s' = s2" "sl = idAlphabet ! slice_index here"
    using assms(2) cur by (auto simp: nextSlice_def Let_def length_idAlphabet split: prod.splits option.splits)
  show "sl = idAlphabet ! slice_at (c_meta c) (c_self c) (view s)" using res i by simp
  have "view s2 = kv_put (view s1) (cursorKey (c_meta c) collectTask (c_self c)) (SString ?z)"
    using etcd_client.et_unit_ok[OF assms(1) save[unfolded SaveCursor_def]] by simp
  then show "slice_at (c_meta c) (c_self c) (view s') = (slice_at (c_meta c) (c_self c) (view s) + 1) mod 32"
    using res(1) i by (simp add: slice_at_def slice_index_letter)
qed

lemma Collect_moves:
  assumes "etcd_client (sy_etcd X) view" "cluster_Collect fuel X c w grace = Some (w', st, None)"
  shows "cs_Slice st = [idAlphabet ! slice_at (c_meta c) (c_self c) (view (w_kv w))]"
    "slice_at (c_meta c) (c_self c) (view (w_kv w')) = (slice_at (c_meta c) (c_self c) (view (w_kv w)) + 1) mod 32"
proof -
  obtain s1 sl where nx: "nextSlice X c (w_kv w) = (s1, Inr sl)"
    using assms(2) by (auto simp: cluster_Collect_def split: prod.splits sum.splits)
  obtain s2 refs writing where ref: "referenced fuel X c sl s1 = Some (s2, Inr (refs, writing))"
    using assms(2) nx by (auto simp: cluster_Collect_def Let_def split: option.splits sum.splits prod.splits)
  obtain d st' failed fe serr where sc: "ScanChunks (ev_faults (sy_env X) (c_self c) [sl]) [sl]
      (collect_visit (sy_env X) (c_self c) refs writing (ev_now (sy_env X) - grace))
      (w_disks w (c_self c), zero_collect\<lparr>cs_Slice := [sl]\<rparr>, 0, None) = ((d, st', failed, fe), serr)"
    by (metis prod_cases4 surj_pair)
  have res: "w_kv w' = s2" "st = st'"
    using assms(2) nx ref sc by (auto simp: cluster_Collect_def Let_def split: option.splits if_splits)
  note m = nextSlice_moves[OF assms(1) nx]
  show "cs_Slice st = [idAlphabet ! slice_at (c_meta c) (c_self c) (view (w_kv w))]"
    using sweep_slice[OF sc] res(2) m(1) by simp
  have "kv_lookup (view s2) (cursorKey (c_meta c) collectTask (c_self c)) = kv_lookup (view s1) (cursorKey (c_meta c) collectTask (c_self c))"
    using referenced_spec(1)[OF assms(1) ref] by (simp add: only_records_def)
  then show "slice_at (c_meta c) (c_self c) (view (w_kv w')) = (slice_at (c_meta c) (c_self c) (view (w_kv w)) + 1) mod 32"
    using m(2) res(1) by (simp add: slice_at_def)
qed

text \<open>A sequence of passes of one node, between which others may do anything but move its cursor.\<close>

definition collect_passes ::
  "('s \<Rightarrow> kvs) \<Rightarrow> (nat \<Rightarrow> 's turn) \<Rightarrow> int \<Rightarrow> (nat \<Rightarrow> 's world) \<Rightarrow> (nat \<Rightarrow> 's world) \<Rightarrow> bool" where
  "collect_passes view t grace w w' \<longleftrightarrow> (\<forall>i. etcd_client (sy_etcd (tn_sys (t i))) view \<and>
     store_wf (w_disks (w i) (c_self (tn_coord (t i)))) \<and>
     c_self (tn_coord (t i)) = c_self (tn_coord (t 0)) \<and> c_meta (tn_coord (t i)) = c_meta (tn_coord (t 0)) \<and>
     (\<exists>st. cluster_Collect (tn_fuel (t i)) (tn_sys (t i)) (tn_coord (t i)) (w i) grace = Some (w' i, st, None)) \<and>
     slice_at (c_meta (tn_coord (t 0))) (c_self (tn_coord (t 0))) (view (w_kv (w (Suc i)))) =
       slice_at (c_meta (tn_coord (t 0))) (c_self (tn_coord (t 0))) (view (w_kv (w' i))))"

lemma collect_passes_slice:
  assumes "collect_passes view t grace w w'"
  shows "slice_at (c_meta (tn_coord (t 0))) (c_self (tn_coord (t 0))) (view (w_kv (w i))) =
    (slice_at (c_meta (tn_coord (t 0))) (c_self (tn_coord (t 0))) (view (w_kv (w 0))) + i) mod 32"
proof (induction i)
  case 0
  show ?case using slice_index_less by (simp add: slice_at_def)
next
  case (Suc i)
  obtain st where run: "cluster_Collect (tn_fuel (t i)) (tn_sys (t i)) (tn_coord (t i)) (w i) grace = Some (w' i, st, None)"
    and e: "etcd_client (sy_etcd (tn_sys (t i))) view"
    and same: "c_self (tn_coord (t i)) = c_self (tn_coord (t 0))" "c_meta (tn_coord (t i)) = c_meta (tn_coord (t 0))"
    and nxt: "slice_at (c_meta (tn_coord (t 0))) (c_self (tn_coord (t 0))) (view (w_kv (w (Suc i)))) =
       slice_at (c_meta (tn_coord (t 0))) (c_self (tn_coord (t 0))) (view (w_kv (w' i)))"
    using assms unfolding collect_passes_def by metis
  show ?case using nxt Collect_moves(2)[OF e run] Suc.IH unfolding same by (simp add: mod_Suc_eq)
qed


text \<open>
  C12. As many passes as there are slices reclaim all garbage.  Let a node make collection passes that
  report success, while requests, other nodes and expiring uploads do anything to the manifests and
  the disks in between.  Then every chunk id that begins with a letter of the alphabet has its turn in
  one of the first 32 passes, and after that pass its chunk is on the node's disk only if a manifest, a
  part of an upload, a write in flight or its age spares it.
\<close>

theorem Collect_cycle:
  assumes "collect_passes view t grace w w'" and "a \<in> set idAlphabet"
  shows "\<exists>i < CollectSlices. \<forall>f. chunk_file (w_disks (w' i) (c_self (tn_coord (t i)))) (a # x) = Some f \<longrightarrow>
    spared (tn_coord (t i)) (view (w_kv (w i))) (ev_now (sy_env (tn_sys (t i))) - grace) (a # x) f"
proof -
  let ?at = "\<lambda>i. slice_at (c_meta (tn_coord (t 0))) (c_self (tn_coord (t 0))) (view (w_kv (w i)))"
  obtain j where j: "j < 32" "idAlphabet ! j = a" using assms(2) by (metis in_set_conv_nth length_idAlphabet)
  obtain a0 where a0: "?at 0 = a0" "a0 < 32" by (simp add: slice_at_def slice_index_less)
  define i where "i = (if a0 \<le> j then j - a0 else j + 32 - a0)"
  have "a0 + i = j \<or> a0 + i = j + 32" "i < 32" using j(1) a0(2) by (auto simp: i_def)
  then have i: "(a0 + i) mod 32 = j" "i < CollectSlices" using j(1) by (auto simp: CollectSlices_def length_idAlphabet)
  then have here: "?at i = j" using collect_passes_slice[OF assms(1), of i] a0(1) by simp
  obtain st where run: "cluster_Collect (tn_fuel (t i)) (tn_sys (t i)) (tn_coord (t i)) (w i) grace = Some (w' i, st, None)"
    and e: "etcd_client (sy_etcd (tn_sys (t i))) view" and wf: "store_wf (w_disks (w i) (c_self (tn_coord (t i))))"
    and same: "c_self (tn_coord (t i)) = c_self (tn_coord (t 0))" "c_meta (tn_coord (t i)) = c_meta (tn_coord (t 0))"
    using assms(1) unfolding collect_passes_def by metis
  have sl: "cs_Slice st = [a]" using Collect_moves(1)[OF e run] here j(2) unfolding same by simp
  have "HasPrefix (a # x) (cs_Slice st)" by (simp add: sl HasPrefix_prefix)
  from Collect_swept[OF e wf run this]
  have "\<forall>f. chunk_file (w_disks (w' i) (c_self (tn_coord (t i)))) (a # x) = Some f \<longrightarrow>
      spared (tn_coord (t i)) (view (w_kv (w i))) (ev_now (sy_env (tn_sys (t i))) - grace) (a # x) f"
    by (auto split: option.splits if_splits)
  with i(2) show ?thesis by blast
qed

section \<open>The pacer\<close>

record pacer =
  pa_rate :: int
  pa_since :: int
  pa_sent :: int

text \<open>
  \<^verbatim>\<open>wait\<close> as it is called at the time \<open>now\<close>: the pacer after it and how long it sleeps.  What a float too
  large for a duration converts to is the argument \<open>oob\<close>.
\<close>

definition owed :: "int \<Rightarrow> pacer \<Rightarrow> int" where
  "owed oob p = int64_of oob (float64 (float64 (float64 (of_int (pa_sent p)) / float64 (of_int (pa_rate p))) * of_int Second))"

definition pace_wait :: "int \<Rightarrow> pacer \<Rightarrow> int \<Rightarrow> int \<Rightarrow> pacer \<times> int" where
  "pace_wait oob p n now =
     (if pa_rate p \<le> 0 then (p, 0)
      else (let p' = p\<lparr>pa_sent := i64 (pa_sent p + n)\<rparr>; delay = i64 (owed oob p' - (now - pa_since p))
            in (p', if delay > 0 then delay else 0)))"

text \<open>
  A pass that moves chunks of the given sizes, ending at a time: each is moved at some time after the
  one before, and the call returns no earlier than its sleep takes, as \<^verbatim>\<open>sleep\<close> does unless the context ends.
\<close>

inductive paced :: "int \<Rightarrow> pacer \<Rightarrow> int list \<Rightarrow> pacer \<Rightarrow> int \<Rightarrow> bool" for oob p0 where
  idle: "pa_since p0 \<le> now \<Longrightarrow> paced oob p0 [] p0 now"
| moves: "paced oob p0 ns p now \<Longrightarrow> now \<le> called \<Longrightarrow> pace_wait oob p n called = (p', pause) \<Longrightarrow> called + pause \<le> ret \<Longrightarrow>
    paced oob p0 (ns @ [n]) p' ret"

lemma paced_state:
  assumes "0 < pa_rate p0" "pa_sent p0 = 0"
  shows "paced oob p0 ns p now \<Longrightarrow> (\<forall>n \<in> set ns. 0 \<le> n) \<Longrightarrow> in_i64 (sum_list ns) \<Longrightarrow>
    p = p0\<lparr>pa_sent := sum_list ns\<rparr> \<and> pa_since p0 \<le> now"
proof (induction rule: paced.induct)
  case (idle now)
  then show ?case using assms by simp
next
  case (moves ns p now called n p' pause ret)
  have nn: "0 \<le> sum_list ns" using moves.prems(1) by (auto intro!: sum_list_nonneg)
  have "in_i64 (sum_list ns)"
    by (rule in_i64_between[OF moves.prems(2) nn]) (use moves.prems(1) in simp)
  then have IH: "p = p0\<lparr>pa_sent := sum_list ns\<rparr>" "pa_since p0 \<le> now" using moves.IH moves.prems(1) by auto
  have "0 \<le> pause" using moves.hyps(3) by (auto simp: pace_wait_def Let_def split: if_splits)
  moreover have "p' = p0\<lparr>pa_sent := sum_list (ns @ [n])\<rparr>"
    using moves.hyps(3) moves.prems(2) IH(1) assms(1) by (auto simp: pace_wait_def Let_def)
  ultimately show ?case using IH(2) moves.hyps(2,4) by simp
qed

text \<open>A quotient scaled by a constant, rounded at every step, stays close to the exact one.\<close>

lemma scaled_quotient:
  assumes "0 \<le> x" "0 < y" "0 \<le> k"
  defines "z \<equiv> float64 (float64 (float64 x / float64 y) * k)"
  shows "x * k * (1 - unit_roundoff) ^ 3 \<le> z * (y * (1 + unit_roundoff))"
    and "z * (y * (1 - unit_roundoff)) \<le> x * k * (1 + unit_roundoff) ^ 3"
    and "0 \<le> z"
proof -
  let ?u = unit_roundoff
  have u: "0 < ?u" "0 < 1 - ?u" "0 < 1 + ?u" by (simp_all add: unit_roundoff_def)
  let ?X = "float64 x" and ?Y = "float64 y"
  note X = float64_near[OF assms(1)] and Y = float64_near[OF less_imp_le[OF assms(2)]]
  have Y0: "0 < ?Y" using float64_pos[OF assms(2)] .
  define q where "q = ?X / ?Y"
  have q: "q * ?Y = ?X" "0 \<le> q" using X(3) Y0 by (simp_all add: q_def)
  note Q = float64_near[OF q(2)]
  have d: "0 \<le> float64 q * k" using Q(3) assms(3) by simp
  note D = float64_near[OF d]
  have z: "z = float64 (float64 q * k)" by (simp add: z_def q_def)
  show "0 \<le> z" using D(3) z by simp
  have lo: "q * k * (1 - ?u) ^ 2 \<le> z"
  proof -
    have "q * (1 - ?u) * (k * (1 - ?u)) \<le> float64 q * (k * (1 - ?u))"
      by (rule mult_right_mono[OF Q(1)]) (use u assms(3) in simp)
    also have "\<dots> \<le> z" using D(1) z by (simp add: mult.assoc)
    finally show ?thesis by (simp add: power2_eq_square mult_ac)
  qed
  have hi: "z \<le> q * k * (1 + ?u) ^ 2"
  proof -
    have "z \<le> float64 q * (k * (1 + ?u))" using D(2) z by (simp add: mult.assoc)
    also have "\<dots> \<le> q * (1 + ?u) * (k * (1 + ?u))"
      by (rule mult_right_mono[OF Q(2)]) (use u assms(3) in simp)
    finally show ?thesis by (simp add: power2_eq_square mult_ac)
  qed
  have "x * k * (1 - ?u) ^ 3 = x * (1 - ?u) * (k * (1 - ?u) ^ 2)" by (simp add: power3_eq_cube power2_eq_square)
  also have "\<dots> \<le> ?X * (k * (1 - ?u) ^ 2)" by (rule mult_right_mono[OF X(1)]) (use assms(3) in simp)
  also have "\<dots> = q * k * (1 - ?u) ^ 2 * ?Y" using q(1) by (simp add: mult_ac)
  also have "\<dots> \<le> z * ?Y" by (rule mult_right_mono[OF lo]) (use Y0 in simp)
  also have "\<dots> \<le> z * (y * (1 + ?u))" by (rule mult_left_mono[OF Y(2) \<open>0 \<le> z\<close>])
  finally show "x * k * (1 - ?u) ^ 3 \<le> z * (y * (1 + ?u))" .
  have "z * (y * (1 - ?u)) \<le> z * ?Y" by (rule mult_left_mono[OF Y(1) \<open>0 \<le> z\<close>])
  also have "\<dots> \<le> q * k * (1 + ?u) ^ 2 * ?Y" by (rule mult_right_mono[OF hi]) (use Y0 in simp)
  also have "\<dots> = ?X * (k * (1 + ?u) ^ 2)" using q(1) by (simp add: mult_ac)
  also have "\<dots> \<le> x * (1 + ?u) * (k * (1 + ?u) ^ 2)" by (rule mult_right_mono[OF X(2)]) (use assms(3) in simp)
  also have "\<dots> = x * k * (1 + ?u) ^ 3" by (simp add: power3_eq_cube power2_eq_square)
  finally show "z * (y * (1 - ?u)) \<le> x * k * (1 + ?u) ^ 3" .
qed

text \<open>What is owed is a duration, and close to what the rate allows; nine billion seconds are 285 years.\<close>

lemma owed_bounds:
  assumes "0 < pa_rate p" "0 \<le> pa_sent p" "pa_sent p \<le> pa_rate p * 9000000000"
  shows "of_int (pa_sent p) * of_int Second * (1 - unit_roundoff) ^ 3 \<le> (of_int (owed oob p) + 1) * (of_int (pa_rate p) * (1 + unit_roundoff))"
    and "0 \<le> owed oob p" "in_i64 (owed oob p)"
proof -
  let ?u = unit_roundoff and ?s = "of_int (pa_sent p) :: rat" and ?r = "of_int (pa_rate p) :: rat"
  define z where "z = float64 (float64 (float64 ?s / float64 ?r) * of_int Second)"
  have pos: "0 \<le> ?s" "0 < ?r" "0 \<le> (of_int Second :: rat)" using assms by (simp_all add: Second_def)
  note Z = scaled_quotient[OF pos, folded z_def]
  have "z * (?r * (1 - ?u)) \<le> ?r * 9000000000 * of_int Second * (1 + ?u) ^ 3"
  proof -
    have "?s \<le> of_int (pa_rate p * 9000000000)" using assms(3) by (rule of_int_le_iff[THEN iffD2])
    then have "?s \<le> ?r * 9000000000" by simp
    then have "?s * of_int Second * (1 + ?u) ^ 3 \<le> ?r * 9000000000 * of_int Second * (1 + ?u) ^ 3"
      by (intro mult_right_mono) (simp_all add: Second_def unit_roundoff_def)
    then show ?thesis using Z(2) by simp
  qed
  then have "?r * (z * (1 - ?u)) \<le> ?r * (9000000000 * of_int Second * (1 + ?u) ^ 3)" by (simp add: mult_ac)
  then have "z * (1 - ?u) \<le> 9000000000 * of_int Second * (1 + ?u) ^ 3" using pos(2) by simp
  then have small: "z < 2 ^ 63" by (simp add: unit_roundoff_def Second_def power3_eq_cube)
  then have ow: "owed oob p = \<lfloor>z\<rfloor>" using int64_of_floor[OF Z(3)] by (simp add: owed_def z_def)
  then show "0 \<le> owed oob p" "in_i64 (owed oob p)" using Z(3) small by (simp_all add: in_i64_def floor_less_iff)
  have "z \<le> of_int (owed oob p) + 1" using floor_correct[of z] ow by simp
  then have "z * (?r * (1 + ?u)) \<le> (of_int (owed oob p) + 1) * (?r * (1 + ?u))"
    by (rule mult_right_mono) (use pos(2) in \<open>simp add: unit_roundoff_def\<close>)
  with Z(1) show "?s * of_int Second * (1 - ?u) ^ 3 \<le> (of_int (owed oob p) + 1) * (?r * (1 + ?u))" by linarith
qed



section \<open>Examples\<close>

text \<open>A disk with one old chunk, and a cursor that has been moved \<open>n\<close> times.\<close>

definition cursor_kvs :: "nat \<Rightarrow> kvs" where
  "cursor_kvs n = \<lparr>kvs_Rev = int n + 2, kvs_Keys = [(cursorKey example_meta collectTask ''n1'',
     \<lparr>kd_Value = SString [idAlphabet ! (n mod 32)], kd_ModRev = int n + 2\<rparr>)]\<rparr>"

definition dirty_world :: "nat \<Rightarrow> kvs world" where
  "dirty_world n = \<lparr>w_disks = \<lambda>_. example_garbage, w_kv = cursor_kvs n\<rparr>"

definition collect_turns :: "nat \<Rightarrow> kvs turn" where
  "collect_turns n = \<lparr>tn_sys = example_sys, tn_coord = example_coord, tn_fuel = 3, tn_expired = False, tn_passed = False,
     tn_paused = False, tn_meanwhile = \<lambda>w. w\<rparr>"

lemma cursor_kvs_slice: "slice_at example_meta ''n1'' (cursor_kvs n) = n mod 32"
  by (simp add: slice_at_def cursor_kvs_def kv_lookup_def slice_index_letter)

lemma cursor_nextSlice:
  "\<exists>s d. nextSlice example_sys example_coord (cursor_kvs n) = (s, Inr (idAlphabet ! (n mod 32))) \<and>
    kvs_Keys s = [(cursorKey example_meta collectTask ''n1'', d)]"
proof -
  have "kv_lookup (cursor_kvs n) (cursorKey example_meta collectTask ''n1'') =
      Some \<lparr>kd_Value = SString [idAlphabet ! (n mod 32)], kd_ModRev = int n + 2\<rparr>"
    by (simp add: kv_lookup_def cursor_kvs_def)
  then have "Cursor mem_etcd example_meta (cursor_kvs n) collectTask ''n1'' = (cursor_kvs n, Inr [idAlphabet ! (n mod 32)])"
    by (simp add: Cursor_def et_kvs_def mem_etcd_def kv_select_single)
  then show ?thesis
    by (simp add: nextSlice_def example_sys_def SaveCursor_def et_unit_def mem_etcd_def kv_put_def cursor_kvs_def
        slice_index_letter Let_def)
qed

lemma dirty_collect: "\<exists>w' st. cluster_Collect 3 example_sys example_coord (dirty_world n) 1 = Some (w', st, None)"
proof -
  obtain s d where s: "nextSlice example_sys example_coord (cursor_kvs n) = (s, Inr (idAlphabet ! (n mod 32)))"
    "kvs_Keys s = [(cursorKey example_meta collectTask ''n1'', d)]"
    using cursor_nextSlice by blast
  show ?thesis
    using s(1) example_referenced[OF s(2), of "idAlphabet ! (n mod 32)"]
    by (cases "idAlphabet ! (n mod 32) = CHR ''A''")
      (simp_all add: cluster_Collect_def dirty_world_def Let_def ScanChunks_def chunk_dirs_def example_garbage_def
        within_def HasPrefix_def dir_files_def chunk_dir_def chunk_file_def collect_visit_def chunk_info_of_def
        inFlight_def RemoveChunk_def validateID_def example_sys_def example_env_def no_faults_def zero_collect_def)
qed

theorem Collect_cycle_witness:
  "\<exists>w' :: nat \<Rightarrow> kvs world. (\<exists>i < CollectSlices. \<forall>f. chunk_file (w_disks (w' i) ''n1'') ''AB000000'' = Some f \<longrightarrow>
     spared example_coord (cursor_kvs i) 4 ''AB000000'' f)"
proof -
  obtain w' st where run: "\<And>i. cluster_Collect 3 example_sys example_coord (dirty_world i) 1 = Some (w' i, st i, None)"
    using dirty_collect by metis
  have c: "c_self example_coord = ''n1''" "c_meta example_coord = example_meta"
    by simp_all
  have wf: "store_wf example_garbage"
    by (simp add: store_wf_def example_garbage_def validateID_def chunk_dir_def)
  have "slice_at example_meta ''n1'' (cursor_kvs (Suc i)) = slice_at example_meta ''n1'' (w_kv (w' i))" for i
    using Collect_moves(2)[OF example_etcd(1) run[of i]] by (simp add: c cursor_kvs_slice dirty_world_def mod_Suc_eq)
  then have passes: "collect_passes (\<lambda>s. s) collect_turns 1 dirty_world w'"
    using run wf example_etcd(1) by (simp add: collect_passes_def collect_turns_def c) (simp add: dirty_world_def)
  have a: "CHR ''A'' \<in> set idAlphabet" by (simp add: idAlphabet_def)
  have "ev_now (sy_env example_sys) = 5" by (simp add: example_sys_def example_env_def)
  with Collect_cycle[OF passes a, of "''B000000''"] show ?thesis
    by (auto simp: collect_turns_def c dirty_world_def)
qed


end
