(* ===== verification/Membership.thy ===== *)
theory Membership
  imports Quorum GoFloat
begin

text \<open>
  Who is in the cluster, \<^verbatim>\<open>internal/meta/members.go\<close> with the goroutines it starts: a node registers
  under a lease and registers again when the lease is lost, and it watches the registrations of all
  nodes and hands every change to its coordinator.  Both goroutines are step relations over the state
  they share with etcd, with one constructor for each place where the code can wait and one rule for
  each way out of it.  \<^verbatim>\<open>select\<close> may take any branch that is ready, so a timer that has fired and a
  context that has ended are both possible.

  What etcd does between two steps is a step of its own: any change to the keys, made by other nodes
  or by a lease that ran out.  A watch that is open has a response waiting after every change to the
  members, as etcd documents; etcd may also close it for good, as it does when the revision the watch
  stands at has been compacted.
\<close>

section \<open>Registration\<close>

text \<open>
  \<^verbatim>\<open>KeepAlive\<close> sends nothing itself: it starts the renewals or fails, and how it went is the argument
  \<open>ka\<close>.  The time to live is a \<^verbatim>\<open>time.Duration\<close>, and etcd takes whole seconds.
\<close>

definition register ::
  "'s etcd \<Rightarrow> meta \<Rightarrow> 's \<Rightarrow> string \<Rightarrow> string \<Rightarrow> int \<Rightarrow> error option \<Rightarrow> 's \<times> error option" where
  "register E M s i addr ttl ka = (case et_unit E s (EGrant (int64_of 0 (Duration_Seconds ttl))) of
      (s1, Some e) \<Rightarrow> (s1, Some e)
    | (s1, None) \<Rightarrow> (case et_unit E s1 (EPut (memberKey M i) (SString addr)) of
        (s2, Some e) \<Rightarrow> (s2, Some e)
      | (s2, None) \<Rightarrow> (s2, ka)))"

definition Join ::
  "'s etcd \<Rightarrow> meta \<Rightarrow> 's \<Rightarrow> string \<Rightarrow> string \<Rightarrow> int \<Rightarrow> error option \<Rightarrow> 's \<times> error option" where
  "Join E M s i addr ttl ka =
     (if ttl < Second then (s, Some [Other ''meta: lease ttl''])
      else if i = '''' \<or> CHR ''/'' \<in> set i then (s, Some [Other ''meta: node id''])
      else register E M s i addr ttl ka)"

text \<open>
  \<^verbatim>\<open>stayRegistered\<close>: draining renewals, sleeping before the next attempt, attempting, and gone.  The
  flag says whether the context has ended.
\<close>

datatype registrar = Renewing | Resting | Registering | Left

inductive stays ::
  "'s etcd \<Rightarrow> meta \<Rightarrow> string \<Rightarrow> string \<Rightarrow> int \<Rightarrow> registrar \<times> bool \<times> 's \<Rightarrow> registrar \<times> bool \<times> 's \<Rightarrow> bool"
  for E M i addr ttl where
  lease_lost: "stays E M i addr ttl (Renewing, False, s) (Resting, False, s)"
| renewals_over: "stays E M i addr ttl (Renewing, True, s) (Left, True, s)"
| rested: "stays E M i addr ttl (Resting, fin, s) (Registering, fin, s)"
| rest_over: "stays E M i addr ttl (Resting, True, s) (Left, True, s)"
| registered: "register E M s i addr ttl ka = (s', None) \<Longrightarrow>
    stays E M i addr ttl (Registering, fin, s) (Renewing, fin, s')"
| refused: "register E M s i addr ttl ka = (s', Some e) \<Longrightarrow>
    stays E M i addr ttl (Registering, fin, s) (Resting, fin, s')"

inductive_cases stays_cases: "stays E M i addr ttl p q"

inductive stay_run ::
  "'s etcd \<Rightarrow> meta \<Rightarrow> string \<Rightarrow> string \<Rightarrow> int \<Rightarrow> registrar \<times> bool \<times> 's \<Rightarrow> registrar \<times> bool \<times> 's \<Rightarrow> bool"
  for E M i addr ttl where
  stay_start: "stay_run E M i addr ttl p p"
| stay_step: "stay_run E M i addr ttl p q \<Longrightarrow> stays E M i addr ttl q q' \<Longrightarrow> stay_run E M i addr ttl p q'"
| stay_cancel: "stay_run E M i addr ttl p (pc, fin, s) \<Longrightarrow> stay_run E M i addr ttl p (pc, True, s)"
| stay_others: "stay_run E M i addr ttl p (pc, fin, s) \<Longrightarrow> stay_run E M i addr ttl p (pc, fin, s')"

section \<open>Watching the members\<close>

text \<open>
  The goroutine of \<^verbatim>\<open>WatchMembers\<close> lists, backs off after a listing that failed, offers what it listed
  on the channel, waits for the next response of the watch, and ends.  At the other end of the channel
  \<^verbatim>\<open>main\<close> takes a value and then sets the coordinator's members.
\<close>

datatype watcher = Listing | Backing | Offering "(string \<times> string) list" | Watching | Ended

datatype receiver = Receiving | Applying "(string \<times> string) list"

record 's watch =
  wt_kv :: 's
  wt_pending :: nat
  wt_open :: bool
  wt_done :: bool
  wt_pc :: watcher
  wt_main :: receiver
  wt_coord :: coord

text \<open>A step the node itself takes.\<close>

inductive node_step :: "'s etcd \<Rightarrow> 's watch \<Rightarrow> 's watch \<Rightarrow> bool" for E where
  listed: "wt_pc w = Listing \<Longrightarrow> Members E (c_meta (wt_coord w)) (wt_kv w) = (s', Inr ms) \<Longrightarrow>
    node_step E w (w\<lparr>wt_kv := s', wt_pc := Offering ms\<rparr>)"
| list_over: "wt_pc w = Listing \<Longrightarrow> Members E (c_meta (wt_coord w)) (wt_kv w) = (s', Inl e) \<Longrightarrow> wt_done w \<Longrightarrow>
    node_step E w (w\<lparr>wt_kv := s', wt_pc := Ended\<rparr>)"
| list_failed: "wt_pc w = Listing \<Longrightarrow> Members E (c_meta (wt_coord w)) (wt_kv w) = (s', Inl e) \<Longrightarrow> \<not> wt_done w \<Longrightarrow>
    node_step E w (w\<lparr>wt_kv := s', wt_pc := Backing\<rparr>)"
| retries: "wt_pc w = Backing \<Longrightarrow> node_step E w (w\<lparr>wt_pc := Listing\<rparr>)"
| back_over: "wt_pc w = Backing \<Longrightarrow> wt_done w \<Longrightarrow> node_step E w (w\<lparr>wt_pc := Ended\<rparr>)"
| handed: "wt_pc w = Offering ms \<Longrightarrow> wt_main w = Receiving \<Longrightarrow>
    node_step E w (w\<lparr>wt_pc := Watching, wt_main := Applying ms\<rparr>)"
| offer_over: "wt_pc w = Offering ms \<Longrightarrow> wt_done w \<Longrightarrow> node_step E w (w\<lparr>wt_pc := Ended\<rparr>)"
| woken: "wt_pc w = Watching \<Longrightarrow> wt_pending w = Suc n \<Longrightarrow> node_step E w (w\<lparr>wt_pending := n, wt_pc := Listing\<rparr>)"
| watch_gone: "wt_pc w = Watching \<Longrightarrow> wt_pending w = 0 \<Longrightarrow> \<not> wt_open w \<Longrightarrow> node_step E w (w\<lparr>wt_pc := Ended\<rparr>)"
| watch_over: "wt_pc w = Watching \<Longrightarrow> wt_done w \<Longrightarrow> node_step E w (w\<lparr>wt_pc := Ended\<rparr>)"
| applied: "wt_main w = Applying ms \<Longrightarrow>
    node_step E w (w\<lparr>wt_main := Receiving, wt_coord := SetMembers (wt_coord w) ms\<rparr>)"

text \<open>The members etcd holds, as \<^verbatim>\<open>Members\<close> reads them.\<close>

definition live_members :: "meta \<Rightarrow> kvs \<Rightarrow> (string \<times> string) list" where
  "live_members M v =
     map (\<lambda>(k, d). (path_Base k, stored_string (kd_Value d))) (kv_select v (\<lambda>k. HasPrefix k (memberPrefix M)))"

text \<open>A step of everything else: the keys change, the watch is closed, the context ends.\<close>

inductive outside_step :: "('s \<Rightarrow> kvs) \<Rightarrow> 's watch \<Rightarrow> 's watch \<Rightarrow> bool" for view where
  changes: "wt_pending w \<le> n \<Longrightarrow>
    (wt_open w \<longrightarrow> live_members (c_meta (wt_coord w)) (view s') \<noteq> live_members (c_meta (wt_coord w)) (view (wt_kv w)) \<longrightarrow> 0 < n) \<Longrightarrow>
    outside_step view w (w\<lparr>wt_kv := s', wt_pending := n\<rparr>)"
| closes: "outside_step view w (w\<lparr>wt_open := False\<rparr>)"
| cancels: "outside_step view w (w\<lparr>wt_done := True\<rparr>)"

definition WatchMembers :: "coord \<Rightarrow> 's \<Rightarrow> 's watch" where
  "WatchMembers c s = \<lparr>wt_kv = s, wt_pending = 0, wt_open = True, wt_done = False, wt_pc = Listing,
     wt_main = Receiving, wt_coord = c\<rparr>"

inductive watch_run :: "'s etcd \<Rightarrow> ('s \<Rightarrow> kvs) \<Rightarrow> 's watch \<Rightarrow> 's watch \<Rightarrow> bool" for E view where
  run_start: "watch_run E view w w"
| run_node: "watch_run E view w w1 \<Longrightarrow> node_step E w1 w2 \<Longrightarrow> watch_run E view w w2"
| run_outside: "watch_run E view w w1 \<Longrightarrow> outside_step view w1 w2 \<Longrightarrow> watch_run E view w w2"

inductive_cases node_step_cases: "node_step E w w'"
inductive_cases outside_step_cases: "outside_step view w w'"

section \<open>The registration holds on\<close>

lemma stays_leaves: "stays E M i addr ttl p q \<Longrightarrow> fst q = Left \<Longrightarrow> fst (snd q)"
  by (auto elim: stays_cases)

lemma stay_run_leaves: "stay_run E M i addr ttl p q \<Longrightarrow> (fst p = Left \<Longrightarrow> fst (snd p)) \<Longrightarrow> fst q = Left \<Longrightarrow> fst (snd q)"
  by (induction rule: stay_run.induct) (auto dest: stays_leaves)

text \<open>Wherever the loop stands, one attempt that etcd answers makes the node a member again.\<close>

lemma stays_rejoins:
  assumes "pc \<noteq> Left" "register E M s i addr ttl ka = (s', None)"
  shows "stay_run E M i addr ttl (pc, False, s) (Renewing, False, s')"
proof -
  have "stay_run E M i addr ttl (pc, False, s) (Registering, False, s)"
    using assms(1) by (cases pc) (meson stay_start stay_step lease_lost rested)+
  from stay_step[OF this registered[OF assms(2)]] show ?thesis .
qed

section \<open>What the node knows\<close>

context etcd_client
begin

lemma Members_live:
  assumes "Members E M s = (s', r)"
  shows "view s' = view s" "r = Inr ms \<Longrightarrow> ms = live_members M (view s)"
proof -
  obtain k where k: "et_kvs E s (EGetPrefix (memberPrefix M)) = (s', k)"
    and r: "r = (case k of Inl e \<Rightarrow> Inl e | Inr (kv, mr) \<Rightarrow> Inr (map (\<lambda>(k, d). (path_Base k, stored_string (kd_Value d))) kv))"
    using assms by (auto simp: Members_def split: prod.splits sum.splits)
  show "view s' = view s" by (rule et_kvs_view[OF k]) simp
  show "ms = live_members M (view s)" if ok: "r = Inr ms"
  proof -
    obtain kv mr where kv: "k = Inr (kv, mr)" using ok r by (cases k) auto
    from et_kvs_ok[OF k[unfolded kv]] show ?thesis using ok r kv by (auto simp: live_members_def)
  qed
qed

lemma register_member:
  "register E M s i addr ttl ka = (s', None) \<Longrightarrow> view s' = kv_put (view s) (memberKey M i) (SString addr)"
  by (auto simp: register_def dest!: et_unit_ok split: prod.splits option.splits)

end

text \<open>What a node knows once it has applied a list of members.\<close>

definition knows :: "coord \<Rightarrow> (string \<times> string) list \<Rightarrow> bool" where
  "knows c ms \<longleftrightarrow> cluster_Members c = AList.update (c_self c) (c_addr c) ms"

lemma SetMembers_fields [simp]:
  "c_meta (SetMembers c ms) = c_meta c" "c_self (SetMembers c ms) = c_self c" "c_addr (SetMembers c ms) = c_addr c"
  "knows (SetMembers c ms) ms"
  by (simp_all add: SetMembers_def Let_def knows_def cluster_Members_def)

text \<open>
  The invariant: while the watch is open and no response waits, what the watcher offers is what etcd
  holds, and when it waits for the next response, what it handed over is.
\<close>

definition current :: "('s \<Rightarrow> kvs) \<Rightarrow> 's watch \<Rightarrow> bool" where
  "current view w \<longleftrightarrow> wt_open w \<longrightarrow> wt_pending w = 0 \<longrightarrow>
     (let ms = live_members (c_meta (wt_coord w)) (view (wt_kv w)) in
      (\<forall>os. wt_pc w = Offering os \<longrightarrow> os = ms) \<and>
      (wt_pc w = Watching \<longrightarrow> (case wt_main w of Receiving \<Rightarrow> knows (wt_coord w) ms | Applying as \<Rightarrow> as = ms)))"

lemma current_node: "etcd_client E view \<Longrightarrow> node_step E w w' \<Longrightarrow> current view w \<Longrightarrow> current view w'"
  by (erule node_step_cases) (auto simp: current_def Let_def etcd_client.Members_live split: receiver.splits)

lemma current_outside: "outside_step view w w' \<Longrightarrow> current view w \<Longrightarrow> current view w'"
  by (erule outside_step_cases) (auto simp: current_def Let_def split: receiver.splits)

lemma run_meta: "watch_run E view w w' \<Longrightarrow> c_meta (wt_coord w') = c_meta (wt_coord w)"
  by (induction rule: watch_run.induct) (auto elim!: node_step_cases outside_step_cases)

lemma run_current:
  assumes "etcd_client E view"
  shows "watch_run E view w w' \<Longrightarrow> current view w \<Longrightarrow> current view w'"
  by (induction rule: watch_run.induct) (auto intro: current_node[OF assms] current_outside)


text \<open>The watcher ends only when its context does or etcd closes the watch.\<close>

lemma run_ended:
  "watch_run E view w w' \<Longrightarrow> (wt_pc w = Ended \<Longrightarrow> wt_done w \<or> \<not> wt_open w) \<Longrightarrow> wt_pc w' = Ended \<Longrightarrow> wt_done w' \<or> \<not> wt_open w'"
  by (induction rule: watch_run.induct) (auto elim!: node_step_cases outside_step_cases)

lemma run_trans: "watch_run E view w1 w2 \<Longrightarrow> watch_run E view w w1 \<Longrightarrow> watch_run E view w w2"
  by (induction rule: watch_run.induct) (auto intro: run_node run_outside)

section \<open>Left alone, the node catches up\<close>

inductive node_steps :: "'s etcd \<Rightarrow> nat \<Rightarrow> 's watch \<Rightarrow> 's watch \<Rightarrow> bool" for E where
  no_step: "node_steps E 0 w w"
| one_more: "node_steps E n w w1 \<Longrightarrow> node_step E w1 w2 \<Longrightarrow> node_steps E (Suc n) w w2"

primrec pc_effort :: "watcher \<Rightarrow> nat" where
  "pc_effort Backing = 5"
| "pc_effort Listing = 4"
| "pc_effort (Offering ms) = 3"
| "pc_effort Watching = 1"
| "pc_effort Ended = 0"

primrec main_effort :: "receiver \<Rightarrow> nat" where
  "main_effort Receiving = 0"
| "main_effort (Applying ms) = 1"

definition effort :: "'s watch \<Rightarrow> nat" where
  "effort w = 6 * wt_pending w + pc_effort (wt_pc w) + main_effort (wt_main w)"

lemma node_step_effort:
  assumes "\<forall>s s' e. Members E (c_meta (wt_coord w)) s \<noteq> (s', Inl e)"
  shows "node_step E w w' \<Longrightarrow> effort w' < effort w"
  by (erule node_step_cases) (auto simp: effort_def assms)

lemma node_steps_run: "node_steps E n w w' \<Longrightarrow> watch_run E view w w'"
  by (induction rule: node_steps.induct) (auto intro: run_start run_node)

lemma node_step_view: "etcd_client E view \<Longrightarrow> node_step E w w' \<Longrightarrow>
  view (wt_kv w') = view (wt_kv w) \<and> wt_open w' = wt_open w \<and> wt_done w' = wt_done w"
  by (erule node_step_cases) (auto simp: etcd_client.Members_live)

lemma node_steps_view:
  assumes "etcd_client E view"
  shows "node_steps E n w w' \<Longrightarrow> view (wt_kv w') = view (wt_kv w) \<and> wt_open w' = wt_open w \<and> wt_done w' = wt_done w"
  by (induction rule: node_steps.induct) (auto dest: node_step_view[OF assms])

lemma node_steps_effort:
  "node_steps E n w w' \<Longrightarrow> \<forall>s s' e. Members E (c_meta (wt_coord w)) s \<noteq> (s', Inl e) \<Longrightarrow> n + effort w' \<le> effort w"
proof (induction rule: node_steps.induct)
  case (one_more n w w1 w2)
  have "c_meta (wt_coord w1) = c_meta (wt_coord w)"
    using run_meta[OF node_steps_run[OF one_more.hyps(1)]] .
  then have "effort w2 < effort w1" using node_step_effort[OF _ one_more.hyps(2)] one_more.prems by simp
  then show ?case using one_more.IH[OF one_more.prems] by simp
qed simp

text \<open>A node that can do nothing more waits for the watch with everything applied, or it has ended.\<close>

lemma stuck_idle:
  assumes "\<nexists>w'. node_step E w w'"
  shows "wt_pc w = Ended \<or> wt_pc w = Watching \<and> wt_pending w = 0 \<and> wt_main w = Receiving"
proof (cases "wt_pc w")
  case Listing
  obtain s' r where "Members E (c_meta (wt_coord w)) (wt_kv w) = (s', r)" by fastforce
  then show ?thesis using assms listed[OF Listing] list_over[OF Listing] list_failed[OF Listing] by (cases r) metis+
next
  case Backing
  then show ?thesis using assms retries by blast
next
  case (Offering ms)
  then show ?thesis using assms handed applied by (cases "wt_main w") blast+
next
  case Watching
  then show ?thesis using assms woken applied by (cases "wt_pending w"; cases "wt_main w") blast+
qed simp

section \<open>Properties\<close>

text \<open>
  C9. A node's view of the cluster follows etcd.  However the watcher, \<^verbatim>\<open>main\<close>, the other nodes and
  expiring leases interleave after \<^verbatim>\<open>WatchMembers\<close> was called: when the watcher waits for the watch, no
  response is waiting there and \<^verbatim>\<open>main\<close> has applied what it took, then the coordinator's members are those
  etcd holds, with the node itself, unless etcd closed the watch.  No change is missed, not even one
  between the call and the first listing.
\<close>

theorem watch_follows:
  assumes "etcd_client E view" and "watch_run E view (WatchMembers c s) w"
    and "wt_open w" and "wt_pc w = Watching" and "wt_pending w = 0" and "wt_main w = Receiving"
  shows "cluster_Members (wt_coord w) =
    AList.update (c_self (wt_coord w)) (c_addr (wt_coord w)) (live_members (c_meta c) (view (wt_kv w)))"
proof -
  have "current view (WatchMembers c s)" by (simp add: current_def WatchMembers_def)
  then have "current view w" by (rule run_current[OF assms(1,2)])
  moreover have "c_meta (wt_coord w) = c_meta c" using run_meta[OF assms(2)] by (simp add: WatchMembers_def)
  ultimately show ?thesis using assms(3-6) by (simp add: current_def knows_def)
qed

text \<open>
  C10. Left alone, a node catches up, whatever it was doing.  From any state it can get into with its
  watch open and its context alive, if etcd answers its listings then the node takes no more steps than
  \<open>effort\<close> says, whichever way it chooses among those possible; and when it can take no step any more its
  coordinator's members are those etcd holds.
\<close>

theorem watch_catches_up:
  assumes "etcd_client E view" and "watch_run E view (WatchMembers c s) w" and "wt_open w" and "\<not> wt_done w"
    and "\<forall>s s' e. Members E (c_meta c) s \<noteq> (s', Inl e)" and "node_steps E n w w'"
  shows "n \<le> effort w \<and> ((\<nexists>w''. node_step E w' w'') \<longrightarrow> cluster_Members (wt_coord w') =
    AList.update (c_self (wt_coord w')) (c_addr (wt_coord w')) (live_members (c_meta c) (view (wt_kv w))))"
proof
  have m: "c_meta (wt_coord w) = c_meta c" using run_meta[OF assms(2)] by (simp add: WatchMembers_def)
  show "n \<le> effort w" using node_steps_effort[OF assms(6)] assms(5) m by fastforce
  show "(\<nexists>w''. node_step E w' w'') \<longrightarrow> cluster_Members (wt_coord w') =
    AList.update (c_self (wt_coord w')) (c_addr (wt_coord w')) (live_members (c_meta c) (view (wt_kv w)))"
  proof
    assume stuck: "\<nexists>w''. node_step E w' w''"
    have run: "watch_run E view (WatchMembers c s) w'" by (rule run_trans[OF node_steps_run[OF assms(6)] assms(2)])
    note v = node_steps_view[OF assms(1,6)]
    have "wt_pc w' \<noteq> Ended" using run_ended[OF run] v assms(3,4) by (auto simp: WatchMembers_def)
    then have idle: "wt_pc w' = Watching" "wt_pending w' = 0" "wt_main w' = Receiving" using stuck_idle[OF stuck] by auto
    have "current view (WatchMembers c s)" by (simp add: current_def WatchMembers_def)
    then have "current view w'" by (rule run_current[OF assms(1) run])
    moreover have "c_meta (wt_coord w') = c_meta c" using run_meta[OF run] by (simp add: WatchMembers_def)
    ultimately show "cluster_Members (wt_coord w') =
      AList.update (c_self (wt_coord w')) (c_addr (wt_coord w')) (live_members (c_meta c) (view (wt_kv w)))"
      using idle v assms(3) by (simp add: current_def knows_def)
  qed
qed


text \<open>The first listing, handed over and applied.\<close>

lemma first_view:
  assumes "Members E (c_meta c) s = (s', Inr ms)"
  shows "node_steps E 3 (WatchMembers c s) ((WatchMembers c s)\<lparr>wt_kv := s', wt_pc := Watching, wt_coord := SetMembers c ms\<rparr>)"
proof -
  let ?w = "WatchMembers c s"
  have "node_step E ?w (?w\<lparr>wt_kv := s', wt_pc := Offering ms\<rparr>)"
    by (rule listed) (simp_all add: WatchMembers_def assms)
  moreover have "node_step E (?w\<lparr>wt_kv := s', wt_pc := Offering ms\<rparr>) (?w\<lparr>wt_kv := s', wt_pc := Watching, wt_main := Applying ms\<rparr>)"
    using handed[of "?w\<lparr>wt_kv := s', wt_pc := Offering ms\<rparr>" ms E] by (simp add: WatchMembers_def)
  moreover have "node_step E (?w\<lparr>wt_kv := s', wt_pc := Watching, wt_main := Applying ms\<rparr>)
      (?w\<lparr>wt_kv := s', wt_pc := Watching, wt_coord := SetMembers c ms\<rparr>)"
    using applied[of "?w\<lparr>wt_kv := s', wt_pc := Watching, wt_main := Applying ms\<rparr>" ms E] by (simp add: WatchMembers_def)
  ultimately have "node_steps E (Suc (Suc (Suc 0))) ?w (?w\<lparr>wt_kv := s', wt_pc := Watching, wt_coord := SetMembers c ms\<rparr>)"
    by (meson no_step one_more)
  then show ?thesis by (simp add: eval_nat_numeral)
qed

definition two_members :: kvs where
  "two_members = kv_put (kv_put empty_kvs (memberKey example_meta ''n1'') (SString ''a1'')) (memberKey example_meta ''n2'') (SString ''a2'')"

lemma example_parts: "c_meta example_coord = example_meta" "c_self example_coord = ''n1''" "c_addr example_coord = ''a1''"
  by (simp_all add: example_coord_def cluster_New_def)

lemma two_members_listed:
  "Members mem_etcd (c_meta example_coord) two_members = (two_members, Inr [(''n1'', ''a1''), (''n2'', ''a2'')])"
proof -
  have "live_members example_meta two_members = [(''n1'', ''a1''), (''n2'', ''a2'')]" by code_simp
  then show ?thesis
    by (simp add: Members_def et_kvs_def mem_etcd_def live_members_def example_parts)
qed

theorem watch_follows_witness:
  "\<exists>w. watch_run mem_etcd (\<lambda>v. v) (WatchMembers example_coord two_members) w \<and>
     cluster_Members (wt_coord w) = [(''n1'', ''a1''), (''n2'', ''a2'')]"
proof -
  let ?w = "(WatchMembers example_coord two_members)\<lparr>wt_kv := two_members, wt_pc := Watching,
      wt_coord := SetMembers example_coord [(''n1'', ''a1''), (''n2'', ''a2'')]\<rparr>"
  have run: "watch_run mem_etcd (\<lambda>v. v) (WatchMembers example_coord two_members) ?w"
    by (rule node_steps_run[OF first_view[OF two_members_listed]])
  have "cluster_Members (wt_coord ?w) = AList.update (c_self (wt_coord ?w)) (c_addr (wt_coord ?w))
      (live_members (c_meta example_coord) (wt_kv ?w))"
    by (rule watch_follows[OF mem.etcd_client_axioms run]) (simp_all add: WatchMembers_def)
  moreover have "live_members (c_meta example_coord) two_members = [(''n1'', ''a1''), (''n2'', ''a2'')]"
    unfolding example_parts by code_simp
  ultimately have "cluster_Members (wt_coord ?w) = [(''n1'', ''a1''), (''n2'', ''a2'')]" by (simp add: example_parts)
  with run show ?thesis by blast
qed

theorem watch_catches_up_witness:
  "\<exists>w'. node_steps mem_etcd 3 (WatchMembers example_coord two_members) w' \<and> 3 \<le> effort (WatchMembers example_coord two_members)"
proof -
  let ?w = "WatchMembers example_coord two_members"
  note run = first_view[OF two_members_listed]
  have "\<forall>s s' e. Members mem_etcd (c_meta example_coord) s \<noteq> (s', Inl e)"
    by (simp add: Members_def et_kvs_def mem_etcd_def)
  from watch_catches_up[OF mem.etcd_client_axioms run_start _ _ this run] run show ?thesis by (auto simp: WatchMembers_def)
qed

text \<open>
  A watch that etcd closes is never opened again.  From the state a node is in after its first
  listing, etcd can close the watch, as it does when the watched revision has been compacted; then,
  with the context alive, there is a state from which no continuation changes the coordinator's members
  any more, although the members in etcd can become anything.
\<close>

theorem watch_lost:
  assumes "Members E (c_meta c) s = (s', Inr ms)"
  shows "\<exists>w. watch_run E view (WatchMembers c s) w \<and> \<not> wt_done w \<and>
    (\<forall>w'. watch_run E view w w' \<longrightarrow> wt_coord w' = SetMembers c ms) \<and>
    (\<forall>s2. \<exists>w'. watch_run E view w w' \<and> \<not> wt_done w' \<and> wt_kv w' = s2)"
proof -
  let ?w = "(WatchMembers c s)\<lparr>wt_kv := s', wt_pc := Watching, wt_coord := SetMembers c ms\<rparr>"
  let ?fin = "?w\<lparr>wt_open := False, wt_pc := Ended\<rparr>"
  have "watch_run E view (WatchMembers c s) (?w\<lparr>wt_open := False\<rparr>)"
    by (rule run_outside[OF node_steps_run[OF first_view[OF assms]] closes])
  then have run: "watch_run E view (WatchMembers c s) ?fin"
    using run_node watch_gone[of "?w\<lparr>wt_open := False\<rparr>" E] by (fastforce simp: WatchMembers_def)
  have "watch_run E view w w' \<Longrightarrow> wt_pc w = Ended \<and> wt_main w = Receiving \<Longrightarrow>
      wt_coord w' = wt_coord w \<and> wt_pc w' = Ended \<and> wt_main w' = Receiving" for w w'
    by (induction rule: watch_run.induct) (auto elim!: node_step_cases outside_step_cases)
  then have "wt_coord w' = SetMembers c ms" if "watch_run E view ?fin w'" for w'
    using that by (fastforce simp: WatchMembers_def)
  moreover have "watch_run E view ?fin (?fin\<lparr>wt_kv := s2, wt_pending := wt_pending ?fin\<rparr>)" for s2
    by (rule run_outside[OF run_start changes]) simp_all
  ultimately show ?thesis using run by (intro exI[of _ ?fin]) (force simp: WatchMembers_def)
qed

theorem watch_lost_witness:
  "\<exists>w. watch_run mem_etcd (\<lambda>v. v) (WatchMembers example_coord two_members) w \<and> \<not> wt_done w \<and>
    (\<forall>w'. watch_run mem_etcd (\<lambda>v. v) w w' \<longrightarrow> wt_coord w' = SetMembers example_coord [(''n1'', ''a1''), (''n2'', ''a2'')]) \<and>
    (\<exists>w'. watch_run mem_etcd (\<lambda>v. v) w w' \<and> \<not> wt_done w' \<and> wt_kv w' = empty_kvs)"
  using watch_lost[OF two_members_listed] by blast

end
