(* ===== verification/S3_System.thy ===== *)
theory S3_System
  imports S3_Roundtrip S3_Typing Loops Membership
begin

text \<open>
  The whole system: requests served by any nodes, the background passes of any nodes, nodes that join,
  leases that run out, and disks that change in any way, in any order.  Two things hold of every run:
  the manifests in etcd stay well formed, and an object that no request means to change stays the object
  that was put, though the background may move it to other nodes.
\<close>

section \<open>What the background does to the keys\<close>

text \<open>
  From \<open>v\<close> to \<open>v'\<close> every entry is as it was; or it is not an object's and it is gone or holds a string; or it
  is an object's and holds the manifest it had on other nodes.
\<close>

definition shifted :: "meta \<Rightarrow> kvs \<Rightarrow> kvs \<Rightarrow> bool" where
  "shifted M v v' \<longleftrightarrow> (\<forall>k. kv_lookup v' k = kv_lookup v k \<or>
     \<not> HasPrefix k (objects_prefix M) \<and> (\<forall>d. kv_lookup v' k = Some d \<longrightarrow> (\<exists>s. kd_Value d = SString s)) \<or>
     (\<exists>x m ns d. k = meta_key M x \<and> committed M v x = Some m \<and> kv_lookup v' k = Some d \<and>
        kd_Value d = SManifest (m\<lparr>m_Nodes := ns\<rparr>) \<and> distinct ns))"

lemma shifted_refl [simp]: "shifted M v v"
  by (simp add: shifted_def)

lemma meta_key_objects [simp]: "HasPrefix (meta_key M x) (objects_prefix M)"
  by (simp add: meta_key_def HasPrefix_prefix)

lemma committed_manifest:
  "kv_lookup v (meta_key M x) = Some d \<Longrightarrow> kd_Value d = SManifest m \<Longrightarrow> committed M v x = Some m"
  by (simp add: committed_def)

lemma shifted_committed:
  assumes "shifted M v v'"
  shows "committed M v' x = committed M v x \<or>
    (\<exists>m ns. committed M v x = Some m \<and> committed M v' x = Some (m\<lparr>m_Nodes := ns\<rparr>))"
  using assms[unfolded shifted_def, rule_format, of "meta_key M x"] committed_cong[of v' M x v] committed_manifest[of v' M x]
  by auto

lemma shifted_trans:
  assumes "shifted M v v1" "shifted M v1 v2"
  shows "shifted M v v2"
  unfolding shifted_def
proof
  fix k
  let ?same = "kv_lookup v2 k = kv_lookup v1 k"
  let ?goal = "kv_lookup v2 k = kv_lookup v k \<or>
     \<not> HasPrefix k (objects_prefix M) \<and> (\<forall>d. kv_lookup v2 k = Some d \<longrightarrow> (\<exists>s. kd_Value d = SString s)) \<or>
     (\<exists>x m ns d. k = meta_key M x \<and> committed M v x = Some m \<and> kv_lookup v2 k = Some d \<and>
        kd_Value d = SManifest (m\<lparr>m_Nodes := ns\<rparr>) \<and> distinct ns)"
  consider (same) ?same
    | (string) "\<not> HasPrefix k (objects_prefix M)" "\<forall>d. kv_lookup v2 k = Some d \<longrightarrow> (\<exists>s. kd_Value d = SString s)"
    | (moved) x m ns d where "k = meta_key M x" "committed M v1 x = Some m" "kv_lookup v2 k = Some d"
        "kd_Value d = SManifest (m\<lparr>m_Nodes := ns\<rparr>)" "distinct ns"
    using assms(2)[unfolded shifted_def, rule_format, of k] by blast
  then show ?goal
  proof cases
    case same
    then show ?thesis using assms(1)[unfolded shifted_def, rule_format, of k] by simp
  next
    case string
    then show ?thesis by blast
  next
    case (moved x m ns d)
    have "\<exists>m0. committed M v x = Some m0 \<and> m0\<lparr>m_Nodes := ns\<rparr> = m\<lparr>m_Nodes := ns\<rparr>"
      using shifted_committed[OF assms(1), of x] moved(2) by (elim disjE exE conjE) (simp, auto)
    then show ?thesis using moved by metis
  qed
qed


text \<open>Requests to etcd that touch no object.\<close>

primrec tidy_request :: "meta \<Rightarrow> etcd_req \<Rightarrow> bool" where
  "tidy_request M (EPut k x) = (\<not> HasPrefix k (objects_prefix M) \<and> (\<exists>s. x = SString s))"
| "tidy_request M (EDelete k) = (\<not> HasPrefix k (objects_prefix M))"
| "tidy_request M (EDeletePrefix p) = (\<forall>k. HasPrefix k p \<longrightarrow> \<not> HasPrefix k (objects_prefix M))"
| "tidy_request M (EGet k) = True"
| "tidy_request M (EGetPrefix p) = True"
| "tidy_request M (ERange a b l) = True"
| "tidy_request M (ETxn cs k x) = False"
| "tidy_request M (EGrant t) = True"

lemma tidy_apply: "tidy_request M q \<Longrightarrow> shifted M v (fst (etcd_apply v q))"
  by (cases q) (auto simp: shifted_def Let_def)

lemma apart_from_objects [simp]:
  "\<not> HasPrefix (cursorKey M a b) (objects_prefix M)" "\<not> HasPrefix (writingKey M i) (objects_prefix M)"
  "\<not> HasPrefix (memberKey M i) (objects_prefix M)" "\<not> HasPrefix (completionKey M i) (objects_prefix M)"
  "HasPrefix k (uploadPrefix M i) \<Longrightarrow> \<not> HasPrefix k (objects_prefix M)"
  by (auto simp: HasPrefix_prefix prefix_def objects_prefix_def join_def cursorKey_def writingKey_def writingPrefix_def
      memberKey_def memberPrefix_def completionKey_def uploadPrefix_def)

context etcd_client
begin

lemma unit_shifted: "et_unit E s q = (s', r) \<Longrightarrow> tidy_request M q \<Longrightarrow> shifted M (view s) (view s')"
  using et_unit_any[of s q s' r] tidy_apply[of M q "view s"] by auto

lemma kvs_shifted: "et_kvs E s q = (s', r) \<Longrightarrow> read_req q \<Longrightarrow> shifted M (view s) (view s')"
  using et_kvs_view[of s q s' r] by simp

lemma SaveCursor_shifted: "SaveCursor E M s task nd k = (s', r) \<Longrightarrow> shifted M (view s) (view s')"
  by (auto simp: SaveCursor_def intro: unit_shifted)

lemma Cursor_shifted: "Cursor E M s task nd = (s', r) \<Longrightarrow> shifted M (view s) (view s')"
  by (auto simp: Cursor_def dest!: et_kvs_view split: prod.splits sum.splits list.splits)

lemma DoneWriting_shifted: "DoneWriting E M s i = (s', r) \<Longrightarrow> shifted M (view s) (view s')"
  by (auto simp: DoneWriting_def intro: unit_shifted)

lemma DeleteUpload_shifted: "DeleteUpload E M s i = (s', r) \<Longrightarrow> shifted M (view s) (view s')"
  unfolding DeleteUpload_def by (rule unit_shifted) auto

lemma expire_page_shifted: "expire_page E M cutoff kv start n s = (s', st, m, r) \<Longrightarrow> shifted M (view s) (view s')"
proof (induction kv arbitrary: start n s)
  case (Cons e kv)
  obtain k d where e: "e = (k, d)" by (cases e)
  obtain s1 r1 where d: "DeleteUpload E M s (path_Base (path_Dir k)) = (s1, r1)" by fastforce
  show ?case using Cons e d shifted_trans[OF DeleteUpload_shifted[OF d]] DeleteUpload_shifted[OF d]
    by (auto split: if_splits sum.splits option.splits)
qed simp

lemma expire_pages_shifted: "expire_pages fuel E M cutoff start n s = Some (s', m, r) \<Longrightarrow> shifted M (view s) (view s')"
proof (induction fuel arbitrary: start n s)
  case (Suc fuel)
  show ?case
  proof (cases "start \<ge> et_prefixEnd E (uploads_prefix M)")
    case True
    then show ?thesis using Suc.prems by simp
  next
    case False
    obtain s1 r1 where k: "et_kvs E s (ERange start (et_prefixEnd E (uploads_prefix M)) 64) = (s1, r1)" by fastforce
    have v1: "view s1 = view s" by (rule et_kvs_view[OF k]) simp
    obtain e kv mr where r1: "r1 = Inl e \<or> r1 = Inr (kv, mr)" by (cases r1) auto
    obtain s2 st2 n2 r2 where p: "expire_page E M cutoff kv start n s1 = (s2, st2, n2, r2)" by (metis prod_cases4)
    show ?thesis using Suc.prems False k r1 p v1 expire_page_shifted[OF p] shifted_trans[OF expire_page_shifted[OF p]] Suc.IH
      by (auto split: option.splits list.splits)
  qed
qed simp

lemma register_shifted: "register E M s i addr ttl ka = (s', r) \<Longrightarrow> shifted M (view s) (view s')"
  unfolding register_def
  by (auto split: prod.splits option.splits) (metis unit_shifted shifted_trans apart_from_objects(3) tidy_request.simps(1,8))+

end


section \<open>The passes\<close>

lemma nextSlice_shifted:
  assumes "etcd_client (sy_etcd X) view" "nextSlice X c s = (s', r)"
  shows "shifted (c_meta c) (view s) (view s')"
proof -
  obtain s1 r1 where cur: "Cursor (sy_etcd X) (c_meta c) s collectTask (c_self c) = (s1, r1)" by fastforce
  note v1 = etcd_client.Cursor_shifted[OF assms(1) cur]
  show ?thesis
  proof (cases r1)
    case (Inl e)
    then show ?thesis using assms(2) cur v1 by (simp add: nextSlice_def)
  next
    case (Inr here)
    obtain s2 r2 where save: "SaveCursor (sy_etcd X) (c_meta c) s1 collectTask (c_self c)
        [idAlphabet ! ((slice_index here + 1) mod length idAlphabet)] = (s2, r2)" by fastforce
    have "s' = s2" using assms(2) cur Inr save by (auto simp: nextSlice_def Let_def split: option.splits)
    then show ?thesis using shifted_trans[OF v1 etcd_client.SaveCursor_shifted[OF assms(1) save]] by simp
  qed
qed

lemma in_flight_shifted:
  assumes "etcd_client (sy_etcd X) view"
  shows "in_flight_loop X c ws ids s = (s', r) \<Longrightarrow> shifted (c_meta c) (view s) (view s')"
proof (induction ws arbitrary: ids s)
  case (Cons w ws)
  obtain i nd where w: "w = (i, nd)" by (cases w)
  obtain s1 r1 where d: "DoneWriting (sy_etcd X) (c_meta c) s i = (s1, r1)" by fastforce
  note o1 = etcd_client.DoneWriting_shifted[OF assms d]
  show ?case using Cons w d o1 shifted_trans[OF o1] by (auto split: if_splits option.splits)
qed simp

lemma referenced_shifted:
  assumes "etcd_client (sy_etcd X) view" "referenced fuel X c sl s = Some (s', r)"
  shows "shifted (c_meta c) (view s) (view s')"
proof -
  obtain s1 r1 where w: "writesInFlight X c s = (s1, r1)" by fastforce
  obtain s0 r0 where wr: "Writing (sy_etcd X) (c_meta c) s = (s0, r0)" by fastforce
  have "view s0 = view s"
    using wr by (auto simp: Writing_def dest!: etcd_client.et_kvs_view[OF assms(1)] split: prod.splits sum.splits)
  then have "shifted (c_meta c) (view s) (view s1)"
    using w wr in_flight_shifted[OF assms(1)] by (cases r0) (force simp: writesInFlight_def)+
  moreover have "view s' = view s1"
    using assms(2) w
    by (auto simp: referenced_def scanPage_def split: sum.splits option.splits
        dest!: etcd_client.all_parts(1)[OF assms(1), where k = 255, simplified]
          etcd_client.all_objects(1)[OF assms(1), where k = 255, simplified])
  ultimately show ?thesis by simp
qed

lemma Collect_shifted:
  assumes "etcd_client (sy_etcd X) view" "cluster_Collect fuel X c w grace = Some (w', st, err)"
  shows "shifted (c_meta c) (view (w_kv w)) (view (w_kv w'))"
proof -
  obtain s1 r1 where nx: "nextSlice X c (w_kv w) = (s1, r1)" by fastforce
  note n = nextSlice_shifted[OF assms(1) nx]
  show ?thesis
  proof (cases r1)
    case (Inl e)
    then show ?thesis using assms(2) nx n by (auto simp: cluster_Collect_def)
  next
    case (Inr sl)
    obtain s2 r2 where ref: "referenced fuel X c sl s1 = Some (s2, r2)"
      using assms(2) nx Inr by (auto simp: cluster_Collect_def Let_def split: option.splits)
    have "w_kv w' = s2" using assms(2) nx Inr ref
      by (cases r2) (auto simp: cluster_Collect_def Let_def split: prod.splits option.splits if_splits)
    then show ?thesis using shifted_trans[OF n referenced_shifted[OF assms(1) ref]] by simp
  qed
qed

text \<open>The walk of the other passes, given what one visit does to the keys.\<close>

lemma page_valid:
  assumes "etcd_client (sy_etcd X) view" "ScanObjects (sy_etcd X) (c_meta c) s '''' frm scanPage = (s', Inr xs)" "b \<in> set xs"
  shows "valid_object c (view s) b"
proof -
  have "decode_all (decode_obj (c_meta c)) (take 256 (object_rest (c_meta c) '''' (view s) frm)) = Inr xs"
    using etcd_client.ScanObjects_page[OF assms(1,2)] by (simp add: scanPage_def)
  from decode_all_from[OF this assms(3)] obtain e where e: "e \<in> set (take 256 (object_rest (c_meta c) '''' (view s) frm))" "decode_obj (c_meta c) e = Inr b"
    by blast
  obtain k d where kd: "e = (k, d)" by (cases e)
  have k: "HasPrefix k (meta_key (c_meta c) '''')" "kv_lookup (view s) k = Some d"
    using in_set_takeD[OF e(1)] kd by (auto simp: object_rest_def set_kv_select)
  then have "k = meta_key (c_meta c) (TrimPrefix k (objects_prefix (c_meta c)))" using meta_key_trim by metis
  then show ?thesis using decode_obj_committed[of "view s" "c_meta c" _ d b] k(2) e(2) kd unfolding valid_object_def by metis
qed

definition visit_shifts :: "coord \<Rightarrow> ('s \<Rightarrow> kvs) \<Rightarrow> ('s, 'acc) visit \<Rightarrow> bool" where
  "visit_shifts c view visit \<longleftrightarrow> (\<forall>v0 b w acc. valid_object c v0 b \<longrightarrow> shifted (c_meta c) v0 (view (w_kv w)) \<longrightarrow>
     shifted (c_meta c) v0 (view (w_kv (fst (fst (visit b (w, acc)))))))"

lemma visits_shift:
  assumes "visit_shifts c view visit" "\<forall>b \<in> set bs. valid_object c v0 b"
  shows "shifted (c_meta c) v0 (view (w_kv w)) \<Longrightarrow> foldl (\<lambda>a b. fst (visit b a)) (w, acc) bs = (w', acc') \<Longrightarrow>
    shifted (c_meta c) v0 (view (w_kv w'))"
  using assms(2)
proof (induction bs arbitrary: w acc)
  case (Cons b bs)
  obtain w1 acc1 where v: "fst (visit b (w, acc)) = (w1, acc1)" by fastforce
  have "shifted (c_meta c) v0 (view (w_kv w1))"
    using assms(1) Cons.prems(1,3) v unfolding visit_shifts_def by (metis fst_conv list.set_intros(1))
  then show ?case using Cons.IH[of w1 acc1] Cons.prems v by simp
qed simp

lemma walk_pages_shifted:
  assumes "etcd_client (sy_etcd X) view" "visit_shifts c view visit"
  shows "walk_pages fuel X c task visit cursor (w, acc) = Some ((w', acc'), err) \<Longrightarrow> shifted (c_meta c) (view (w_kv w)) (view (w_kv w'))"
proof (induction fuel arbitrary: cursor w acc)
  case (Suc fuel)
  let ?frm = "if cursor \<noteq> '''' then After cursor else ''''"
  obtain s r where sc: "ScanObjects (sy_etcd X) (c_meta c) (w_kv w) '''' ?frm scanPage = (s, r)" by fastforce
  have v: "view s = view (w_kv w)" using etcd_client.ScanObjects_view[OF assms(1) sc] .
  show ?case
  proof (cases r)
    case (Inl e)
    then show ?thesis using Suc.prems sc v by auto
  next
    case (Inr xs)
    show ?thesis
    proof (cases xs)
      case Nil
      obtain s1 r1 where save: "SaveCursor (sy_etcd X) (c_meta c) s task (c_self c) '''' = (s1, r1)" by fastforce
      then show ?thesis using Suc.prems sc Inr Nil v etcd_client.SaveCursor_shifted[OF assms(1) save] by auto
    next
      case (Cons b bs)
      have valid: "\<forall>b' \<in> set (b # bs). valid_object c (view (w_kv w)) b'"
        using page_valid[OF assms(1) sc[unfolded Inr Cons]] by blast
      obtain w1 acc1 where f: "foldl (\<lambda>a b. fst (visit b a)) (w\<lparr>w_kv := s\<rparr>, acc) (b # bs) = (w1, acc1)" by fastforce
      have s1: "shifted (c_meta c) (view (w_kv w)) (view (w_kv w1))"
        by (rule visits_shift[OF assms(2) valid _ f]) (simp add: v)
      obtain s2 r2 where save: "SaveCursor (sy_etcd X) (c_meta c) (w_kv w1) task (c_self c) (ob_Key (last (b # bs))) = (s2, r2)"
        by fastforce
      note s2 = shifted_trans[OF s1 etcd_client.SaveCursor_shifted[OF assms(1) save]]
      show ?thesis
      proof (cases r2)
        case (Some e)
        then show ?thesis using Suc.prems sc Inr Cons f save s2 by auto
      next
        case None
        then have "walk_pages fuel X c task visit (ob_Key (last (b # bs))) (w1\<lparr>w_kv := s2\<rparr>, acc1) = Some ((w', acc'), err)"
          using Suc.prems sc Inr Cons f save by (auto simp: Let_def)
        from shifted_trans[OF s2] Suc.IH[OF this] show ?thesis by simp
      qed
    qed
  qed
qed simp

lemma walk_shifted:
  assumes "etcd_client (sy_etcd X) view" "visit_shifts c view visit"
    and "walk fuel X c task visit (w, acc) = Some ((w', acc'), err)"
  shows "shifted (c_meta c) (view (w_kv w)) (view (w_kv w'))"
proof -
  obtain s r where cur: "Cursor (sy_etcd X) (c_meta c) (w_kv w) task (c_self c) = (s, r)" by fastforce
  note v = etcd_client.Cursor_shifted[OF assms(1) cur]
  show ?thesis using assms(3) cur v shifted_trans[OF v] walk_pages_shifted[OF assms(1,2)]
    by (cases r) (fastforce simp: walk_def)+
qed

text \<open>A visit of repair or scrub leaves the keys alone; one of rebalancing may commit its object on other nodes.\<close>

lemma repair_shifts: "visit_shifts c view (repairObject X c)"
  by (auto simp: visit_shifts_def repairObject_def split: prod.splits)

lemma scrub_shifts: "visit_shifts c view (scrubObject X c)"
  by (auto simp: visit_shifts_def scrubObject_def split: prod.splits)

lemma rebalance_shifts:
  fixes X :: "'s sys"
  assumes "etcd_client (sy_etcd X) view" "coord_wf c"
  shows "visit_shifts c view (rebalance_visit X c)"
  unfolding visit_shifts_def
proof (intro allI impI)
  fix v0 b w acc
  assume b: "valid_object c v0 b" and v0: "shifted (c_meta c) v0 (view (w_kv (w :: 's world)))"
  obtain w' st' e where r: "rebalanceObject X c b (w, acc) = ((w', st'), e)" by (metis surj_pair)
  have "shifted (c_meta c) v0 (view (w_kv w'))"
    using r
  proof (cases rule: rebalanceObject_cases)
    case (commit a s' r)
    let ?want = "want_nodes c (ob_Key b) (ob_Manifest b)"
    have "distinct ?want" using assms(2) by (simp add: want_nodes_def distinct_Owners)
    then have "shifted (c_meta c) v0 (kv_put (view (w_kv w)) (meta_key (c_meta c) (ob_Key b)) (SManifest ((ob_Manifest b)\<lparr>m_Nodes := ?want\<rparr>)))"
      using v0 b unfolding shifted_def valid_object_def by auto
    then show ?thesis using etcd_client.CommitIfUnchanged_put[OF assms(1) commit(5)] commit(3) v0 by auto
  qed (use v0 in simp_all)
  then show "shifted (c_meta c) v0 (view (w_kv (fst (fst (rebalance_visit X c b (w, acc))))))"
    using r by (cases e) (simp_all add: rebalance_visit_def)
qed


section \<open>A run of the cluster\<close>

text \<open>
  A step of the system: a request some node serves that does not mean to change a key of \<open>Q\<close>; a pass of some
  node; a node that joins; a lease that runs out, on a registration or on what a finished upload left; and
  any change to the disks.
\<close>

inductive system_step :: "('s \<Rightarrow> kvs) \<Rightarrow> meta \<Rightarrow> string set \<Rightarrow> 's world \<Rightarrow> 's world \<Rightarrow> bool" for view M Q where
  serves: "etcd_client (sy_etcd (gw_sys G)) view \<Longrightarrow> c_meta (gw_cluster G) = M \<Longrightarrow> coord_wf (gw_cluster G) \<Longrightarrow>
    serve G t r w = Some (w', out) \<Longrightarrow> \<forall>k \<in> Q. \<not> touches (intent_of t r) (upload_key G view w) k \<Longrightarrow> system_step view M Q w w'"
| repairs: "etcd_client (sy_etcd X) view \<Longrightarrow> c_meta c = M \<Longrightarrow> coord_wf c \<Longrightarrow>
    cluster_Repair fuel X c w = Some (w', rst, err) \<Longrightarrow> system_step view M Q w w'"
| rebalances: "etcd_client (sy_etcd X) view \<Longrightarrow> c_meta c = M \<Longrightarrow> coord_wf c \<Longrightarrow>
    cluster_Rebalance fuel X c w = Some (w', bst, err) \<Longrightarrow> system_step view M Q w w'"
| scrubs: "etcd_client (sy_etcd X) view \<Longrightarrow> c_meta c = M \<Longrightarrow> coord_wf c \<Longrightarrow>
    cluster_Scrub fuel X c w = Some (w', sst, err) \<Longrightarrow> system_step view M Q w w'"
| expires: "etcd_client (sy_etcd X) view \<Longrightarrow> c_meta c = M \<Longrightarrow>
    cluster_ExpireUploads fuel X c w = Some (w', n, err) \<Longrightarrow> system_step view M Q w w'"
| collects: "etcd_client (sy_etcd X) view \<Longrightarrow> c_meta c = M \<Longrightarrow>
    cluster_Collect fuel X c w grace = Some (w', cst, err) \<Longrightarrow> system_step view M Q w w'"
| joins: "etcd_client E view \<Longrightarrow> Join E M (w_kv w) i addr ttl ka = (s', err) \<Longrightarrow> system_step view M Q w (w\<lparr>w_kv := s'\<rparr>)"
| lapses: "view s' = kv_drop (view (w_kv w)) (\<lambda>k. k = memberKey M i \<or> k = completionKey M i) \<Longrightarrow>
    system_step view M Q w (w\<lparr>w_kv := s'\<rparr>)"
| disks_change: "system_step view M Q w (w\<lparr>w_disks := D\<rparr>)"

inductive system_run :: "('s \<Rightarrow> kvs) \<Rightarrow> meta \<Rightarrow> string set \<Rightarrow> 's world \<Rightarrow> 's world \<Rightarrow> bool" for view M Q where
  at_rest: "system_run view M Q w w"
| goes_on: "system_run view M Q w w1 \<Longrightarrow> system_step view M Q w1 w2 \<Longrightarrow> system_run view M Q w w2"

inductive_cases system_step_cases: "system_step view M Q w w'"

text \<open>A step is a request, or it only shifts what is in etcd.\<close>

lemma system_step_shifts:
  assumes "system_step view M Q w w'"
  obtains (request) G t r out where "etcd_client (sy_etcd (gw_sys G)) view" "c_meta (gw_cluster G) = M" "coord_wf (gw_cluster G)"
      "serve G t r w = Some (w', out)" "\<forall>k \<in> Q. \<not> touches (intent_of t r) (upload_key G view w) k"
  | (background) "shifted M (view (w_kv w)) (view (w_kv w'))"
  using assms
proof (cases rule: system_step.cases)
  case (serves G t r out)
  then show thesis by (rule request)
next
  case (repairs X c fuel st err)
  then obtain e where "walk fuel X c ''repair'' (repairObject X c) (w, zero_stats) = Some ((w', st), e)"
    by (auto simp: cluster_Repair_def split: option.splits prod.splits)
  from walk_shifted[OF repairs(1) repair_shifts this] show thesis using background repairs(2) by simp
next
  case (rebalances X c fuel st err)
  then have "walk fuel X c ''rebalance'' (rebalance_visit X c) (w, zero_rebalance) = Some ((w', st), err)"
    by (auto simp: cluster_Rebalance_def split: option.splits)
  from walk_shifted[OF rebalances(1) rebalance_shifts[OF rebalances(1,3)] this] show thesis using background rebalances(2) by simp
next
  case (scrubs X c fuel st err)
  then obtain e where "walk fuel X c ''scrub'' (scrubObject X c) (w, zero_scrub) = Some ((w', st), e)"
    by (auto simp: cluster_Scrub_def split: option.splits prod.splits)
  from walk_shifted[OF scrubs(1) scrub_shifts this] show thesis using background scrubs(2) by simp
next
  case (expires X c fuel n err)
  then obtain s' where "expire_pages fuel (sy_etcd X) M (ev_now (sy_env X) - UploadMaxAge) (uploads_prefix M) 0 (w_kv w) = Some (s', n, err)"
    "w_kv w' = s'" by (auto simp: cluster_ExpireUploads_def ExpireUploads_def split: option.splits)
  from background etcd_client.expire_pages_shifted[OF expires(1) this(1)] this(2) show thesis by simp
next
  case (collects X c fuel grace st err)
  then show thesis using background Collect_shifted[OF collects(1,3)] by simp
next
  case (joins E i addr ttl ka s' err)
  have "shifted M (view (w_kv w)) (view s')"
    using joins(3) etcd_client.register_shifted[OF joins(2)] by (auto simp: Join_def split: if_splits)
  then show thesis using background joins(1) by simp
next
  case (lapses s' i)
  then show thesis using background by (auto simp: shifted_def)
next
  case (disks_change D)
  then show thesis using background by simp
qed


section \<open>Properties of every run\<close>

lemma shifted_wf:
  assumes "shifted M v v'" "values_satisfy manifest_wf v"
  shows "values_satisfy manifest_wf v'"
  unfolding values_satisfy_def
proof (intro allI impI)
  fix k d m
  assume k: "kv_lookup v' k = Some d" and d: "kd_Value d = SManifest m"
  consider "kv_lookup v k = Some d" | x m0 ns where "committed M v x = Some m0" "m = m0\<lparr>m_Nodes := ns\<rparr>" "distinct ns"
    using assms(1)[unfolded shifted_def, rule_format, of k] k d by auto
  then show "manifest_wf m"
  proof cases
    case 1
    then show ?thesis using assms(2) d by (auto simp: values_satisfy_def)
  next
    case (2 x m0 ns)
    then obtain d0 where "kv_lookup v (meta_key M x) = Some d0" "decode_manifest (kd_Value d0) = Inr m0"
      by (auto simp: committed_def split: option.splits sum.splits)
    from wf.decoded[OF assms(2) this] 2 show ?thesis by (auto simp: manifest_wf_def)
  qed
qed

lemma run_keeps_object:
  assumes "system_run view M Q w w'" "key \<in> Q" "committed M (view (w_kv w)) key = Some m"
  shows "\<exists>ns. committed M (view (w_kv w')) key = Some (m\<lparr>m_Nodes := ns\<rparr>)"
  using assms(1,3)
proof (induction rule: system_run.induct)
  case (at_rest w)
  then show ?case by (intro exI[of _ "m_Nodes m"]) simp
next
  case (goes_on w w1 w2)
  then obtain ns where ns: "committed M (view (w_kv w1)) key = Some (m\<lparr>m_Nodes := ns\<rparr>)" by blast
  from goes_on.hyps(2) show ?case
  proof (cases rule: system_step_shifts)
    case (request G t r out)
    have "committed M (view (w_kv w2)) key = committed M (view (w_kv w1)) key"
      using serve_steps[OF request(1,4)] may_become_frame request(2) bspec[OF request(5) assms(2)]
      by (fastforce simp: namespace_def split: sum.splits)
    then show ?thesis using ns by (intro exI[of _ ns]) simp
  next
    case background
    from shifted_committed[OF this, of key] ns
    have "committed M (view (w_kv w2)) key = Some (m\<lparr>m_Nodes := ns\<rparr>) \<or> (\<exists>ns2. committed M (view (w_kv w2)) key = Some (m\<lparr>m_Nodes := ns2\<rparr>))"
      by auto
    then show ?thesis by blast
  qed
qed

text \<open>
  C8. The manifests in etcd are well formed, always.  Start from a store whose manifests are, and let any
  nodes serve any requests, repair, rebalance, scrub, collect and expire, let nodes join and leases run
  out, and let the disks change in any way, in any order and however each ends.  Then every manifest is
  well formed: every chunk and every part has a size that is not negative, the size of an object is the
  sum of its chunks' sizes and, when it has parts, of its parts' sizes, and no owner is named twice.
\<close>

theorem system_keeps_wf:
  assumes "system_run view M Q w w'" and "values_satisfy manifest_wf (view (w_kv w))"
  shows "values_satisfy manifest_wf (view (w_kv w'))"
  using assms
proof (induction rule: system_run.induct)
  case (goes_on w w1 w2)
  from goes_on.hyps(2) show ?case
  proof (cases rule: system_step_shifts)
    case (request G t r out)
    from wf.serve_kept[OF request(1,3) goes_on.IH[OF goes_on.prems] request(4)] show ?thesis .
  next
    case background
    from shifted_wf[OF this goes_on.IH[OF goes_on.prems]] show ?thesis .
  qed
qed simp

theorem system_keeps_wf_witness:
  "\<exists>w' rs. serve demo_gateway Object (sign_request (demo_put [] (bytes_NewReader [1, 2, 3]))) example_world = Some (w', Answered rs) \<and>
    rs_Status rs = 200 \<and> values_satisfy manifest_wf (w_kv w')"
proof -
  obtain w' m rs where s: "serve demo_gateway Object (sign_request (demo_put [] (bytes_NewReader [1, 2, 3]))) example_world =
      Some (w', Answered rs)" "rs_Status rs = 200"
    by (rule demo_stored)
  have e: "etcd_client (sy_etcd (gw_sys demo_gateway)) (\<lambda>s. s)" using example_etcd(1) by (simp add: demo_gateway_def)
  have c: "coord_wf (gw_cluster demo_gateway)" using example_coord_wf by (simp add: demo_gateway_def)
  have run: "system_run (\<lambda>s. s) (c_meta (gw_cluster demo_gateway)) {} example_world w'"
    by (rule goes_on[OF at_rest serves[OF e refl c s(1)]]) simp
  have "values_satisfy manifest_wf (w_kv example_world)"
    by (simp add: example_world_def values_satisfy_def empty_kvs_def kv_lookup_def)
  from system_keeps_wf[OF run this] s show ?thesis by auto
qed

text \<open>
  C7. What was uploaded is what is downloaded.  A \<^verbatim>\<open>PUT\<close> that passed the signature check was answered
  200 by one node.  Since then any nodes served requests that do not mean to change the key, repaired,
  rebalanced, scrubbed, collected and expired, nodes joined, leases ran out, and the disks changed in any
  way; then a \<^verbatim>\<open>GET\<close> of the key is answered 200 or 206 by some node.  Then the \<^verbatim>\<open>Content-Length\<close> of the
  answer is that of the range asked for within the uploaded body, and an answer whose body has the length
  it promises is exactly those bytes; a body that is short tells the client not to trust it.  Steps take
  effect one after another, and the checksum of a chunk is assumed to detect what corruption there is.
\<close>

theorem Put_then_Get:
  assumes "etcd_client (sy_etcd (gw_sys G)) view" and "etcd_client (sy_etcd (gw_sys G2)) view"
    and "c_meta (gw_cluster G2) = c_meta (gw_cluster G)"
    and "addresses_right (gw_sys G) (gw_cluster G) (c_live (gw_cluster G))"
    and "0 < c_chunkSize (gw_cluster G)" and "coord_wf (gw_cluster G)" and "0 < gw_bs G2"
    and "sigv4_Verify (gl_time (gw_lib G)) (gw_ks G) (gw_creds G) (ev_now (sy_env (gw_sys G))) r = Inr r'"
    and "intent_of Object r = Stores key" and "in_i64 (int (length (rdata (rq_Body r'))))"
    and "serve G Object r w = Some (w1, Answered rs)" and "rs_Status rs = 200"
    and "system_run view (c_meta (gw_cluster G)) {key} w1 w2"
    and "\<And>m k. committed (c_meta (gw_cluster G)) (view (w_kv w2)) key = Some m \<Longrightarrow> k < length (m_Chunks m) \<Longrightarrow>
      crc_detects (gw_sys G2) (gw_cluster G2) (w_disks w2) m (m_Chunks m ! k)
        (cuts (nat (c_chunkSize (gw_cluster G))) (rdata (rq_Body r')) ! k)"
    and "downloads q key" and "serve G2 Object q w2 = Some (w3, Answered rs2)" and "rs_Status rs2 \<in> {200, 206}"
  shows "\<exists>off len. parseRange (h_Get (rq_Header q) ''Range'') (int (length (rdata (rq_Body r')))) = Inr (off, len) \<and>
    h_Get (rs_Header rs2) ''Content-Length'' = fmt_int len \<and>
    (int (length (rs_Body rs2)) = len \<longrightarrow> rs_Body rs2 = take (nat len) (drop (nat off) (rdata (rq_Body r'))))"
  by (rule get_after_put[OF assms(1-12) run_keeps_object[OF assms(13)] assms(14-17)]) simp_all

theorem Put_then_Get_witness:
  "\<exists>w1 rs w3 rs2. serve demo_gateway Object (sign_request (demo_put [] (bytes_NewReader [1, 2, 3]))) example_world = Some (w1, Answered rs) \<and>
    serve demo_gateway Object demo_get (w1\<lparr>w_disks := w_disks example_read\<rparr>) = Some (w3, Answered rs2) \<and>
    h_Get (rs_Header rs2) ''Content-Length'' = ''3'' \<and> rs_Body rs2 = [1, 2, 3]"
proof -
  let ?b = "bytes_NewReader [1, 2, 3]"
  let ?r = "sign_request (demo_put [] ?b)"
  let ?r' = "?r\<lparr>rq_Body := ?b, rq_Trailers := [], rq_ContentLength := 0\<rparr>"
  obtain w1 m rs where put: "serve demo_gateway Object ?r example_world = Some (w1, Answered rs)" "rs_Status rs = 200"
    "cluster_Put example_sys example_coord example_world ''b/k'' ?b (zero_options\<lparr>po_Size := 0\<rparr>) ''AB'' = (w1, Inr m)"
    by (rule demo_stored)
  note ack = Put_acked[OF example_etcd(1) example_addresses example_chunk example_coord_wf put(3),
      unfolded bytes_NewReader_simps example_cuts]
  let ?w2 = "w1\<lparr>w_disks := w_disks example_read\<rparr>"
  have com: "committed example_meta (w_kv ?w2) ''b/k'' = Some m" using ack by simp
  have m: "m_Coding m = zero_scheme" "set (m_Nodes m) = {''n1'', ''n2''}" "length (m_Chunks m) = 2" "m_Size m = 3"
    subgoal using ack by simp
    subgoal using ack example_owners by blast
    subgoal using ack by (simp add: example_ds_def)
    subgoal using ack by simp
    done
  have ob: "\<forall>k < length (m_Chunks m). obtainable example_sys example_coord (w_disks example_read) m (m_Chunks m ! k) (example_ds ! k)"
    using ack m(3) example_obtainable[OF m(1,2)] by simp
  then have "list_all2 (obtainable example_sys example_coord (w_disks ?w2) m) (m_Chunks m) example_ds"
    using m(3) by (simp add: list_all2_conv_all_nth example_ds_def)
  then obtain out where s: "Stream example_sys example_coord 2 ?w2 m \<lparr>sk_data = [], sk_room = 9\<rparr> = (out, None)" "sk_data out = [1, 2, 3]"
    using Stream_delivers[of 2 m example_sys example_coord ?w2 example_ds "\<lparr>sk_data = [], sk_room = 9\<rparr>"] m
    by (auto simp: example_ds_def in_i64_def)
  obtain rs2 where get: "serve demo_gateway Object demo_get ?w2 = Some (?w2, Answered rs2)" "rs_Status rs2 = 200"
    "rs_Body rs2 = sk_data (fst (StreamRange example_sys example_coord 2 ?w2 m \<lparr>sk_data = [], sk_room = 9\<rparr> 0 (m_Size m)))"
    using com by (rule demo_get_serve)
  have body: "rs_Body rs2 = [1, 2, 3]" using get(3) s by (simp add: StreamRange_def Stream_def Read_def)
  have v: "sigv4_Verify (gl_time (gw_lib demo_gateway)) (gw_ks demo_gateway) (gw_creds demo_gateway)
      (ev_now (sy_env (gw_sys demo_gateway))) ?r = Inr ?r'"
    using demo_plain_verified by (simp add: demo_gateway_def demo_lib_def example_sys_def example_env_def)
  have "\<exists>off len. parseRange (h_Get (rq_Header demo_get) ''Range'') (int (length (rdata (rq_Body ?r')))) = Inr (off, len) \<and>
      h_Get (rs_Header rs2) ''Content-Length'' = fmt_int len \<and>
      (int (length (rs_Body rs2)) = len \<longrightarrow> rs_Body rs2 = take (nat len) (drop (nat off) (rdata (rq_Body ?r'))))"
  proof (rule Put_then_Get[where G = demo_gateway and ?G2.0 = demo_gateway and view = "\<lambda>s. s" and ?w2.0 = ?w2, OF _ _ _ _ _ _ _ v _ _ put(1,2) _ _ demo_get_request(5) get(1)])
    show "intent_of Object ?r = Stores ''b/k''" by (rule demo_put_intent)
    show "system_run (\<lambda>s. s) (c_meta (gw_cluster demo_gateway)) {''b/k''} w1 ?w2"
      by (rule goes_on[OF at_rest disks_change])
    show "crc_detects (gw_sys demo_gateway) (gw_cluster demo_gateway) (w_disks ?w2) m' (m_Chunks m' ! k)
        (cuts (nat (c_chunkSize (gw_cluster demo_gateway))) (rdata (rq_Body ?r')) ! k)"
      if "committed (c_meta (gw_cluster demo_gateway)) (w_kv ?w2) ''b/k'' = Some m'" "k < length (m_Chunks m')" for m' k
      using that com ob obtainable_chunk m(1) example_cuts by (fastforce simp: demo_gateway_def crc_detects_def)
  qed (use example_etcd(1) example_addresses example_coord_wf get(2) in \<open>simp_all add: demo_gateway_def in_i64_def\<close>)
  moreover have "parseRange (h_Get (rq_Header demo_get) ''Range'') 3 = Inr (0, 3)" by (simp add: demo_get_request demo_get_plain no_range)
  moreover have "fmt_int 3 = ''3''" by code_simp
  ultimately show ?thesis using put(1) get(1) body by auto
qed

end
