(* ===== verification/Kavod.thy ===== *)
theory Kavod
  imports Membership GoStrings
begin

text \<open>
  Starting a node, \<^verbatim>\<open>cmd/kavod/main.go\<close>: reading the erasure scheme from its flag, checking the address
  peers are to dial, opening the stores, configuring the coordinator, registering, and taking the first
  membership, all before anything is served.  Parsing the command line itself is the standard library's
  and the flags are an input; so are whether etcd's client could be made, whether the renewals of the
  lease could be started, and the first value of \<^verbatim>\<open>WatchMembers\<close>, which is \<open>None\<close> when it did not come in
  time.  What runs after that is modelled in \<open>Membership\<close>, \<open>Loops\<close> and the theories of the gateway.
\<close>

section \<open>Reading the scheme\<close>

text \<open>
  \<^verbatim>\<open>fmt.Sscanf(s, "%d+%d", ...)\<close>.  A number may follow white space, which is Unicode's and does not include
  the newline; it takes a sign and as many digits as there are, and must fit an \<^verbatim>\<open>int\<close>.  The plus sign has
  to follow at once, and what is left after the second number is not looked at.
\<close>

definition wide_spaces :: "string list" where
  "wide_spaces = map (map char_of) ([[0xC2, 0x85], [0xC2, 0xA0], [0xE1, 0x9A, 0x80]] @
     map (\<lambda>b. [0xE2, 0x80, b]) ([0x80..<0x8B] @ [0xA8, 0xA9, 0xAF]) @ [[0xE2, 0x81, 0x9F], [0xE3, 0x80, 0x80 :: nat]])"

definition space_width :: "string \<Rightarrow> nat" where
  "space_width s = (case s of
      [] \<Rightarrow> 0
    | c # _ \<Rightarrow>
        if c \<in> set [CHR 0x09, CHR 0x0B, CHR 0x0C, CHR 0x0D, CHR '' ''] then 1
        else (case filter (HasPrefix s) wide_spaces of [] \<Rightarrow> 0 | p # _ \<Rightarrow> length p))"

text \<open>\<^verbatim>\<open>SkipSpace\<close>: what follows the spaces, or nothing when a newline stands there.\<close>

function SkipSpace :: "string \<Rightarrow> string option" where
  "SkipSpace s =
     (if HasPrefix s [CHR 0x0A] then None
      else if space_width s = 0 \<or> s = [] then Some s
      else SkipSpace (drop (space_width s) s))"
  by pat_completeness auto
termination by (relation "measure length") auto

declare SkipSpace.simps [simp del]

definition scanInt :: "string \<Rightarrow> (int \<times> string) option" where
  "scanInt s = (case SkipSpace s of
      None \<Rightarrow> None
    | Some r \<Rightarrow>
        (let sign = (if HasPrefix r ''+'' \<or> HasPrefix r ''-'' then take 1 r else '''');
             rest = drop (length sign) r; ds = takeWhile is_digit rest
         in if ds = '''' then None
            else map_option (\<lambda>n. (n, drop (length ds) rest)) (ParseInt 10 (sign @ ds))))"

definition parseScheme :: "string \<Rightarrow> error + scheme" where
  "parseScheme s =
     (if s = '''' then Inr zero_scheme
      else case scanInt s of
        Some (d, r) \<Rightarrow>
          (case CutPrefix r ''+'' of
             Some r' \<Rightarrow>
               (case scanInt r' of
                  Some (p, _) \<Rightarrow> Inr \<lparr>sc_Data = d, sc_Parity = p\<rparr>
                | None \<Rightarrow> Inl [Other ''erasure code is not in data+parity form''])
           | None \<Rightarrow> Inl [Other ''erasure code is not in data+parity form''])
      | None \<Rightarrow> Inl [Other ''erasure code is not in data+parity form''])"

definition scheme_String :: "scheme \<Rightarrow> string" where
  "scheme_String s = fmt_int (sc_Data s) @ ''+'' @ fmt_int (sc_Parity s)"

section \<open>The address peers dial\<close>

text \<open>
  \<^verbatim>\<open>net.SplitHostPort\<close>: the port follows the last colon; a host in brackets may contain colons, any other
  may not, and there are no brackets elsewhere.
\<close>

definition SplitHostPort :: "string \<Rightarrow> (string \<times> string) option" where
  "SplitHostPort hostport =
     (if CHR '':'' \<notin> set hostport then None
      else
        (let port = rev (takeWhile (\<lambda>c. c \<noteq> CHR '':'') (rev hostport));
             before = take (length hostport - length port - 1) hostport
         in if HasPrefix hostport ''[''
            then (if HasSuffix before '']'' \<and> CHR '']'' \<notin> set (butlast before)
                    \<and> CHR ''['' \<notin> set (drop 1 hostport) \<and> CHR '']'' \<notin> set port
                  then Some (drop 1 (butlast before), port) else None)
            else (if CHR '':'' \<notin> set before \<and> CHR ''['' \<notin> set hostport \<and> CHR '']'' \<notin> set hostport
                  then Some (before, port) else None)))"

section \<open>Starting\<close>

record flags =
  fg_id :: string
  fg_addr :: string
  fg_s3 :: string
  fg_accessKey :: string
  fg_secretKey :: string
  fg_advertise :: string
  fg_chunkSize :: int
  fg_quorum :: int
  fg_etcd :: string
  fg_prefix :: string
  fg_leaseTTL :: int
  fg_erasure :: string

definition DefaultEndpoint :: string where
  "DefaultEndpoint = ''127.0.0.1:2379''"

definition EndpointFromEnv :: "string \<Rightarrow> string" where
  "EndpointFromEnv kavo_etcd = cmp_Or kavo_etcd DefaultEndpoint"

text \<open>\<^verbatim>\<open>meta.Open\<close> does not wait for etcd; making the client is its only error.\<close>

definition meta_Open :: "(string list \<Rightarrow> error option) \<Rightarrow> string list \<Rightarrow> string \<Rightarrow> error + meta" where
  "meta_Open dial endpoints pre = (case dial endpoints of
      Some e \<Rightarrow> Inl (Other ''meta: connect to etcd'' # e)
    | None \<Rightarrow> Inr \<lparr>mt_prefix = pre\<rparr>)"

definition configure :: "flags \<Rightarrow> string \<Rightarrow> meta \<Rightarrow> error + coord" where
  "configure fg self M =
     (let c = cluster_New (fg_id fg) self M (fg_chunkSize fg) in
      case parseScheme (fg_erasure fg) of
        Inl e \<Rightarrow> Inl e
      | Inr sc \<Rightarrow>
          (case EncodeWith c sc of
             (c1, Some e) \<Rightarrow> Inl e
           | (c1, None) \<Rightarrow>
               (case AcknowledgeAt c1 (fg_quorum fg) of
                  (c2, Some e) \<Rightarrow> Inl e
                | (c2, None) \<Rightarrow> Inr c2)))"

definition kavod_start ::
  "flags \<Rightarrow> (string list \<Rightarrow> error option) \<Rightarrow> faults \<Rightarrow> store \<Rightarrow> 's etcd \<Rightarrow> 's \<Rightarrow> error option \<Rightarrow>
    (string \<times> string) list option \<Rightarrow> store \<times> 's \<times> (error + coord)" where
  "kavod_start fg dial F disk E s ka first =
     (let self = cmp_Or (fg_advertise fg) (fg_addr fg) in
      if (case SplitHostPort self of None \<Rightarrow> True | Some (host, port) \<Rightarrow> host = '''')
      then (disk, s, Inl [Other ''advertise address has no host''])
      else case store_Open F disk of
        (disk1, Inl e) \<Rightarrow> (disk1, s, Inl e)
      | (disk1, Inr u) \<Rightarrow>
          (case meta_Open dial (Split (CHR '','') (fg_etcd fg)) (fg_prefix fg) of
             Inl e \<Rightarrow> (disk1, s, Inl e)
           | Inr M \<Rightarrow>
               (case configure fg self M of
                  Inl e \<Rightarrow> (disk1, s, Inl e)
                | Inr c \<Rightarrow>
                    (case Join E M s (fg_id fg) self (fg_leaseTTL fg) ka of
                       (s1, Some e) \<Rightarrow> (disk1, s1, Inl e)
                     | (s1, None) \<Rightarrow>
                         (case first of
                            None \<Rightarrow> (disk1, s1, Inl [Other ''no membership from etcd''])
                          | Some peers \<Rightarrow> (disk1, s1, Inr (SetMembers c peers)))))))"

section \<open>What the scheme flag means\<close>

lemma base_value_fmt_d: "base_value 10 0 (fmt_d n) = Some n"
proof (induction n rule: fmt_d.induct)
  case (1 n)
  then show ?case by (cases "n < 10") (simp_all add: fmt_d.simps[of n] base_value_append)
qed

lemma fmt_d_Cons: obtains c cs where "fmt_d n = c # cs" "is_digit c"
  using fmt_d_digits[of n] by (cases "fmt_d n") auto

lemma digit_not_sign: "is_digit c \<Longrightarrow> c \<noteq> CHR ''+'' \<and> c \<noteq> CHR ''-''"
  by (auto simp: is_digit_def less_eq_char_def)

lemma fmt_int_shape:
  obtains ds where "fmt_int n = (if n < 0 then ''-'' else '''') @ ds" "ds \<noteq> []" "\<forall>c \<in> set ds. is_digit c"
    "base_value 10 0 ds = Some (nat \<bar>n\<bar>)"
proof (rule that[of "fmt_d (nat \<bar>n\<bar>)"])
  show "fmt_int n = (if n < 0 then ''-'' else '''') @ fmt_d (nat \<bar>n\<bar>)" by (simp add: fmt_int_def)
qed (simp_all add: fmt_d_digits base_value_fmt_d)

lemma no_wide_space: "of_char c < (128 :: nat) \<Longrightarrow> filter (HasPrefix (c # s)) wide_spaces = []"
proof -
  assume c: "of_char c < (128 :: nat)"
  have w: "\<forall>p \<in> set wide_spaces. p \<noteq> [] \<and> (128 :: nat) \<le> of_char (hd p)" by code_simp
  have "\<not> HasPrefix (c # s) p" if "p \<in> set wide_spaces" for p
    using bspec[OF w that] c by (cases p) (auto simp: HasPrefix_prefix)
  then show ?thesis by (simp add: filter_empty_conv)
qed

lemma SkipSpace_number:
  assumes "is_digit c \<or> c = CHR ''-'' \<or> c = CHR ''+''"
  shows "SkipSpace (c # s) = Some (c # s)"
proof -
  have c: "(43 :: nat) \<le> of_char c" "of_char c < (58 :: nat)"
    using assms by (auto simp: is_digit_def less_eq_char_def)
  then have "space_width (c # s) = 0"
    using no_wide_space[of c s] by (auto simp: space_width_def)
  moreover have "\<not> HasPrefix (c # s) [CHR 0x0A]" using c by (auto simp: HasPrefix_def)
  ultimately show ?thesis by (subst SkipSpace.simps) simp
qed

lemma scanInt_fmt:
  assumes "in_i64 n" "rest = [] \<or> \<not> is_digit (hd rest)"
  shows "scanInt (fmt_int n @ rest) = Some (n, rest)"
proof -
  obtain ds where ds: "fmt_int n = (if n < 0 then ''-'' else '''') @ ds" "ds \<noteq> []" "\<forall>c \<in> set ds. is_digit c"
    "base_value 10 0 ds = Some (nat \<bar>n\<bar>)"
    by (rule fmt_int_shape)
  obtain c cs where c: "ds = c # cs" "is_digit c" using ds(2,3) by (cases ds) auto
  have skip: "SkipSpace (fmt_int n @ rest) = Some (fmt_int n @ rest)"
    using SkipSpace_number[of c] SkipSpace_number[of "CHR ''-''"] c ds(1) by simp
  have tw: "takeWhile is_digit (ds @ rest) = ds"
    using ds(3) assms(2) by (cases rest) (auto simp: takeWhile_append2)
  note ns = digit_not_sign[OF c(2)]
  have "in_i64 (- int (nat (- n)))" if "n < 0" using that assms(1) by simp
  then show ?thesis using ds(4) assms(1) tw ns c(1) skip
    by (cases "n < 0") (auto simp: scanInt_def ds(1) Let_def HasPrefix_def ParseInt_def)
qed

text \<open>
  C32. The scheme flag is read as it is printed, and what follows it is ignored.  Printing a scheme and
  reading it gives the scheme back, whatever its numbers, and so does the same text with anything after
  it that does not go on with the second number: \<^verbatim>\<open>6+3x\<close>, \<^verbatim>\<open>6+3+1\<close> and \<^verbatim>\<open>6+3.5\<close> are all taken for \<^verbatim>\<open>6+3\<close>.
\<close>

theorem parseScheme_String:
  assumes "in_i64 (sc_Data s)" and "in_i64 (sc_Parity s)" and "rest = [] \<or> \<not> is_digit (hd rest)"
  shows "parseScheme (scheme_String s @ rest) = Inr s"
proof -
  have "scheme_String s \<noteq> ''''" by (simp add: scheme_String_def)
  moreover have "scanInt (scheme_String s @ rest) = Some (sc_Data s, ''+'' @ fmt_int (sc_Parity s) @ rest)"
    using scanInt_fmt[OF assms(1), of "''+'' @ fmt_int (sc_Parity s) @ rest"]
    by (simp add: scheme_String_def is_digit_def less_eq_char_def)
  moreover have "CutPrefix (''+'' @ fmt_int (sc_Parity s) @ rest) ''+'' = Some (fmt_int (sc_Parity s) @ rest)"
    by (simp add: CutPrefix_def HasPrefix_def)
  ultimately show ?thesis using scanInt_fmt[OF assms(2,3)] by (simp add: parseScheme_def)
qed

theorem parseScheme_String_witness: "parseScheme ''6+3.5'' = Inr \<lparr>sc_Data = 6, sc_Parity = 3\<rparr>"
proof -
  let ?s = "\<lparr>sc_Data = 6, sc_Parity = 3\<rparr>"
  have "parseScheme (scheme_String ?s @ ''.5'') = Inr ?s"
    by (rule parseScheme_String) (simp_all add: in_i64_def is_digit_def less_eq_char_def)
  moreover have "scheme_String ?s = ''6+3''" by code_simp
  ultimately show ?thesis by simp
qed

section \<open>What a start promises\<close>

lemma configure_ok:
  assumes "configure fg self M = Inr c"
  shows "coord_wf c" "c_self c = fg_id fg" "c_addr c = self" "c_meta c = M" "c_chunkSize c = fg_chunkSize fg"
    "c_quorum c = fg_quorum fg" "parseScheme (fg_erasure fg) = Inr (c_scheme c)" "c_scheme c = zero_scheme \<or> Valid (c_scheme c)"
proof -
  let ?c = "cluster_New (fg_id fg) self M (fg_chunkSize fg)"
  have wf: "coord_wf ?c" unfolding cluster_New_def by (rule SetMembers_wf) (simp_all add: DefaultWriteQuorum_def Replicas_def)
  obtain sc where sc: "parseScheme (fg_erasure fg) = Inr sc" "sc = zero_scheme \<or> Valid sc"
    and q: "1 \<le> fg_quorum fg" "fg_quorum fg \<le> Replicas" and c: "c = ?c\<lparr>c_scheme := sc, c_quorum := fg_quorum fg\<rparr>"
    using assms by (auto simp: configure_def Let_def EncodeWith_def AcknowledgeAt_def split: sum.splits if_splits)
  show "coord_wf c" using wf q c sc(2) by (simp add: coord_wf_def)
  show "c_self c = fg_id fg" "c_addr c = self" "c_meta c = M" "c_chunkSize c = fg_chunkSize fg" "c_quorum c = fg_quorum fg"
    "parseScheme (fg_erasure fg) = Inr (c_scheme c)" "c_scheme c = zero_scheme \<or> Valid (c_scheme c)"
    using c sc by (simp_all add: cluster_New_def SetMembers_def Let_def)
qed

lemma kavod_start_cases:
  assumes "kavod_start fg dial F disk E s ka first = (disk', s', Inr c)"
  obtains host port c0 peers where "SplitHostPort (cmp_Or (fg_advertise fg) (fg_addr fg)) = Some (host, port)" "host \<noteq> ''''"
    "configure fg (cmp_Or (fg_advertise fg) (fg_addr fg)) \<lparr>mt_prefix = fg_prefix fg\<rparr> = Inr c0"
    "Join E \<lparr>mt_prefix = fg_prefix fg\<rparr> s (fg_id fg) (cmp_Or (fg_advertise fg) (fg_addr fg)) (fg_leaseTTL fg) ka = (s', None)"
    "first = Some peers" "c = SetMembers c0 peers"
  using assms
  by (auto simp: kavod_start_def Let_def meta_Open_def split: option.splits prod.splits sum.splits if_splits)


text \<open>
  A node that cannot be used does not register.  An address without a host, a scheme that cannot be
  read or is not usable, a write quorum outside 1 to 3, an empty id or one with a slash, and a lease
  under a second each end the process, with nothing written to etcd.
\<close>

theorem start_refuses:
  assumes "(\<forall>host port. SplitHostPort (cmp_Or (fg_advertise fg) (fg_addr fg)) = Some (host, port) \<longrightarrow> host = '''') \<or>
    (\<forall>sc. parseScheme (fg_erasure fg) = Inr sc \<longrightarrow> sc \<noteq> zero_scheme \<and> \<not> Valid sc) \<or>
    fg_quorum fg < 1 \<or> 3 < fg_quorum fg \<or> fg_id fg = '''' \<or> CHR ''/'' \<in> set (fg_id fg) \<or> fg_leaseTTL fg < Second"
  shows "\<exists>disk' e. kavod_start fg dial F disk E s ka first = (disk', s, Inl e)"
proof -
  let ?self = "cmp_Or (fg_advertise fg) (fg_addr fg)" and ?M = "\<lparr>mt_prefix = fg_prefix fg\<rparr>"
  have "SplitHostPort ?self = Some (host, port) \<Longrightarrow> host \<noteq> '''' \<Longrightarrow> configure fg ?self ?M = Inr c \<Longrightarrow>
      \<exists>e. Join E ?M s (fg_id fg) ?self (fg_leaseTTL fg) ka = (s, Some e)" for host port c
    using assms configure_ok[of fg ?self ?M c] by (auto simp: Join_def coord_wf_def Replicas_def)
  then show ?thesis
    by (fastforce simp: kavod_start_def Let_def meta_Open_def split: option.splits prod.splits sum.splits)
qed

section \<open>A node that starts\<close>

definition example_flags :: flags where
  "example_flags = \<lparr>fg_id = ''n1'', fg_addr = ''h:1'', fg_s3 = '':9000'', fg_accessKey = ''k'', fg_secretKey = ''s'',
     fg_advertise = '''', fg_chunkSize = 2, fg_quorum = 2, fg_etcd = '''', fg_prefix = ''kavo'', fg_leaseTTL = 5000000000,
     fg_erasure = ''''\<rparr>"

lemma example_start:
  "\<exists>disk' s' c. kavod_start example_flags (\<lambda>_. None) no_faults fresh_store mem_etcd empty_kvs None (Some [(''n2'', ''a2'')]) = (disk', s', Inr c)"
proof -
  obtain d where "store_Open no_faults fresh_store = (d, Inr ())" by (simp add: store_Open_def no_faults_def)
  moreover have "SplitHostPort (cmp_Or (fg_advertise example_flags) (fg_addr example_flags)) = Some (''h'', ''1'')" by code_simp
  ultimately show ?thesis
    by (simp add: kavod_start_def Let_def meta_Open_def configure_def parseScheme_def EncodeWith_def AcknowledgeAt_def Replicas_def
        Join_def register_def et_unit_def mem_etcd_def example_flags_def Second_def)
qed


theorem start_refuses_witness:
  "\<exists>disk' e. kavod_start (example_flags\<lparr>fg_quorum := 4\<rparr>) (\<lambda>_. None) no_faults fresh_store mem_etcd empty_kvs None None = (disk', empty_kvs, Inl e)"
  by (rule start_refuses) simp

end
